(* ===== verification/Go_Prelude.thy ===== *)
theory Go_Prelude
  imports Main "HOL-Library.Word"
begin

unbundle bit_operations_syntax

text \<open>
  Shared vocabulary of the development. Go's fixed-width integers are words, a byte slice is a
  list of bytes, a map from keys to values is an HOL map, and an operation that returns an error
  beside its result is a function into a sum whose left side is the error. Slice and array
  accesses that the source does not guard go through \<open>idx\<close>, whose left value stands for the
  run-time panic, so that no model definition reads an unspecified list element.
\<close>

type_synonym byte = "8 word"
type_synonym bytes = "8 word list"
type_synonym u32 = "32 word"
type_synonym u64 = "64 word"

named_theorems go_simps "equations that unfold the shared Go vocabulary"

subsection \<open>Guarded element access\<close>

definition idx :: "'e \<Rightarrow> 'a list \<Rightarrow> nat \<Rightarrow> 'e + 'a" where
  "idx panic xs i = (if i < length xs then Inr (xs ! i) else Inl panic)"

lemma idx_Inr_iff [go_simps]: "idx p xs i = Inr x \<longleftrightarrow> i < length xs \<and> xs ! i = x"
  by (auto simp: idx_def)

lemma idx_in_range [simp]: "i < length xs \<Longrightarrow> idx p xs i = Inr (xs ! i)"
  by (simp add: idx_def)

subsection \<open>Common prefixes\<close>

text \<open>\<open>prefixLen\<close> of \<open>trie/node.go\<close>: the length of the longest common prefix.\<close>

fun prefixLen :: "'a list \<Rightarrow> 'a list \<Rightarrow> nat" where
  "prefixLen (x # xs) (y # ys) = (if x = y then Suc (prefixLen xs ys) else 0)"
| "prefixLen _ _ = 0"

lemma prefixLen_le: "prefixLen xs ys \<le> length xs" "prefixLen xs ys \<le> length ys"
  by (induction xs ys rule: prefixLen.induct) auto

lemma take_prefixLen: "take (prefixLen xs ys) xs = take (prefixLen xs ys) ys"
  by (induction xs ys rule: prefixLen.induct) auto

lemma prefixLen_differ:
  "prefixLen xs ys < length xs \<Longrightarrow> prefixLen xs ys < length ys \<Longrightarrow>
   xs ! prefixLen xs ys \<noteq> ys ! prefixLen xs ys"
  by (induction xs ys rule: prefixLen.induct) auto

lemma prefixLen_commute: "prefixLen xs ys = prefixLen ys xs"
  by (induction xs ys rule: prefixLen.induct) auto

lemma prefixLen_append [simp]: "prefixLen (xs @ ys) (xs @ zs) = length xs + prefixLen ys zs"
  by (induction xs) auto

lemma prefixLen_eq_length:
  "prefixLen xs ys = length ys \<longleftrightarrow> take (length ys) xs = ys"
  by (induction xs ys rule: prefixLen.induct) auto

lemma prefixLen_split:
  assumes "prefixLen xs ys < length xs" "prefixLen xs ys < length ys"
  obtains ps x xs' y ys' where "xs = ps @ x # xs'" "ys = ps @ y # ys'" "x \<noteq> y"
    "prefixLen xs ys = length ps"
proof -
  let ?n = "prefixLen xs ys"
  have "xs = take ?n xs @ xs ! ?n # drop (Suc ?n) xs"
    using assms(1) by (simp add: id_take_nth_drop)
  moreover have "ys = take ?n xs @ ys ! ?n # drop (Suc ?n) ys"
    by (metis assms(2) id_take_nth_drop take_prefixLen)
  moreover have "xs ! ?n \<noteq> ys ! ?n" using assms by (rule prefixLen_differ)
  moreover have "?n = length (take ?n xs)" using assms(1) by simp
  ultimately show thesis by (rule that)
qed

subsection \<open>Removing a prefix\<close>

fun strip :: "'a list \<Rightarrow> 'a list \<Rightarrow> 'a list option" where
  "strip [] ys = Some ys"
| "strip (x # xs) (y # ys) = (if x = y then strip xs ys else None)"
| "strip (x # xs) [] = None"

lemma strip_append: "strip (xs @ ys) zs = Option.bind (strip xs zs) (strip ys)"
  by (induction xs zs rule: strip.induct) auto

lemma strip_Some_iff: "strip xs ys = Some zs \<longleftrightarrow> ys = xs @ zs"
  by (induction xs ys rule: strip.induct) auto

lemma strip_append_same [simp]: "strip xs (xs @ ys) = Some ys"
  by (simp add: strip_Some_iff)

lemma strip_take_drop:
  "(if take (length xs) ys = xs then f (drop (length xs) ys) else None) = Option.bind (strip xs ys) f"
proof (cases "strip xs ys")
  case None
  then have "take (length xs) ys \<noteq> xs"
    by (metis append_take_drop_id option.distinct(1) strip_append_same)
  with None show ?thesis by simp
qed (simp add: strip_Some_iff)

subsection \<open>Sequencing\<close>

text \<open>\<open>if err != nil { return err }\<close> after a call that returns a new state and a result or an error.\<close>

definition andThen :: "'s \<times> ('e + 'a) \<Rightarrow> ('s \<Rightarrow> 'a \<Rightarrow> 's \<times> ('e + 'b)) \<Rightarrow> 's \<times> ('e + 'b)" where
  "andThen r f = (case r of (s, Inl e) \<Rightarrow> (s, Inl e) | (s, Inr a) \<Rightarrow> f s a)"

lemma andThen_simps [simp]: "andThen (s, Inl e) f = (s, Inl e)" "andThen (s, Inr a) f = f s a"
  by (simp_all add: andThen_def)

end
