(* ===== verification/Trie_Keys.thy ===== *)
theory Trie_Keys
  imports Go_Prelude
begin

unbundle bit_operations_syntax

text \<open>
  Trie keys: \<open>keyBytesToHex\<close> of \<open>trie/node.go\<close> turns the bytes of a key into nibbles, last byte
  first, and ends them with the terminator 16; \<open>hexToTrieKeyBytes\<close> and the key builder of
  \<open>trie/keyBuilder/keyBuilder.go\<close> turn them back. The terminator makes the set of nibble keys
  prefix-free, which is what the trie's insertion relies on.
\<close>

definition hexTerminator :: byte where "hexTerminator = 16"
definition nibbleMask :: byte where "nibbleMask = 0x0f"
definition NibbleSize :: nat where "NibbleSize = 4"
definition nrOfChildren :: nat where "nrOfChildren = 17"

text \<open>The loop of \<open>keyBytesToHex\<close> fills the slice from its end; \<open>acc\<close> is the part already filled.\<close>

fun keyBytesToHex_loop :: "bytes \<Rightarrow> bytes \<Rightarrow> bytes" where
  "keyBytesToHex_loop [] acc = acc"
| "keyBytesToHex_loop (b # str) acc =
     keyBytesToHex_loop str ((b AND nibbleMask) # drop_bit NibbleSize b # acc)"

definition keyBytesToHex :: "bytes \<Rightarrow> bytes" where
  "keyBytesToHex str = keyBytesToHex_loop str [hexTerminator]"

datatype key_error = ErrInvalidLength | KeyPanic

fun hexToTrieKeyBytes_loop :: "bytes \<Rightarrow> bytes \<Rightarrow> bytes" where
  "hexToTrieKeyBytes_loop (lo # hi # hex) key =
     hexToTrieKeyBytes_loop hex ((push_bit NibbleSize hi OR lo) # key)"
| "hexToTrieKeyBytes_loop _ key = key"

definition hexToTrieKeyBytes :: "bytes \<Rightarrow> key_error + bytes" where
  "hexToTrieKeyBytes hex =
     (if hex = [] then Inl KeyPanic
      else let hex' = take (length hex - 1) hex in
        if length hex' mod 2 \<noteq> 0 then Inl ErrInvalidLength
        else Inr (hexToTrieKeyBytes_loop hex' []))"

text \<open>The key builder is the slice it has collected.\<close>

definition BuildKey :: "bytes \<Rightarrow> bytes \<Rightarrow> bytes" where
  "BuildKey kb keyPart = kb @ keyPart"

definition GetKey :: "bytes \<Rightarrow> key_error + bytes" where
  "GetKey kb = hexToTrieKeyBytes kb"

subsection \<open>Round trip and shape of nibble keys\<close>

definition nibbles :: "byte \<Rightarrow> bytes" where
  "nibbles b = [b AND nibbleMask, drop_bit NibbleSize b]"

lemma keyBytesToHex_loop_append: "keyBytesToHex_loop str acc = concat (map nibbles (rev str)) @ acc"
  by (induction str arbitrary: acc) (simp_all add: nibbles_def)

lemma keyBytesToHex_concat: "keyBytesToHex str = concat (map nibbles (rev str)) @ [hexTerminator]"
  by (simp add: keyBytesToHex_def keyBytesToHex_loop_append)

lemma join_nibbles: "push_bit NibbleSize (drop_bit NibbleSize b) OR (b AND nibbleMask) = (b :: byte)"
proof -
  have "(b AND nibbleMask) = b AND mask 4" by (simp add: nibbleMask_def mask_eq_exp_minus_1)
  then show ?thesis by (auto simp: NibbleSize_def bit_simps intro!: bit_word_eqI)
qed

lemma hexToTrieKeyBytes_loop_concat:
  "hexToTrieKeyBytes_loop (concat (map nibbles bs)) key = rev bs @ key"
  by (induction bs arbitrary: key) (simp_all add: nibbles_def join_nibbles)

lemma length_concat_nibbles: "length (concat (map nibbles bs)) = 2 * length bs"
  by (induction bs) (simp_all add: nibbles_def)

lemma hexToTrieKeyBytes_keyBytesToHex: "hexToTrieKeyBytes (keyBytesToHex str) = Inr str"
  using length_concat_nibbles [of "rev str"]
  by (simp add: hexToTrieKeyBytes_def keyBytesToHex_concat hexToTrieKeyBytes_loop_concat Let_def)

lemma keyBytesToHex_inj: "keyBytesToHex a = keyBytesToHex b \<longleftrightarrow> a = b"
  by (metis hexToTrieKeyBytes_keyBytesToHex Inr_inject)

lemma length_keyBytesToHex: "length (keyBytesToHex str) = 2 * length str + 1"
  using length_concat_nibbles [of "rev str"] by (simp add: keyBytesToHex_concat)

text \<open>A hex key: nibbles below 16, then the terminator. Suffixes of hex keys are hex keys again.\<close>

fun hex_key :: "bytes \<Rightarrow> bool" where
  "hex_key [] = False"
| "hex_key [b] = (b = hexTerminator)"
| "hex_key (b # bs) = (b < 16 \<and> hex_key bs)"

lemma hex_key_Cons: "hex_key (b # bs) = (if bs = [] then b = hexTerminator else b < 16 \<and> hex_key bs)"
  by (cases bs) simp_all

lemma hex_key_append: "bs \<noteq> [] \<Longrightarrow> hex_key (as @ bs) \<longleftrightarrow> (\<forall>b \<in> set as. b < 16) \<and> hex_key bs"
  by (induction as) (auto simp: hex_key_Cons)

lemma nibbles_small: "b \<in> set (nibbles x) \<Longrightarrow> b < 16"
proof -
  have "x AND 0x0f < (16 :: byte)"
    using word_and_le1 [of x "0x0f"] by (rule le_less_trans) simp
  moreover have "unat x < 2 ^ LENGTH(8)" by (rule unsigned_less)
  then have "unat (drop_bit 4 x) < 16" by (simp add: unat_drop_bit_eq) (simp add: drop_bit_eq_div)
  moreover assume "b \<in> set (nibbles x)"
  ultimately show ?thesis
    by (auto simp: nibbles_def nibbleMask_def NibbleSize_def word_less_nat_alt)
qed

lemma hex_key_keyBytesToHex: "hex_key (keyBytesToHex str)"
  by (auto simp: keyBytesToHex_concat hex_key_append nibbles_small)

lemma hex_key_prefix_free: "hex_key a \<Longrightarrow> hex_key (a @ b) \<Longrightarrow> b = []"
proof (induction a)
  case Nil
  then show ?case by simp
next
  case (Cons x a)
  then show ?case by (auto simp: hex_key_Cons hexTerminator_def split: if_splits)
qed

lemma hex_key_pos: "hex_key a \<Longrightarrow> b \<in> set a \<Longrightarrow> unat b < nrOfChildren"
  by (induction a rule: hex_key.induct)
    (auto simp: nrOfChildren_def hexTerminator_def word_less_nat_alt)

text \<open>Two different hex keys differ at a position both have.\<close>

lemma hex_key_prefixLen:
  assumes "hex_key a" "hex_key b" "a \<noteq> b"
  shows "prefixLen a b < length a" "prefixLen a b < length b"
proof -
  have *: "prefixLen x y < length x" if "hex_key x" "hex_key y" "x \<noteq> y" for x y
  proof (rule ccontr)
    assume "\<not> prefixLen x y < length x"
    then have "prefixLen y x = length x"
      using prefixLen_le(1) [of x y] by (simp add: prefixLen_commute)
    then have "y = x @ drop (length x) y"
      by (metis append_take_drop_id prefixLen_eq_length)
    with that hex_key_prefix_free [of x "drop (length x) y"] show False by auto
  qed
  from * [OF assms] * [OF assms(2,1)] assms(3) show
    "prefixLen a b < length a" "prefixLen a b < length b"
    by (auto simp: prefixLen_commute)
qed

text \<open>The key builder gives back the key bytes that \<open>keyBytesToHex\<close> turned into nibbles, whatever
  way the nibbles were cut into parts along the path, and no nibble key is a proper prefix of another.\<close>

theorem trie_key_roundtrip:
  "GetKey (foldl BuildKey [] parts) = (if concat parts = keyBytesToHex key then Inr key else GetKey (concat parts)) \<and>
   (take (length (keyBytesToHex key)) (keyBytesToHex key') = keyBytesToHex key \<longleftrightarrow> key' = key)"
proof -
  have "foldl BuildKey acc parts = acc @ concat parts" for acc
    by (induction parts arbitrary: acc) (simp_all add: BuildKey_def)
  moreover have "key' = key" if pre: "take (length (keyBytesToHex key)) (keyBytesToHex key') = keyBytesToHex key"
  proof -
    obtain r where r: "keyBytesToHex key' = keyBytesToHex key @ r" using pre by (metis append_take_drop_id)
    then have "r = []" using hex_key_prefix_free [of "keyBytesToHex key" r] hex_key_keyBytesToHex by metis
    with r show ?thesis by (simp add: keyBytesToHex_inj)
  qed
  ultimately show ?thesis by (auto simp: GetKey_def hexToTrieKeyBytes_keyBytesToHex)
qed

end
