(* ===== verification/Map_Interface.thy ===== *)
theory Map_Interface
  imports "HOL-Library.Multiset"
begin

text \<open>
  The contract of a key-value store as the trie's clients use it, stated once as a locale: what a
  lookup returns after an update and after a deletion, for keys and values the store accepts. The
  entry an update leaves may depend on the entry it finds (\<open>put\<close>). \<open>canonical_map\<close> adds that two
  stores with the same content are equal, from which follows that the order of operations on
  different keys leaves no trace in the store.
\<close>

locale kv_map =
  fixes invar :: "'s \<Rightarrow> bool"
    and valid_key :: "'k \<Rightarrow> bool"
    and valid_val :: "'v \<Rightarrow> bool"
    and put :: "'e option \<Rightarrow> 'v \<Rightarrow> 'e"
    and lookup :: "'s \<Rightarrow> 'k \<Rightarrow> 'e option"
    and update :: "'s \<Rightarrow> 'k \<Rightarrow> 'v \<Rightarrow> 's"
    and delete :: "'s \<Rightarrow> 'k \<Rightarrow> 's"
  assumes invar_update: "invar s \<Longrightarrow> valid_key k \<Longrightarrow> valid_val v \<Longrightarrow> invar (update s k v)"
    and invar_delete: "invar s \<Longrightarrow> valid_key k \<Longrightarrow> invar (delete s k)"
    and lookup_update: "invar s \<Longrightarrow> valid_key k \<Longrightarrow> valid_val v \<Longrightarrow>
      lookup (update s k v) k' = (if k' = k then Some (put (lookup s k) v) else lookup s k')"
    and lookup_delete: "invar s \<Longrightarrow> valid_key k \<Longrightarrow>
      lookup (delete s k) k' = (if k' = k then None else lookup s k')"
begin

definition updates :: "'s \<Rightarrow> ('k \<times> 'v) list \<Rightarrow> 's" where
  "updates s kvs = foldl (\<lambda>s (k, v). update s k v) s kvs"

definition valid_batch :: "('k \<times> 'v) list \<Rightarrow> bool" where
  "valid_batch kvs \<longleftrightarrow> (\<forall>(k, v) \<in> set kvs. valid_key k \<and> valid_val v)"

lemma updates_simps:
  "updates s [] = s"
  "updates s ((k, v) # kvs) = updates (update s k v) kvs"
  by (simp_all add: updates_def)

lemma updates_append: "updates s (xs @ ys) = updates (updates s xs) ys"
  by (simp add: updates_def)

lemma invar_updates: "invar s \<Longrightarrow> valid_batch kvs \<Longrightarrow> invar (updates s kvs)"
  by (induction kvs arbitrary: s) (auto simp: updates_simps valid_batch_def invar_update)

text \<open>A batch changes only its own keys, and each of distinct keys gets the entry for its value.\<close>

lemma lookup_updates:
  assumes "invar s" "valid_batch kvs" "distinct (map fst kvs)"
  shows "lookup (updates s kvs) k =
    (case map_of kvs k of None \<Rightarrow> lookup s k | Some v \<Rightarrow> Some (put (lookup s k) v))"
  using assms
proof (induction kvs arbitrary: s)
  case (Cons kv kvs)
  obtain k1 v1 where kv: "kv = (k1, v1)" by (cases kv)
  with Cons.prems have ok: "valid_key k1" "valid_val v1" "valid_batch kvs" "k1 \<notin> fst ` set kvs"
    by (auto simp: valid_batch_def)
  then have "map_of kvs k1 = None" by (simp add: map_of_eq_None_iff)
  with Cons ok kv show ?case
    by (auto simp: updates_simps lookup_update invar_update split: option.split)
qed (simp add: updates_simps)

end

locale canonical_map = kv_map +
  assumes canonical: "invar s \<Longrightarrow> invar s' \<Longrightarrow> lookup s = lookup s' \<Longrightarrow> s = s'"
begin

lemma update_commute:
  assumes "invar s" "valid_key k" "valid_val v" "valid_key k'" "valid_val v'" "k \<noteq> k'"
  shows "update (update s k v) k' v' = update (update s k' v') k v"
  using assms by (intro canonical ext) (auto simp: invar_update lookup_update)

lemma delete_update:
  assumes "invar s" "valid_key k" "valid_val v"
  shows "delete (update s k v) k = delete s k"
  using assms by (intro canonical ext) (auto simp: invar_update invar_delete lookup_update lookup_delete)

lemma update_then_delete_absent:
  assumes "invar s" "valid_key k" "valid_val v" "lookup s k = None"
  shows "delete (update s k v) k = s"
  using assms by (intro canonical ext) (auto simp: invar_update invar_delete lookup_update lookup_delete)

lemma delete_commute:
  assumes "invar s" "valid_key k" "valid_key k'"
  shows "delete (delete s k) k' = delete (delete s k') k"
  using assms by (intro canonical ext) (auto simp: invar_delete lookup_delete)

lemma delete_update_commute:
  assumes "invar s" "valid_key k" "valid_key k'" "valid_val v'" "k \<noteq> k'"
  shows "delete (update s k' v') k = update (delete s k) k' v'"
  using assms by (intro canonical ext) (auto simp: invar_update invar_delete lookup_update lookup_delete)

lemma delete_absent:
  assumes "invar s" "valid_key k" "lookup s k = None"
  shows "delete s k = s"
  using assms by (intro canonical ext) (auto simp: invar_delete lookup_delete)

text \<open>The order of a batch of updates of distinct keys leaves no trace.\<close>

lemma updates_order:
  assumes "invar s" "valid_batch xs" "distinct (map fst xs)" "mset xs = mset ys"
  shows "updates s xs = updates s ys"
proof (rule canonical)
  have same: "set xs = set ys" "distinct (map fst ys)"
    using assms(3,4) by (metis mset_eq_setD, metis mset_eq_imp_distinct_iff mset_map)
  then have v: "valid_batch ys" using assms(2) by (simp add: valid_batch_def)
  show "invar (updates s xs)" "invar (updates s ys)" using assms v by (simp_all add: invar_updates)
  have "map_of xs = map_of ys" using same assms(3) by (simp add: map_of_inject_set)
  then show "lookup (updates s xs) = lookup (updates s ys)"
    using assms same v by (auto simp: lookup_updates fun_eq_iff)
qed

end

end
