(* ===== verification/Trie_Spec.thy ===== *)
theory Trie_Spec
  imports Trie_Keys Map_Interface
begin

text \<open>
  What a trie is, without hashes, storage or cached children: a tree of leaves, extensions and
  branches with a lookup function, an insertion and a deletion. \<open>pwf\<close> is the canonical form the
  code maintains (non-empty values, non-empty extension keys, a branch below every extension, at
  least two children in every branch, keys that end with the terminator). Insertion and deletion
  keep it and act on the lookup function as a map update and a map removal, and a canonical trie
  is determined by its lookup function.
\<close>

datatype ptrie =
    PLeaf bytes bytes byte
  | PExt bytes ptrie
  | PBranch "nat \<Rightarrow> ptrie option"

type_synonym entry = "bytes \<times> byte"

primrec plookup :: "ptrie \<Rightarrow> bytes \<Rightarrow> entry option" where
  "plookup (PLeaf k v w) = (\<lambda>key. if key = k then Some (v, w) else None)"
| "plookup (PExt k t) = (\<lambda>key.
     if take (length k) key = k then plookup t (drop (length k) key) else None)"
| "plookup (PBranch f) = (\<lambda>key. case key of
     [] \<Rightarrow> None
   | b # key' \<Rightarrow> (case map_option plookup (f (unat b)) of None \<Rightarrow> None | Some g \<Rightarrow> g key'))"

text \<open>An extension in front of a subtree, none if the key is empty.\<close>

definition pext :: "bytes \<Rightarrow> ptrie \<Rightarrow> ptrie" where
  "pext k t = (if k = [] then t else PExt k t)"

text \<open>A key put in front of a subtree, merged into the key the subtree starts with.\<close>

fun pmerge :: "bytes \<Rightarrow> ptrie \<Rightarrow> ptrie" where
  "pmerge k (PLeaf k' v w) = PLeaf (k @ k') v w"
| "pmerge k (PExt k' t) = PExt (k @ k') t"
| "pmerge k (PBranch f) = PExt k (PBranch f)"

text \<open>The branch at which two different keys part.\<close>

definition psplit :: "byte \<Rightarrow> ptrie \<Rightarrow> byte \<Rightarrow> ptrie \<Rightarrow> ptrie" where
  "psplit a t b u = PBranch (Map.empty(unat a \<mapsto> t, unat b \<mapsto> u))"

primrec pinsert :: "ptrie \<Rightarrow> bytes \<Rightarrow> bytes \<Rightarrow> byte \<Rightarrow> ptrie" where
  "pinsert (PLeaf k v w) = (\<lambda>key v' w'.
     if key = k then (if v = v' then PLeaf k v w else PLeaf k v' w')
     else let m = prefixLen key k in
       pext (take m k) (psplit (k ! m) (PLeaf (drop (Suc m) k) v w)
                               (key ! m) (PLeaf (drop (Suc m) key) v' w')))"
| "pinsert (PExt k t) = (\<lambda>key v' w'.
     let m = prefixLen key k in
     if m = length k then PExt k (pinsert t (drop m key) v' w')
     else pext (take m k) (psplit (k ! m) (pext (drop (Suc m) k) t)
                                  (key ! m) (PLeaf (drop (Suc m) key) v' w')))"
| "pinsert (PBranch f) = (\<lambda>key v' w'. case key of
     [] \<Rightarrow> PBranch f
   | b # key' \<Rightarrow> (case map_option pinsert (f (unat b)) of
       None \<Rightarrow> PBranch (f(unat b \<mapsto> PLeaf key' v' w'))
     | Some ins \<Rightarrow> PBranch (f(unat b \<mapsto> ins key' v' w'))))"

definition pchildren :: "(nat \<Rightarrow> ptrie option) \<Rightarrow> nat list" where
  "pchildren f = filter (\<lambda>i. f i \<noteq> None) [0..<nrOfChildren]"

definition pcollapse :: "(nat \<Rightarrow> ptrie option) \<Rightarrow> ptrie" where
  "pcollapse f = (case pchildren f of
     [i] \<Rightarrow> (case f i of None \<Rightarrow> PBranch f | Some t \<Rightarrow> pmerge [of_nat i] t)
   | _ \<Rightarrow> PBranch f)"

primrec pdelete :: "ptrie \<Rightarrow> bytes \<Rightarrow> ptrie option" where
  "pdelete (PLeaf k v w) = (\<lambda>key. if key = k then None else Some (PLeaf k v w))"
| "pdelete (PExt k t) = (\<lambda>key.
     if prefixLen key k < length k then Some (PExt k t)
     else map_option (pmerge k) (pdelete t (drop (length k) key)))"
| "pdelete (PBranch f) = (\<lambda>key. case key of
     [] \<Rightarrow> Some (PBranch f)
   | b # key' \<Rightarrow> (case map_option pdelete (f (unat b)) of
       None \<Rightarrow> Some (PBranch f)
     | Some del \<Rightarrow> Some (pcollapse (f(unat b := del key')))))"

subsection \<open>The canonical form\<close>

fun pterminal :: "ptrie \<Rightarrow> bool" where
  "pterminal (PLeaf k v w) = (k = [] \<and> v \<noteq> [])"
| "pterminal _ = False"

fun is_pbranch :: "ptrie \<Rightarrow> bool" where
  "is_pbranch (PBranch f) = True"
| "is_pbranch _ = False"

definition two_children :: "(nat \<Rightarrow> ptrie option) \<Rightarrow> bool" where
  "two_children f \<longleftrightarrow> (\<exists>i j. i \<noteq> j \<and> f i \<noteq> None \<and> f j \<noteq> None)"

primrec pwf :: "ptrie \<Rightarrow> bool" where
  "pwf (PLeaf k v w) \<longleftrightarrow> hex_key k \<and> v \<noteq> []"
| "pwf (PExt k t) \<longleftrightarrow> k \<noteq> [] \<and> (\<forall>b \<in> set k. b < 16) \<and> is_pbranch t \<and> pwf t"
| "pwf (PBranch f) \<longleftrightarrow>
     (\<forall>i. pred_option (\<lambda>(t, w). if i = 16 then pterminal t else i < 16 \<and> w)
        (map_option (\<lambda>t. (t, pwf t)) (f i))) \<and> two_children f"

definition pslot :: "nat \<Rightarrow> ptrie \<Rightarrow> bool" where
  "pslot i t \<longleftrightarrow> (if i = 16 then pterminal t else i < 16 \<and> pwf t)"

text \<open>The rest of a key below a branch position: empty after the terminator, a hex key otherwise.\<close>

definition slot_key :: "nat \<Rightarrow> bytes \<Rightarrow> bool" where
  "slot_key i key \<longleftrightarrow> (if i = 16 then key = [] else i < 16 \<and> hex_key key)"

lemma pwf_PBranch:
  "pwf (PBranch f) \<longleftrightarrow>
     (\<forall>i t. f i = Some t \<longrightarrow> pslot i t) \<and> two_children f"
proof -
  have "(pred_option (\<lambda>(t, w). if i = 16 then pterminal t else i < 16 \<and> w)
        (map_option (\<lambda>t. (t, pwf t)) (f i))) \<longleftrightarrow> (\<forall>t. f i = Some t \<longrightarrow> pslot i t)" for i
    by (cases "f i") (simp_all add: pslot_def)
  then show ?thesis by simp
qed

declare pwf.simps(3) [simp del]

lemma hex_key_slot: "hex_key (b # key) \<longleftrightarrow> slot_key (unat b) key"
proof -
  have "b = hexTerminator \<longleftrightarrow> unat b = 16"
    by (simp add: hexTerminator_def word_unat_eq_iff)
  moreover have "b < 16 \<longleftrightarrow> unat b < 16" by (simp add: word_less_nat_alt)
  ultimately show ?thesis by (cases key) (auto simp: slot_key_def hexTerminator_def)
qed

lemma plookup_PBranch_simps [simp]:
  "plookup (PBranch f) [] = None"
  "plookup (PBranch f) (b # key) = (case f (unat b) of None \<Rightarrow> None | Some t \<Rightarrow> plookup t key)"
  by (simp_all split: option.split)

lemma pinsert_PBranch_simps [simp]:
  "pinsert (PBranch f) (b # key) v w =
     PBranch (f(unat b \<mapsto> (case f (unat b) of None \<Rightarrow> PLeaf key v w | Some t \<Rightarrow> pinsert t key v w)))"
  by (simp split: option.split)

lemma pdelete_PBranch_simps [simp]:
  "pdelete (PBranch f) (b # key) = (case f (unat b) of
     None \<Rightarrow> Some (PBranch f)
   | Some t \<Rightarrow> Some (pcollapse (f(unat b := pdelete t key))))"
  by (simp split: option.split)

declare plookup.simps(3) [simp del] pinsert.simps(3) [simp del] pdelete.simps(3) [simp del]

lemma plookup_PExt [simp]: "plookup (PExt k t) key = Option.bind (strip k key) (plookup t)"
  using strip_take_drop [of k key "plookup t"] by simp

declare plookup.simps(2) [simp del]

lemma plookup_pext [simp]: "plookup (pext k t) key = Option.bind (strip k key) (plookup t)"
  by (simp add: pext_def)

lemma unat_byte_inj: "unat (a :: byte) = unat b \<longleftrightarrow> a = b"
  by (simp add: word_unat_eq_iff)

lemma plookup_psplit:
  "a \<noteq> b \<Longrightarrow> plookup (psplit a t b u) key = (case key of
     [] \<Rightarrow> None
   | c # key' \<Rightarrow> if c = a then plookup t key' else if c = b then plookup u key' else None)"
  by (auto simp: psplit_def unat_byte_inj split: list.split option.split)

text \<open>An extension key that is not a prefix of a hex key parts from it inside both.\<close>

lemma ext_key_split:
  assumes "hex_key key" "\<forall>b \<in> set k. b < (16 :: byte)" "prefixLen key k \<noteq> length k"
  shows "prefixLen key k < length k" "prefixLen key k < length key"
proof -
  show "prefixLen key k < length k" using assms(3) prefixLen_le(2) [of key k] by simp
  show "prefixLen key k < length key"
  proof (rule ccontr)
    assume "\<not> ?thesis"
    then have "prefixLen k key = length key" using prefixLen_le(1) [of key k] by (simp add: prefixLen_commute)
    then have "set key \<subseteq> set k" by (metis prefixLen_eq_length set_take_subset)
    moreover have "hexTerminator \<in> set key" using assms(1) by (induction key rule: hex_key.induct) auto
    ultimately show False using assms(2) by (auto simp: hexTerminator_def)
  qed
qed

lemma ext_key_rest:
  assumes "hex_key key" "\<forall>b \<in> set k. b < (16 :: byte)" "take (length k) key = k"
  shows "hex_key (drop (length k) key)"
proof -
  have eq: "key = k @ drop (length k) key" by (metis append_take_drop_id assms(3))
  have "drop (length k) key \<noteq> []"
  proof
    assume "drop (length k) key = []"
    with eq assms have "hex_key k" by simp
    then have "hexTerminator \<in> set k" by (induction k rule: hex_key.induct) auto
    with assms(2) show False by (auto simp: hexTerminator_def)
  qed
  with eq assms(1) show ?thesis by (metis hex_key_append)
qed

subsection \<open>Insertion\<close>

text \<open>What an insertion leaves at its key: an equal value keeps the old version.\<close>

definition pput :: "entry option \<Rightarrow> bytes \<Rightarrow> byte \<Rightarrow> entry" where
  "pput old v w = (case old of None \<Rightarrow> (v, w) | Some (v0, w0) \<Rightarrow> if v0 = v then (v0, w0) else (v, w))"

definition pok :: "ptrie \<Rightarrow> bytes \<Rightarrow> bool" where
  "pok t key \<longleftrightarrow> pwf t \<and> hex_key key \<or> pterminal t \<and> key = []"

lemma pok_slot: "pslot i t \<Longrightarrow> slot_key i key \<Longrightarrow> pok t key"
  by (auto simp: pslot_def slot_key_def pok_def split: if_splits)

lemma pterminal_cases: "pterminal t \<Longrightarrow> (\<And>v w. t = PLeaf [] v w \<Longrightarrow> v \<noteq> [] \<Longrightarrow> P) \<Longrightarrow> P"
  by (cases t) auto

lemma plookup_pinsert:
  assumes "pok t key"
  shows "plookup (pinsert t key v w) key' =
    (if key' = key then Some (pput (plookup t key) v w) else plookup t key')"
  using assms
proof (induction t arbitrary: key key')
  case (PLeaf k v0 w0)
  show ?case
  proof (cases "key = k")
    case True
    then show ?thesis by (simp add: pput_def)
  next
    case False
    with PLeaf have "hex_key k" "hex_key key" by (auto simp: pok_def)
    with False hex_key_prefixLen [of key k] obtain ps b key1 a k1 where
      "key = ps @ b # key1" "k = ps @ a # k1" "b \<noteq> a" "prefixLen key k = length ps"
      by (metis prefixLen_split)
    with False show ?thesis
      by (cases "strip ps key'")
        (auto simp: plookup_psplit pput_def Let_def strip_Some_iff split: list.splits)
  qed
next
  case (PExt k t)
  then have wf: "is_pbranch t" "pwf t" "\<forall>b \<in> set k. b < 16" "hex_key key" by (auto simp: pok_def)
  show ?case
  proof (cases "prefixLen key k = length k")
    case True
    then have pre: "take (length k) key = k" by (simp add: prefixLen_eq_length)
    then have "pok t (drop (length k) key)" using wf ext_key_rest [of key k] by (simp add: pok_def)
    moreover obtain r where "key = k @ r" using pre by (metis append_take_drop_id)
    ultimately show ?thesis using PExt.IH [of r] True
      by (cases "strip k key'") (auto simp: Let_def strip_Some_iff)
  next
    case False
    with wf ext_key_split [of key k] obtain ps b key1 a k1 where
      "key = ps @ b # key1" "k = ps @ a # k1" "b \<noteq> a" "prefixLen key k = length ps"
      by (metis prefixLen_split)
    then show ?thesis
      by (cases "strip ps key'")
        (auto simp: plookup_psplit pput_def Let_def strip_append strip_Some_iff split: list.splits)
  qed
next
  case (PBranch f)
  then have wf: "pwf (PBranch f)" "hex_key key" by (auto simp: pok_def)
  then obtain b key1 where key: "key = b # key1" by (cases key) auto
  have "plookup (pinsert t key1 v w) r =
      (if r = key1 then Some (pput (plookup t key1) v w) else plookup t r)" if "f (unat b) = Some t" for t r
    using that wf key PBranch.IH [of "Some t" t key1 r]
    by (metis hex_key_slot option.set_intros pok_slot pwf_PBranch rangeI)
  then show ?case
    by (cases key') (auto simp: key unat_byte_inj pput_def split: option.splits)
qed

lemma pslot_leaf: "slot_key i k \<Longrightarrow> v \<noteq> [] \<Longrightarrow> pslot i (PLeaf k v w)"
  by (auto simp: slot_key_def pslot_def split: if_splits)

lemma two_childrenI: "i \<noteq> j \<Longrightarrow> f i = Some t \<Longrightarrow> f j = Some u \<Longrightarrow> two_children f"
  unfolding two_children_def by blast

lemma two_children_upd: "two_children f \<Longrightarrow> two_children (f(i \<mapsto> t))"
  unfolding two_children_def by (metis fun_upd_apply option.distinct(1))

lemma pwf_psplit:
  "a \<noteq> b \<Longrightarrow> pslot (unat a) t \<Longrightarrow> pslot (unat b) u \<Longrightarrow> pwf (psplit a t b u)"
  by (auto simp: psplit_def pwf_PBranch unat_byte_inj split: if_splits
      intro!: two_childrenI [of "unat a" "unat b"])

lemma is_pbranch_psplit: "is_pbranch (psplit a t b u)"
  by (simp add: psplit_def)

lemma pwf_pext: "\<forall>b \<in> set k. b < 16 \<Longrightarrow> is_pbranch t \<Longrightarrow> pwf t \<Longrightarrow> pwf (pext k t)"
  by (simp add: pext_def)

lemma is_pbranch_pinsert: "is_pbranch t \<Longrightarrow> key \<noteq> [] \<Longrightarrow> is_pbranch (pinsert t key v w)"
  by (cases t; cases key) auto

lemma pslot_pinsert:
  assumes "pslot i t" "slot_key i key" "v \<noteq> []" "pwf t \<Longrightarrow> hex_key key \<Longrightarrow> pwf (pinsert t key v w)"
  shows "pslot i (pinsert t key v w)"
  using assms by (auto simp: pslot_def slot_key_def split: if_splits elim!: pterminal_cases)

lemma pwf_pinsert:
  assumes "pwf t" "hex_key key" "v \<noteq> []"
  shows "pwf (pinsert t key v w)"
  using assms(1,2)
proof (induction t arbitrary: key)
  case (PLeaf k v0 w0)
  show ?case
  proof (cases "key = k")
    case True
    with PLeaf assms(3) show ?thesis by simp
  next
    case False
    with PLeaf hex_key_prefixLen [of key k] obtain ps b key1 a k1 where
      k: "key = ps @ b # key1" "k = ps @ a # k1" "b \<noteq> a" "prefixLen key k = length ps"
      by (metis prefixLen_split pwf.simps(1))
    have "slot_key (unat b) key1" "slot_key (unat a) k1" "\<forall>c \<in> set ps. c < 16"
      using k PLeaf.prems by (auto simp: hex_key_append hex_key_slot)
    with k False PLeaf.prems assms(3) show ?thesis
      by (auto simp: Let_def intro!: pwf_pext pwf_psplit is_pbranch_psplit pslot_leaf)
  qed
next
  case (PExt k t)
  then have wf: "is_pbranch t" "pwf t" "\<forall>b \<in> set k. b < 16" "k \<noteq> []" by auto
  show ?case
  proof (cases "prefixLen key k = length k")
    case True
    then have "hex_key (drop (length k) key)"
      using ext_key_rest [of key k] PExt.prems wf by (simp add: prefixLen_eq_length)
    moreover from this have "drop (length k) key \<noteq> []" by auto
    ultimately show ?thesis
      using True wf PExt.IH by (simp add: Let_def is_pbranch_pinsert)
  next
    case False
    with wf PExt.prems ext_key_split [of key k] obtain ps b key1 a k1 where
      k: "key = ps @ b # key1" "k = ps @ a # k1" "b \<noteq> a" "prefixLen key k = length ps"
      by (metis prefixLen_split)
    have "slot_key (unat b) key1" "\<forall>c \<in> set ps. c < 16" "unat a < 16" "\<forall>c \<in> set k1. c < 16"
      using k PExt.prems wf by (auto simp: hex_key_append hex_key_slot word_less_nat_alt)
    with k wf assms(3) show ?thesis
      by (auto simp: Let_def pslot_def
          intro!: pwf_pext pwf_psplit is_pbranch_psplit pslot_leaf [unfolded pslot_def])
  qed
next
  case (PBranch f)
  then obtain b key1 where key: "key = b # key1" by (cases key) auto
  have sk: "slot_key (unat b) key1" using PBranch.prems key by (simp add: hex_key_slot)
  have "pslot (unat b) (pinsert t key1 v w)" if "f (unat b) = Some t" for t
    using that sk assms(3) PBranch.prems PBranch.IH [of "Some t" t key1]
    by (intro pslot_pinsert) (auto simp: pwf_PBranch intro: rangeI [of f "unat b", simplified that])
  with PBranch.prems sk assms(3) show ?case
    by (auto simp: key pwf_PBranch pslot_leaf two_children_upd split: option.splits if_splits)
qed

subsection \<open>Deletion\<close>

definition olookup :: "ptrie option \<Rightarrow> bytes \<Rightarrow> entry option" where
  "olookup to key = Option.bind to (\<lambda>t. plookup t key)"

lemma olookup_simps [simp]: "olookup None key = None" "olookup (Some t) key = plookup t key"
  by (simp_all add: olookup_def)

lemma plookup_PBranch_olookup: "plookup (PBranch f) (b # key) = olookup (f (unat b)) key"
  by (simp split: option.split)

lemma plookup_pmerge: "plookup (pmerge k t) key = Option.bind (strip k key) (plookup t)"
  by (cases t; cases "strip k key") (auto simp: strip_append strip_Some_iff)

lemma pslot_bound: "pslot i t \<Longrightarrow> i < nrOfChildren"
  by (auto simp: pslot_def nrOfChildren_def split: if_splits)

lemma pwf_pmerge: "k \<noteq> [] \<Longrightarrow> \<forall>b \<in> set k. b < 16 \<Longrightarrow> pwf t \<Longrightarrow> pwf (pmerge k t)"
proof (cases t)
  case (PLeaf k' v w)
  moreover assume "pwf t" "\<forall>b \<in> set k. b < 16"
  moreover from this PLeaf have "k' \<noteq> []" by auto
  ultimately show ?thesis by (simp add: hex_key_append)
qed auto

lemma pwf_pmerge_slot: "pslot i t \<Longrightarrow> pwf (pmerge [of_nat i] t)"
proof (cases "i = 16")
  case True
  moreover assume "pslot i t"
  ultimately show ?thesis
    by (auto simp: pslot_def hexTerminator_def elim!: pterminal_cases)
next
  case False
  moreover assume "pslot i t"
  ultimately have "i < 16" "pwf t" by (auto simp: pslot_def)
  then have "(of_nat i :: byte) < 16" by (simp add: word_less_nat_alt unat_of_nat)
  with \<open>pwf t\<close> show ?thesis by (intro pwf_pmerge) auto
qed

lemma set_pchildren: "(\<forall>i t. f i = Some t \<longrightarrow> pslot i t) \<Longrightarrow> set (pchildren f) = {i. f i \<noteq> None}"
  by (auto simp: pchildren_def dest: pslot_bound)

lemma distinct_pchildren: "distinct (pchildren f)"
  by (simp add: pchildren_def)

lemma pchildren_cases:
  assumes "\<forall>i t. f i = Some t \<longrightarrow> pslot i t" "f j \<noteq> None"
  obtains (one) i t where "pchildren f = [i]" "f i = Some t" "\<And>k. k \<noteq> i \<Longrightarrow> f k = None"
  | (more) "two_children f" "\<nexists>i. pchildren f = [i]"
proof (cases "two_children f")
  case True
  then obtain i k where ik: "i \<noteq> k" "f i \<noteq> None" "f k \<noteq> None" unfolding two_children_def by blast
  then have "{i, k} \<subseteq> set (pchildren f)" using set_pchildren [OF assms(1)] by auto
  then have "\<nexists>i. pchildren f = [i]" using ik(1) by auto
  with True show thesis by (rule more)
next
  case False
  with assms(2) have others: "f k = None" if "k \<noteq> j" for k
    using that unfolding two_children_def by blast
  have "{i. f i \<noteq> None} = {j}"
  proof (intro equalityI subsetI)
    fix x assume "x \<in> {i. f i \<noteq> None}"
    then show "x \<in> {j}" using others [of x] by (cases "x = j") simp_all
  qed (use assms(2) in simp)
  then have ch: "set (pchildren f) = {j}" using set_pchildren [OF assms(1)] by simp
  moreover have "length (pchildren f) = 1"
    using distinct_card [OF distinct_pchildren [of f]] by (simp add: ch)
  ultimately have "pchildren f = [j]" by (cases "pchildren f") auto
  with others assms(2) show thesis by (metis one not_None_eq)
qed

lemma plookup_pcollapse:
  assumes "\<forall>i t. f i = Some t \<longrightarrow> pslot i t" "f j \<noteq> None"
  shows "plookup (pcollapse f) key = plookup (PBranch f) key"
  using assms
proof (cases rule: pchildren_cases)
  case (one i t)
  have i: "unat (of_nat i :: byte) = i"
    using one(2) assms(1) pslot_bound [of i t] by (simp add: unat_of_nat nrOfChildren_def)
  show ?thesis
  proof (cases key)
    case (Cons c key')
    show ?thesis
    proof (cases "c = of_nat i")
      case False
      then have "f (unat c) = None" using one(3) [of "unat c"] i by (metis unat_byte_inj)
      with Cons False one show ?thesis by (simp add: pcollapse_def plookup_pmerge)
    qed (use Cons one i in \<open>simp add: pcollapse_def plookup_pmerge\<close>)
  qed (use one in \<open>simp add: pcollapse_def plookup_pmerge\<close>)
next
  case more
  then show ?thesis by (simp add: pcollapse_def split: list.splits)
qed

lemma pwf_pcollapse:
  assumes "\<forall>i t. f i = Some t \<longrightarrow> pslot i t" "f j \<noteq> None"
  shows "pwf (pcollapse f)"
  using assms
proof (cases rule: pchildren_cases)
  case (one i t)
  with assms(1) show ?thesis by (simp add: pcollapse_def pwf_pmerge_slot)
next
  case more
  then have "pcollapse f = PBranch f" by (auto simp: pcollapse_def split: list.splits)
  with more assms(1) show ?thesis by (simp add: pwf_PBranch)
qed


lemma two_children_other: "two_children f \<Longrightarrow> \<exists>j. (f(i := x)) j \<noteq> None"
  unfolding two_children_def by (metis fun_upd_other)

lemma pwf_pdelete:
  assumes "pwf t" "hex_key key" "pdelete t key = Some t'"
  shows "pwf t'"
  using assms
proof (induction t arbitrary: key t')
  case (PExt k t)
  show ?case
  proof (cases "prefixLen key k < length k")
    case False
    then have "take (length k) key = k"
      using prefixLen_le(2) [of key k] by (simp add: prefixLen_eq_length)
    then have "hex_key (drop (length k) key)" using PExt.prems ext_key_rest [of key k] by simp
    with PExt False show ?thesis by (auto intro!: pwf_pmerge)
  qed (use PExt.prems in auto)
next
  case (PBranch f)
  then obtain b key1 where key: "key = b # key1" by (cases key) auto
  have sl: "\<forall>i t. f i = Some t \<longrightarrow> pslot i t" and two: "two_children f" and sk: "slot_key (unat b) key1"
    using PBranch.prems key by (auto simp: pwf_PBranch hex_key_slot)
  show ?case
  proof (cases "f (unat b)")
    case (Some t)
    have "pslot (unat b) u" if "pdelete t key1 = Some u" for u
    proof (cases "unat b = 16")
      case True
      then show ?thesis using sl Some sk that
        by (auto simp: pslot_def slot_key_def elim!: pterminal_cases dest!: spec [of _ "unat b"])
    next
      case False
      moreover have "Some t \<in> range f" by (metis Some rangeI)
      ultimately show ?thesis using sl Some sk that PBranch.IH [of "Some t" t key1 u]
        by (auto simp: pslot_def slot_key_def)
    qed
    then have "\<forall>i t'. (f(unat b := pdelete t key1)) i = Some t' \<longrightarrow> pslot i t'" using sl by auto
    moreover obtain j where "(f(unat b := pdelete t key1)) j \<noteq> None"
      using two_children_other [OF two] by blast
    ultimately have "pwf (pcollapse (f(unat b := pdelete t key1)))" by (rule pwf_pcollapse)
    with PBranch.prems key Some show ?thesis by auto
  qed (use PBranch.prems key in auto)
qed (auto split: if_splits)

lemma pslot_pdelete:
  assumes "pslot i t" "slot_key i key" "pdelete t key = Some u"
  shows "pslot i u"
  using assms pwf_pdelete [of t key u]
  by (auto simp: pslot_def slot_key_def split: if_splits elim!: pterminal_cases)

lemma olookup_pdelete:
  assumes "pok t key"
  shows "olookup (pdelete t key) key' = (if key' = key then None else plookup t key')"
  using assms
proof (induction t arbitrary: key key')
  case (PExt k t)
  then have wf: "is_pbranch t" "pwf t" "\<forall>b \<in> set k. b < 16" "hex_key key" by (auto simp: pok_def)
  show ?case
  proof (cases "prefixLen key k < length k")
    case True
    then have "strip k key = None"
      by (metis nat_neq_iff not_None_eq prefixLen_eq_length strip_Some_iff append_eq_conv_conj)
    with True show ?thesis by auto
  next
    case False
    then have pre: "take (length k) key = k"
      using prefixLen_le(2) [of key k] by (simp add: prefixLen_eq_length)
    then have ok: "pok t (drop (length k) key)" using wf ext_key_rest [of key k] by (simp add: pok_def)
    obtain r where key: "key = k @ r" using pre by (metis append_take_drop_id)
    have "olookup (map_option (pmerge k) to) key' = Option.bind (strip k key') (olookup to)" for to
      by (cases "to"; cases "strip k key'") (auto simp: plookup_pmerge)
    with False ok key show ?thesis using PExt.IH [of r]
      by (cases "strip k key'") (auto simp: strip_Some_iff)
  qed
next
  case (PBranch f)
  then have wf: "pwf (PBranch f)" "hex_key key" by (auto simp: pok_def)
  then obtain b key1 where key: "key = b # key1" by (cases key) auto
  have sl: "\<forall>i t. f i = Some t \<longrightarrow> pslot i t" and two: "two_children f" and sk: "slot_key (unat b) key1"
    using wf key by (auto simp: pwf_PBranch hex_key_slot)
  show ?case
  proof (cases "f (unat b)")
    case (Some t)
    let ?g = "f(unat b := pdelete t key1)"
    have "\<forall>i t'. ?g i = Some t' \<longrightarrow> pslot i t'" using sl pslot_pdelete [of "unat b" t key1] Some sk by auto
    moreover obtain j where "?g j \<noteq> None" using two_children_other [OF two] by blast
    ultimately have "plookup (pcollapse ?g) key' = plookup (PBranch ?g) key'" by (rule plookup_pcollapse)
    moreover have "Some t \<in> range f" by (metis Some rangeI)
    then have "olookup (pdelete t key1) r = (if r = key1 then None else plookup t r)" for r
      using PBranch.IH [of "Some t" t key1 r] pok_slot [OF _ sk, of t] Some sl by simp
    ultimately show ?thesis
      by (cases key') (auto simp: key Some unat_byte_inj plookup_PBranch_olookup
          simp del: plookup_PBranch_simps(2))
  qed (cases key'; auto simp: key)
qed auto


subsection \<open>A canonical trie is determined by its content\<close>

lemma plookup_hex_key: "pwf t \<Longrightarrow> plookup t key \<noteq> None \<Longrightarrow> hex_key key"
proof (induction t arbitrary: key)
  case (PExt k t)
  then obtain r where r: "key = k @ r" "plookup t r \<noteq> None"
    by (cases "strip k key") (auto simp: strip_Some_iff)
  then have "hex_key r" using PExt by auto
  moreover from this have "r \<noteq> []" by auto
  ultimately show ?case using r PExt.prems by (simp add: hex_key_append)
next
  case (PBranch f)
  then obtain b key1 t where b: "key = b # key1" "f (unat b) = Some t" "plookup t key1 \<noteq> None"
    by (cases key) (auto split: option.splits)
  then have "pslot (unat b) t" using PBranch.prems by (simp add: pwf_PBranch)
  then have "slot_key (unat b) key1" using b PBranch.IH [of "Some t" t key1]
    by (auto simp: pslot_def slot_key_def split: if_splits elim!: pterminal_cases)
      (metis option.set_intros rangeI)
  with b show ?case by (simp add: hex_key_slot)
qed (simp split: if_splits)

text \<open>Stored values are not empty.\<close>

lemma plookup_value: "pwf t \<or> pterminal t \<Longrightarrow> plookup t key = Some (v, w) \<Longrightarrow> v \<noteq> []"
proof (induction t arbitrary: key)
  case (PExt k t)
  then show ?case by (cases "strip k key") auto
next
  case (PBranch f)
  then obtain b key1 t where b: "key = b # key1" "f (unat b) = Some t" "plookup t key1 = Some (v, w)"
    by (cases key) (auto split: option.splits)
  then have "pwf t \<or> pterminal t" using PBranch.prems(1) by (auto simp: pwf_PBranch pslot_def split: if_splits)
  with b PBranch.IH [of "Some t" t key1] show ?case by (metis option.set_intros rangeI)
qed (auto split: if_splits elim!: pterminal_cases)

lemma plookup_nonempty: "pwf t \<or> pterminal t \<Longrightarrow> \<exists>key. plookup t key \<noteq> None"
proof (induction t)
  case (PLeaf k v w)
  then show ?case by (intro exI [of _ k]) simp
next
  case (PExt k t)
  then obtain key where "plookup t key \<noteq> None" by auto
  then show ?case by (intro exI [of _ "k @ key"]) simp
next
  case (PBranch f)
  then obtain i t where i: "f i = Some t" unfolding pwf_PBranch two_children_def by auto
  then have sl: "pslot i t" using PBranch.prems by (simp add: pwf_PBranch)
  then have "pwf t \<or> pterminal t" by (auto simp: pslot_def split: if_splits)
  then obtain key where "plookup t key \<noteq> None" using PBranch.IH [of "Some t" t] i by (metis option.set_intros rangeI)
  moreover have "unat (of_nat i :: byte) = i" using pslot_bound [OF sl] by (simp add: unat_of_nat nrOfChildren_def)
  ultimately show ?case using i by (intro exI [of _ "of_nat i # key"]) simp
qed

lemma slot_nonempty: "pslot i t \<Longrightarrow> \<exists>key. plookup t key \<noteq> None"
  by (rule plookup_nonempty) (auto simp: pslot_def split: if_splits)

lemma slot_unat: "pslot i t \<Longrightarrow> unat (of_nat i :: byte) = i"
  by (drule pslot_bound) (simp add: unat_of_nat nrOfChildren_def)

lemma pbranch_two_keys:
  assumes "pwf t" "is_pbranch t"
  obtains a k b k' where "a \<noteq> b" "plookup t (a # k) \<noteq> None" "plookup t (b # k') \<noteq> None"
proof -
  obtain f where f: "t = PBranch f" using assms(2) by (cases t) auto
  then obtain i j u v where ij: "i \<noteq> j" "f i = Some u" "f j = Some v"
    using assms(1) unfolding f pwf_PBranch two_children_def by blast
  then have sl: "pslot i u" "pslot j v" using assms(1) f by (simp_all add: pwf_PBranch)
  then obtain k k' where "plookup u k \<noteq> None" "plookup v k' \<noteq> None" using slot_nonempty by blast
  moreover have "(of_nat i :: byte) \<noteq> of_nat j" using sl [THEN slot_unat] ij(1) by metis
  ultimately show thesis using sl [THEN slot_unat] f ij
    by (intro that [of "of_nat i" "of_nat j" k k']) auto
qed

text \<open>The keys of a trie that start together start no longer together than its root says.\<close>

lemma plookup_PExt_prefix: "plookup (PExt k t) key \<noteq> None \<Longrightarrow> \<exists>r. key = k @ r \<and> plookup t r \<noteq> None"
  by (cases "strip k key") (auto simp: strip_Some_iff)

lemma pext_same_key:
  assumes "pwf (PExt k t)" "pwf (PExt k' t')" "plookup (PExt k t) = plookup (PExt k' t')"
  shows "length k' \<le> length k"
proof (rule ccontr)
  assume longer: "\<not> ?thesis"
  obtain a r b r' where ab: "a \<noteq> b" "plookup t (a # r) \<noteq> None" "plookup t (b # r') \<noteq> None"
    using assms(1) by (metis pbranch_two_keys pwf.simps(2))
  have "\<exists>s. k @ c # q = k' @ s" if "plookup t (c # q) \<noteq> None" for c q
  proof -
    have "plookup (PExt k' t') (k @ c # q) \<noteq> None"
      using that unfolding assms(3) [symmetric] by simp
    then show ?thesis using plookup_PExt_prefix by blast
  qed
  then have "k' ! length k = c" if "plookup t (c # q) \<noteq> None" for c q
    using that longer by (metis nat_le_linear not_le nth_append nth_append_length)
  with ab show False by metis
qed

lemma leaf_vs_branching:
  assumes "pwf t" "\<And>k v w. t \<noteq> PLeaf k v w"
  shows "\<exists>k1 k2. k1 \<noteq> k2 \<and> plookup t k1 \<noteq> None \<and> plookup t k2 \<noteq> None"
proof (cases t)
  case (PExt k u)
  then obtain a r b r' where "a \<noteq> b" "plookup u (a # r) \<noteq> None" "plookup u (b # r') \<noteq> None"
    using assms(1) by (metis pbranch_two_keys pwf.simps(2))
  with PExt show ?thesis by (intro exI [of _ "k @ a # r"] exI [of _ "k @ b # r'"]) simp
next
  case (PBranch f)
  then show ?thesis using assms(1) pbranch_two_keys [of t] by (metis is_pbranch.simps(1) list.inject)
qed (use assms(2) in auto)

lemma ext_vs_branch:
  assumes "pwf (PExt k t)" "pwf (PBranch f)"
  shows "plookup (PExt k t) \<noteq> plookup (PBranch f)"
proof
  assume eq: "plookup (PExt k t) = plookup (PBranch f)"
  obtain a r b r' where ab: "a \<noteq> b" "plookup (PBranch f) (a # r) \<noteq> None" "plookup (PBranch f) (b # r') \<noteq> None"
    using assms(2) by (metis pbranch_two_keys is_pbranch.simps(1))
  then have "hd k = a" "hd k = b"
    using assms(1) eq plookup_PExt_prefix [of k t] by (metis list.sel(1) hd_append2 pwf.simps(2))+
  with ab(1) show False by simp
qed

lemma leaf_vs_other:
  assumes "pwf t" "plookup t = plookup (PLeaf k v w)"
  shows "\<exists>k v w. t = PLeaf k v w"
proof (rule ccontr)
  assume "\<not> ?thesis"
  then obtain k1 k2 where "k1 \<noteq> k2" "plookup t k1 \<noteq> None" "plookup t k2 \<noteq> None"
    using leaf_vs_branching [OF assms(1)] by blast
  with assms(2) show False by (auto split: if_splits)
qed

theorem pwf_canonical:
  assumes "pwf t" "pwf u" "plookup t = plookup u"
  shows "t = u"
  using assms
proof (induction t arbitrary: u)
  case (PLeaf k v w)
  then obtain k' v' w' where "u = PLeaf k' v' w'" using leaf_vs_other [of u k v w] by auto
  with PLeaf.prems show ?case by (auto dest!: fun_cong [of _ _ k] split: if_splits)
next
  case (PExt k t)
  then obtain k' t' where u: "u = PExt k' t'"
    by (metis ptrie.distinct(1) leaf_vs_other ext_vs_branch ptrie.exhaust)
  have len: "length k = length k'" using pext_same_key PExt.prems u by (metis le_antisym)
  obtain key where "plookup t key \<noteq> None" using plookup_nonempty [of t] PExt.prems by auto
  then have "plookup (PExt k' t') (k @ key) \<noteq> None" using PExt.prems u by (metis bind.bind_lunit plookup_PExt strip_append_same)
  then have k: "k = k'" using len plookup_PExt_prefix by (metis append_eq_append_conv)
  then have "plookup t r = plookup t' r" for r
    using PExt.prems u by (auto dest!: fun_cong [of _ _ "k @ r"])
  with PExt k u show ?case by auto
next
  case (PBranch f)
  then obtain g where u: "u = PBranch g"
    by (metis ptrie.distinct(3) leaf_vs_other ext_vs_branch ptrie.exhaust)
  have slf: "f i = Some t \<Longrightarrow> pslot i t" and slg: "g i = Some t \<Longrightarrow> pslot i t" for i t
    using PBranch.prems u by (auto simp: pwf_PBranch)
  have eq: "olookup (f (unat b)) r = olookup (g (unat b)) r" for b :: byte and r
    using PBranch.prems(3) u plookup_PBranch_olookup by metis
  have same: "f (unat b) = g (unat b)" for b :: byte
  proof (cases "f (unat b)"; cases "g (unat b)")
    fix x y assume xy: "f (unat b) = Some x" "g (unat b) = Some y"
    then have "plookup x = plookup y" using eq [of b] by auto
    with xy slf [OF xy(1)] slg [OF xy(2)] PBranch.IH [of "Some x" x y] show ?thesis
      by (auto simp: pslot_def split: if_splits elim!: pterminal_cases dest: fun_cong [of _ _ "[]"])
        (metis option.set_intros rangeI)
  qed (use eq [of b] slf slg slot_nonempty in \<open>fastforce+\<close>)
  have "f i = g i" for i
  proof (cases "i < nrOfChildren")
    case True
    then have "i = unat (of_nat i :: byte)" by (simp add: unat_of_nat nrOfChildren_def)
    with same show ?thesis by metis
  next
    case False
    then show ?thesis using slf slg pslot_bound by (metis not_Some_eq)
  qed
  with u show ?case by auto
qed


subsection \<open>The trie as a map\<close>

text \<open>A trie with its root pointer: \<open>None\<close> is the empty trie.\<close>

definition tinsert :: "ptrie option \<Rightarrow> bytes \<Rightarrow> entry \<Rightarrow> ptrie option" where
  "tinsert to key e = Some (case to of
     None \<Rightarrow> PLeaf key (fst e) (snd e)
   | Some t \<Rightarrow> pinsert t key (fst e) (snd e))"

definition tdelete :: "ptrie option \<Rightarrow> bytes \<Rightarrow> ptrie option" where
  "tdelete to key = Option.bind to (\<lambda>t. pdelete t key)"

definition twf :: "ptrie option \<Rightarrow> bool" where
  "twf to = pred_option pwf to"

definition tput :: "entry option \<Rightarrow> entry \<Rightarrow> entry" where
  "tput old e = pput old (fst e) (snd e)"

interpretation ptrie: canonical_map twf hex_key "\<lambda>e. fst e \<noteq> []" tput olookup tinsert tdelete
proof unfold_locales
  fix s s' :: "ptrie option" and k k' :: bytes and v :: entry
  show "twf (tinsert s k v)" if "twf s" "hex_key k" "fst v \<noteq> []"
    using that by (cases s) (auto simp: twf_def tinsert_def intro: pwf_pinsert)
  show "twf (tdelete s k)" if "twf s" "hex_key k"
    using that by (cases s) (auto simp: twf_def tdelete_def pred_option_def intro: pwf_pdelete
        dest: elem_set [THEN iffD1])
  show "olookup (tinsert s k v) k' = (if k' = k then Some (tput (olookup s k) v) else olookup s k')"
    if "twf s" "hex_key k" "fst v \<noteq> []"
    using that by (cases s) (auto simp: twf_def tinsert_def tput_def pput_def plookup_pinsert pok_def)
  show "olookup (tdelete s k) k' = (if k' = k then None else olookup s k')" if "twf s" "hex_key k"
    using that by (cases s) (auto simp: twf_def tdelete_def olookup_pdelete pok_def)
  show "s = s'" if "twf s" "twf s'" "olookup s = olookup s'"
  proof (cases s; cases s')
    fix t t' assume "s = Some t" "s' = Some t'"
    with that show ?thesis by (auto simp: twf_def fun_eq_iff intro!: pwf_canonical)
  next
    fix t assume "s = Some t" "s' = None"
    with that show ?thesis using plookup_nonempty [of t] by (auto simp: twf_def fun_eq_iff)
  next
    fix t assume "s' = Some t" "s = None"
    with that show ?thesis using plookup_nonempty [of t] by (auto simp: twf_def fun_eq_iff)
  qed simp
qed

text \<open>A branch node or an extension whose deletion finds no key returns itself.\<close>

lemma pdelete_absent:
  assumes "pwf t" "hex_key key" "plookup t key = None"
  shows "pdelete t key = Some t"
  using ptrie.delete_absent [of "Some t" key] assms by (simp add: twf_def tdelete_def)

text \<open>Inserting the value that is already there changes nothing.\<close>

lemma pinsert_same:
  assumes "pwf t" "hex_key key" "v \<noteq> []" "map_option fst (plookup t key) = Some v"
  shows "pinsert t key v w = t"
proof (rule pwf_canonical)
  show "plookup (pinsert t key v w) = plookup t"
    using assms by (auto simp: plookup_pinsert pok_def pput_def fun_eq_iff split: option.splits)
qed (use assms in \<open>auto intro: pwf_pinsert\<close>)

lemma olookup_value: "twf to \<Longrightarrow> olookup to key = Some (v, w) \<Longrightarrow> v \<noteq> []"
  by (cases "to") (use plookup_value [of _ key v w] in \<open>auto simp: twf_def\<close>)

end
