(* ===== verification/Proto_Codec.thy ===== *)
theory Proto_Codec
  imports Go_Prelude
begin

text \<open>
  The wire format of trie nodes, from the protocol-buffer code \<open>trie/node.pb.go\<close>: variable-length
  integers, the three messages \<open>CollapsedBn\<close>, \<open>CollapsedEn\<close> and \<open>CollapsedLn\<close>, their \<open>Marshal\<close>,
  \<open>Size\<close> and \<open>Unmarshal\<close> methods and the skipping of unknown fields. The decoders keep the unread
  suffix of the buffer in place of the index \<open>iNdEx\<close>; the buffer length \<open>l\<close> is passed along because
  the source's overflow check of \<open>iNdEx + byteLen\<close> depends on it. Decoding the encoding of a message
  gives the message back, and \<open>Size\<close> is the length of the encoding.
\<close>

datatype proto_error =
    ErrIntOverflowNode
  | ErrUnexpectedEOF
  | ErrInvalidLengthNode
  | ErrUnexpectedEndOfGroupNode
  | ErrWireTypeEndGroup
  | ErrIllegalTag
  | ErrWrongWireType
  | ErrIllegalWireType

subsection \<open>Variable-length integers\<close>

function encodeVarintNode :: "u64 \<Rightarrow> bytes" where
  "encodeVarintNode v =
     (if v \<ge> 128 then ucast (v AND 0x7f OR 0x80) # encodeVarintNode (drop_bit 7 v) else [ucast v])"
  by pat_completeness auto
termination
proof (relation "measure unat")
  fix v :: u64
  assume "v \<ge> 128"
  then have "unat v \<ge> 128" by (simp add: word_le_nat_alt)
  then show "(drop_bit 7 v, v) \<in> measure unat" by (simp add: unat_drop_bit_eq) (simp add: drop_bit_eq_div)
qed simp

declare encodeVarintNode.simps [simp del]

fun readVarint :: "nat \<Rightarrow> 'a::len word \<Rightarrow> bytes \<Rightarrow> proto_error + ('a word \<times> bytes)" where
  "readVarint shift acc [] = (if shift \<ge> 64 then Inl ErrIntOverflowNode else Inl ErrUnexpectedEOF)"
| "readVarint shift acc (b # bs) =
     (if shift \<ge> 64 then Inl ErrIntOverflowNode
      else let acc' = acc OR push_bit shift (ucast (b AND 0x7f)) in
        if b < 0x80 then Inr (acc', bs) else readVarint (shift + 7) acc' bs)"

lemma readVarint_shorter:
  "readVarint shift acc bs = Inr (v, rest) \<Longrightarrow> length rest < length bs"
  by (induction shift acc bs rule: readVarint.induct) (fastforce simp: Let_def split: if_splits)+

text \<open>The two masks of the varint code, bit by bit.\<close>

lemma mask7: "(0x7f :: 'a::len word) = mask 7"
  by (simp add: mask_eq_exp_minus_1)

lemma bit_cont: "bit (0x80 :: 'a::len word) n \<longleftrightarrow> n = 7 \<and> 7 < LENGTH('a)"
  using bit_exp_iff [where 'a = "'a word", of 7 n] by auto

lemma bit_cont_int: "bit (0x80 :: int) n \<longleftrightarrow> n = 7"
  using bit_exp_iff [where 'a = int, of 7 n] by auto

lemma low7_byte:
  fixes v :: u64
  shows "(ucast (v AND 0x7f OR 0x80) :: byte) AND 0x7f = ucast (v AND 0x7f)"
  unfolding mask7 by (rule bit_word_eqI) (auto simp: bit_simps bit_cont bit_cont_int)

lemma cont_byte:
  fixes v :: u64
  shows "\<not> (ucast (v AND 0x7f OR 0x80) :: byte) < 0x80"
proof -
  let ?b = "ucast (v AND 0x7f OR 0x80) :: byte"
  have "bit ?b 7" by (simp add: bit_simps bit_cont)
  then have "bit (unat ?b) 7" by (simp add: bit_unsigned_iff)
  then have "odd (unat ?b div 128)" by (simp add: bit_iff_odd)
  then have "unat ?b \<ge> 128" by (metis div_less even_zero not_le_imp_less)
  then show ?thesis by (simp add: word_less_nat_alt)
qed

lemma low7_join:
  fixes v :: "'a::len word"
  shows "push_bit s (v AND 0x7f) OR push_bit (s + 7) (drop_bit 7 v) = push_bit s v"
proof (rule bit_word_eqI)
  fix n assume "n < LENGTH('a)"
  then show "bit (push_bit s (v AND 0x7f) OR push_bit (s + 7) (drop_bit 7 v)) n =
      bit (push_bit s v) n"
    unfolding mask7 by (cases "n < s + 7") (auto simp: bit_simps)
qed

lemma readVarint_encode:
  assumes "unat v < 2 ^ (64 - s)" "s < 64"
  shows "readVarint s acc (encodeVarintNode v @ rest) = Inr (acc OR push_bit s v, rest)"
  using assms
proof (induction v arbitrary: s acc rule: encodeVarintNode.induct)
  case (1 v)
  show ?case
  proof (cases "v \<ge> 128")
    case True
    then have v: "unat v \<ge> 2 ^ 7" by (simp add: word_le_nat_alt)
    have s: "s + 7 < 64"
    proof (rule ccontr)
      assume "\<not> s + 7 < 64"
      then have "(2::nat) ^ (64 - s) \<le> 2 ^ 7" by (intro power_increasing) auto
      with v 1(2) show False by simp
    qed
    then have e: "(64 - s) = 7 + (64 - (s + 7))" by simp
    have "unat (drop_bit 7 v) < 2 ^ (64 - (s + 7))"
      using 1(2) unfolding e power_add
      by (simp add: unat_drop_bit_eq) (simp add: drop_bit_eq_div less_mult_imp_div_less mult.commute)
    from 1(1) [OF True this s]
    have IH: "readVarint (s + 7) acc' (encodeVarintNode (drop_bit 7 v) @ rest) =
        Inr (acc' OR push_bit (s + 7) (drop_bit 7 v), rest)" for acc' .
    have "ucast (ucast (v AND 0x7f) :: byte) = v AND 0x7f"
      unfolding mask7 by (rule bit_word_eqI) (auto simp: bit_simps)
    then show ?thesis
      using True 1(3) cont_byte [of v] low7_join [of s v]
      by (simp add: encodeVarintNode.simps [of v] low7_byte IH Let_def or.assoc del: readVarint.simps)
        (simp add: low7_byte IH Let_def or.assoc)
  next
    case False
    then have lt: "v < 128" by simp
    then have small: "unat v < 128" by (simp add: word_less_nat_alt)
    then have "take_bit 7 v = v"
      by (intro word_unat_eq_iff [THEN iffD2]) (simp add: unsigned_take_bit_eq take_bit_nat_eq_self)
    then have low: "n < 7" if "bit v n" for n using that by (metis bit_take_bit_iff)
    have "ucast ((ucast v :: byte) AND 0x7f) = v"
      unfolding mask7 by (rule bit_word_eqI) (auto simp: bit_simps dest: low)
    moreover have "(ucast v :: byte) < 0x80"
      using small by (simp add: word_less_nat_alt unsigned_ucast_eq take_bit_nat_eq_self)
    ultimately show ?thesis
      using False 1(3) by (simp add: encodeVarintNode.simps [of v] Let_def)
  qed
qed

text \<open>Reading into a narrower integer truncates what the 64-bit reader returns.\<close>

lemma readVarint_ucast:
  fixes acc :: u64
  assumes "LENGTH('a::len) \<le> 64"
  shows "readVarint s (ucast acc :: 'a word) bs =
    (case readVarint s acc bs of Inl e \<Rightarrow> Inl e | Inr (v, rest) \<Rightarrow> Inr (ucast v, rest))"
proof (induction bs arbitrary: s acc)
  case Nil
  then show ?case by simp
next
  case (Cons b bs)
  have "(ucast acc :: 'a word) OR push_bit s (ucast (b AND 0x7f)) =
      ucast (acc OR push_bit s (ucast (b AND 0x7f)))"
    using assms by (intro bit_word_eqI) (auto simp: bit_simps)
  with Cons.IH show ?case by (simp add: Let_def)
qed

subsection \<open>Sizes\<close>

text \<open>\<open>math/bits.Len64\<close>: the number of bits of the argument.\<close>

function len64 :: "u64 \<Rightarrow> nat" where
  "len64 x = (if x = 0 then 0 else Suc (len64 (drop_bit 1 x)))"
  by pat_completeness auto
termination
proof (relation "measure unat")
  fix x :: u64
  assume "x \<noteq> 0"
  then have "unat x > 0" by (simp add: unat_gt_0)
  then show "(drop_bit 1 x, x) \<in> measure unat"
    by (simp add: unat_drop_bit_eq del: drop_bit_Suc) (simp add: drop_bit_eq_div)
qed simp

declare len64.simps [simp del]

definition sovNode :: "u64 \<Rightarrow> nat" where
  "sovNode x = (len64 (x OR 1) + 6) div 7"

lemma len64_drop_bit: "len64 (drop_bit n x) = len64 x - n"
proof (induction n arbitrary: x)
  case 0
  then show ?case by simp
next
  case (Suc n)
  have "drop_bit (Suc n) x = drop_bit n (drop_bit 1 x)" by simp
  then have "len64 (drop_bit (Suc n) x) = len64 (drop_bit 1 x) - n" by (simp only: Suc.IH)
  also have "len64 (drop_bit 1 x) = len64 x - 1"
    by (cases "x = 0") (simp_all add: len64.simps [of x] len64.simps [of 0])
  finally show ?case by simp
qed

lemma len64_le: "unat x < 2 ^ n \<Longrightarrow> len64 x \<le> n"
proof (induction n arbitrary: x)
  case 0
  then show ?case by (simp add: len64.simps unat_eq_zero)
next
  case (Suc n)
  then have "unat (drop_bit 1 x) < 2 ^ n"
    by (simp add: unat_drop_bit_eq del: drop_bit_Suc) (simp add: drop_bit_eq_div)
  then have "len64 (drop_bit 1 x) \<le> n" by (rule Suc.IH)
  then show ?case by (subst len64.simps) simp
qed

lemma len64_ge: "2 ^ n \<le> unat x \<Longrightarrow> n < len64 x"
proof -
  assume "2 ^ n \<le> unat x"
  then have "unat (drop_bit n x) \<noteq> 0"
    by (simp add: unat_drop_bit_eq) (simp add: drop_bit_eq_div div_greater_zero_iff)
  then have "drop_bit n x \<noteq> 0" by auto
  then have "0 < len64 (drop_bit n x)" by (subst len64.simps) simp
  then show ?thesis by (simp add: len64_drop_bit)
qed

lemma len64_or_one: "len64 (x OR 1) = max 1 (len64 x)"
proof (cases "x = 0")
  case True
  then show ?thesis by (simp add: len64.simps [of 1] len64.simps [of 0] drop_bit_Suc)
next
  case False
  have "drop_bit 1 (x OR 1) = drop_bit 1 x"
    by (rule bit_word_eqI) (auto simp: bit_simps)
  moreover have "x OR 1 \<noteq> 0" by (metis or_eq_0_iff zero_neq_one)
  ultimately show ?thesis
    using False by (simp add: len64.simps [of x] len64.simps [of "x OR 1"])
qed

text \<open>\<open>sovNode\<close> computes the length of the varint that \<open>encodeVarintNode\<close> writes.\<close>

lemma sovNode_length: "sovNode v = length (encodeVarintNode v)"
proof (induction v rule: encodeVarintNode.induct)
  case (1 v)
  show ?case
  proof (cases "v \<ge> 128")
    case True
    then have "2 ^ 7 \<le> unat v" by (simp add: word_le_nat_alt)
    then have "7 < len64 v" by (rule len64_ge)
    with 1 [OF True] True show ?thesis
      by (simp add: encodeVarintNode.simps [of v] sovNode_def len64_or_one len64_drop_bit)
  next
    case False
    then have "unat v < 2 ^ 7" by (simp add: word_less_nat_alt not_le)
    then have "len64 v \<le> 7" by (rule len64_le)
    with False show ?thesis
      by (auto simp: encodeVarintNode.simps [of v] sovNode_def len64_or_one max_def)
  qed
qed

subsection \<open>The messages\<close>

record CollapsedBn =
  EncodedChildren :: "bytes list"
  ChildrenVersion :: bytes

record CollapsedEn =
  EnKey :: bytes
  EncodedChild :: bytes
  ChildVersion :: u32

record CollapsedLn =
  LnKey :: bytes
  LnValue :: "bytes option"
  LnVersion :: u32

text \<open>A slice that may be nil, seen as the bytes a copy or a length reads from it.\<close>

definition slice :: "bytes option \<Rightarrow> bytes" where
  "slice s = (case s of None \<Rightarrow> [] | Some b \<Rightarrow> b)"

lemma slice_simps [simp]: "slice None = []" "slice (Some b) = b"
  by (simp_all add: slice_def)

definition lenDelim :: "byte \<Rightarrow> bytes \<Rightarrow> bytes" where
  "lenDelim tag bs = tag # encodeVarintNode (of_nat (length bs)) @ bs"

definition MarshalBn :: "CollapsedBn \<Rightarrow> bytes" where
  "MarshalBn m =
     concat (map (lenDelim 0x0a) (EncodedChildren m)) @
     (if length (ChildrenVersion m) > 0 then lenDelim 0x12 (ChildrenVersion m) else [])"

definition MarshalEn :: "CollapsedEn \<Rightarrow> bytes" where
  "MarshalEn m =
     (if length (EnKey m) > 0 then lenDelim 0x0a (EnKey m) else []) @
     (if length (EncodedChild m) > 0 then lenDelim 0x12 (EncodedChild m) else []) @
     (if ChildVersion m \<noteq> 0 then 0x18 # encodeVarintNode (ucast (ChildVersion m)) else [])"

definition MarshalLn :: "CollapsedLn \<Rightarrow> bytes" where
  "MarshalLn m =
     (if length (LnKey m) > 0 then lenDelim 0x0a (LnKey m) else []) @
     (if length (slice (LnValue m)) > 0 then lenDelim 0x12 (slice (LnValue m)) else []) @
     (if LnVersion m \<noteq> 0 then 0x18 # encodeVarintNode (ucast (LnVersion m)) else [])"

definition lenSize :: "nat \<Rightarrow> nat" where
  "lenSize l = 1 + l + sovNode (of_nat l)"

definition SizeBn :: "CollapsedBn \<Rightarrow> nat" where
  "SizeBn m =
     sum_list (map (\<lambda>b. lenSize (length b)) (EncodedChildren m)) +
     (if length (ChildrenVersion m) > 0 then lenSize (length (ChildrenVersion m)) else 0)"

definition SizeEn :: "CollapsedEn \<Rightarrow> nat" where
  "SizeEn m =
     (if length (EnKey m) > 0 then lenSize (length (EnKey m)) else 0) +
     (if length (EncodedChild m) > 0 then lenSize (length (EncodedChild m)) else 0) +
     (if ChildVersion m \<noteq> 0 then 1 + sovNode (ucast (ChildVersion m)) else 0)"

definition SizeLn :: "CollapsedLn \<Rightarrow> nat" where
  "SizeLn m =
     (if length (LnKey m) > 0 then lenSize (length (LnKey m)) else 0) +
     (if length (slice (LnValue m)) > 0 then lenSize (length (slice (LnValue m))) else 0) +
     (if LnVersion m \<noteq> 0 then 1 + sovNode (ucast (LnVersion m)) else 0)"

lemma length_lenDelim: "length (lenDelim t bs) = lenSize (length bs)"
  by (simp add: lenDelim_def lenSize_def sovNode_length)

lemma Size_is_length_of_encoding:
  "SizeBn b = length (MarshalBn b)" "SizeEn e = length (MarshalEn e)" "SizeLn m = length (MarshalLn m)"
  by (simp_all add: SizeBn_def SizeEn_def SizeLn_def MarshalBn_def MarshalEn_def MarshalLn_def
      length_lenDelim sovNode_length length_concat comp_def)

subsection \<open>Decoding\<close>

definition readTag :: "bytes \<Rightarrow> proto_error + (int \<times> nat \<times> bytes)" where
  "readTag rest = (case readVarint 0 (0 :: u64) rest of
     Inl e \<Rightarrow> Inl e
   | Inr (wire, rest') \<Rightarrow>
       let fieldNum = sint (ucast (drop_bit 3 wire) :: u32); wireType = unat (wire AND 0x7) in
       if wireType = 4 then Inl ErrWireTypeEndGroup
       else if fieldNum \<le> 0 then Inl ErrIllegalTag
       else Inr (fieldNum, wireType, rest'))"

text \<open>A length-delimited value: \<open>l\<close> is the length of the whole buffer, so the unread suffix
  starts at index \<open>l - length rest'\<close>.\<close>

definition readBytes :: "nat \<Rightarrow> bytes \<Rightarrow> proto_error + (bytes \<times> bytes)" where
  "readBytes l rest = (case readVarint 0 (0 :: u64) rest of
     Inl e \<Rightarrow> Inl e
   | Inr (byteLen, rest') \<Rightarrow>
       let postIndex = (l - length rest') + unat byteLen in
       if sint byteLen < 0 then Inl ErrInvalidLengthNode
       else if postIndex \<ge> 2 ^ 63 then Inl ErrInvalidLengthNode
       else if postIndex > l then Inl ErrUnexpectedEOF
       else Inr (take (unat byteLen) rest', drop (unat byteLen) rest'))"

definition skipStep :: "nat \<Rightarrow> nat \<Rightarrow> bytes \<Rightarrow> proto_error + (nat \<times> nat \<times> bytes)" where
  "skipStep depth i rest = (case readVarint 0 (0 :: u64) rest of
     Inl e \<Rightarrow> Inl e
   | Inr (wire, r1) \<Rightarrow>
       let i1 = i + (length rest - length r1); wireType = unat (wire AND 0x7) in
       if wireType = 0 then
         (case readVarint 0 (0 :: u64) r1 of
            Inl e \<Rightarrow> Inl e
          | Inr (_, r2) \<Rightarrow> Inr (depth, i1 + (length r1 - length r2), r2))
       else if wireType = 1 then Inr (depth, i1 + 8, drop 8 r1)
       else if wireType = 2 then
         (case readVarint 0 (0 :: u64) r1 of
            Inl e \<Rightarrow> Inl e
          | Inr (n, r2) \<Rightarrow>
              if sint n < 0 then Inl ErrInvalidLengthNode
              else Inr (depth, i1 + (length r1 - length r2) + unat n, drop (unat n) r2))
       else if wireType = 3 then Inr (depth + 1, i1, r1)
       else if wireType = 4 then
         (if depth = 0 then Inl ErrUnexpectedEndOfGroupNode else Inr (depth - 1, i1, r1))
       else if wireType = 5 then Inr (depth, i1 + 4, drop 4 r1)
       else Inl ErrIllegalWireType)"

lemma skipStep_progress:
  assumes "skipStep depth i rest = Inr (d, i', rest')"
  shows "length rest' < length rest" "i < i'"
  using assms
  by (auto simp: skipStep_def Let_def dest!: readVarint_shorter split: sum.splits if_splits) arith+

function skipNode :: "nat \<Rightarrow> nat \<Rightarrow> bytes \<Rightarrow> proto_error + nat" where
  "skipNode depth i rest =
     (if rest = [] then Inl ErrUnexpectedEOF
      else case skipStep depth i rest of
        Inl e \<Rightarrow> Inl e
      | Inr (d, i', rest') \<Rightarrow>
          if i' \<ge> 2 ^ 63 then Inl ErrInvalidLengthNode
          else if d = 0 then Inr i' else skipNode d i' rest')"
  by pat_completeness auto
termination
  by (relation "measure (\<lambda>(d, i, rest). length rest)") (auto dest: skipStep_progress)

declare skipNode.simps [simp del]

lemma skipNode_progress: "skipNode depth i rest = Inr n \<Longrightarrow> i < n"
proof (induction depth i rest rule: skipNode.induct)
  case (1 depth i rest)
  from 1(2) show ?case
    by (subst (asm) skipNode.simps)
      (auto split: if_splits sum.splits prod.splits dest: skipStep_progress(2) dest!: 1(1))
qed

text \<open>An unknown field is skipped from its tag on.\<close>

definition skipField :: "nat \<Rightarrow> bytes \<Rightarrow> proto_error + bytes" where
  "skipField l rest = (case skipNode 0 0 rest of
     Inl e \<Rightarrow> Inl e
   | Inr skippy \<Rightarrow>
       let post = (l - length rest) + skippy in
       if post \<ge> 2 ^ 63 then Inl ErrInvalidLengthNode
       else if post > l then Inl ErrUnexpectedEOF
       else Inr (drop skippy rest))"

lemma readTag_shorter: "readTag rest = Inr (f, w, rest') \<Longrightarrow> length rest' < length rest"
  by (auto simp: readTag_def Let_def dest: readVarint_shorter split: sum.splits if_splits)

lemma readBytes_shorter: "readBytes l rest = Inr (v, rest') \<Longrightarrow> length rest' < length rest"
  by (fastforce simp: readBytes_def Let_def dest: readVarint_shorter split: sum.splits if_splits)

lemma skipField_shorter: "rest \<noteq> [] \<Longrightarrow> skipField l rest = Inr rest' \<Longrightarrow> length rest' < length rest"
  by (auto simp: skipField_def Let_def dest: skipNode_progress split: sum.splits if_splits)

lemmas decode_shorter = readTag_shorter readBytes_shorter readVarint_shorter skipField_shorter

function UnmarshalBn_loop :: "nat \<Rightarrow> bytes \<Rightarrow> CollapsedBn \<Rightarrow> proto_error + CollapsedBn" where
  "UnmarshalBn_loop l rest m =
     (if rest = [] then Inr m
      else case readTag rest of
        Inl e \<Rightarrow> Inl e
      | Inr (fieldNum, wireType, r) \<Rightarrow>
          if fieldNum = 1 then
            (if wireType \<noteq> 2 then Inl ErrWrongWireType
             else case readBytes l r of
               Inl e \<Rightarrow> Inl e
             | Inr (v, r') \<Rightarrow>
                 UnmarshalBn_loop l r' (m\<lparr>EncodedChildren := EncodedChildren m @ [v]\<rparr>))
          else if fieldNum = 2 then
            (if wireType \<noteq> 2 then Inl ErrWrongWireType
             else case readBytes l r of
               Inl e \<Rightarrow> Inl e
             | Inr (v, r') \<Rightarrow> UnmarshalBn_loop l r' (m\<lparr>ChildrenVersion := v\<rparr>))
          else
            (case skipField l rest of
               Inl e \<Rightarrow> Inl e
             | Inr r' \<Rightarrow> UnmarshalBn_loop l r' m))"
  by pat_completeness auto
termination
  by (relation "measure (\<lambda>(l, rest, m). length rest)") (auto dest!: decode_shorter)

function UnmarshalEn_loop :: "nat \<Rightarrow> bytes \<Rightarrow> CollapsedEn \<Rightarrow> proto_error + CollapsedEn" where
  "UnmarshalEn_loop l rest m =
     (if rest = [] then Inr m
      else case readTag rest of
        Inl e \<Rightarrow> Inl e
      | Inr (fieldNum, wireType, r) \<Rightarrow>
          if fieldNum = 1 then
            (if wireType \<noteq> 2 then Inl ErrWrongWireType
             else case readBytes l r of
               Inl e \<Rightarrow> Inl e
             | Inr (v, r') \<Rightarrow> UnmarshalEn_loop l r' (m\<lparr>EnKey := v\<rparr>))
          else if fieldNum = 2 then
            (if wireType \<noteq> 2 then Inl ErrWrongWireType
             else case readBytes l r of
               Inl e \<Rightarrow> Inl e
             | Inr (v, r') \<Rightarrow> UnmarshalEn_loop l r' (m\<lparr>EncodedChild := v\<rparr>))
          else if fieldNum = 3 then
            (if wireType \<noteq> 0 then Inl ErrWrongWireType
             else case readVarint 0 (0 :: u32) r of
               Inl e \<Rightarrow> Inl e
             | Inr (v, r') \<Rightarrow> UnmarshalEn_loop l r' (m\<lparr>ChildVersion := v\<rparr>))
          else
            (case skipField l rest of
               Inl e \<Rightarrow> Inl e
             | Inr r' \<Rightarrow> UnmarshalEn_loop l r' m))"
  by pat_completeness auto
termination
  by (relation "measure (\<lambda>(l, rest, m). length rest)") (auto dest!: decode_shorter)

function UnmarshalLn_loop :: "nat \<Rightarrow> bytes \<Rightarrow> CollapsedLn \<Rightarrow> proto_error + CollapsedLn" where
  "UnmarshalLn_loop l rest m =
     (if rest = [] then Inr m
      else case readTag rest of
        Inl e \<Rightarrow> Inl e
      | Inr (fieldNum, wireType, r) \<Rightarrow>
          if fieldNum = 1 then
            (if wireType \<noteq> 2 then Inl ErrWrongWireType
             else case readBytes l r of
               Inl e \<Rightarrow> Inl e
             | Inr (v, r') \<Rightarrow> UnmarshalLn_loop l r' (m\<lparr>LnKey := v\<rparr>))
          else if fieldNum = 2 then
            (if wireType \<noteq> 2 then Inl ErrWrongWireType
             else case readBytes l r of
               Inl e \<Rightarrow> Inl e
             | Inr (v, r') \<Rightarrow> UnmarshalLn_loop l r' (m\<lparr>LnValue := Some v\<rparr>))
          else if fieldNum = 3 then
            (if wireType \<noteq> 0 then Inl ErrWrongWireType
             else case readVarint 0 (0 :: u32) r of
               Inl e \<Rightarrow> Inl e
             | Inr (v, r') \<Rightarrow> UnmarshalLn_loop l r' (m\<lparr>LnVersion := v\<rparr>))
          else
            (case skipField l rest of
               Inl e \<Rightarrow> Inl e
             | Inr r' \<Rightarrow> UnmarshalLn_loop l r' m))"
  by pat_completeness auto
termination
  by (relation "measure (\<lambda>(l, rest, m). length rest)") (auto dest!: decode_shorter)

declare UnmarshalBn_loop.simps [simp del] UnmarshalEn_loop.simps [simp del]
  UnmarshalLn_loop.simps [simp del]

definition UnmarshalBn :: "bytes \<Rightarrow> proto_error + CollapsedBn" where
  "UnmarshalBn dAtA =
     UnmarshalBn_loop (length dAtA) dAtA \<lparr>EncodedChildren = [], ChildrenVersion = []\<rparr>"

definition UnmarshalEn :: "bytes \<Rightarrow> proto_error + CollapsedEn" where
  "UnmarshalEn dAtA =
     UnmarshalEn_loop (length dAtA) dAtA \<lparr>EnKey = [], EncodedChild = [], ChildVersion = 0\<rparr>"

definition UnmarshalLn :: "bytes \<Rightarrow> proto_error + CollapsedLn" where
  "UnmarshalLn dAtA =
     UnmarshalLn_loop (length dAtA) dAtA \<lparr>LnKey = [], LnValue = None, LnVersion = 0\<rparr>"

subsection \<open>Round trips\<close>

lemma readTag_known [simp]:
  "readTag (0x0a # rest) = Inr (1, 2, rest)"
  "readTag (0x12 # rest) = Inr (2, 2, rest)"
  "readTag (0x18 # rest) = Inr (3, 0, rest)"
  by (simp_all add: readTag_def Let_def)

lemma readBytes_encode:
  assumes "l < 2 ^ 63" "length (bs @ rest) \<le> l"
  shows "readBytes l (encodeVarintNode (of_nat (length bs)) @ bs @ rest) = Inr (bs, rest)"
proof -
  have n: "length bs < 2 ^ 63" using assms by simp
  then have u: "unat (of_nat (length bs) :: u64) = length bs"
    by (simp add: unat_of_nat)
  have "readVarint 0 0 (encodeVarintNode (of_nat (length bs)) @ bs @ rest) =
      Inr (of_nat (length bs) :: u64, bs @ rest)"
    using readVarint_encode [of "of_nat (length bs)" 0 0 "bs @ rest"] n u by simp
  moreover have "\<not> sint (of_nat (length bs) :: u64) < 0"
    using n u by (simp add: sint_uint uint_nat signed_take_bit_int_eq_self)
  ultimately show ?thesis
    using assms u by (simp add: readBytes_def Let_def)
qed

lemma readVarint_encode32: "readVarint 0 (0 :: u32) (encodeVarintNode (ucast v) @ rest) = Inr (v, rest)"
proof -
  have "unat (ucast v :: u64) < 2 ^ (64 - 0)" using unsigned_less [of "ucast v :: u64"] by simp
  then have "readVarint 0 (0 :: u64) (encodeVarintNode (ucast v) @ rest) = Inr (ucast v, rest)"
    by (subst readVarint_encode) simp_all
  moreover have "(ucast (ucast v :: u64) :: u32) = v"
    by (rule bit_word_eqI) (simp add: bit_simps)
  ultimately show ?thesis
    using readVarint_ucast [where 'a = 32, of 0 0] by simp
qed

lemma field_En:
  assumes "l < 2 ^ 63" "length bs + length rest \<le> l"
  shows "UnmarshalEn_loop l (lenDelim 0x0a bs @ rest) m = UnmarshalEn_loop l rest (m\<lparr>EnKey := bs\<rparr>)"
    and "UnmarshalEn_loop l (lenDelim 0x12 bs @ rest) m = UnmarshalEn_loop l rest (m\<lparr>EncodedChild := bs\<rparr>)"
  using readBytes_encode [of l bs rest] assms
  by (simp_all add: lenDelim_def UnmarshalEn_loop.simps [of l "_ # _"])

lemma field_Ln:
  assumes "l < 2 ^ 63" "length bs + length rest \<le> l"
  shows "UnmarshalLn_loop l (lenDelim 0x0a bs @ rest) m = UnmarshalLn_loop l rest (m\<lparr>LnKey := bs\<rparr>)"
    and "UnmarshalLn_loop l (lenDelim 0x12 bs @ rest) m = UnmarshalLn_loop l rest (m\<lparr>LnValue := Some bs\<rparr>)"
  using readBytes_encode [of l bs rest] assms
  by (simp_all add: lenDelim_def UnmarshalLn_loop.simps [of l "_ # _"])

lemma field_Bn:
  assumes "l < 2 ^ 63" "length bs + length rest \<le> l"
  shows "UnmarshalBn_loop l (lenDelim 0x0a bs @ rest) m =
      UnmarshalBn_loop l rest (m\<lparr>EncodedChildren := EncodedChildren m @ [bs]\<rparr>)"
    and "UnmarshalBn_loop l (lenDelim 0x12 bs @ rest) m = UnmarshalBn_loop l rest (m\<lparr>ChildrenVersion := bs\<rparr>)"
  using readBytes_encode [of l bs rest] assms
  by (simp_all add: lenDelim_def UnmarshalBn_loop.simps [of l "_ # _"])

lemma version_field:
  "UnmarshalEn_loop l (0x18 # encodeVarintNode (ucast v)) e = Inr (e\<lparr>ChildVersion := v\<rparr>)"
  "UnmarshalLn_loop l (0x18 # encodeVarintNode (ucast v)) m = Inr (m\<lparr>LnVersion := v\<rparr>)"
  using readVarint_encode32 [of v "[]"]
  by (simp_all add: UnmarshalEn_loop.simps [of l "[]"] UnmarshalEn_loop.simps [of l "_ # _"]
      UnmarshalLn_loop.simps [of l "[]"] UnmarshalLn_loop.simps [of l "_ # _"])

lemma end_of_buffer:
  "UnmarshalBn_loop l [] b = Inr b" "UnmarshalEn_loop l [] e = Inr e" "UnmarshalLn_loop l [] m = Inr m"
  by (simp_all add: UnmarshalBn_loop.simps UnmarshalEn_loop.simps UnmarshalLn_loop.simps)

lemmas decode_simps = field_En field_Ln field_Bn version_field end_of_buffer
  field_En [where rest = "[]", simplified] field_Ln [where rest = "[]", simplified]
  field_Bn [where rest = "[]", simplified] length_lenDelim lenSize_def

text \<open>Decoding gives back every message whose encoding fits Go's \<open>int\<close>. A leaf value is decoded to
  a non-nil slice only if it is non-empty, since an empty field is not written.\<close>

lemma UnmarshalEn_MarshalEn:
  assumes "length (MarshalEn m) < 2 ^ 63"
  shows "UnmarshalEn (MarshalEn m) = Inr m"
proof (cases m)
  case (fields k e v)
  with assms show ?thesis unfolding UnmarshalEn_def MarshalEn_def
    by (cases "k = []"; cases "e = []"; cases "v = 0") (simp_all add: decode_simps)
qed

lemma UnmarshalLn_MarshalLn:
  assumes "length (MarshalLn m) < 2 ^ 63" "LnValue m \<noteq> Some []"
  shows "UnmarshalLn (MarshalLn m) = Inr m"
proof (cases m)
  case (fields k val v)
  with assms show ?thesis unfolding UnmarshalLn_def MarshalLn_def
    by (cases "k = []"; cases val; cases "v = 0") (simp_all add: decode_simps)
qed

lemma children_Bn:
  assumes "l < 2 ^ 63" "length (concat (map (lenDelim 0x0a) es) @ rest) \<le> l"
  shows "UnmarshalBn_loop l (concat (map (lenDelim 0x0a) es) @ rest) m =
    UnmarshalBn_loop l rest (m\<lparr>EncodedChildren := EncodedChildren m @ es\<rparr>)"
  using assms(2)
proof (induction es arbitrary: m)
  case Nil
  then show ?case by simp
next
  case (Cons e es)
  then show ?case using assms(1) by (simp add: decode_simps)
qed

lemma UnmarshalBn_MarshalBn:
  assumes "length (MarshalBn m) < 2 ^ 63"
  shows "UnmarshalBn (MarshalBn m) = Inr m"
proof (cases m)
  case (fields es cv)
  with assms show ?thesis unfolding UnmarshalBn_def MarshalBn_def
    by (cases "cv = []")
      (simp_all add: children_Bn children_Bn [where rest = "[]", simplified] decode_simps)
qed

end
