(* ===== verification/Trie_Node.thy ===== *)
theory Trie_Node
  imports Proto_Codec Trie_Keys
begin

unbundle bit_operations_syntax

text \<open>
  The nodes of the Patricia-Merkle trie, from \<open>trie/node.go\<close>, \<open>trie/leafNode.go\<close>,
  \<open>trie/extensionNode.go\<close> and \<open>trie/branchNode.go\<close>. A node embeds its protocol-buffer message and
  the base part (cached hash, dirty flag); an extension holds one child pointer and a branch
  seventeen, nil (\<open>None\<close>) where the child is absent or collapsed to its hash in the message.
  The methods update their receiver in place, also on paths that then fail, so each model function
  returns the receiver's new value beside the result. The hasher and the marshalizer are the
  fields of \<open>deps\<close>; storage is the function \<open>get\<close> that reads a key. Functions that follow children
  through storage take fuel, spent once per node visited; \<open>OutOfFuel\<close> is not an error of the code.
  Error wrapping with extra text is dropped, and a run-time panic is the error value \<open>Panic\<close>.
\<close>

datatype trie_error =
    ErrNilNode
  | ErrEmptyLeafNode
  | ErrEmptyExtensionNode
  | ErrEmptyBranchNode
  | ErrChildPosOutOfRange
  | ErrValueTooShort
  | ErrInvalidEncoding
  | ErrInvalidNode
  | ErrNodeNotFound
  | ErrInvalidNodeVersion
  | ErrKeyNotFound
  | ErrContextClosing
  | ErrGetNodeFromDB bytes trie_error
  | ErrStorer string
  | ErrMarshal
  | ErrUnmarshal proto_error
  | ErrInvalidTrieNodeVersion
  | Panic
  | OutOfFuel

subsection \<open>Data\<close>

record baseNode =
  hash :: "bytes option"
  dirty :: bool

datatype node =
    LeafNode CollapsedLn baseNode
  | ExtensionNode CollapsedEn "node option" baseNode
  | BranchNode CollapsedBn "node option list" baseNode

text \<open>\<open>core.TrieNodeVersion\<close> is an 8-bit integer; \<open>NotSpecified\<close> is 0 and \<open>AutoBalanceEnabled\<close> 1.\<close>

type_synonym version = byte

definition NotSpecified :: version where "NotSpecified = 0"
definition AutoBalanceEnabled :: version where "AutoBalanceEnabled = 1"

record TrieData =
  Key :: bytes
  Value :: "bytes option"
  Version :: version

record deps =
  Compute :: "bytes \<Rightarrow> bytes"
  marshalLn :: "CollapsedLn \<Rightarrow> trie_error + bytes"
  marshalEn :: "CollapsedEn \<Rightarrow> trie_error + bytes"
  marshalBn :: "CollapsedBn \<Rightarrow> trie_error + bytes"
  unmarshalLn :: "bytes \<Rightarrow> trie_error + CollapsedLn"
  unmarshalEn :: "bytes \<Rightarrow> trie_error + CollapsedEn"
  unmarshalBn :: "bytes \<Rightarrow> trie_error + CollapsedBn"

type_synonym getter = "bytes \<Rightarrow> trie_error + bytes"

fun baseOf :: "node \<Rightarrow> baseNode" where
  "baseOf (LeafNode l b) = b"
| "baseOf (ExtensionNode e c b) = b"
| "baseOf (BranchNode m cs b) = b"

fun setBase :: "node \<Rightarrow> baseNode \<Rightarrow> node" where
  "setBase (LeafNode l _) b = LeafNode l b"
| "setBase (ExtensionNode e c _) b = ExtensionNode e c b"
| "setBase (BranchNode m cs _) b = BranchNode m cs b"

definition getHash :: "node \<Rightarrow> bytes option" where
  "getHash n = hash (baseOf n)"

definition setGivenHash :: "node \<Rightarrow> bytes \<Rightarrow> node" where
  "setGivenHash n h = setBase n ((baseOf n)\<lparr>hash := Some h\<rparr>)"

definition isDirty :: "node \<Rightarrow> bool" where
  "isDirty n = dirty (baseOf n)"

text \<open>The hash a modified clean node leaves behind.\<close>

definition oldHash :: "baseNode \<Rightarrow> bytes list" where
  "oldHash b = (if dirty b then [] else [slice (hash b)])"

definition newBase :: baseNode where
  "newBase = \<lparr>hash = None, dirty = True\<rparr>"

fun childAt :: "node \<Rightarrow> nat \<Rightarrow> node option" where
  "childAt (LeafNode l b) i = None"
| "childAt (ExtensionNode e c b) i = c"
| "childAt (BranchNode m cs b) i = (if i < length cs then cs ! i else None)"

fun setChildAt :: "node \<Rightarrow> nat \<Rightarrow> node option \<Rightarrow> node" where
  "setChildAt (LeafNode l b) i c = LeafNode l b"
| "setChildAt (ExtensionNode e _ b) i c = ExtensionNode e c b"
| "setChildAt (BranchNode m cs b) i c = BranchNode m (cs[i := c]) b"

definition childPosOutOfRange :: "byte \<Rightarrow> bool" where
  "childPosOutOfRange pos = (unat pos \<ge> nrOfChildren)"

subsection \<open>Presence of children and emptiness\<close>

text \<open>The test \<open>bn.children[i] == nil && len(bn.EncodedChildren[i]) == 0\<close>.\<close>

definition posNil :: "node option list \<Rightarrow> bytes list \<Rightarrow> nat \<Rightarrow> trie_error + bool" where
  "posNil cs es i = (case (if i < length cs then cs ! i else None) of
     Some _ \<Rightarrow> Inr False
   | None \<Rightarrow> (case idx Panic es i of Inl e \<Rightarrow> Inl e | Inr h \<Rightarrow> Inr (h = [])))"

definition childIndices :: "nat list" where
  "childIndices = [0..<nrOfChildren]"

fun anyChild :: "node option list \<Rightarrow> bytes list \<Rightarrow> nat list \<Rightarrow> trie_error option" where
  "anyChild cs es [] = Some ErrEmptyBranchNode"
| "anyChild cs es (i # is) = (case posNil cs es i of
     Inl e \<Rightarrow> Some e
   | Inr absent \<Rightarrow> if absent then anyChild cs es is else None)"

fun isEmptyOrNil :: "node \<Rightarrow> trie_error option" where
  "isEmptyOrNil (LeafNode l b) = (if LnValue l = None then Some ErrEmptyLeafNode else None)"
| "isEmptyOrNil (ExtensionNode e c b) =
     (if c = None \<and> EncodedChild e = [] then Some ErrEmptyExtensionNode else None)"
| "isEmptyOrNil (BranchNode m cs b) = anyChild cs (EncodedChildren m) childIndices"

fun getChildPosition :: "node option list \<Rightarrow> bytes list \<Rightarrow> nat list \<Rightarrow> nat \<times> nat \<Rightarrow> trie_error + nat \<times> nat" where
  "getChildPosition cs es [] acc = Inr acc"
| "getChildPosition cs es (i # is) acc = (case posNil cs es i of
     Inl e \<Rightarrow> Inl e
   | Inr absent \<Rightarrow> getChildPosition cs es is (if absent then acc else (Suc (fst acc), i)))"

fun isCollapsed :: "node \<Rightarrow> bool" where
  "isCollapsed (LeafNode l b) = False"
| "isCollapsed (ExtensionNode e c b) = (c = None \<and> EncodedChild e \<noteq> [])"
| "isCollapsed (BranchNode m cs b) = list_all (\<lambda>c. c = None) cs"

fun isPosCollapsed :: "node \<Rightarrow> nat \<Rightarrow> trie_error + bool" where
  "isPosCollapsed (LeafNode l b) pos = Inr False"
| "isPosCollapsed (ExtensionNode e c b) pos = Inr (isCollapsed (ExtensionNode e c b))"
| "isPosCollapsed (BranchNode m cs b) pos = (case idx Panic cs pos of
     Inl e \<Rightarrow> Inl e
   | Inr (Some _) \<Rightarrow> Inr False
   | Inr None \<Rightarrow> (case idx Panic (EncodedChildren m) pos of Inl e \<Rightarrow> Inl e | Inr h \<Rightarrow> Inr (h \<noteq> [])))"

fun isValid :: "node \<Rightarrow> bool" where
  "isValid (LeafNode l b) = (slice (LnValue l) \<noteq> [])"
| "isValid (ExtensionNode e c b) =
     (if EncodedChild e = [] \<and> c = None then False else EnKey e \<noteq> [])"
| "isValid (BranchNode m cs b) =
     (length (filter (\<lambda>i. EncodedChildren m ! i \<noteq> [] \<or> childAt (BranchNode m cs b) i \<noteq> None)
        [0..<length (EncodedChildren m)]) \<ge> 2)"

subsection \<open>Versions\<close>

text \<open>The two loops of \<open>branchNode.getVersion\<close>: the version of the first child that is present,
  then the comparison with the remaining ones.\<close>

fun firstChildVersion :: "node option list \<Rightarrow> bytes list \<Rightarrow> bytes \<Rightarrow> nat list \<Rightarrow> trie_error + version \<times> nat list" where
  "firstChildVersion cs es vs [] = Inr (0, [])"
| "firstChildVersion cs es vs (i # is) = (case posNil cs es i of
     Inl e \<Rightarrow> Inl e
   | Inr absent \<Rightarrow>
       if absent then firstChildVersion cs es vs is
       else (case idx Panic vs i of Inl e \<Rightarrow> Inl e | Inr v \<Rightarrow> Inr (v, is)))"

fun restChildVersion :: "node option list \<Rightarrow> bytes list \<Rightarrow> bytes \<Rightarrow> version \<Rightarrow> nat list \<Rightarrow> trie_error + version" where
  "restChildVersion cs es vs v [] = Inr v"
| "restChildVersion cs es vs v (i # is) = (case posNil cs es i of
     Inl e \<Rightarrow> Inl e
   | Inr absent \<Rightarrow>
       if absent then restChildVersion cs es vs v is
       else (case idx Panic vs i of
         Inl e \<Rightarrow> Inl e
       | Inr w \<Rightarrow> if w \<noteq> v then Inr NotSpecified else restChildVersion cs es vs v is))"

fun getVersion :: "node \<Rightarrow> trie_error + version" where
  "getVersion (LeafNode l b) =
     (if LnVersion l > 255 then Inl ErrInvalidNodeVersion else Inr (ucast (LnVersion l)))"
| "getVersion (ExtensionNode e c b) =
     (if ChildVersion e > 255 then Inl ErrInvalidNodeVersion else Inr (ucast (ChildVersion e)))"
| "getVersion (BranchNode m cs b) =
     (if ChildrenVersion m = [] then Inr NotSpecified
      else case firstChildVersion cs (EncodedChildren m) (ChildrenVersion m) childIndices of
        Inl e \<Rightarrow> Inl e
      | Inr (v, rest) \<Rightarrow> restChildVersion cs (EncodedChildren m) (ChildrenVersion m) v rest)"

definition revertChildrenVersionSliceIfNeeded :: "bytes \<Rightarrow> bytes" where
  "revertChildrenVersionSliceIfNeeded vs = (if list_all (\<lambda>v. v = NotSpecified) vs then [] else vs)"

definition setVersionForChild :: "CollapsedBn \<Rightarrow> version \<Rightarrow> nat \<Rightarrow> trie_error + CollapsedBn" where
  "setVersionForChild m version pos =
     (let sliceNotInitialized = (ChildrenVersion m = []) in
      if version = NotSpecified \<and> sliceNotInitialized then Inr m
      else
        let vs = (if sliceNotInitialized then replicate nrOfChildren 0 else ChildrenVersion m) in
        if pos \<ge> length vs then Inl Panic
        else
          let vs' = vs[pos := version] in
          Inr (m\<lparr>ChildrenVersion :=
            (if version = NotSpecified then revertChildrenVersionSliceIfNeeded vs' else vs')\<rparr>))"

subsection \<open>Construction\<close>

definition newLeafNode :: "TrieData \<Rightarrow> node" where
  "newLeafNode d =
     LeafNode \<lparr>LnKey = Key d, LnValue = Value d, LnVersion = ucast (Version d)\<rparr> newBase"

definition newExtensionNode :: "bytes \<Rightarrow> node option \<Rightarrow> trie_error + node" where
  "newExtensionNode key child = (case child of
     None \<Rightarrow> Inl ErrNilNode
   | Some c \<Rightarrow> (case getVersion c of
       Inl e \<Rightarrow> Inl e
     | Inr v \<Rightarrow> Inr (ExtensionNode
         \<lparr>EnKey = key, EncodedChild = [], ChildVersion = ucast v\<rparr> (Some c) newBase)))"

definition newBranchNode :: node where
  "newBranchNode = BranchNode
     \<lparr>EncodedChildren = replicate nrOfChildren [], ChildrenVersion = []\<rparr>
     (replicate nrOfChildren None) newBase"

text \<open>\<open>bn.children[pos] = child\<close> with \<open>bn.setVersionForChild(version, pos)\<close>.\<close>

fun putChild :: "node \<Rightarrow> nat \<Rightarrow> node \<Rightarrow> version \<Rightarrow> trie_error + node" where
  "putChild (BranchNode m cs b) pos child version = (case setVersionForChild m version pos of
     Inl e \<Rightarrow> Inl e
   | Inr m' \<Rightarrow> Inr (BranchNode m' (cs[pos := Some child]) b))"
| "putChild n pos child version = Inl Panic"

subsection \<open>Encoding, decoding and resolving collapsed children\<close>

text \<open>The trailing byte of an encoded node names its kind.\<close>

definition extension :: byte where "extension = 0"
definition leaf :: byte where "leaf = 1"
definition branch :: byte where "branch = 2"

fun marshalNode :: "deps \<Rightarrow> node \<Rightarrow> trie_error + bytes" where
  "marshalNode D (LeafNode l b) = marshalLn D l"
| "marshalNode D (ExtensionNode e c b) = marshalEn D e"
| "marshalNode D (BranchNode m cs b) = marshalBn D m"

fun nodeTag :: "node \<Rightarrow> byte" where
  "nodeTag (LeafNode l b) = leaf"
| "nodeTag (ExtensionNode e c b) = extension"
| "nodeTag (BranchNode m cs b) = branch"

definition getEncodedNode :: "deps \<Rightarrow> node \<Rightarrow> trie_error + bytes" where
  "getEncodedNode D n = (case isEmptyOrNil n of
     Some e \<Rightarrow> Inl e
   | None \<Rightarrow> (case marshalNode D n of Inl e \<Rightarrow> Inl e | Inr bs \<Rightarrow> Inr (bs @ [nodeTag n])))"

definition encodeNodeAndGetHash :: "deps \<Rightarrow> node \<Rightarrow> trie_error + bytes" where
  "encodeNodeAndGetHash D n =
     (case getEncodedNode D n of Inl e \<Rightarrow> Inl e | Inr enc \<Rightarrow> Inr (Compute D enc))"

definition decodeNode :: "deps \<Rightarrow> bytes \<Rightarrow> trie_error + node" where
  "decodeNode D encNode =
     (if length encNode < 1 then Inl ErrInvalidEncoding
      else
        let nodeType = last encNode; enc = butlast encNode; b = \<lparr>hash = None, dirty = False\<rparr> in
        if nodeType = extension then
          (case unmarshalEn D enc of Inl e \<Rightarrow> Inl e | Inr m \<Rightarrow> Inr (ExtensionNode m None b))
        else if nodeType = leaf then
          (case unmarshalLn D enc of Inl e \<Rightarrow> Inl e | Inr m \<Rightarrow> Inr (LeafNode m b))
        else if nodeType = branch then
          (case unmarshalBn D enc of
             Inl e \<Rightarrow> Inl e | Inr m \<Rightarrow> Inr (BranchNode m (replicate nrOfChildren None) b))
        else Inl ErrInvalidNode)"

definition getNodeFromDBAndDecode :: "deps \<Rightarrow> getter \<Rightarrow> bytes \<Rightarrow> trie_error + node" where
  "getNodeFromDBAndDecode D get h =
     (case get h of Inl e \<Rightarrow> Inl (ErrGetNodeFromDB h e) | Inr enc \<Rightarrow> decodeNode D enc)"

fun resolveCollapsed :: "deps \<Rightarrow> getter \<Rightarrow> node \<Rightarrow> nat \<Rightarrow> trie_error + node" where
  "resolveCollapsed D get (LeafNode l b) pos = Inr (LeafNode l b)"
| "resolveCollapsed D get (ExtensionNode e c b) pos =
     (case isEmptyOrNil (ExtensionNode e c b) of
        Some er \<Rightarrow> Inl er
      | None \<Rightarrow> (case getNodeFromDBAndDecode D get (EncodedChild e) of
          Inl er \<Rightarrow> Inl er
        | Inr child \<Rightarrow> Inr (ExtensionNode e (Some (setGivenHash child (EncodedChild e))) b)))"
| "resolveCollapsed D get (BranchNode m cs b) pos =
     (case isEmptyOrNil (BranchNode m cs b) of
        Some er \<Rightarrow> Inl er
      | None \<Rightarrow>
          if pos \<ge> nrOfChildren then Inl ErrChildPosOutOfRange
          else (case idx Panic (EncodedChildren m) pos of
            Inl er \<Rightarrow> Inl er
          | Inr h \<Rightarrow>
              if h \<noteq> [] then
                (case getNodeFromDBAndDecode D get h of
                   Inl er \<Rightarrow> Inl er
                 | Inr child \<Rightarrow> Inr (BranchNode m (cs[pos := Some (setGivenHash child h)]) b))
              else Inr (BranchNode m cs b)))"

definition resolveIfCollapsed :: "deps \<Rightarrow> getter \<Rightarrow> node \<Rightarrow> nat \<Rightarrow> trie_error + node" where
  "resolveIfCollapsed D get n pos = (case isEmptyOrNil n of
     Some e \<Rightarrow> Inl e
   | None \<Rightarrow> (case isPosCollapsed n pos of
       Inl e \<Rightarrow> Inl e
     | Inr collapsed \<Rightarrow> if collapsed then resolveCollapsed D get n pos else Inr n))"

end
