(* ===== verification/Trie_Interface.thy ===== *)
theory Trie_Interface
  imports Trie_Spec Trie_Node
begin

text \<open>
  The trie as its clients see it: the Go interface \<open>common.Trie\<close> is the record \<open>trieOps\<close> of operations on
  a trie of any type over a storage of any type, and what the clients rely on is the locale \<open>trie_laws\<close>,
  stated over the content of a trie. \<open>Trie_Provider\<close> shows that the Patricia-Merkle trie keeps the laws.
\<close>

record ('db, 't) trieOps =
  opGet :: "'db \<Rightarrow> 't \<Rightarrow> bytes \<Rightarrow> 't \<times> (trie_error + bytes option) \<times> u32"
  opUpdate :: "'db \<Rightarrow> 't \<Rightarrow> bytes \<Rightarrow> bytes \<Rightarrow> 't \<times> trie_error option"
  opUpdateWithVersion :: "'db \<Rightarrow> 't \<Rightarrow> bytes \<Rightarrow> bytes \<Rightarrow> version \<Rightarrow> 't \<times> trie_error option"
  opDelete :: "'db \<Rightarrow> 't \<Rightarrow> bytes \<Rightarrow> 't \<times> trie_error option"
  opRootHash :: "'t \<Rightarrow> 't \<times> (trie_error + bytes)"
  opRecreate :: "'db \<Rightarrow> 't \<Rightarrow> bytes \<Rightarrow> trie_error + 't"
  opGetAllHashes :: "'db \<Rightarrow> 't \<Rightarrow> 't \<times> (trie_error + bytes list)"
  opGetObsoleteHashes :: "'t \<Rightarrow> bytes list"
  opGetDirtyHashes :: "'t \<Rightarrow> 't \<times> (trie_error + bytes list)"
  opGetOldRoot :: "'t \<Rightarrow> bytes"
  opCommit :: "'db \<Rightarrow> 't \<Rightarrow> 't \<times> 'db \<times> trie_error option"

locale trie_laws =
  fixes T :: "('db, 't) trieOps"
    and con :: "'db \<Rightarrow> (bytes \<rightharpoonup> entry) \<Rightarrow> 't \<Rightarrow> bool"
  assumes get_con: "con db m t \<Longrightarrow> \<exists>t' d. opGet T db t k = (t', Inr (map_option fst (m k)), d) \<and> con db m t'"
    and update_con: "con db m t \<Longrightarrow> v \<noteq> [] \<Longrightarrow>
      \<exists>t'. opUpdateWithVersion T db t k v w = (t', None) \<and> con db (m(k \<mapsto> pput (m k) v w)) t'"
    and update_empty: "con db m t \<Longrightarrow> \<exists>t'. opUpdateWithVersion T db t k [] w = (t', None) \<and> con db (m(k := None)) t'"
    and delete_con: "con db m t \<Longrightarrow> \<exists>t'. opDelete T db t k = (t', None) \<and> con db (m(k := None)) t'"
    and update_unversioned: "opUpdate T db t k v = opUpdateWithVersion T db t k v NotSpecified"
    and root_con: "con db m t \<Longrightarrow> \<exists>t' h. opRootHash T t = (t', Inr h) \<and> con db m t'"
    and root_same: "con db m t \<Longrightarrow> con db' m t' \<Longrightarrow> snd (opRootHash T t) = snd (opRootHash T t')"
    and recreate_empty: "con db m t \<Longrightarrow> \<exists>t'. opRecreate T db t [] = Inr t' \<and> con db Map.empty t'"
    and con_value: "con db m t \<Longrightarrow> m k = Some (v, w) \<Longrightarrow> v \<noteq> []"

end
