(* ===== verification/Trackable_Trie.thy ===== *)
theory Trackable_Trie
  imports Trie_Interface "HOL-Library.AList" "HOL-Library.List_Lexorder"
begin

text \<open>
  The data trie of an account with its unsaved changes, \<open>state/trackableDataTrie/trackableDataTrie.go\<close>.
  The map of dirty data is an association list with distinct keys; its order is the order in which the
  source happens to visit the map. The trie is passed to the operations and returned changed. The hasher,
  the marshaller of \<open>TrieLeafData\<close>, the epoch flag, \<open>core.GetVersionForNewData\<close> and \<open>core.MaxLeafSize\<close> are an
  environment; the collector of state accesses only records and is left out.
\<close>

datatype state_error = TrieErr trie_error | ErrNilTrie | ErrLeafSizeTooBig | ErrMarshalling | ErrUnmarshalling
  | ErrIndexOutOfRange | ErrNilAddress | ErrAccNotFound | ErrSnapshotValueOutOfBounds | ErrInsufficientFunds
  | ErrOperationNotPermitted | ErrInvalidAddressLength | ErrNilOrEmptyDataTrieUpdates | ErrInvalidRootHash
  | ErrPruningManager | ErrCollectorStore | NilDereference

record trieLeafData =
  tldValue :: bytes
  tldKey :: bytes
  tldAddress :: bytes

record tdtEnv =
  autoBalanceFlag :: bool
  GetVersionForNewData :: version
  hashKey :: "bytes \<Rightarrow> bytes"
  marshalLeafData :: "trieLeafData \<Rightarrow> state_error + bytes"
  unmarshalLeafData :: "bytes \<Rightarrow> state_error + trieLeafData"
  MaxLeafSize :: nat

record dirtyEntry =
  deIndex :: nat
  deValue :: bytes
  deVersion :: version

type_synonym dirtyMap = "(bytes \<times> dirtyEntry) list"

record dataTrieChange =
  dcKey :: bytes
  dcVal :: bytes
  dcVersion :: version
  dcDelete :: bool

definition getIndexForKey :: "dirtyMap \<Rightarrow> bytes \<Rightarrow> nat" where
  "getIndexForKey dd key = (case map_of dd key of Some d \<Rightarrow> deIndex d | None \<Rightarrow> length dd)"

definition SaveKeyValue :: "tdtEnv \<Rightarrow> bytes \<Rightarrow> bytes \<Rightarrow> dirtyMap \<Rightarrow> state_error + dirtyMap" where
  "SaveKeyValue E key value dd =
     (if length value > MaxLeafSize E then Inl ErrLeafSizeTooBig
      else Inr (AList.update key \<lparr>deIndex = getIndexForKey dd key, deValue = value,
                  deVersion = GetVersionForNewData E\<rparr> dd))"

definition getKeyForVersion :: "tdtEnv \<Rightarrow> bytes \<Rightarrow> version \<Rightarrow> bytes" where
  "getKeyForVersion E key version = (if version = AutoBalanceEnabled then hashKey E key else key)"

definition getValueForVersion :: "tdtEnv \<Rightarrow> bytes \<Rightarrow> bytes \<Rightarrow> bytes \<Rightarrow> version \<Rightarrow> state_error + bytes" where
  "getValueForVersion E ident key value version =
     (if length value = 0 then Inr []
      else if version = AutoBalanceEnabled then
        marshalLeafData E \<lparr>tldValue = value, tldKey = key, tldAddress = ident\<rparr>
      else Inr (value @ (key @ ident)))"

definition getOriginalKeyFromTrieData :: "tdtEnv \<Rightarrow> TrieData \<Rightarrow> state_error + bytes" where
  "getOriginalKeyFromTrieData E d =
     (if Version d = AutoBalanceEnabled then
        (case unmarshalLeafData E (slice (Value d)) of Inl e \<Rightarrow> Inl e | Inr l \<Rightarrow> Inr (tldKey l))
      else Inr (Key d))"

subsection \<open>Reading\<close>

text \<open>Both results of a lookup in the trie are returned with the trie, which may have loaded nodes.\<close>

definition retrieveRaw :: "tdtEnv \<Rightarrow> ('db, 't) trieOps \<Rightarrow> 'db \<Rightarrow> 't \<Rightarrow> bytes \<Rightarrow> 't \<times> (state_error + TrieData \<times> u32)" where
  "retrieveRaw E T db t key = (case opGet T db t key of
     (t', Inl e, _) \<Rightarrow> (t', Inl (TrieErr e))
   | (t', Inr v, depth) \<Rightarrow>
       if length (slice v) \<noteq> 0 then (t', Inr (\<lparr>Key = key, Value = v, Version = NotSpecified\<rparr>, depth))
       else (t', Inr (\<lparr>Key = getKeyForVersion E key (GetVersionForNewData E), Value = None,
                       Version = GetVersionForNewData E\<rparr>, depth)))"

definition retrieveValueFromTrie :: "tdtEnv \<Rightarrow> ('db, 't) trieOps \<Rightarrow> 'db \<Rightarrow> 't \<Rightarrow> bytes \<Rightarrow>
    't \<times> (state_error + TrieData \<times> u32)" where
  "retrieveValueFromTrie E T db t key =
     (if autoBalanceFlag E then
        let hashedKey = hashKey E key in
        (case opGet T db t hashedKey of
           (t', Inl e, _) \<Rightarrow> (t', Inl (TrieErr e))
         | (t', Inr v, depth) \<Rightarrow>
             if length (slice v) \<noteq> 0 then (t', Inr (\<lparr>Key = hashedKey, Value = v, Version = AutoBalanceEnabled\<rparr>, depth))
             else retrieveRaw E T db t' key)
      else retrieveRaw E T db t key)"

definition TrimSuffixFromValue :: "bytes \<Rightarrow> nat \<Rightarrow> bytes option" where
  "TrimSuffixFromValue value suffixLength =
     (if suffixLength = 0 then Some value
      else if length value < suffixLength then None
      else Some (take (length value - suffixLength) value))"

definition getValueNotSpecifiedVersion :: "bytes \<Rightarrow> bytes \<Rightarrow> bytes \<Rightarrow> bytes" where
  "getValueNotSpecifiedVersion ident key val = slice (TrimSuffixFromValue val (length key + length ident))"

definition getValueAutoBalanceVersion :: "tdtEnv \<Rightarrow> bytes \<Rightarrow> state_error + bytes" where
  "getValueAutoBalanceVersion E val =
     (case unmarshalLeafData E val of Inl e \<Rightarrow> Inl e | Inr l \<Rightarrow> Inr (tldValue l))"

definition getValueWithoutMetadata :: "tdtEnv \<Rightarrow> bytes \<Rightarrow> bytes \<Rightarrow> TrieData \<Rightarrow> state_error + bytes" where
  "getValueWithoutMetadata E ident key d =
     (if length (slice (Value d)) = 0 then Inr []
      else if Version d = AutoBalanceEnabled then getValueAutoBalanceVersion E (slice (Value d))
      else Inr (getValueNotSpecifiedVersion ident key (slice (Value d))))"

definition RetrieveValue :: "tdtEnv \<Rightarrow> ('db, 't) trieOps \<Rightarrow> 'db \<Rightarrow> bytes \<Rightarrow> dirtyMap \<Rightarrow> 't option \<Rightarrow> bytes \<Rightarrow>
    't option \<times> (state_error + bytes \<times> u32)" where
  "RetrieveValue E T db ident dd tr key = (case map_of dd key of
     Some d \<Rightarrow> (tr, Inr (deValue d, 0))
   | None \<Rightarrow> (case tr of
       None \<Rightarrow> (None, Inl ErrNilTrie)
     | Some t \<Rightarrow> (case retrieveValueFromTrie E T db t key of
         (t', Inl e) \<Rightarrow> (Some t', Inl e)
       | (t', Inr (d, depth)) \<Rightarrow> (case getValueWithoutMetadata E ident key d of
           Inl e \<Rightarrow> (Some t', Inl e)
         | Inr v \<Rightarrow> (Some t', Inr (v, depth))))))"

subsection \<open>Saving the dirty data\<close>

definition trieStep :: "'t \<times> trie_error option \<Rightarrow> 'a \<Rightarrow> 't \<times> (state_error + 'a)" where
  "trieStep r a = (case r of (t, Some e) \<Rightarrow> (t, Inl (TrieErr e)) | (t, None) \<Rightarrow> (t, Inr a))"

definition deleteOldEntryIfMigrated :: "tdtEnv \<Rightarrow> ('db, 't) trieOps \<Rightarrow> 'db \<Rightarrow> 't \<Rightarrow> bytes \<Rightarrow> dirtyEntry \<Rightarrow> TrieData \<Rightarrow>
    't \<times> (state_error + bool)" where
  "deleteOldEntryIfMigrated E T db t key newData oldEntry =
     (if \<not> autoBalanceFlag E then (t, Inr False)
      else if Version oldEntry = NotSpecified \<and> deVersion newData = AutoBalanceEnabled \<and> length (deValue newData) \<noteq> 0
        then trieStep (opDelete T db t key) True
      else (t, Inr False))"

definition deleteFromTrie :: "tdtEnv \<Rightarrow> ('db, 't) trieOps \<Rightarrow> 'db \<Rightarrow> 't \<Rightarrow> TrieData \<Rightarrow> bytes \<Rightarrow> 't \<times> (state_error + bytes)" where
  "deleteFromTrie E T db t oldVal key =
     (if length (slice (Value oldVal)) = 0 then (t, Inr [])
      else if Version oldVal = AutoBalanceEnabled then trieStep (opDelete T db t (hashKey E key)) (hashKey E key)
      else if Version oldVal = NotSpecified then trieStep (opDelete T db t key) key
      else (t, Inr []))"

definition modifyTrie :: "tdtEnv \<Rightarrow> ('db, 't) trieOps \<Rightarrow> 'db \<Rightarrow> bytes \<Rightarrow> 't \<Rightarrow> bytes \<Rightarrow> dirtyEntry \<Rightarrow> TrieData \<Rightarrow>
    't \<times> (state_error + bytes)" where
  "modifyTrie E T db ident t key d oldVal =
     (let version = deVersion d; newKey = getKeyForVersion E key version
      in if length (deValue d) = 0 then deleteFromTrie E T db t oldVal key
         else (case getValueForVersion E ident key (deValue d) version of
           Inl e \<Rightarrow> (t, Inl e)
         | Inr value \<Rightarrow> trieStep (opUpdateWithVersion T db t newKey value version) newKey))"

text \<open>The slices the loop of \<open>updateTrie\<close> fills: the first part of \<open>oldValues\<close>, the part appended for first
  migrations, the new values by index and the deleted keys.\<close>

record updateAcc =
  accOld :: "TrieData list"
  accExtra :: "TrieData list"
  accNew :: "dataTrieChange option list"
  accDeleted :: "dataTrieChange list"

definition newDataChange :: "tdtEnv \<Rightarrow> bytes \<Rightarrow> bytes \<Rightarrow> dirtyEntry \<Rightarrow> TrieData \<Rightarrow> state_error + dataTrieChange" where
  "newDataChange E ident key d oldVal =
     (if length (deValue d) = 0 then
        (case getValueWithoutMetadata E ident key oldVal of
           Inl e \<Rightarrow> Inl e
         | Inr v \<Rightarrow> Inr \<lparr>dcKey = key, dcVal = v, dcVersion = Version oldVal, dcDelete = True\<rparr>)
      else Inr \<lparr>dcKey = key, dcVal = deValue d, dcVersion = deVersion d, dcDelete = False\<rparr>)"

definition recordChange :: "tdtEnv \<Rightarrow> bytes \<Rightarrow> bytes \<Rightarrow> dirtyEntry \<Rightarrow> TrieData \<Rightarrow> bool \<Rightarrow> bytes \<Rightarrow> updateAcc \<Rightarrow>
    state_error + updateAcc" where
  "recordChange E ident key d oldVal wasDeleted dataTrieKey acc0 =
     (let acc1 = acc0\<lparr>accOld := accOld acc0 @ [oldVal]\<rparr>;
          acc2 = (if wasDeleted then acc1\<lparr>accDeleted := accDeleted acc1 @
            [\<lparr>dcKey = key, dcVal = getValueNotSpecifiedVersion ident key (slice (Value oldVal)),
              dcVersion = NotSpecified, dcDelete = True\<rparr>]\<rparr> else acc1);
          isFirstMigration = (Version oldVal = NotSpecified \<and> deVersion d = AutoBalanceEnabled);
          acc3 = (if isFirstMigration \<and> length dataTrieKey \<noteq> 0
            then acc2\<lparr>accExtra := accExtra acc2 @ [\<lparr>Key = dataTrieKey, Value = None, Version = NotSpecified\<rparr>]\<rparr> else acc2)
      in if length dataTrieKey = 0 then Inr acc3
         else if deIndex d \<ge> length (accNew acc3) then Inl ErrIndexOutOfRange
         else (case newDataChange E ident key d oldVal of
           Inl e \<Rightarrow> Inl e
         | Inr c \<Rightarrow> Inr (acc3\<lparr>accNew := (accNew acc3)[deIndex d := Some c]\<rparr>)))"

definition updateEntry :: "tdtEnv \<Rightarrow> ('db, 't) trieOps \<Rightarrow> 'db \<Rightarrow> bytes \<Rightarrow> 't \<Rightarrow> bytes \<Rightarrow> dirtyEntry \<Rightarrow> updateAcc \<Rightarrow>
    't \<times> (state_error + updateAcc)" where
  "updateEntry E T db ident t key d acc = (case retrieveValueFromTrie E T db t key of
     (t1, Inl e) \<Rightarrow> (t1, Inl e)
   | (t1, Inr (oldVal, _)) \<Rightarrow> (case deleteOldEntryIfMigrated E T db t1 key d oldVal of
       (t2, Inl e) \<Rightarrow> (t2, Inl e)
     | (t2, Inr wasDeleted) \<Rightarrow> (case modifyTrie E T db ident t2 key d oldVal of
         (t3, Inl e) \<Rightarrow> (t3, Inl e)
       | (t3, Inr dataTrieKey) \<Rightarrow> (t3, recordChange E ident key d oldVal wasDeleted dataTrieKey acc))))"

fun updateTrieLoop :: "tdtEnv \<Rightarrow> ('db, 't) trieOps \<Rightarrow> 'db \<Rightarrow> bytes \<Rightarrow> dirtyMap \<Rightarrow> 't \<Rightarrow> updateAcc \<Rightarrow>
    't \<times> (state_error + updateAcc)" where
  "updateTrieLoop E T db ident [] t acc = (t, Inr acc)"
| "updateTrieLoop E T db ident ((key, d) # ds) t acc = (case updateEntry E T db ident t key d acc of
     (t', Inl e) \<Rightarrow> (t', Inl e)
   | (t', Inr acc') \<Rightarrow> updateTrieLoop E T db ident ds t' acc')"

definition updateTrie :: "tdtEnv \<Rightarrow> ('db, 't) trieOps \<Rightarrow> 'db \<Rightarrow> bytes \<Rightarrow> dirtyMap \<Rightarrow> 't \<Rightarrow>
    't \<times> (state_error + dataTrieChange list \<times> TrieData list)" where
  "updateTrie E T db ident dd t =
     (case updateTrieLoop E T db ident dd t
        \<lparr>accOld = [], accExtra = [], accNew = replicate (length dd) None, accDeleted = []\<rparr> of
        (t', Inl e) \<Rightarrow> (t', Inl e)
      | (t', Inr acc) \<Rightarrow> (t', Inr
          (filter (\<lambda>c. dcKey c \<noteq> []) (List.map_filter id (accNew acc)) @ sort_key dcKey (accDeleted acc),
           accOld acc @ accExtra acc)))"

text \<open>The result has the dirty data that remain: none after a success.\<close>

definition SaveDirtyData :: "tdtEnv \<Rightarrow> ('db, 't) trieOps \<Rightarrow> 'db \<Rightarrow> 't \<Rightarrow> bytes \<Rightarrow> dirtyMap \<Rightarrow> 't option \<Rightarrow>
    't option \<times> dirtyMap \<times> (state_error + dataTrieChange list \<times> TrieData list)" where
  "SaveDirtyData E T db mainTrie ident dd tr =
     (if dd = [] then (tr, dd, Inr ([], []))
      else case (case tr of Some t \<Rightarrow> Inr t | None \<Rightarrow> opRecreate T db mainTrie []) of
        Inl e \<Rightarrow> (tr, dd, Inl (TrieErr e))
      | Inr t \<Rightarrow> (case updateTrie E T db ident dd t of
          (t', Inl e) \<Rightarrow> (Some t', dd, Inl e)
        | (t', Inr r) \<Rightarrow> (Some t', [], Inr r)))"

text \<open>\<open>journalEntryDataTrieUpdates.Revert\<close> writes the old values back, last one first.\<close>

fun revertUpdates :: "('db, 't) trieOps \<Rightarrow> 'db \<Rightarrow> TrieData list \<Rightarrow> 't \<Rightarrow> 't \<times> trie_error option" where
  "revertUpdates T db [] t = (t, None)"
| "revertUpdates T db (d # ds) t = (case opUpdateWithVersion T db t (Key d) (slice (Value d)) (Version d) of
     (t', Some e) \<Rightarrow> (t', Some e)
   | (t', None) \<Rightarrow> revertUpdates T db ds t')"

end
