(* ===== verification/Accounts_DB.thy ===== *)
theory Accounts_DB
  imports Trackable_Trie
begin

text \<open>
  The account state, \<open>state/accountsDB.go\<close> with the journal of \<open>state/journalEntries.go\<close>, the holder of data
  tries and the user account of \<open>state/accounts/userAccount.go\<close>. Accounts and data tries are shared through
  pointers: the caller, the journal and the holder of data tries may all have the same object, so both kinds of
  objects live in a store (two lists, a reference is an index). The tries are the operations of
  \<open>Trie_Interface\<close>; the marshaller, the hasher, the pruning manager's answer and the answer of the collector of
  state accesses are an environment. A method that fails returns the state it leaves behind.
\<close>

record userAccountData =
  uaNonce :: u64
  uaBalance :: int
  uaCodeHash :: bytes
  uaRootHash :: bytes
  uaAddress :: bytes
  uaDeveloperReward :: int
  uaOwnerAddress :: bytes
  uaUserName :: bytes
  uaCodeMetadata :: bytes

record userAccount =
  accData :: userAccountData
  accDirty :: dirtyMap
  accTrie :: "nat option"
  accCode :: bytes
  hasNewCode :: bool

record codeEntry =
  ceCode :: bytes
  NumReferences :: u32

datatype journalEntry =
    JournalEntryCode "codeEntry option" bytes bytes
  | JournalEntryAccount userAccountData
  | JournalEntryAccountCreation bytes
  | JournalEntryDataTrieUpdates "TrieData list" nat
  | JournalEntryDataTrieRemove bytes

record accEnv =
  tdtEnvOf :: tdtEnv
  codeHash :: "bytes \<Rightarrow> bytes"
  marshalAccount :: "userAccountData \<Rightarrow> state_error + bytes"
  unmarshalAccount :: "bytes \<Rightarrow> state_error + userAccountData"
  marshalCode :: "codeEntry \<Rightarrow> state_error + bytes"
  unmarshalCode :: "bytes \<Rightarrow> state_error + codeEntry"
  IsPruningEnabled :: bool
  MarkForEvictionErr :: "bytes \<Rightarrow> bytes \<Rightarrow> state_error option"
  CollectorStoreErr :: "state_error option"

record ('db, 't) accountsDB =
  mainTrie :: 't
  dataTries :: "(bytes \<times> nat) list"
  obsoleteDataTrieHashes :: "(bytes \<times> bytes list) list"
  lastRootHash :: bytes
  entries :: "journalEntry list"
  storage :: 'db
  objects :: "userAccount list"
  tries :: "'t list"
  evictions :: "(bytes \<times> bytes \<times> bytes list \<times> bytes list) list"

type_synonym ('db, 't, 'a) adb_result = "('db, 't) accountsDB \<times> (state_error + 'a)"

subsection \<open>The user account\<close>

definition NewUserAccount :: "bytes \<Rightarrow> state_error + userAccount" where
  "NewUserAccount address =
     (if length address = 0 then Inl ErrNilAddress
      else Inr \<lparr>accData = \<lparr>uaNonce = 0, uaBalance = 0, uaCodeHash = [], uaRootHash = [], uaAddress = address,
          uaDeveloperReward = 0, uaOwnerAddress = [], uaUserName = [], uaCodeMetadata = []\<rparr>,
        accDirty = [], accTrie = None, accCode = [], hasNewCode = False\<rparr>)"

definition modData :: "(userAccountData \<Rightarrow> userAccountData) \<Rightarrow> userAccount \<Rightarrow> userAccount" where
  "modData f a = a\<lparr>accData := f (accData a)\<rparr>"

definition AddressBytes :: "userAccount \<Rightarrow> bytes" where
  "AddressBytes a = uaAddress (accData a)"

definition AddToBalance :: "int \<Rightarrow> userAccount \<Rightarrow> state_error + userAccount" where
  "AddToBalance value a = (let newBalance = uaBalance (accData a) + value
     in if newBalance < 0 then Inl ErrInsufficientFunds else Inr (modData (\<lambda>d. d\<lparr>uaBalance := newBalance\<rparr>) a))"

definition SubFromBalance :: "int \<Rightarrow> userAccount \<Rightarrow> state_error + userAccount" where
  "SubFromBalance value a = (let newBalance = uaBalance (accData a) - value
     in if newBalance < 0 then Inl ErrInsufficientFunds else Inr (modData (\<lambda>d. d\<lparr>uaBalance := newBalance\<rparr>) a))"

definition ClaimDeveloperRewards :: "bytes \<Rightarrow> userAccount \<Rightarrow> state_error + int \<times> userAccount" where
  "ClaimDeveloperRewards sndAddress a =
     (if sndAddress \<noteq> uaOwnerAddress (accData a) then Inl ErrOperationNotPermitted
      else Inr (uaDeveloperReward (accData a), modData (\<lambda>d. d\<lparr>uaDeveloperReward := 0\<rparr>) a))"

definition AddToDeveloperReward :: "int \<Rightarrow> userAccount \<Rightarrow> userAccount" where
  "AddToDeveloperReward value = modData (\<lambda>d. d\<lparr>uaDeveloperReward := uaDeveloperReward d + value\<rparr>)"

definition ChangeOwnerAddress :: "bytes \<Rightarrow> bytes \<Rightarrow> userAccount \<Rightarrow> state_error + userAccount" where
  "ChangeOwnerAddress sndAddress newAddress a =
     (if sndAddress \<noteq> uaOwnerAddress (accData a) then Inl ErrOperationNotPermitted
      else if length newAddress \<noteq> length (uaAddress (accData a)) then Inl ErrInvalidAddressLength
      else Inr (modData (\<lambda>d. d\<lparr>uaOwnerAddress := newAddress\<rparr>) a))"

definition SetOwnerAddress :: "bytes \<Rightarrow> userAccount \<Rightarrow> userAccount" where
  "SetOwnerAddress address = modData (\<lambda>d. d\<lparr>uaOwnerAddress := address\<rparr>)"

definition IncreaseNonce :: "u64 \<Rightarrow> userAccount \<Rightarrow> userAccount" where
  "IncreaseNonce value = modData (\<lambda>d. d\<lparr>uaNonce := uaNonce d + value\<rparr>)"

definition SetUserName :: "bytes \<Rightarrow> userAccount \<Rightarrow> userAccount" where
  "SetUserName userName = modData (\<lambda>d. d\<lparr>uaUserName := userName\<rparr>)"

definition SetCodeMetadata :: "bytes \<Rightarrow> userAccount \<Rightarrow> userAccount" where
  "SetCodeMetadata codeMetadata = modData (\<lambda>d. d\<lparr>uaCodeMetadata := codeMetadata\<rparr>)"

definition SetCodeHash :: "bytes \<Rightarrow> userAccount \<Rightarrow> userAccount" where
  "SetCodeHash h = modData (\<lambda>d. d\<lparr>uaCodeHash := h\<rparr>)"

definition SetRootHash :: "bytes \<Rightarrow> userAccount \<Rightarrow> userAccount" where
  "SetRootHash h = modData (\<lambda>d. d\<lparr>uaRootHash := h\<rparr>)"

definition SetCode :: "bytes \<Rightarrow> userAccount \<Rightarrow> userAccount" where
  "SetCode code a = a\<lparr>hasNewCode := True, accCode := code\<rparr>"

definition SetDataTrie :: "nat \<Rightarrow> userAccount \<Rightarrow> userAccount" where
  "SetDataTrie p a = a\<lparr>accTrie := Some p\<rparr>"

subsection \<open>The main trie and the store\<close>

definition liftTrie :: "('db, 't) accountsDB \<Rightarrow> 't \<times> trie_error option \<Rightarrow> ('db, 't, unit) adb_result" where
  "liftTrie adb r = (case r of
     (t, Some e) \<Rightarrow> (adb\<lparr>mainTrie := t\<rparr>, Inl (TrieErr e)) | (t, None) \<Rightarrow> (adb\<lparr>mainTrie := t\<rparr>, Inr ()))"

definition mainGet :: "('db, 't) trieOps \<Rightarrow> bytes \<Rightarrow> ('db, 't) accountsDB \<Rightarrow> ('db, 't, bytes option) adb_result" where
  "mainGet T key adb = (case opGet T (storage adb) (mainTrie adb) key of
     (t, Inl e, _) \<Rightarrow> (adb\<lparr>mainTrie := t\<rparr>, Inl (TrieErr e)) | (t, Inr v, _) \<Rightarrow> (adb\<lparr>mainTrie := t\<rparr>, Inr v))"

definition mainUpdate :: "('db, 't) trieOps \<Rightarrow> bytes \<Rightarrow> bytes \<Rightarrow> ('db, 't) accountsDB \<Rightarrow> ('db, 't, unit) adb_result" where
  "mainUpdate T key val adb = liftTrie adb (opUpdate T (storage adb) (mainTrie adb) key val)"

definition mainDelete :: "('db, 't) trieOps \<Rightarrow> bytes \<Rightarrow> ('db, 't) accountsDB \<Rightarrow> ('db, 't, unit) adb_result" where
  "mainDelete T key adb = liftTrie adb (opDelete T (storage adb) (mainTrie adb) key)"

definition modObject :: "nat \<Rightarrow> (userAccount \<Rightarrow> userAccount) \<Rightarrow> ('db, 't) accountsDB \<Rightarrow> ('db, 't) accountsDB" where
  "modObject r f adb = adb\<lparr>objects := (objects adb)[r := f (objects adb ! r)]\<rparr>"

definition newObject :: "userAccount \<Rightarrow> ('db, 't) accountsDB \<Rightarrow> ('db, 't) accountsDB \<times> nat" where
  "newObject a adb = (adb\<lparr>objects := objects adb @ [a]\<rparr>, length (objects adb))"

definition newTrie :: "'t \<Rightarrow> ('db, 't) accountsDB \<Rightarrow> ('db, 't) accountsDB \<times> nat" where
  "newTrie t adb = (adb\<lparr>tries := tries adb @ [t]\<rparr>, length (tries adb))"

definition setTrie :: "nat \<Rightarrow> 't \<Rightarrow> ('db, 't) accountsDB \<Rightarrow> ('db, 't) accountsDB" where
  "setTrie p t adb = adb\<lparr>tries := (tries adb)[p := t]\<rparr>"

definition journalize :: "journalEntry \<Rightarrow> ('db, 't) accountsDB \<Rightarrow> ('db, 't) accountsDB" where
  "journalize e adb = adb\<lparr>entries := entries adb @ [e]\<rparr>"

text \<open>The account stored at an address; the object the source creates for it is fresh, so its data are returned.\<close>

definition getAccount :: "accEnv \<Rightarrow> ('db, 't) trieOps \<Rightarrow> bytes \<Rightarrow> ('db, 't) accountsDB \<Rightarrow>
    ('db, 't, userAccountData option) adb_result" where
  "getAccount E T address adb = andThen (mainGet T address adb) (\<lambda>adb v. case v of
     None \<Rightarrow> (adb, Inr None)
   | Some val \<Rightarrow> (case NewUserAccount address of
       Inl e \<Rightarrow> (adb, Inl e)
     | Inr _ \<Rightarrow> (case unmarshalAccount E val of Inl e \<Rightarrow> (adb, Inl e) | Inr d \<Rightarrow> (adb, Inr (Some d)))))"

definition saveAccountToTrie :: "accEnv \<Rightarrow> ('db, 't) trieOps \<Rightarrow> userAccountData \<Rightarrow> ('db, 't) accountsDB \<Rightarrow>
    ('db, 't, unit) adb_result" where
  "saveAccountToTrie E T d adb = (case marshalAccount E d of
     Inl e \<Rightarrow> (adb, Inl e) | Inr buff \<Rightarrow> mainUpdate T (uaAddress d) buff adb)"

subsection \<open>Code\<close>

definition getCodeEntry :: "accEnv \<Rightarrow> ('db, 't) trieOps \<Rightarrow> bytes \<Rightarrow> ('db, 't) accountsDB \<Rightarrow>
    ('db, 't, codeEntry option) adb_result" where
  "getCodeEntry E T h adb = andThen (mainGet T h adb) (\<lambda>adb v.
     if length (slice v) = 0 then (adb, Inr None)
     else (case unmarshalCode E (slice v) of Inl e \<Rightarrow> (adb, Inl e) | Inr c \<Rightarrow> (adb, Inr (Some c))))"

definition saveCodeEntry :: "accEnv \<Rightarrow> ('db, 't) trieOps \<Rightarrow> bytes \<Rightarrow> codeEntry \<Rightarrow> ('db, 't) accountsDB \<Rightarrow>
    ('db, 't, unit) adb_result" where
  "saveCodeEntry E T h entry adb = (case marshalCode E entry of
     Inl e \<Rightarrow> (adb, Inl e) | Inr b \<Rightarrow> mainUpdate T h b adb)"

definition updateOldCodeEntry :: "accEnv \<Rightarrow> ('db, 't) trieOps \<Rightarrow> bytes \<Rightarrow> ('db, 't) accountsDB \<Rightarrow>
    ('db, 't, codeEntry option) adb_result" where
  "updateOldCodeEntry E T oldCodeHash adb = andThen (getCodeEntry E T oldCodeHash adb) (\<lambda>adb co. case co of
     None \<Rightarrow> (adb, Inr None)
   | Some c \<Rightarrow>
       if NumReferences c \<le> 1 then andThen (mainDelete T oldCodeHash adb) (\<lambda>adb _. (adb, Inr (Some c)))
       else andThen (saveCodeEntry E T oldCodeHash (c\<lparr>NumReferences := NumReferences c - 1\<rparr>) adb)
         (\<lambda>adb _. (adb, Inr (Some c))))"

definition updateNewCodeEntry :: "accEnv \<Rightarrow> ('db, 't) trieOps \<Rightarrow> bytes \<Rightarrow> bytes \<Rightarrow> ('db, 't) accountsDB \<Rightarrow>
    ('db, 't, unit) adb_result" where
  "updateNewCodeEntry E T newCodeHash newCode adb =
     (if length newCode = 0 then (adb, Inr ())
      else andThen (getCodeEntry E T newCodeHash adb) (\<lambda>adb co.
        let c = (case co of None \<Rightarrow> \<lparr>ceCode = newCode, NumReferences = 0\<rparr> | Some c \<Rightarrow> c)
        in saveCodeEntry E T newCodeHash (c\<lparr>NumReferences := NumReferences c + 1\<rparr>) adb))"

definition saveCode :: "accEnv \<Rightarrow> ('db, 't) trieOps \<Rightarrow> nat \<Rightarrow> userAccountData option \<Rightarrow> ('db, 't) accountsDB \<Rightarrow>
    ('db, 't, unit) adb_result" where
  "saveCode E T r oldAcc adb =
     (let acc = objects adb ! r;
          oldCodeHash = (case oldAcc of None \<Rightarrow> [] | Some d \<Rightarrow> uaCodeHash d);
          newCodeHash = (if length (accCode acc) \<noteq> 0 then codeHash E (accCode acc) else [])
      in if \<not> hasNewCode acc then (adb, Inr ())
         else if oldCodeHash = newCodeHash then (modObject r (SetCodeHash newCodeHash) adb, Inr ())
         else andThen (updateOldCodeEntry E T oldCodeHash adb) (\<lambda>adb unmodified.
           andThen (updateNewCodeEntry E T newCodeHash (accCode acc) adb) (\<lambda>adb _.
             (modObject r (SetCodeHash newCodeHash) (journalize (JournalEntryCode unmodified oldCodeHash newCodeHash) adb), Inr ()))))"

subsection \<open>Data tries\<close>

text \<open>\<open>SaveDirtyData\<close> on the account's trie, a new one when it has none.\<close>

definition flushDirtyData :: "accEnv \<Rightarrow> ('db, 't) trieOps \<Rightarrow> nat \<Rightarrow> ('db, 't) accountsDB \<Rightarrow>
    ('db, 't, TrieData list) adb_result" where
  "flushDirtyData E T r adb =
     (let acc = objects adb ! r;
          (tr, dd, res) = SaveDirtyData (tdtEnvOf E) T (storage adb) (mainTrie adb) (AddressBytes acc) (accDirty acc)
            (map_option ((!) (tries adb)) (accTrie acc));
          adb1 = modObject r (\<lambda>a. a\<lparr>accDirty := dd\<rparr>) adb;
          adb2 = (case tr of
             None \<Rightarrow> adb1
           | Some t \<Rightarrow> (case accTrie acc of
               Some p \<Rightarrow> setTrie p t adb1
             | None \<Rightarrow> (let (adb', p) = newTrie t adb1 in modObject r (SetDataTrie p) adb')))
      in (adb2, map_sum id snd res))"

text \<open>The root hash of the data trie of an object; computing it changes the trie.\<close>

definition dataRootHash :: "('db, 't) trieOps \<Rightarrow> nat \<Rightarrow> ('db, 't) accountsDB \<Rightarrow> ('db, 't, bytes) adb_result" where
  "dataRootHash T p adb = (case opRootHash T (tries adb ! p) of
     (t, Inl e) \<Rightarrow> (setTrie p t adb, Inl (TrieErr e)) | (t, Inr h) \<Rightarrow> (setTrie p t adb, Inr h))"

definition saveDataTrie :: "accEnv \<Rightarrow> ('db, 't) trieOps \<Rightarrow> nat \<Rightarrow> ('db, 't) accountsDB \<Rightarrow> ('db, 't, unit) adb_result" where
  "saveDataTrie E T r adb = andThen (flushDirtyData E T r adb) (\<lambda>adb oldValues.
     if length oldValues = 0 then (adb, Inr ())
     else case accTrie (objects adb ! r) of
       None \<Rightarrow> (adb, Inl NilDereference)
     | Some p \<Rightarrow> andThen (dataRootHash T p (journalize (JournalEntryDataTrieUpdates oldValues r) adb)) (\<lambda>adb rootHash.
         let adb1 = modObject r (SetRootHash rootHash) adb;
             address = AddressBytes (objects adb ! r)
         in (if map_of (dataTries adb1) address = None
               then adb1\<lparr>dataTries := AList.update address p (dataTries adb1)\<rparr> else adb1, Inr ())))"

definition saveCodeAndDataTrie :: "accEnv \<Rightarrow> ('db, 't) trieOps \<Rightarrow> userAccountData option \<Rightarrow> nat \<Rightarrow> ('db, 't) accountsDB \<Rightarrow>
    ('db, 't, unit) adb_result" where
  "saveCodeAndDataTrie E T oldAcc r adb = andThen (saveDataTrie E T r adb) (\<lambda>adb _. saveCode E T r oldAcc adb)"

definition SaveAccount :: "accEnv \<Rightarrow> ('db, 't) trieOps \<Rightarrow> nat \<Rightarrow> ('db, 't) accountsDB \<Rightarrow> ('db, 't, unit) adb_result" where
  "SaveAccount E T r adb = (let address = AddressBytes (objects adb ! r) in
     andThen (getAccount E T address adb) (\<lambda>adb oldAccount.
       if oldAccount = None \<and> length address = 0 then (adb, Inl ErrInvalidAddressLength)
       else andThen (saveCodeAndDataTrie E T oldAccount r (journalize (case oldAccount of
             None \<Rightarrow> JournalEntryAccountCreation address | Some d \<Rightarrow> JournalEntryAccount d) adb)) (\<lambda>adb _.
         saveAccountToTrie E T (accData (objects adb ! r)) adb)))"

definition loadDataTrie :: "('db, 't) trieOps \<Rightarrow> nat \<Rightarrow> ('db, 't) accountsDB \<Rightarrow> ('db, 't, unit) adb_result" where
  "loadDataTrie T r adb =
     (let acc = objects adb ! r in case map_of (dataTries adb) (AddressBytes acc) of
        Some p \<Rightarrow> (modObject r (SetDataTrie p) adb, Inr ())
      | None \<Rightarrow>
          if length (uaRootHash (accData acc)) = 0 then (adb, Inr ())
          else (case opRecreate T (storage adb) (mainTrie adb) (uaRootHash (accData acc)) of
            Inl e \<Rightarrow> (adb, Inl (TrieErr e))
          | Inr t \<Rightarrow> (let (adb', p) = newTrie t adb; adb'' = modObject r (SetDataTrie p) adb'
              in (adb''\<lparr>dataTries := AList.update (AddressBytes acc) p (dataTries adb'')\<rparr>, Inr ()))))"

definition loadObject :: "('db, 't) trieOps \<Rightarrow> userAccountData \<Rightarrow> ('db, 't) accountsDB \<Rightarrow> ('db, 't, nat) adb_result" where
  "loadObject T d adb =
     (let (adb', r) = newObject \<lparr>accData = d, accDirty = [], accTrie = None, accCode = [], hasNewCode = False\<rparr> adb
      in andThen (loadDataTrie T r adb') (\<lambda>adb _. (adb, Inr r)))"

definition LoadAccount :: "accEnv \<Rightarrow> ('db, 't) trieOps \<Rightarrow> bytes \<Rightarrow> ('db, 't) accountsDB \<Rightarrow> ('db, 't, nat) adb_result" where
  "LoadAccount E T address adb =
     (if length address = 0 then (adb, Inl ErrNilAddress)
      else andThen (getAccount E T address adb) (\<lambda>adb acnt. case acnt of
        None \<Rightarrow> (case NewUserAccount address of
          Inl e \<Rightarrow> (adb, Inl e) | Inr a \<Rightarrow> (let (adb', r) = newObject a adb in (adb', Inr r)))
      | Some d \<Rightarrow> loadObject T d adb))"

definition GetExistingAccount :: "accEnv \<Rightarrow> ('db, 't) trieOps \<Rightarrow> bytes \<Rightarrow> ('db, 't) accountsDB \<Rightarrow> ('db, 't, nat) adb_result" where
  "GetExistingAccount E T address adb =
     (if length address = 0 then (adb, Inl ErrNilAddress)
      else andThen (getAccount E T address adb) (\<lambda>adb acnt. case acnt of
        None \<Rightarrow> (adb, Inl ErrAccNotFound)
      | Some d \<Rightarrow> loadObject T d adb))"

definition GetAccountFromBytes :: "accEnv \<Rightarrow> ('db, 't) trieOps \<Rightarrow> bytes \<Rightarrow> bytes \<Rightarrow> ('db, 't) accountsDB \<Rightarrow> ('db, 't, nat) adb_result" where
  "GetAccountFromBytes E T address accountBytes adb =
     (if length address = 0 then (adb, Inl ErrNilAddress)
      else case NewUserAccount address of
        Inl e \<Rightarrow> (adb, Inl e)
      | Inr _ \<Rightarrow> (case unmarshalAccount E accountBytes of Inl e \<Rightarrow> (adb, Inl e) | Inr d \<Rightarrow> loadObject T d adb))"

definition ImportAccount :: "accEnv \<Rightarrow> ('db, 't) trieOps \<Rightarrow> nat \<Rightarrow> ('db, 't) accountsDB \<Rightarrow> ('db, 't, unit) adb_result" where
  "ImportAccount E T r adb = saveAccountToTrie E T (accData (objects adb ! r)) adb"

definition loadCode :: "accEnv \<Rightarrow> ('db, 't) trieOps \<Rightarrow> nat \<Rightarrow> ('db, 't) accountsDB \<Rightarrow> ('db, 't, unit) adb_result" where
  "loadCode E T r adb =
     (let h = uaCodeHash (accData (objects adb ! r)) in
      if length h = 0 then (adb, Inr ())
      else andThen (mainGet T h adb) (\<lambda>adb v. case unmarshalCode E (slice v) of
        Inl e \<Rightarrow> (adb, Inl e) | Inr c \<Rightarrow> (modObject r (SetCode (ceCode c)) adb, Inr ())))"

definition GetCode :: "accEnv \<Rightarrow> ('db, 't) trieOps \<Rightarrow> bytes \<Rightarrow> ('db, 't) accountsDB \<Rightarrow> ('db, 't) accountsDB \<times> bytes" where
  "GetCode E T h adb =
     (if length h = 0 then (adb, [])
      else case mainGet T h adb of
        (adb', Inl _) \<Rightarrow> (adb', [])
      | (adb', Inr v) \<Rightarrow> (adb', case unmarshalCode E (slice v) of Inl _ \<Rightarrow> [] | Inr c \<Rightarrow> ceCode c))"

subsection \<open>Removal\<close>

definition removeCode :: "accEnv \<Rightarrow> ('db, 't) trieOps \<Rightarrow> userAccountData \<Rightarrow> ('db, 't) accountsDB \<Rightarrow> ('db, 't, unit) adb_result" where
  "removeCode E T acc adb = andThen (updateOldCodeEntry E T (uaCodeHash acc) adb) (\<lambda>adb unmodified.
     (journalize (JournalEntryCode unmodified (uaCodeHash acc) []) adb, Inr ()))"

definition removeDataTrie :: "('db, 't) trieOps \<Rightarrow> userAccountData \<Rightarrow> ('db, 't) accountsDB \<Rightarrow> ('db, 't, unit) adb_result" where
  "removeDataTrie T acc adb =
     (let rootHash = uaRootHash acc in
      if length rootHash = 0 then (adb, Inr ())
      else case opRecreate T (storage adb) (mainTrie adb) rootHash of
        Inl e \<Rightarrow> (adb, Inl (TrieErr e))
      | Inr t \<Rightarrow> (case snd (opGetAllHashes T (storage adb) t) of
          Inl e \<Rightarrow> (adb, Inl (TrieErr e))
        | Inr hashes \<Rightarrow> (journalize (JournalEntryDataTrieRemove rootHash)
            (adb\<lparr>obsoleteDataTrieHashes := AList.update rootHash hashes (obsoleteDataTrieHashes adb)\<rparr>), Inr ())))"

definition removeCodeAndDataTrie :: "accEnv \<Rightarrow> ('db, 't) trieOps \<Rightarrow> userAccountData \<Rightarrow> ('db, 't) accountsDB \<Rightarrow>
    ('db, 't, unit) adb_result" where
  "removeCodeAndDataTrie E T acc adb = andThen (removeCode E T acc adb) (\<lambda>adb _. removeDataTrie T acc adb)"

definition RemoveAccount :: "accEnv \<Rightarrow> ('db, 't) trieOps \<Rightarrow> bytes \<Rightarrow> ('db, 't) accountsDB \<Rightarrow> ('db, 't, unit) adb_result" where
  "RemoveAccount E T address adb =
     (if length address = 0 then (adb, Inl ErrNilAddress)
      else andThen (getAccount E T address adb) (\<lambda>adb acnt. case acnt of
        None \<Rightarrow> (adb, Inl ErrAccNotFound)
      | Some d \<Rightarrow> andThen (removeCodeAndDataTrie E T d (journalize (JournalEntryAccount d) adb)) (\<lambda>adb _.
          mainDelete T address adb)))"

subsection \<open>The journal\<close>

definition revertOldCodeEntry :: "accEnv \<Rightarrow> ('db, 't) trieOps \<Rightarrow> codeEntry option \<Rightarrow> bytes \<Rightarrow> ('db, 't) accountsDB \<Rightarrow>
    ('db, 't, unit) adb_result" where
  "revertOldCodeEntry E T oldEntry oldCodeHash adb =
     (if length oldCodeHash = 0 then (adb, Inr ())
      else case oldEntry of None \<Rightarrow> (adb, Inl NilDereference) | Some c \<Rightarrow> saveCodeEntry E T oldCodeHash c adb)"

definition revertNewCodeEntry :: "accEnv \<Rightarrow> ('db, 't) trieOps \<Rightarrow> bytes \<Rightarrow> ('db, 't) accountsDB \<Rightarrow> ('db, 't, unit) adb_result" where
  "revertNewCodeEntry E T newCodeHash adb = andThen (getCodeEntry E T newCodeHash adb) (\<lambda>adb co. case co of
     None \<Rightarrow> (adb, Inr ())
   | Some c \<Rightarrow>
       if NumReferences c \<le> 1 then mainUpdate T newCodeHash [] adb
       else saveCodeEntry E T newCodeHash (c\<lparr>NumReferences := NumReferences c - 1\<rparr>) adb)"

definition revertDataTrie :: "('db, 't) trieOps \<Rightarrow> TrieData list \<Rightarrow> nat \<Rightarrow> ('db, 't) accountsDB \<Rightarrow>
    ('db, 't, userAccountData option) adb_result" where
  "revertDataTrie T trieUpdates r adb = (case accTrie (objects adb ! r) of
     None \<Rightarrow> (adb, Inl ErrNilTrie)
   | Some p \<Rightarrow> (case revertUpdates T (storage adb) (rev trieUpdates) (tries adb ! p) of
       (t, Some e) \<Rightarrow> (setTrie p t adb, Inl (TrieErr e))
     | (t, None) \<Rightarrow> andThen (dataRootHash T p (setTrie p t adb)) (\<lambda>adb rootHash.
         let adb1 = modObject r (SetRootHash rootHash) adb in (adb1, Inr (Some (accData (objects adb1 ! r)))))))"

fun Revert :: "accEnv \<Rightarrow> ('db, 't) trieOps \<Rightarrow> journalEntry \<Rightarrow> ('db, 't) accountsDB \<Rightarrow>
    ('db, 't, userAccountData option) adb_result" where
  "Revert E T (JournalEntryCode oldEntry oldCodeHash newCodeHash) adb =
     (if oldCodeHash = newCodeHash then (adb, Inr None)
      else andThen (revertOldCodeEntry E T oldEntry oldCodeHash adb) (\<lambda>adb _.
        andThen (revertNewCodeEntry E T newCodeHash adb) (\<lambda>adb _. (adb, Inr None))))"
| "Revert E T (JournalEntryAccount d) adb = (adb, Inr (Some d))"
| "Revert E T (JournalEntryAccountCreation address) adb =
     andThen (mainUpdate T address [] adb) (\<lambda>adb _. (adb, Inr None))"
| "Revert E T (JournalEntryDataTrieUpdates trieUpdates r) adb = revertDataTrie T trieUpdates r adb"
| "Revert E T (JournalEntryDataTrieRemove rootHash) adb =
     (adb\<lparr>obsoleteDataTrieHashes := AList.delete rootHash (obsoleteDataTrieHashes adb)\<rparr>, Inr None)"

fun revertEntries :: "accEnv \<Rightarrow> ('db, 't) trieOps \<Rightarrow> journalEntry list \<Rightarrow> ('db, 't) accountsDB \<Rightarrow> ('db, 't, unit) adb_result" where
  "revertEntries E T [] adb = (adb, Inr ())"
| "revertEntries E T (e # es) adb = andThen (Revert E T e adb) (\<lambda>adb account.
     andThen (case account of None \<Rightarrow> (adb, Inr ()) | Some d \<Rightarrow> saveAccountToTrie E T d adb) (\<lambda>adb _.
       revertEntries E T es adb))"

definition recreateTrie :: "('db, 't) trieOps \<Rightarrow> bytes \<Rightarrow> ('db, 't) accountsDB \<Rightarrow> ('db, 't, unit) adb_result" where
  "recreateTrie T rootHash adb0 =
     (let adb = adb0\<lparr>obsoleteDataTrieHashes := [], dataTries := [], entries := []\<rparr>
      in case opRecreate T (storage adb) (mainTrie adb) rootHash of
           Inl e \<Rightarrow> (adb, Inl (TrieErr e)) | Inr t \<Rightarrow> (adb\<lparr>mainTrie := t\<rparr>, Inr ()))"

definition RecreateTrie :: "('db, 't) trieOps \<Rightarrow> bytes \<Rightarrow> ('db, 't) accountsDB \<Rightarrow> ('db, 't, unit) adb_result" where
  "RecreateTrie T rootHash adb = andThen (recreateTrie T rootHash adb) (\<lambda>adb _. (adb\<lparr>lastRootHash := rootHash\<rparr>, Inr ()))"

text \<open>The collector's \<open>RevertToIndex\<close>, called last, only drops recorded accesses; it fails on negative indices alone.\<close>

definition RevertToSnapshot :: "accEnv \<Rightarrow> ('db, 't) trieOps \<Rightarrow> int \<Rightarrow> ('db, 't) accountsDB \<Rightarrow> ('db, 't, unit) adb_result" where
  "RevertToSnapshot E T snapshot adb =
     (if snapshot > int (length (entries adb)) \<or> snapshot < 0 then (adb, Inl ErrSnapshotValueOutOfBounds)
      else if snapshot = 0 then recreateTrie T (lastRootHash adb) adb
      else andThen (revertEntries E T (rev (drop (nat snapshot) (entries adb))) adb) (\<lambda>adb _.
        (adb\<lparr>entries := take (nat snapshot) (entries adb)\<rparr>, Inr ())))"

definition JournalLen :: "('db, 't) accountsDB \<Rightarrow> nat" where
  "JournalLen adb = length (entries adb)"

definition RootHash :: "('db, 't) trieOps \<Rightarrow> ('db, 't) accountsDB \<Rightarrow> ('db, 't, bytes) adb_result" where
  "RootHash T adb = (case opRootHash T (mainTrie adb) of
     (t, Inl e) \<Rightarrow> (adb\<lparr>mainTrie := t\<rparr>, Inl (TrieErr e)) | (t, Inr h) \<Rightarrow> (adb\<lparr>mainTrie := t\<rparr>, Inr h))"

subsection \<open>Committing\<close>

text \<open>The modified hashes are collected in the two lists.\<close>

definition commitTrie :: "accEnv \<Rightarrow> ('db, 't) trieOps \<Rightarrow> 'db \<Rightarrow> 't \<Rightarrow> bytes list \<times> bytes list \<Rightarrow>
    't \<times> 'db \<times> (state_error + bytes list \<times> bytes list)" where
  "commitTrie E T db tr hs =
     (let (tr1, r) = (if IsPruningEnabled E then
            (case opGetDirtyHashes T tr of
               (t, Inl e) \<Rightarrow> (t, Inl (TrieErr e))
             | (t, Inr new) \<Rightarrow> (t, Inr (fst hs @ opGetObsoleteHashes T tr, snd hs @ new)))
          else (tr, Inr hs))
      in case r of
           Inl e \<Rightarrow> (tr1, db, Inl e)
         | Inr hs' \<Rightarrow> (case opCommit T db tr1 of
             (tr2, db', Some e) \<Rightarrow> (tr2, db', Inl (TrieErr e)) | (tr2, db', None) \<Rightarrow> (tr2, db', Inr hs')))"

fun commitDataTries :: "accEnv \<Rightarrow> ('db, 't) trieOps \<Rightarrow> nat list \<Rightarrow> bytes list \<times> bytes list \<Rightarrow> ('db, 't) accountsDB \<Rightarrow>
    ('db, 't, bytes list \<times> bytes list) adb_result" where
  "commitDataTries E T [] hs adb = (adb, Inr hs)"
| "commitDataTries E T (p # ps) hs adb =
     (let (t, db, r) = commitTrie E T (storage adb) (tries adb ! p) hs;
          adb' = setTrie p t (adb\<lparr>storage := db\<rparr>)
      in case r of Inl e \<Rightarrow> (adb', Inl e) | Inr hs' \<Rightarrow> commitDataTries E T ps hs' adb')"

definition markForEviction :: "accEnv \<Rightarrow> bytes \<Rightarrow> bytes \<Rightarrow> bytes list \<times> bytes list \<Rightarrow> ('db, 't) accountsDB \<Rightarrow>
    ('db, 't, unit) adb_result" where
  "markForEviction E oldRoot newRoot hs adb =
     (if \<not> IsPruningEnabled E then (adb, Inr ())
      else let call = (oldRoot, newRoot, fst hs @ concat (map snd (obsoleteDataTrieHashes adb)), snd hs);
               adb' = adb\<lparr>evictions := evictions adb @ [call]\<rparr>
           in case MarkForEvictionErr E oldRoot newRoot of Some e \<Rightarrow> (adb', Inl e) | None \<Rightarrow> (adb', Inr ()))"

definition commitAccounts :: "accEnv \<Rightarrow> ('db, 't) trieOps \<Rightarrow> ('db, 't) accountsDB \<Rightarrow> ('db, 't, bytes) adb_result" where
  "commitAccounts E T adb0 =
     (let adb1 = adb0\<lparr>entries := []\<rparr> in
      case CollectorStoreErr E of
        Some e \<Rightarrow> (adb1, Inl e)
      | None \<Rightarrow> andThen (commitDataTries E T (map snd (dataTries adb1)) ([], []) adb1) (\<lambda>adb hs.
          let adb2 = adb\<lparr>dataTries := []\<rparr>;
              oldRoot = opGetOldRoot T (mainTrie adb2);
              (t, db, r) = commitTrie E T (storage adb2) (mainTrie adb2) hs;
              adb3 = adb2\<lparr>mainTrie := t, storage := db\<rparr>
          in case r of
               Inl e \<Rightarrow> (adb3, Inl e)
             | Inr hs' \<Rightarrow> (case opRootHash T (mainTrie adb3) of
                 (t', Inl e) \<Rightarrow> (adb3\<lparr>mainTrie := t'\<rparr>, Inl (TrieErr e))
               | (t', Inr newRoot) \<Rightarrow>
                   andThen (markForEviction E oldRoot newRoot hs' (adb3\<lparr>mainTrie := t'\<rparr>)) (\<lambda>adb _.
                     (adb\<lparr>lastRootHash := newRoot, obsoleteDataTrieHashes := []\<rparr>, Inr newRoot)))))"

end
