(* ===== verification/Trie_Rep.thy ===== *)
theory Trie_Rep
  imports Trie_Spec Trie_Node
begin

text \<open>
  How the nodes of the code stand for the tries of \<open>Trie_Spec\<close>. \<open>penc\<close> and \<open>phash\<close> are the encoding
  and the hash a trie must have, computed from its content alone. A node represents a trie
  (\<open>rep\<close>) when its keys, values and versions are those of the trie, each child is either in
  memory and represents the subtrie or is collapsed to the subtrie's hash while storage holds the
  subtrie, a cached hash is the trie's hash with the encoded children up to date, and a clean node
  is stored and carries its hash. The codec laws the representation rests on are the locale
  \<open>trie_codec\<close>, discharged for the generated protocol-buffer code.
\<close>

subsection \<open>Versions, encodings and hashes of a trie\<close>

definition versionsOf :: "(nat \<Rightarrow> version option) \<Rightarrow> bytes" where
  "versionsOf g = map (\<lambda>i. case g i of None \<Rightarrow> NotSpecified | Some v \<Rightarrow> v) childIndices"

definition branchVersion :: "(nat \<Rightarrow> version option) \<Rightarrow> version" where
  "branchVersion g = (case List.map_filter g childIndices of
     [] \<Rightarrow> NotSpecified
   | v # vs \<Rightarrow> if list_all (\<lambda>w. w = v) vs then v else NotSpecified)"

primrec pversion :: "ptrie \<Rightarrow> version" where
  "pversion (PLeaf k v w) = w"
| "pversion (PExt k t) = pversion t"
| "pversion (PBranch f) = branchVersion (\<lambda>i. map_option pversion (f i))"

definition cversions :: "(nat \<Rightarrow> ptrie option) \<Rightarrow> bytes" where
  "cversions f = revertChildrenVersionSliceIfNeeded (versionsOf (\<lambda>i. map_option pversion (f i)))"

definition leafMsg :: "bytes \<Rightarrow> bytes \<Rightarrow> byte \<Rightarrow> CollapsedLn" where
  "leafMsg k v w = \<lparr>LnKey = k, LnValue = Some v, LnVersion = ucast w\<rparr>"

definition extMsg :: "bytes \<Rightarrow> bytes \<Rightarrow> byte \<Rightarrow> CollapsedEn" where
  "extMsg k h w = \<lparr>EnKey = k, EncodedChild = h, ChildVersion = ucast w\<rparr>"

definition encOf :: "(nat \<Rightarrow> bytes option) \<Rightarrow> bytes list" where
  "encOf g = map (\<lambda>i. case g i of None \<Rightarrow> [] | Some h \<Rightarrow> h) childIndices"

primrec penc :: "deps \<Rightarrow> ptrie \<Rightarrow> bytes" where
  "penc D (PLeaf k v w) = projr (marshalLn D (leafMsg k v w)) @ [leaf]"
| "penc D (PExt k t) = projr (marshalEn D (extMsg k (Compute D (penc D t)) (pversion t))) @ [extension]"
| "penc D (PBranch f) = projr (marshalBn D \<lparr>
       EncodedChildren = encOf (\<lambda>i. map_option (\<lambda>t. Compute D (penc D t)) (f i)),
       ChildrenVersion = cversions f\<rparr>) @ [branch]"

definition phash :: "deps \<Rightarrow> ptrie \<Rightarrow> bytes" where
  "phash D t = Compute D (penc D t)"

definition pencs :: "deps \<Rightarrow> (nat \<Rightarrow> ptrie option) \<Rightarrow> bytes list" where
  "pencs D f = encOf (\<lambda>i. map_option (phash D) (f i))"

definition branchMsg :: "deps \<Rightarrow> (nat \<Rightarrow> ptrie option) \<Rightarrow> CollapsedBn" where
  "branchMsg D f = \<lparr>EncodedChildren = pencs D f, ChildrenVersion = cversions f\<rparr>"

lemma penc_simps [simp]:
  "penc D (PLeaf k v w) = projr (marshalLn D (leafMsg k v w)) @ [leaf]"
  "penc D (PExt k t) = projr (marshalEn D (extMsg k (phash D t) (pversion t))) @ [extension]"
  "penc D (PBranch f) = projr (marshalBn D (branchMsg D f)) @ [branch]"
  by (simp_all add: branchMsg_def pencs_def phash_def [abs_def])

declare penc.simps(2,3) [simp del]

text \<open>The node that the encoding of a trie decodes to.\<close>

fun pnode :: "deps \<Rightarrow> ptrie \<Rightarrow> baseNode \<Rightarrow> node" where
  "pnode D (PLeaf k v w) b = LeafNode (leafMsg k v w) b"
| "pnode D (PExt k t) b = ExtensionNode (extMsg k (phash D t) (pversion t)) None b"
| "pnode D (PBranch f) b = BranchNode (branchMsg D f) (replicate nrOfChildren None) b"

text \<open>Storage holds a trie: every node's encoding under its hash. A slice of the running program is
  shorter than \<open>2 ^ 63\<close> bytes.\<close>

definition stored1 :: "deps \<Rightarrow> getter \<Rightarrow> ptrie \<Rightarrow> bool" where
  "stored1 D get t \<longleftrightarrow> get (phash D t) = Inr (penc D t) \<and> length (penc D t) < 2 ^ 63"

primrec psubs :: "ptrie \<Rightarrow> ptrie set" where
  "psubs (PLeaf k v w) = {PLeaf k v w}"
| "psubs (PExt k t) = insert (PExt k t) (psubs t)"
| "psubs (PBranch f) = insert (PBranch f) (\<Union>i. case map_option psubs (f i) of None \<Rightarrow> {} | Some S \<Rightarrow> S)"

definition pstored :: "deps \<Rightarrow> getter \<Rightarrow> ptrie \<Rightarrow> bool" where
  "pstored D get t \<longleftrightarrow> (\<forall>s \<in> psubs t. stored1 D get s)"

definition hasher_ok :: "deps \<Rightarrow> bool" where
  "hasher_ok D \<longleftrightarrow> (\<forall>x. Compute D x \<noteq> [])"

lemma psubs_self [simp]: "t \<in> psubs t"
  by (cases t) auto

lemma psubs_PBranch [simp]: "psubs (PBranch f) = insert (PBranch f) (\<Union>t \<in> ran f. psubs t)"
  by (auto simp: ran_def split: option.splits) (metis option.simps(9) option.inject)+

declare psubs.simps(3) [simp del]

lemma psubs_child: "f i = Some t \<Longrightarrow> psubs t \<subseteq> psubs (PBranch f)"
  by (auto simp: ran_def)

lemma pstored_PExt: "pstored D get (PExt k t) \<longleftrightarrow> stored1 D get (PExt k t) \<and> pstored D get t"
  by (auto simp: pstored_def)

lemma pstored_child: "pstored D get (PBranch f) \<Longrightarrow> f i = Some t \<Longrightarrow> pstored D get t"
  using psubs_child [of f i t] unfolding pstored_def by blast

lemma pstored_stored1: "pstored D get t \<Longrightarrow> stored1 D get t"
  by (simp add: pstored_def)

lemma phash_nonempty: "hasher_ok D \<Longrightarrow> phash D t \<noteq> []"
  by (simp add: hasher_ok_def phash_def)

lemma length_childIndices [simp]: "length childIndices = nrOfChildren"
  by (simp add: childIndices_def)

lemma nth_childIndices [simp]: "i < nrOfChildren \<Longrightarrow> childIndices ! i = i"
  by (simp add: childIndices_def)

lemma set_childIndices [simp]: "set childIndices = {0..<nrOfChildren}"
  by (simp add: childIndices_def)

lemma length_pencs [simp]: "length (pencs D f) = nrOfChildren"
  by (simp add: pencs_def encOf_def)

lemma nth_pencs: "i < nrOfChildren \<Longrightarrow> pencs D f ! i = (case f i of None \<Rightarrow> [] | Some t \<Rightarrow> phash D t)"
  by (simp add: pencs_def encOf_def split: option.split)

subsection \<open>Representation\<close>

text \<open>The base part of a node: \<open>fresh\<close> says that the node's own encoded children are up to date.\<close>

definition bok :: "deps \<Rightarrow> getter \<Rightarrow> ptrie \<Rightarrow> baseNode \<Rightarrow> bool \<Rightarrow> bool" where
  "bok D get t b fresh \<longleftrightarrow>
     (hash b \<noteq> None \<longrightarrow> hash b = Some (phash D t) \<and> fresh) \<and>
     (\<not> dirty b \<longrightarrow> hash b \<noteq> None \<and> pstored D get t)"

inductive rep :: "deps \<Rightarrow> getter \<Rightarrow> ptrie \<Rightarrow> node \<Rightarrow> bool"
  and srep :: "deps \<Rightarrow> getter \<Rightarrow> ptrie option \<Rightarrow> node option \<Rightarrow> bytes \<Rightarrow> bool"
  for D get where
  rep_leaf: "bok D get (PLeaf k v w) b True \<Longrightarrow> rep D get (PLeaf k v w) (LeafNode (leafMsg k v w) b)"
| rep_ext: "srep D get (Some t) c h \<Longrightarrow> bok D get (PExt k t) b (h = phash D t) \<Longrightarrow>
    rep D get (PExt k t) (ExtensionNode (extMsg k h (pversion t)) c b)"
| rep_branch: "length cs = nrOfChildren \<Longrightarrow> length es = nrOfChildren \<Longrightarrow>
    (\<forall>i < nrOfChildren. srep D get (f i) (cs ! i) (es ! i)) \<Longrightarrow>
    bok D get (PBranch f) b (es = pencs D f) \<Longrightarrow>
    rep D get (PBranch f) (BranchNode \<lparr>EncodedChildren = es, ChildrenVersion = cversions f\<rparr> cs b)"
| srep_nil: "srep D get None None []"
| srep_mem: "rep D get t c \<Longrightarrow> srep D get (Some t) (Some c) h"
| srep_coll: "pstored D get t \<Longrightarrow> srep D get (Some t) None (phash D t)"

inductive_simps rep_PLeaf: "rep D get (PLeaf k v w) n"
inductive_simps rep_PExt: "rep D get (PExt k t) n"
inductive_simps rep_PBranch: "rep D get (PBranch f) n"
inductive_simps srep_None [simp]: "srep D get None c h"
inductive_simps srep_Some_None [simp]: "srep D get (Some t) None h"
inductive_simps srep_Some_Some [simp]: "srep D get (Some t) (Some c) h"

lemmas rep_simps = rep_PLeaf rep_PExt rep_PBranch

lemma bok_newBase [simp]: "bok D get t newBase fresh"
  by (simp add: bok_def newBase_def)

lemma bok_clean: "pstored D get t \<Longrightarrow> bok D get t \<lparr>hash = Some (phash D t), dirty = d\<rparr> True"
  by (simp add: bok_def)

lemma rep_pnode: "pstored D get t \<Longrightarrow> rep D get t (pnode D t \<lparr>hash = Some (phash D t), dirty = d\<rparr>)"
  by (cases t)
    (auto simp: rep_simps bok_clean pstored_PExt branchMsg_def nth_pencs pstored_child
        split: option.split)

text \<open>Another node for the same subtrie may take a child's place.\<close>

lemma rep_branch_child:
  assumes "rep D get (PBranch f) (BranchNode m cs b)" "f pos = Some t" "rep D get t c"
  shows "rep D get (PBranch f) (BranchNode m (cs[pos := Some c]) b)"
proof -
  have "srep D get (f i) (cs[pos := Some c] ! i) (EncodedChildren m ! i)" if "i < nrOfChildren" for i
    using assms that by (cases "i = pos") (auto simp: rep_simps)
  with assms(1) show ?thesis by (auto simp: rep_simps)
qed

lemma rep_ext_child:
  "rep D get (PExt k t) (ExtensionNode e c b) \<Longrightarrow> rep D get t c' \<Longrightarrow>
   rep D get (PExt k t) (ExtensionNode e (Some c') b)"
  by (auto simp: rep_simps)

lemma posNil_rep:
  assumes "hasher_ok D" "i < nrOfChildren" "length cs = nrOfChildren" "length es = nrOfChildren"
    "srep D get (f i) (cs ! i) (es ! i)"
  shows "posNil cs es i = Inr (f i = None)"
  using assms by (cases "f i"; cases "cs ! i") (auto simp: posNil_def phash_nonempty)

lemma slots_not_empty:
  assumes "hasher_ok D" "length cs = nrOfChildren" "length (EncodedChildren m) = nrOfChildren"
    "\<forall>i < nrOfChildren. srep D get (f i) (cs ! i) (EncodedChildren m ! i)" "f i \<noteq> None" "i < nrOfChildren"
  shows "isEmptyOrNil (BranchNode m cs b) = None"
proof -
  have "anyChild cs (EncodedChildren m) is = None" if "i \<in> set is" "set is \<subseteq> {0..<nrOfChildren}" for "is"
    using that
  proof (induction "is")
    case (Cons j "is")
    then have "posNil cs (EncodedChildren m) j = Inr (f j = None)" using assms by (intro posNil_rep) auto
    with Cons assms(5) show ?case by auto
  qed simp
  with assms(6) show ?thesis by simp
qed

lemma rep_not_empty:
  assumes "rep D get t n" "hasher_ok D" "pwf t \<or> pterminal t"
  shows "isEmptyOrNil n = None"
proof (cases t)
  case (PBranch f)
  then obtain i where "f i \<noteq> None" "i < nrOfChildren"
    using assms(3) by (metis not_Some_eq pslot_bound pterminal.simps(3) pwf_PBranch two_children_def)
  moreover obtain m cs b where "n = BranchNode m cs b" "length cs = nrOfChildren"
    "length (EncodedChildren m) = nrOfChildren"
    "\<forall>i < nrOfChildren. srep D get (f i) (cs ! i) (EncodedChildren m ! i)"
    using PBranch assms(1) by (auto simp: rep_simps)
  ultimately show ?thesis 
    using slots_not_empty [OF assms(2), of cs m get f i b] by (simp del: isEmptyOrNil.simps)
qed (use assms in \<open>auto simp: rep_simps leafMsg_def extMsg_def phash_nonempty elim!: srep.cases\<close>)

subsection \<open>Versions\<close>

lemma versionsOf_upd:
  "versionsOf (g(i := x)) = (versionsOf g)[i := (case x of None \<Rightarrow> NotSpecified | Some v \<Rightarrow> v)]"
  by (rule nth_equalityI) (auto simp: versionsOf_def nth_list_update)

lemma length_versionsOf [simp]: "length (versionsOf g) = nrOfChildren"
  by (simp add: versionsOf_def)

lemma all_zero_replicate: "list_all (\<lambda>v. v = NotSpecified) vs \<Longrightarrow> vs = replicate (length vs) 0"
  by (induction vs) (auto simp: NotSpecified_def)

text \<open>\<open>setVersionForChild\<close> keeps the version slice in step with the children.\<close>

lemma setVersionForChild_rep:
  assumes "pos < nrOfChildren" "ChildrenVersion m = cversions f"
  shows "setVersionForChild m (case x of None \<Rightarrow> NotSpecified | Some t \<Rightarrow> pversion t) pos =
    Inr (m\<lparr>ChildrenVersion := cversions (f(pos := x))\<rparr>)"
proof -
  let ?vs = "versionsOf (\<lambda>i. map_option pversion (f i))"
  let ?v = "case x of None \<Rightarrow> NotSpecified | Some t \<Rightarrow> pversion t"
  have new: "versionsOf (\<lambda>i. map_option pversion ((f(pos := x)) i)) = ?vs[pos := ?v]"
    using versionsOf_upd [of "\<lambda>i. map_option pversion (f i)" pos "map_option pversion x"]
    by (simp add: fun_upd_def if_distrib cong: if_cong option.case_cong)
  have len: "length ?vs = nrOfChildren" by simp
  have nonzero: "\<not> list_all (\<lambda>v. v = NotSpecified) (?vs[pos := ?v])" if "?v \<noteq> NotSpecified"
    using that assms(1) by (auto simp: list_all_iff intro!: bexI [of _ ?v] set_update_memI)
  show ?thesis
  proof (cases "list_all (\<lambda>v. v = NotSpecified) ?vs")
    case True
    then have vs: "?vs = replicate nrOfChildren 0" using all_zero_replicate [of ?vs] by simp
    have "list_all (\<lambda>v. v = NotSpecified) (?vs[pos := NotSpecified])"
      unfolding vs using set_update_subset_insert [of "replicate nrOfChildren (0 :: byte)" pos 0]
      by (auto simp: list_all_iff NotSpecified_def)
    with True vs nonzero new assms show ?thesis
      by (auto simp: setVersionForChild_def cversions_def revertChildrenVersionSliceIfNeeded_def Let_def
          nrOfChildren_def)
  next
    case False
    then have "?vs \<noteq> []" by auto
    with False nonzero new assms show ?thesis
      by (auto simp: setVersionForChild_def cversions_def revertChildrenVersionSliceIfNeeded_def Let_def)
  qed
qed

lemma first_rest_version:
  assumes "\<forall>i \<in> set is. i < nrOfChildren \<and> posNil cs es i = Inr (g i = None)"
    "\<forall>i \<in> set is. vs ! i = (case g i of None \<Rightarrow> NotSpecified | Some v \<Rightarrow> v)" "length vs = nrOfChildren"
  shows "(case List.map_filter g is of
      [] \<Rightarrow> firstChildVersion cs es vs is = Inr (0, [])
    | v # ws \<Rightarrow> \<exists>js. firstChildVersion cs es vs is = Inr (v, js) \<and>
        restChildVersion cs es vs v js = Inr (if list_all (\<lambda>w. w = v) ws then v else NotSpecified))"
proof -
  have rest: "restChildVersion cs es vs v js =
      Inr (if list_all (\<lambda>w. w = v) (List.map_filter g js) then v else NotSpecified)"
    if "set js \<subseteq> set is" for v js
    using that
  proof (induction js)
    case (Cons j js)
    with assms have "j < nrOfChildren" "posNil cs es j = Inr (g j = None)"
      "vs ! j = (case g j of None \<Rightarrow> NotSpecified | Some v \<Rightarrow> v)" by auto
    with Cons assms(3) show ?case by (cases "g j") (auto simp: map_filter_simps)
  qed (simp add: map_filter_simps)
  have "(case List.map_filter g js of
      [] \<Rightarrow> firstChildVersion cs es vs js = Inr (0, [])
    | v # ws \<Rightarrow> \<exists>js. firstChildVersion cs es vs is' = Inr (v, js) \<and>
        restChildVersion cs es vs v js = Inr (if list_all (\<lambda>w. w = v) ws then v else NotSpecified))"
    if "set js \<subseteq> set is" "is' = js" for js is'
    using that
  proof (induction js arbitrary: is')
    case (Cons j js)
    with assms have "j < nrOfChildren" "posNil cs es j = Inr (g j = None)"
      "vs ! j = (case g j of None \<Rightarrow> NotSpecified | Some v \<Rightarrow> v)" by auto
    with Cons assms(3) rest [of js] show ?case
      by (cases "g j") (auto simp: map_filter_simps split: list.splits)
  qed (simp add: map_filter_simps)
  then show ?thesis by blast
qed

lemma branchVersion_all_zero:
  assumes "list_all (\<lambda>v. v = NotSpecified) (versionsOf g)"
  shows "branchVersion g = NotSpecified"
proof -
  have "v = NotSpecified" if "i < nrOfChildren" "g i = Some v" for i v
    using assms that by (auto simp: versionsOf_def list_all_iff dest!: bspec [of _ _ i])
  then have "\<forall>v \<in> set (List.map_filter g childIndices). v = NotSpecified"
    by (auto simp: List.map_filter_def)
  then show ?thesis by (auto simp: branchVersion_def split: list.split)
qed

lemma unat_byte_less: "unat (w :: byte) < 256"
  using unsigned_less [of w] by simp

lemma ucast_byte_u32 [simp]: "(ucast (ucast (w :: byte) :: u32) :: byte) = w"
  using unat_byte_less [of w]
  by (intro bit_word_eqI) (auto simp: bit_simps dest: bit_imp_le_length)

lemma ucast_byte_le [simp]: "\<not> (255 :: u32) < ucast (w :: byte)"
  using unat_byte_less [of w]
  by (simp add: word_less_nat_alt unsigned_ucast_eq take_bit_nat_eq_self)

lemma getVersion_rep:
  assumes "rep D get t n" "hasher_ok D"
  shows "getVersion n = Inr (pversion t)"
proof (cases t)
  case (PBranch f)
  with assms obtain cs es b where n: "n = BranchNode \<lparr>EncodedChildren = es, ChildrenVersion = cversions f\<rparr> cs b"
    "length cs = nrOfChildren" "length es = nrOfChildren" "\<forall>i < nrOfChildren. srep D get (f i) (cs ! i) (es ! i)"
    by (auto simp: rep_simps)
  let ?g = "\<lambda>i. map_option pversion (f i)"
  show ?thesis
  proof (cases "list_all (\<lambda>v. v = NotSpecified) (versionsOf ?g)")
    case True
    with n PBranch show ?thesis
      by (simp add: cversions_def revertChildrenVersionSliceIfNeeded_def branchVersion_all_zero)
  next
    case False
    then have cv: "cversions f = versionsOf ?g"
      by (simp add: cversions_def revertChildrenVersionSliceIfNeeded_def)
    have "\<forall>i \<in> set childIndices. i < nrOfChildren \<and> posNil cs es i = Inr (?g i = None)"
      using n assms(2) posNil_rep by auto
    moreover have "\<forall>i \<in> set childIndices. versionsOf ?g ! i = (case ?g i of None \<Rightarrow> NotSpecified | Some v \<Rightarrow> v)"
      by (auto simp: versionsOf_def)
    ultimately have "(case List.map_filter ?g childIndices of
      [] \<Rightarrow> firstChildVersion cs es (versionsOf ?g) childIndices = Inr (0, [])
    | v # ws \<Rightarrow> \<exists>js. firstChildVersion cs es (versionsOf ?g) childIndices = Inr (v, js) \<and>
        restChildVersion cs es (versionsOf ?g) v js = Inr (if list_all (\<lambda>w. w = v) ws then v else NotSpecified))"
      by (intro first_rest_version) simp_all
    moreover have "versionsOf ?g \<noteq> []" using False by auto
    ultimately show ?thesis using n PBranch cv
      by (auto simp: branchVersion_def NotSpecified_def split: list.splits)
  qed
qed (use assms in \<open>auto simp: rep_simps leafMsg_def extMsg_def\<close>)


subsection \<open>The codec\<close>

text \<open>What the trie relies on of its marshalizer.\<close>

locale trie_codec =
  fixes D :: deps
  assumes marshalLn_total: "\<exists>bs. marshalLn D l = Inr bs"
    and marshalEn_total: "\<exists>bs. marshalEn D e = Inr bs"
    and marshalBn_total: "\<exists>bs. marshalBn D m = Inr bs"
    and unmarshalLn_marshalLn: "marshalLn D l = Inr bs \<Longrightarrow> length bs < 2 ^ 63 \<Longrightarrow>
      LnValue l \<noteq> Some [] \<Longrightarrow> unmarshalLn D bs = Inr l"
    and unmarshalEn_marshalEn: "marshalEn D e = Inr bs \<Longrightarrow> length bs < 2 ^ 63 \<Longrightarrow> unmarshalEn D bs = Inr e"
    and unmarshalBn_marshalBn: "marshalBn D m = Inr bs \<Longrightarrow> length bs < 2 ^ 63 \<Longrightarrow> unmarshalBn D bs = Inr m"
begin

lemma marshal_projr:
  "marshalLn D l = Inr (projr (marshalLn D l))"
  "marshalEn D e = Inr (projr (marshalEn D e))"
  "marshalBn D m = Inr (projr (marshalBn D m))"
  using marshalLn_total [of l] marshalEn_total [of e] marshalBn_total [of m] by auto

lemma marshal_case:
  "case_sum f g (marshalLn D l) = g (projr (marshalLn D l))"
  "case_sum f g (marshalEn D e) = g (projr (marshalEn D e))"
  "case_sum f g (marshalBn D m) = g (projr (marshalBn D m))"
  by (metis marshal_projr sum.simps(6))+

lemma decode_penc:
  assumes "pwf t \<or> pterminal t" "length (penc D t) < 2 ^ 63"
  shows "decodeNode D (penc D t) = Inr (pnode D t \<lparr>hash = None, dirty = False\<rparr>)"
proof (cases t)
  case (PLeaf k v w)
  with assms have "unmarshalLn D (projr (marshalLn D (leafMsg k v w))) = Inr (leafMsg k v w)"
    by (intro unmarshalLn_marshalLn marshal_projr) (auto simp: leafMsg_def)
  with PLeaf show ?thesis by (simp add: decodeNode_def leaf_def extension_def Let_def)
next
  case (PExt k u)
  with assms have "unmarshalEn D (projr (marshalEn D (extMsg k (phash D u) (pversion u)))) =
      Inr (extMsg k (phash D u) (pversion u))"
    by (intro unmarshalEn_marshalEn marshal_projr) auto
  with PExt show ?thesis by (simp add: decodeNode_def Let_def)
next
  case (PBranch f)
  with assms have "unmarshalBn D (projr (marshalBn D (branchMsg D f))) = Inr (branchMsg D f)"
    by (intro unmarshalBn_marshalBn marshal_projr) auto
  with PBranch show ?thesis by (simp add: decodeNode_def leaf_def extension_def branch_def Let_def)
qed

lemma setGivenHash_pnode: "setGivenHash (pnode D t b) h = pnode D t (b\<lparr>hash := Some h\<rparr>)"
  by (cases t) (simp_all add: setGivenHash_def)

text \<open>A stored trie is fetched as a node that represents it.\<close>

lemma fetch_stored:
  assumes "pstored D get t" "pwf t \<or> pterminal t"
  obtains n where "getNodeFromDBAndDecode D get (phash D t) = Inr n"
    "rep D get t (setGivenHash n (phash D t))" "\<not> isDirty (setGivenHash n (phash D t))"
proof
  show "getNodeFromDBAndDecode D get (phash D t) = Inr (pnode D t \<lparr>hash = None, dirty = False\<rparr>)"
    using assms pstored_stored1 [of D get t] decode_penc [of t]
    by (simp add: getNodeFromDBAndDecode_def stored1_def)
  show "rep D get t (setGivenHash (pnode D t \<lparr>hash = None, dirty = False\<rparr>) (phash D t))"
    using rep_pnode [OF assms(1)] by (simp add: setGivenHash_pnode)
  show "\<not> isDirty (setGivenHash (pnode D t \<lparr>hash = None, dirty = False\<rparr>) (phash D t))"
    by (cases t) (simp_all add: setGivenHash_def isDirty_def)
qed

lemma resolve_ext:
  assumes "rep D get (PExt k t) (ExtensionNode e c b)" "hasher_ok D" "pwf t"
  obtains c' where "resolveIfCollapsed D get (ExtensionNode e c b) pos = Inr (ExtensionNode e (Some c') b)"
    "rep D get t c'" "rep D get (PExt k t) (ExtensionNode e (Some c') b)"
proof (cases c)
  case (Some c')
  with assms have "rep D get t c'" by (auto simp: rep_simps)
  with Some assms show thesis
    by (intro that [of c']) (auto simp: resolveIfCollapsed_def)
next
  case None
  with assms have e: "e = extMsg k (phash D t) (pversion t)" "pstored D get t" by (auto simp: rep_simps)
  with assms(3) obtain n where "getNodeFromDBAndDecode D get (phash D t) = Inr n"
    "rep D get t (setGivenHash n (phash D t))" using fetch_stored by blast
  with None e assms show thesis
    by (intro that [of "setGivenHash n (phash D t)"])
      (auto simp: resolveIfCollapsed_def rep_simps extMsg_def phash_nonempty)
qed

lemma pslot_ok: "pslot i t \<Longrightarrow> pwf t \<or> pterminal t"
  by (auto simp: pslot_def split: if_splits)

lemma resolve_slots:
  assumes "hasher_ok D" "length cs = nrOfChildren" "length (EncodedChildren m) = nrOfChildren"
    "\<forall>i < nrOfChildren. srep D get (f i) (cs ! i) (EncodedChildren m ! i)"
    "f j \<noteq> None" "j < nrOfChildren" "pos < nrOfChildren" "\<And>t. f pos = Some t \<Longrightarrow> pwf t \<or> pterminal t"
  obtains cs' where "resolveIfCollapsed D get (BranchNode m cs b) pos = Inr (BranchNode m cs' b)"
    "length cs' = nrOfChildren" "\<forall>i < nrOfChildren. srep D get (f i) (cs' ! i) (EncodedChildren m ! i)"
    "case f pos of None \<Rightarrow> cs' ! pos = None | Some t \<Rightarrow> \<exists>c. cs' ! pos = Some c \<and> rep D get t c"
proof -
  have ne: "isEmptyOrNil (BranchNode m cs b) = None" using assms(1-6) by (rule slots_not_empty)
  note len = assms(2,3)
  have s: "srep D get (f pos) (cs ! pos) (EncodedChildren m ! pos)" using assms by simp
  show thesis
  proof (cases "cs ! pos = None \<and> f pos \<noteq> None")
    case False
    with s have cs: "case f pos of None \<Rightarrow> cs ! pos = None | Some t \<Rightarrow> \<exists>c. cs ! pos = Some c \<and> rep D get t c"
      "cs ! pos = None \<Longrightarrow> EncodedChildren m ! pos = []"
      by (auto split: option.split)
    then have "resolveIfCollapsed D get (BranchNode m cs b) pos = Inr (BranchNode m cs b)"
      using ne len assms(7) by (cases "cs ! pos") (auto simp: resolveIfCollapsed_def)
    with cs(1) assms(2,4) show thesis by (intro that) auto
  next
    case True
    then obtain t where t: "f pos = Some t" "cs ! pos = None" by auto
    with s have enc: "EncodedChildren m ! pos = phash D t" "pstored D get t" by auto
    with assms(8) [OF t(1)] obtain n where n: "getNodeFromDBAndDecode D get (phash D t) = Inr n"
      "rep D get t (setGivenHash n (phash D t))" using fetch_stored by blast
    let ?cs = "cs[pos := Some (setGivenHash n (phash D t))]"
    have "resolveIfCollapsed D get (BranchNode m cs b) pos = Inr (BranchNode m ?cs b)"
      using ne len t enc n assms(1,7) by (simp add: resolveIfCollapsed_def phash_nonempty)
    moreover have "srep D get (f i) (?cs ! i) (EncodedChildren m ! i)" if "i < nrOfChildren" for i
      using assms(2,4) t n that by (cases "i = pos") auto
    ultimately show thesis using t n len assms(7) by (intro that [of ?cs]) auto
  qed
qed

lemma resolve_branch:
  assumes "rep D get (PBranch f) (BranchNode m cs b)" "hasher_ok D" "pwf (PBranch f)" "pos < nrOfChildren"
  obtains cs' where "resolveIfCollapsed D get (BranchNode m cs b) pos = Inr (BranchNode m cs' b)"
    "rep D get (PBranch f) (BranchNode m cs' b)" "length cs' = nrOfChildren"
    "case f pos of None \<Rightarrow> cs' ! pos = None | Some t \<Rightarrow> \<exists>c. cs' ! pos = Some c \<and> rep D get t c"
proof -
  have r: "length cs = nrOfChildren" "length (EncodedChildren m) = nrOfChildren"
    "\<forall>i < nrOfChildren. srep D get (f i) (cs ! i) (EncodedChildren m ! i)" using assms(1) by (auto simp: rep_simps)
  obtain j t where j: "f j = Some t" using assms(3) unfolding pwf_PBranch two_children_def by auto
  have slots: "\<And>i t. f i = Some t \<Longrightarrow> pslot i t" using assms(3) by (simp add: pwf_PBranch)
  obtain cs' where "resolveIfCollapsed D get (BranchNode m cs b) pos = Inr (BranchNode m cs' b)"
    "length cs' = nrOfChildren" "\<forall>i < nrOfChildren. srep D get (f i) (cs' ! i) (EncodedChildren m ! i)"
    "case f pos of None \<Rightarrow> cs' ! pos = None | Some t \<Rightarrow> \<exists>c. cs' ! pos = Some c \<and> rep D get t c"
    using resolve_slots [OF assms(2) r _ pslot_bound [OF slots [OF j]] assms(4) pslot_ok [OF slots [of pos]]] j
    by (metis option.distinct(1))
  with assms(1) show thesis by (intro that [of cs']) (auto simp: rep_simps)
qed

text \<open>Resolving a position of any node leaves a node for the same trie.\<close>

lemma resolve_any:
  assumes "rep D get t n" "hasher_ok D" "pwf t \<or> pterminal t" "pos < nrOfChildren"
  obtains n' where "resolveIfCollapsed D get n pos = Inr n'" "rep D get t n'"
    "\<And>k u. t = PExt k u \<Longrightarrow> childAt n' 0 \<noteq> None" "isDirty n' = isDirty n"
proof (cases t)
  case (PLeaf k v w)
  then have "resolveIfCollapsed D get n pos = Inr n"
    using rep_not_empty [OF assms(1-3)] assms(1) by (auto simp: rep_simps resolveIfCollapsed_def)
  with PLeaf assms(1) show thesis by (intro that) auto
next
  case (PExt k u)
  with assms(1) obtain e c b where n: "n = ExtensionNode e c b" by (auto simp: rep_simps)
  obtain c' where "resolveIfCollapsed D get (ExtensionNode e c b) pos = Inr (ExtensionNode e (Some c') b)"
    "rep D get (PExt k u) (ExtensionNode e (Some c') b)"
    using resolve_ext [of get k u e c b pos] assms n PExt by auto
  with n PExt show thesis by (intro that) (auto simp: isDirty_def)
next
  case (PBranch f)
  with assms(1) obtain m cs b where n: "n = BranchNode m cs b" by (auto simp: rep_simps)
  obtain cs' where "resolveIfCollapsed D get (BranchNode m cs b) pos = Inr (BranchNode m cs' b)"
    "rep D get (PBranch f) (BranchNode m cs' b)"
    using resolve_branch [of get f m cs b pos] assms n PBranch by auto
  with n PBranch show thesis by (intro that) (auto simp: isDirty_def)
qed

end

text \<open>The generated protocol-buffer code as the trie's marshalizer, with any hash function.\<close>

definition gogo_deps :: "(bytes \<Rightarrow> bytes) \<Rightarrow> deps" where
  "gogo_deps H = \<lparr>
     Compute = H,
     marshalLn = (\<lambda>m. Inr (MarshalLn m)),
     marshalEn = (\<lambda>m. Inr (MarshalEn m)),
     marshalBn = (\<lambda>m. Inr (MarshalBn m)),
     unmarshalLn = (\<lambda>bs. map_sum ErrUnmarshal id (UnmarshalLn bs)),
     unmarshalEn = (\<lambda>bs. map_sum ErrUnmarshal id (UnmarshalEn bs)),
     unmarshalBn = (\<lambda>bs. map_sum ErrUnmarshal id (UnmarshalBn bs))\<rparr>"

interpretation gogo: trie_codec "gogo_deps H" for H
  by unfold_locales
    (auto simp: gogo_deps_def UnmarshalLn_MarshalLn UnmarshalEn_MarshalEn UnmarshalBn_MarshalBn)

end
