(* ===== verification/Trie_Ops.thy ===== *)
theory Trie_Ops
  imports Trie_Node
begin

text \<open>
  Lookup, insertion and deletion on trie nodes: the methods \<open>tryGet\<close>, \<open>getNext\<close>, \<open>insert\<close>,
  \<open>delete\<close> and \<open>reduceNode\<close> of the three node kinds with the helpers they call. \<open>nodeInsert\<close> returns
  the receiver and either an error, nothing (the value was already there), or the node that takes
  the receiver's place with the hashes that became obsolete; \<open>nodeDelete\<close> returns the receiver and
  either an error or the flag, the node and the hashes of the source.
\<close>

subsection \<open>Lookup\<close>

type_synonym get_result = "node \<times> (trie_error + bytes option) \<times> u32"

text \<open>The methods of the three kinds; \<open>rec\<close> is the call of the method on the child.\<close>

definition leafTryGet :: "CollapsedLn \<Rightarrow> baseNode \<Rightarrow> bytes \<Rightarrow> u32 \<Rightarrow> get_result" where
  "leafTryGet l b key depth = (case isEmptyOrNil (LeafNode l b) of
     Some e \<Rightarrow> (LeafNode l b, Inl e, depth)
   | None \<Rightarrow> (LeafNode l b, Inr (if key = LnKey l then LnValue l else None), depth))"

definition extTryGet :: "(node \<Rightarrow> bytes \<Rightarrow> u32 \<Rightarrow> get_result) \<Rightarrow> deps \<Rightarrow> getter \<Rightarrow>
    CollapsedEn \<Rightarrow> node option \<Rightarrow> baseNode \<Rightarrow> bytes \<Rightarrow> u32 \<Rightarrow> get_result" where
  "extTryGet rec D get e c b key depth = (let n = ExtensionNode e c b in
     case isEmptyOrNil n of
       Some er \<Rightarrow> (n, Inl er, depth)
     | None \<Rightarrow>
         if length key < length (EnKey e) then (n, Inr None, depth)
         else if EnKey e \<noteq> take (length (EnKey e)) key then (n, Inr None, depth)
         else (case resolveIfCollapsed D get n 0 of
           Inl er \<Rightarrow> (n, Inl er, depth)
         | Inr n' \<Rightarrow> (case childAt n' 0 of
             None \<Rightarrow> (n', Inl Panic, depth)
           | Some child \<Rightarrow>
               (let (child', r, d) = rec child (drop (length (EnKey e)) key) (depth + 1)
                in (setChildAt n' 0 (Some child'), r, d)))))"

definition branchTryGet :: "(node \<Rightarrow> bytes \<Rightarrow> u32 \<Rightarrow> get_result) \<Rightarrow> deps \<Rightarrow> getter \<Rightarrow>
    CollapsedBn \<Rightarrow> node option list \<Rightarrow> baseNode \<Rightarrow> bytes \<Rightarrow> u32 \<Rightarrow> get_result" where
  "branchTryGet rec D get m cs b key depth = (let n = BranchNode m cs b in
     case isEmptyOrNil n of
       Some e \<Rightarrow> (n, Inl e, depth)
     | None \<Rightarrow> (case key of
         [] \<Rightarrow> (n, Inr None, depth)
       | pos # key' \<Rightarrow>
           if childPosOutOfRange pos then (n, Inl ErrChildPosOutOfRange, depth)
           else (case resolveIfCollapsed D get n (unat pos) of
             Inl er \<Rightarrow> (n, Inl er, depth)
           | Inr n' \<Rightarrow> (case childAt n' (unat pos) of
               None \<Rightarrow> (n', Inr None, depth)
             | Some child \<Rightarrow>
                 (let (child', r, d) = rec child key' (depth + 1)
                  in (setChildAt n' (unat pos) (Some child'), r, d))))))"

fun tryGet :: "deps \<Rightarrow> getter \<Rightarrow> nat \<Rightarrow> node \<Rightarrow> bytes \<Rightarrow> u32 \<Rightarrow> get_result" where
  "tryGet D get 0 n key depth = (n, Inl OutOfFuel, depth)"
| "tryGet D get (Suc fuel) n key depth = (case n of
     LeafNode l b \<Rightarrow> leafTryGet l b key depth
   | ExtensionNode e c b \<Rightarrow> extTryGet (tryGet D get fuel) D get e c b key depth
   | BranchNode m cs b \<Rightarrow> branchTryGet (tryGet D get fuel) D get m cs b key depth)"

text \<open>One step towards a key; \<open>None\<close> as the next node says that the key ends in this leaf.\<close>

fun getNext :: "deps \<Rightarrow> getter \<Rightarrow> node \<Rightarrow> bytes \<Rightarrow> node \<times> (trie_error + (node \<times> bytes) option)" where
  "getNext D get (LeafNode l b) key =
     (case isEmptyOrNil (LeafNode l b) of
        Some e \<Rightarrow> (LeafNode l b, Inl e)
      | None \<Rightarrow> (LeafNode l b, if key = LnKey l then Inr None else Inl ErrNodeNotFound))"
| "getNext D get (ExtensionNode e c b) key =
     (let n = ExtensionNode e c b in
      case isEmptyOrNil n of
        Some er \<Rightarrow> (n, Inl er)
      | None \<Rightarrow>
          if length key < length (EnKey e) then (n, Inl ErrNodeNotFound)
          else if EnKey e \<noteq> take (length (EnKey e)) key then (n, Inl ErrNodeNotFound)
          else (case resolveIfCollapsed D get n 0 of
            Inl er \<Rightarrow> (n, Inl er)
          | Inr n' \<Rightarrow> (case childAt n' 0 of
              None \<Rightarrow> (n', Inr None)
            | Some child \<Rightarrow> (n', Inr (Some (child, drop (length (EnKey e)) key))))))"
| "getNext D get (BranchNode m cs b) key =
     (let n = BranchNode m cs b in
      case isEmptyOrNil n of
        Some er \<Rightarrow> (n, Inl er)
      | None \<Rightarrow> (case key of
          [] \<Rightarrow> (n, Inl ErrValueTooShort)
        | pos # key' \<Rightarrow>
            if childPosOutOfRange pos then (n, Inl ErrChildPosOutOfRange)
            else (case resolveIfCollapsed D get n (unat pos) of
              Inl er \<Rightarrow> (n, Inl er)
            | Inr n' \<Rightarrow> (case childAt n' (unat pos) of
                None \<Rightarrow> (n', Inl ErrNodeNotFound)
              | Some child \<Rightarrow> (n', Inr (Some (child, key')))))))"

subsection \<open>Insertion\<close>

type_synonym insert_result = "trie_error + (node \<times> bytes list) option"

text \<open>\<open>leafNode.insertInSameLn\<close>\<close>

definition insertInSameLn :: "CollapsedLn \<Rightarrow> baseNode \<Rightarrow> TrieData \<Rightarrow> node \<times> insert_result" where
  "insertInSameLn l b d =
     (if slice (LnValue l) = slice (Value d) then (LeafNode l b, Inr None)
      else
        let n = LeafNode (l\<lparr>LnValue := Value d, LnVersion := ucast (Version d)\<rparr>) newBase
        in (n, Inr (Some (n, oldHash b))))"

text \<open>The positions at which two keys part, as a branch reads them.\<close>

definition splitPositions :: "bytes \<Rightarrow> bytes \<Rightarrow> nat \<Rightarrow> trie_error + byte \<times> byte" where
  "splitPositions oldKey newKey keyMatchLen = (case idx Panic oldKey keyMatchLen of
     Inl e \<Rightarrow> Inl e
   | Inr oldPos \<Rightarrow> (case idx Panic newKey keyMatchLen of
       Inl e \<Rightarrow> Inl e
     | Inr newPos \<Rightarrow>
         if childPosOutOfRange oldPos \<or> childPosOutOfRange newPos then Inl ErrChildPosOutOfRange
         else Inr (oldPos, newPos)))"

text \<open>\<open>leafNode.insertInNewBn\<close>\<close>

definition leafInsertInNewBn :: "CollapsedLn \<Rightarrow> baseNode \<Rightarrow> TrieData \<Rightarrow> nat \<Rightarrow> trie_error + node" where
  "leafInsertInNewBn l b d keyMatchLen = (case splitPositions (LnKey l) (Key d) keyMatchLen of
     Inl e \<Rightarrow> Inl e
   | Inr (oldPos, newPos) \<Rightarrow> (case getVersion (LeafNode l b) of
       Inl e \<Rightarrow> Inl e
     | Inr oldVersion \<Rightarrow>
         (case putChild newBranchNode (unat oldPos)
             (newLeafNode \<lparr>Key = drop (keyMatchLen + 1) (LnKey l), Value = LnValue l, Version = oldVersion\<rparr>)
             oldVersion of
           Inl e \<Rightarrow> Inl e
         | Inr bn \<Rightarrow>
             putChild bn (unat newPos)
               (newLeafNode (d\<lparr>Key := drop (keyMatchLen + 1) (Key d)\<rparr>)) (Version d))))"

text \<open>\<open>leafNode.insert\<close>\<close>

definition leafInsert :: "CollapsedLn \<Rightarrow> baseNode \<Rightarrow> TrieData \<Rightarrow> node \<times> insert_result" where
  "leafInsert l b d = (case isEmptyOrNil (LeafNode l b) of
     Some e \<Rightarrow> (LeafNode l b, Inl e)
   | None \<Rightarrow>
       if Key d = LnKey l then insertInSameLn l b d
       else
         let keyMatchLen = prefixLen (Key d) (LnKey l) in
         (LeafNode l b,
          case leafInsertInNewBn l b d keyMatchLen of
            Inl e \<Rightarrow> Inl e
          | Inr bn \<Rightarrow>
              if keyMatchLen = 0 then Inr (Some (bn, oldHash b))
              else (case newExtensionNode (take keyMatchLen (LnKey l)) (Some bn) of
                Inl e \<Rightarrow> Inl e
              | Inr newEn \<Rightarrow> Inr (Some (newEn, oldHash b)))))"

text \<open>\<open>extensionNode.insertOldChildInBn\<close>\<close>

definition insertOldChildInBn :: "node \<Rightarrow> CollapsedEn \<Rightarrow> node \<Rightarrow> byte \<Rightarrow> nat \<Rightarrow> trie_error + node" where
  "insertOldChildInBn bn e child oldPos keyMatchLen = (case getVersion child of
     Inl er \<Rightarrow> Inl er
   | Inr childVersion \<Rightarrow>
       let keyReminder = drop (keyMatchLen + 1) (EnKey e) in
       if length keyReminder < 1 then putChild bn (unat oldPos) child childVersion
       else (case newExtensionNode keyReminder (Some child) of
         Inl er \<Rightarrow> Inl er
       | Inr followingExtensionNode \<Rightarrow> putChild bn (unat oldPos) followingExtensionNode childVersion))"

text \<open>\<open>extensionNode.insertNewChildInBn\<close>\<close>

definition insertNewChildInBn :: "node \<Rightarrow> TrieData \<Rightarrow> byte \<Rightarrow> nat \<Rightarrow> trie_error + node" where
  "insertNewChildInBn bn d newPos keyMatchLen =
     putChild bn (unat newPos) (newLeafNode (d\<lparr>Key := drop (keyMatchLen + 1) (Key d)\<rparr>)) (Version d)"

text \<open>\<open>extensionNode.insertInNewBn\<close>\<close>

definition extInsertInNewBn :: "CollapsedEn \<Rightarrow> node \<Rightarrow> baseNode \<Rightarrow> TrieData \<Rightarrow> nat \<Rightarrow> insert_result" where
  "extInsertInNewBn e child b d keyMatchLen = (case splitPositions (EnKey e) (Key d) keyMatchLen of
     Inl er \<Rightarrow> Inl er
   | Inr (oldPos, newPos) \<Rightarrow> (case insertOldChildInBn newBranchNode e child oldPos keyMatchLen of
       Inl er \<Rightarrow> Inl er
     | Inr bn \<Rightarrow> (case insertNewChildInBn bn d newPos keyMatchLen of
         Inl er \<Rightarrow> Inl er
       | Inr bn' \<Rightarrow>
           if keyMatchLen = 0 then Inr (Some (bn', oldHash b))
           else (case newExtensionNode (take keyMatchLen (EnKey e)) (Some bn') of
             Inl er \<Rightarrow> Inl er
           | Inr newEn \<Rightarrow> Inr (Some (newEn, oldHash b))))))"

text \<open>\<open>branchNode.modifyNodeAfterInsert\<close>\<close>

definition modifyNodeAfterInsert :: "node \<Rightarrow> bytes list \<Rightarrow> nat \<Rightarrow> node \<Rightarrow> trie_error + node \<times> bytes list" where
  "modifyNodeAfterInsert bn modifiedHashes pos newNode = (case getVersion newNode of
     Inl e \<Rightarrow> Inl e
   | Inr childVersion \<Rightarrow> (case putChild bn pos newNode childVersion of
       Inl e \<Rightarrow> Inl e
     | Inr bn' \<Rightarrow> Inr (setBase bn' newBase, modifiedHashes @ oldHash (baseOf bn))))"

definition afterBranchInsert :: "node \<Rightarrow> bytes list \<Rightarrow> nat \<Rightarrow> node \<Rightarrow> node \<times> insert_result" where
  "afterBranchInsert bn hashes pos newNode = (case modifyNodeAfterInsert bn hashes pos newNode of
     Inl e \<Rightarrow> (bn, Inl e)
   | Inr (bn', hashes') \<Rightarrow> (bn', Inr (Some (bn', hashes'))))"

text \<open>\<open>extensionNode.insert\<close>, with \<open>rec\<close> for the call on the child.\<close>

definition insertInSameEn :: "(node \<Rightarrow> TrieData \<Rightarrow> node \<times> insert_result) \<Rightarrow> node \<Rightarrow> CollapsedEn \<Rightarrow> node \<Rightarrow>
    baseNode \<Rightarrow> TrieData \<Rightarrow> nat \<Rightarrow> node \<times> insert_result" where
  "insertInSameEn rec n' e child b d keyMatchLen =
     (let (child', r) = rec child (d\<lparr>Key := drop keyMatchLen (Key d)\<rparr>);
          n'' = setChildAt n' 0 (Some child') in
      (n'', case r of
         Inl er \<Rightarrow> Inl er
       | Inr None \<Rightarrow> Inr None
       | Inr (Some (newNode, oldHashes)) \<Rightarrow> (case newExtensionNode (EnKey e) (Some newNode) of
           Inl er \<Rightarrow> Inl er
         | Inr newEn \<Rightarrow> Inr (Some (newEn, oldHashes @ oldHash b)))))"

definition extInsert :: "(node \<Rightarrow> TrieData \<Rightarrow> node \<times> insert_result) \<Rightarrow> deps \<Rightarrow> getter \<Rightarrow>
    CollapsedEn \<Rightarrow> node option \<Rightarrow> baseNode \<Rightarrow> TrieData \<Rightarrow> node \<times> insert_result" where
  "extInsert rec D get e c b d = (let n = ExtensionNode e c b in
     case isEmptyOrNil n of
       Some er \<Rightarrow> (n, Inl er)
     | None \<Rightarrow> (case resolveIfCollapsed D get n 0 of
         Inl er \<Rightarrow> (n, Inl er)
       | Inr n' \<Rightarrow> (case childAt n' 0 of
           None \<Rightarrow> (n', Inl Panic)
         | Some child \<Rightarrow>
             let keyMatchLen = prefixLen (Key d) (EnKey e) in
             if keyMatchLen = length (EnKey e) then insertInSameEn rec n' e child b d keyMatchLen
             else (n', extInsertInNewBn e child b d keyMatchLen))))"

text \<open>\<open>branchNode.insert\<close> with \<open>insertOnNilChild\<close> and \<open>insertOnExistingChild\<close>.\<close>

definition insertOnNilChild :: "node \<Rightarrow> TrieData \<Rightarrow> nat \<Rightarrow> node \<times> insert_result" where
  "insertOnNilChild n d pos = afterBranchInsert n [] pos (newLeafNode d)"

definition insertOnExistingChild :: "(node \<Rightarrow> TrieData \<Rightarrow> node \<times> insert_result) \<Rightarrow> node \<Rightarrow> node \<Rightarrow> TrieData \<Rightarrow>
    nat \<Rightarrow> node \<times> insert_result" where
  "insertOnExistingChild rec n' child d pos =
     (let (child', r) = rec child d; n'' = setChildAt n' pos (Some child') in
      case r of
        Inl er \<Rightarrow> (n'', Inl er)
      | Inr None \<Rightarrow> (n'', Inr None)
      | Inr (Some (newNode, hashes)) \<Rightarrow> afterBranchInsert n'' hashes pos newNode)"

definition branchInsert :: "(node \<Rightarrow> TrieData \<Rightarrow> node \<times> insert_result) \<Rightarrow> deps \<Rightarrow> getter \<Rightarrow>
    CollapsedBn \<Rightarrow> node option list \<Rightarrow> baseNode \<Rightarrow> TrieData \<Rightarrow> node \<times> insert_result" where
  "branchInsert rec D get m cs b d = (let n = BranchNode m cs b in
     case isEmptyOrNil n of
       Some e \<Rightarrow> (n, Inl e)
     | None \<Rightarrow> (case Key d of
         [] \<Rightarrow> (n, Inl ErrValueTooShort)
       | pos # key' \<Rightarrow>
           if childPosOutOfRange pos then (n, Inl ErrChildPosOutOfRange)
           else (case resolveIfCollapsed D get n (unat pos) of
             Inl er \<Rightarrow> (n, Inl er)
           | Inr n' \<Rightarrow> (case childAt n' (unat pos) of
               None \<Rightarrow> insertOnNilChild n' (d\<lparr>Key := key'\<rparr>) (unat pos)
             | Some child \<Rightarrow> insertOnExistingChild rec n' child (d\<lparr>Key := key'\<rparr>) (unat pos)))))"

fun nodeInsert :: "deps \<Rightarrow> getter \<Rightarrow> nat \<Rightarrow> node \<Rightarrow> TrieData \<Rightarrow> node \<times> insert_result" where
  "nodeInsert D get 0 n d = (n, Inl OutOfFuel)"
| "nodeInsert D get (Suc fuel) n d = (case n of
     LeafNode l b \<Rightarrow> leafInsert l b d
   | ExtensionNode e c b \<Rightarrow> extInsert (nodeInsert D get fuel) D get e c b d
   | BranchNode m cs b \<Rightarrow> branchInsert (nodeInsert D get fuel) D get m cs b d)"

subsection \<open>Deletion\<close>

type_synonym delete_result = "trie_error + bool \<times> node option \<times> bytes list"

text \<open>\<open>reduceNode\<close> of the three kinds: the node that replaces a branch with this single child.\<close>

fun reduceNode :: "node \<Rightarrow> nat \<Rightarrow> trie_error + node \<times> bool" where
  "reduceNode (LeafNode l b) pos = (case getVersion (LeafNode l b) of
     Inl e \<Rightarrow> Inl e
   | Inr v \<Rightarrow>
       Inr (newLeafNode \<lparr>Key = of_nat pos # LnKey l, Value = LnValue l, Version = v\<rparr>, True))"
| "reduceNode (ExtensionNode e c b) pos = (case newExtensionNode (of_nat pos # EnKey e) c of
     Inl er \<Rightarrow> Inl er
   | Inr n \<Rightarrow> Inr (n, True))"
| "reduceNode (BranchNode m cs b) pos = (case newExtensionNode [of_nat pos] (Some (BranchNode m cs b)) of
     Inl er \<Rightarrow> Inl er
   | Inr n \<Rightarrow> Inr (n, False))"

text \<open>\<open>branchNode.setNewChild\<close>: the receiver as it is left, and the error if there is one.\<close>

fun setNewChild :: "node \<Rightarrow> nat \<Rightarrow> node option \<Rightarrow> node \<times> trie_error option" where
  "setNewChild (BranchNode m cs b) pos newNode =
     (let b' = b\<lparr>hash := None\<rparr>; cs' = cs[pos := newNode] in
      case newNode of
        None \<Rightarrow> (case setVersionForChild m NotSpecified pos of
          Inl e \<Rightarrow> (BranchNode m cs' b', Some e)
        | Inr m' \<Rightarrow>
            if pos \<ge> length (EncodedChildren m') then (BranchNode m' cs' b', Some Panic)
            else (BranchNode (m'\<lparr>EncodedChildren := (EncodedChildren m')[pos := []]\<rparr>) cs' b', None))
      | Some c \<Rightarrow> (case getVersion c of
          Inl e \<Rightarrow> (BranchNode m cs' b', Some e)
        | Inr v \<Rightarrow> (case setVersionForChild m v pos of
            Inl e \<Rightarrow> (BranchNode m cs' b', Some e)
          | Inr m' \<Rightarrow> (BranchNode m' cs' b', None))))"
| "setNewChild n pos newNode = (n, Some Panic)"

text \<open>The end of \<open>branchNode.delete\<close>, once the child has been replaced: a branch left with one child
  gives way to that child, lengthened by its position.\<close>

fun finishBranchDelete :: "deps \<Rightarrow> getter \<Rightarrow> node \<Rightarrow> bytes list \<Rightarrow> node \<times> delete_result" where
  "finishBranchDelete D get (BranchNode m cs b) hashes =
     (let n = BranchNode m cs b in
      case getChildPosition cs (EncodedChildren m) childIndices (0, 0) of
        Inl e \<Rightarrow> (n, Inl e)
      | Inr (numChildren, pos) \<Rightarrow>
          if numChildren = 1 then
            (case resolveIfCollapsed D get n pos of
               Inl e \<Rightarrow> (n, Inl e)
             | Inr n1 \<Rightarrow> (case childAt n1 pos of
                 None \<Rightarrow> (n1, Inl Panic)
               | Some child \<Rightarrow> (case resolveIfCollapsed D get child pos of
                   Inl e \<Rightarrow> (n1, Inl e)
                 | Inr child' \<Rightarrow>
                     let n2 = setChildAt n1 pos (Some child') in
                     (case reduceNode child' pos of
                        Inl e \<Rightarrow> (n2, Inl e)
                      | Inr (newNode, newChildHash) \<Rightarrow>
                          (n2, Inr (True, Some newNode,
                             hashes @ (if newChildHash \<and> \<not> isDirty child'
                                       then [slice (getHash child')] else [])))))))
          else
            let n' = BranchNode m cs (b\<lparr>dirty := True\<rparr>) in (n', Inr (True, Some n', hashes)))"
| "finishBranchDelete D get n hashes = (n, Inl Panic)"

text \<open>The type switch at the end of \<open>extensionNode.delete\<close>.\<close>

definition extDeleteMerge :: "bytes \<Rightarrow> node option \<Rightarrow> trie_error + node option" where
  "extDeleteMerge key newNode = (case newNode of
     None \<Rightarrow> Inr None
   | Some (LeafNode l b) \<Rightarrow>
       Inr (Some (newLeafNode \<lparr>Key = key @ LnKey l, Value = LnValue l, Version = ucast (LnVersion l)\<rparr>))
   | Some (ExtensionNode e c b) \<Rightarrow> (case newExtensionNode (key @ EnKey e) c of
       Inl er \<Rightarrow> Inl er | Inr n \<Rightarrow> Inr (Some n))
   | Some (BranchNode m cs b) \<Rightarrow> (case newExtensionNode key (Some (BranchNode m cs b)) of
       Inl er \<Rightarrow> Inl er | Inr n \<Rightarrow> Inr (Some n)))"

definition leafDelete :: "CollapsedLn \<Rightarrow> baseNode \<Rightarrow> bytes \<Rightarrow> node \<times> delete_result" where
  "leafDelete l b key = (let n = LeafNode l b in
     (n, if key = LnKey l then Inr (True, None, oldHash b) else Inr (False, Some n, [])))"

definition extDelete :: "(node \<Rightarrow> bytes \<Rightarrow> node \<times> delete_result) \<Rightarrow> deps \<Rightarrow> getter \<Rightarrow>
    CollapsedEn \<Rightarrow> node option \<Rightarrow> baseNode \<Rightarrow> bytes \<Rightarrow> node \<times> delete_result" where
  "extDelete rec D get e c b key = (let n = ExtensionNode e c b in
     case isEmptyOrNil n of
       Some er \<Rightarrow> (n, Inl er)
     | None \<Rightarrow>
         if key = [] then (n, Inl ErrValueTooShort)
         else if prefixLen key (EnKey e) < length (EnKey e) then (n, Inr (False, Some n, []))
         else (case resolveIfCollapsed D get n 0 of
           Inl er \<Rightarrow> (n, Inl er)
         | Inr n' \<Rightarrow> (case childAt n' 0 of
             None \<Rightarrow> (n', Inl Panic)
           | Some child \<Rightarrow>
               (let (child', r) = rec child (drop (length (EnKey e)) key);
                    n'' = setChildAt n' 0 (Some child') in
                case r of
                  Inl er \<Rightarrow> (n'', Inl er)
                | Inr (d, newNode, oldHashes) \<Rightarrow>
                    if \<not> d then (n'', Inr (False, Some n'', []))
                    else (n'', case extDeleteMerge (EnKey e) newNode of
                      Inl er \<Rightarrow> Inl er
                    | Inr nn \<Rightarrow> Inr (True, nn, oldHashes @ oldHash b))))))"

definition branchDelete :: "(node \<Rightarrow> bytes \<Rightarrow> node \<times> delete_result) \<Rightarrow> deps \<Rightarrow> getter \<Rightarrow>
    CollapsedBn \<Rightarrow> node option list \<Rightarrow> baseNode \<Rightarrow> bytes \<Rightarrow> node \<times> delete_result" where
  "branchDelete rec D get m cs b key = (let n = BranchNode m cs b in
     case isEmptyOrNil n of
       Some er \<Rightarrow> (n, Inl er)
     | None \<Rightarrow> (case key of
         [] \<Rightarrow> (n, Inl ErrValueTooShort)
       | pos # key' \<Rightarrow>
           if childPosOutOfRange pos then (n, Inl ErrChildPosOutOfRange)
           else (case resolveIfCollapsed D get n (unat pos) of
             Inl er \<Rightarrow> (n, Inl er)
           | Inr n' \<Rightarrow> (case childAt n' (unat pos) of
               None \<Rightarrow> (n', Inr (False, Some n', []))
             | Some child \<Rightarrow>
                 (let (child', r) = rec child key';
                      n'' = setChildAt n' (unat pos) (Some child') in
                  case r of
                    Inl er \<Rightarrow> (n'', Inl er)
                  | Inr (d, newNode, oldHashes) \<Rightarrow>
                      if \<not> d then (n'', Inr (False, Some n'', []))
                      else (case setNewChild n'' (unat pos) newNode of
                        (n3, Some er) \<Rightarrow> (n3, Inl er)
                      | (n3, None) \<Rightarrow> finishBranchDelete D get n3 (oldHashes @ oldHash b)))))))"

fun nodeDelete :: "deps \<Rightarrow> getter \<Rightarrow> nat \<Rightarrow> node \<Rightarrow> bytes \<Rightarrow> node \<times> delete_result" where
  "nodeDelete D get 0 n key = (n, Inl OutOfFuel)"
| "nodeDelete D get (Suc fuel) n key = (case n of
     LeafNode l b \<Rightarrow> leafDelete l b key
   | ExtensionNode e c b \<Rightarrow> extDelete (nodeDelete D get fuel) D get e c b key
   | BranchNode m cs b \<Rightarrow> branchDelete (nodeDelete D get fuel) D get m cs b key)"

end
