(* ===== verification/Trie_Refine.thy ===== *)
theory Trie_Refine
  imports Trie_Rep Trie_Ops
begin

text \<open>
  The operations on nodes implement the operations on tries: under a hasher whose output is not
  empty and a codec with the laws of \<open>trie_codec\<close>, \<open>tryGet\<close>, \<open>nodeInsert\<close> and \<open>nodeDelete\<close> started
  on a node that represents a trie, with fuel for one node per nibble of the key, return without
  error or panic what \<open>plookup\<close>, \<open>pinsert\<close> and \<open>pdelete\<close> say, leave nodes that represent the new
  trie, and report as obsolete only hashes of nodes of the old trie.
\<close>

lemmas node_ops = leafTryGet_def extTryGet_def branchTryGet_def extInsert_def insertInSameEn_def
  branchInsert_def insertOnNilChild_def insertOnExistingChild_def leafDelete_def extDelete_def branchDelete_def

lemma rep_leafE:
  assumes "rep D get (PLeaf k v w) n"
  obtains b where "n = LeafNode (leafMsg k v w) b" "bok D get (PLeaf k v w) b True"
  using assms by (auto simp: rep_simps)

lemma rep_extE:
  assumes "rep D get (PExt k t) n"
  obtains h c b where "n = ExtensionNode (extMsg k h (pversion t)) c b"
    "bok D get (PExt k t) b (h = phash D t)"
  using assms by (auto simp: rep_simps)

lemma rep_branchE:
  assumes "rep D get (PBranch f) n"
  obtains m cs b where "n = BranchNode m cs b" "length cs = nrOfChildren"
    "length (EncodedChildren m) = nrOfChildren" "ChildrenVersion m = cversions f"
    "\<forall>i < nrOfChildren. srep D get (f i) (cs ! i) (EncodedChildren m ! i)"
    "bok D get (PBranch f) b (EncodedChildren m = pencs D f)"
  using assms by (auto simp: rep_simps)

lemma slot_range: "slot_key (unat b) key \<Longrightarrow> \<not> childPosOutOfRange b" "slot_key i key \<Longrightarrow> i < nrOfChildren"
  by (auto simp: slot_key_def childPosOutOfRange_def nrOfChildren_def split: if_splits)

lemma leafMsg_simps [simp]:
  "LnKey (leafMsg k v w) = k" "LnValue (leafMsg k v w) = Some v" "LnVersion (leafMsg k v w) = ucast w"
  by (simp_all add: leafMsg_def)

lemma extMsg_simps [simp]:
  "EnKey (extMsg k h w) = k" "EncodedChild (extMsg k h w) = h" "ChildVersion (extMsg k h w) = ucast w"
  by (simp_all add: extMsg_def)

lemma pok_not_empty: "rep D get t n \<Longrightarrow> hasher_ok D \<Longrightarrow> pok t key \<Longrightarrow> isEmptyOrNil n = None"
  by (rule rep_not_empty) (auto simp: pok_def)

text \<open>The step of an operation through an extension or a branch: the key that is left fits the child.\<close>

lemma pok_PExt:
  assumes "pok (PExt k t) key"
  shows "pwf t" "is_pbranch t" "k \<noteq> []" "hex_key key" "\<forall>b \<in> set k. b < 16"
    "take (length k) key = k \<Longrightarrow> pok t (drop (length k) key)"
  using assms ext_key_rest [of key k] by (auto simp: pok_def)

lemma pok_PBranch:
  assumes "pok (PBranch f) key"
  obtains b key' where "key = b # key'" "pwf (PBranch f)" "slot_key (unat b) key'"
    "\<And>t. f (unat b) = Some t \<Longrightarrow> pok t key'"
proof -
  have wf: "pwf (PBranch f)" "hex_key key" using assms by (auto simp: pok_def)
  then obtain b key' where key: "key = b # key'" by (cases key) auto
  with wf have sk: "slot_key (unat b) key'" by (simp add: hex_key_slot)
  with wf have "f (unat b) = Some t \<Longrightarrow> pok t key'" for t
    using pok_slot [of "unat b" t key'] by (simp add: pwf_PBranch)
  with key wf sk show thesis by (intro that)
qed

context trie_codec
begin

lemma tryGet_rep:
  assumes "rep D get t n" "pok t key" "length key < fuel" "hasher_ok D"
  shows "\<exists>n' d. tryGet D get fuel n key depth = (n', Inr (map_option fst (plookup t key)), d) \<and> rep D get t n'"
  using assms
proof (induction t arbitrary: n key fuel depth)
  case (PLeaf k v w)
  then obtain fuel' where "fuel = Suc fuel'" by (cases fuel) auto
  moreover obtain b where "n = LeafNode (leafMsg k v w) b" using PLeaf.prems(1) by (rule rep_leafE)
  ultimately show ?case using PLeaf.prems by (simp add: node_ops)
next
  case (PExt k t)
  then obtain fuel' where fuel: "fuel = Suc fuel'" by (cases fuel) auto
  obtain h c b where n: "n = ExtensionNode (extMsg k h (pversion t)) c b" using PExt.prems(1) by (rule rep_extE)
  note ok = pok_PExt [OF PExt.prems(2)]
  have ne: "isEmptyOrNil n = None" using PExt.prems by (intro pok_not_empty)
  show ?case
  proof (cases "take (length k) key = k")
    case False
    then have "plookup (PExt k t) key = None" using plookup.simps(2) [of k t] by simp
    moreover have "length key < length k \<or> k \<noteq> take (length k) key" using False by auto
    ultimately show ?thesis using PExt.prems(1) fuel n ne by (auto simp: node_ops Let_def simp del: isEmptyOrNil.simps)
  next
    case True
    then have "\<not> length key < length k" by (metis length_take min.absorb4 less_irrefl min.strict_order_iff)
    obtain c' where c': "resolveIfCollapsed D get n 0 = Inr (ExtensionNode (extMsg k h (pversion t)) (Some c') b)"
      "rep D get t c'" using resolve_ext [of get k t] PExt.prems(1,4) ok(1) n by blast
    have "length (drop (length k) key) < fuel'" using PExt.prems(3) fuel ok(3,4) by (cases k; cases key) auto
    then obtain n' d where "tryGet D get fuel' c' (drop (length k) key) (depth + 1) =
        (n', Inr (map_option fst (plookup t (drop (length k) key))), d)" "rep D get t n'"
      using PExt.IH [OF c'(2) ok(6) [OF True], of fuel' "depth + 1"] PExt.prems(4) by blast
    moreover have "plookup (PExt k t) key = plookup t (drop (length k) key)"
      using True plookup.simps(2) [of k t] by simp
    moreover have "rep D get (PExt k t) (ExtensionNode (extMsg k h (pversion t)) (Some n') b)"
      if "rep D get t n'" for n' using rep_ext_child PExt.prems(1) n that by blast
    ultimately show ?thesis using fuel n ne c' True \<open>\<not> length key < length k\<close>
      by (simp add: node_ops Let_def del: isEmptyOrNil.simps plookup_PExt)
  qed
next
  case (PBranch f)
  then obtain fuel' where fuel: "fuel = Suc fuel'" by (cases fuel) auto
  obtain m cs b where n: "n = BranchNode m cs b" using PBranch.prems(1) by (rule rep_branchE)
  obtain p key' where key: "key = p # key'" "pwf (PBranch f)" "slot_key (unat p) key'"
    "\<And>t. f (unat p) = Some t \<Longrightarrow> pok t key'" using PBranch.prems(2) by (rule pok_PBranch) blast
  have ne: "isEmptyOrNil n = None" using PBranch.prems by (intro pok_not_empty)
  obtain cs' where cs': "resolveIfCollapsed D get n (unat p) = Inr (BranchNode m cs' b)"
    "rep D get (PBranch f) (BranchNode m cs' b)" "length cs' = nrOfChildren"
    "case f (unat p) of None \<Rightarrow> cs' ! unat p = None | Some t \<Rightarrow> \<exists>c. cs' ! unat p = Some c \<and> rep D get t c"
    using resolve_branch [of get f m cs b "unat p"] PBranch.prems(1,4) key(2) slot_range(2) [OF key(3)] n by blast
  show ?case
  proof (cases "f (unat p)")
    case None
    with cs' fuel n ne key slot_range [OF key(3)] show ?thesis by (simp add: node_ops Let_def del: isEmptyOrNil.simps)
  next
    case (Some t)
    with cs' obtain c where c: "cs' ! unat p = Some c" "rep D get t c" by auto
    have "length key' < fuel'" using PBranch.prems(3) fuel key(1) by simp
    then obtain n' d where r: "tryGet D get fuel' c key' (depth + 1) =
        (n', Inr (map_option fst (plookup t key')), d)" "rep D get t n'"
      using PBranch.IH [of "Some t" t c key' fuel' "depth + 1"] c Some key(4) PBranch.prems(4)
      by (metis option.set_intros rangeI)
    have "rep D get (PBranch f) (BranchNode m (cs'[unat p := Some n']) b)"
      using rep_branch_child [OF cs'(2) Some r(2)] .
    with cs' r c Some fuel n ne key slot_range [OF key(3)] show ?thesis by (simp add: node_ops Let_def del: isEmptyOrNil.simps)
  qed
qed

end

subsection \<open>Insertion\<close>

lemma hex_key_range: "hex_key key \<Longrightarrow> b \<in> set key \<Longrightarrow> \<not> childPosOutOfRange b"
  by (induction key rule: hex_key.induct)
    (auto simp: childPosOutOfRange_def nrOfChildren_def hexTerminator_def word_less_nat_alt)

lemma nibble_range: "b < 16 \<Longrightarrow> \<not> childPosOutOfRange b"
  by (simp add: childPosOutOfRange_def nrOfChildren_def word_less_nat_alt)

lemma splitPositions_ok:
  assumes "m < length k" "m < length key" "hex_key key" "\<forall>b \<in> set k. \<not> childPosOutOfRange b"
  shows "splitPositions k key m = Inr (k ! m, key ! m)"
  using assms hex_key_range [OF assms(3) nth_mem [OF assms(2)]] by (simp add: splitPositions_def)

lemma oldHash_subs:
  "bok D get t b fresh \<Longrightarrow> set (oldHash b) \<subseteq> phash D ` psubs t"
  by (auto simp: bok_def oldHash_def slice_def split: if_splits)

lemma rep_newLeafNode:
  "rep D get (PLeaf k v w) (newLeafNode \<lparr>Key = k, Value = Some v, Version = w\<rparr>)"
  using rep_leaf [OF bok_newBase, of D get k v w] by (simp add: newLeafNode_def leafMsg_def)

lemma rep_newExtensionNode:
  assumes "rep D get t c" "hasher_ok D"
  obtains n where "newExtensionNode k (Some c) = Inr n" "rep D get (PExt k t) n"
  using rep_ext [of D get t "Some c" "[]" k newBase] getVersion_rep [OF assms] assms
  by (auto simp: newExtensionNode_def extMsg_def)

lemma putChild_eq:
  assumes "pos < nrOfChildren" "ChildrenVersion m = cversions f"
  shows "putChild (BranchNode m cs b) pos c (pversion t) =
    Inr (BranchNode (m\<lparr>ChildrenVersion := cversions (f(pos \<mapsto> t))\<rparr>) (cs[pos := Some c]) b)"
  using setVersionForChild_rep [OF assms, of "Some t"] by simp

lemma rep_branch_upd:
  assumes "length cs = nrOfChildren" "length (EncodedChildren m) = nrOfChildren"
    "\<forall>i < nrOfChildren. i \<noteq> pos \<longrightarrow> srep D get (f i) (cs ! i) (EncodedChildren m ! i)" "rep D get t c"
  shows "rep D get (PBranch (f(pos \<mapsto> t)))
    (BranchNode (m\<lparr>ChildrenVersion := cversions (f(pos \<mapsto> t))\<rparr>) (cs[pos := Some c]) newBase)"
proof -
  have "srep D get ((f(pos \<mapsto> t)) i) (cs[pos := Some c] ! i) (EncodedChildren m ! i)"
    if "i < nrOfChildren" for i
    using that assms by (cases "i = pos") auto
  with assms show ?thesis by (cases m) (auto simp: rep_simps)
qed

lemma cversions_empty: "cversions Map.empty = []"
  by (simp add: cversions_def versionsOf_def revertChildrenVersionSliceIfNeeded_def list_all_iff)

text \<open>The branch that two children are put into.\<close>

lemma rep_split:
  assumes "rep D get t c" "rep D get u d" "a \<noteq> b" "\<not> childPosOutOfRange a" "\<not> childPosOutOfRange b"
  obtains bn bn' where "putChild newBranchNode (unat a) c (pversion t) = Inr bn"
    "putChild bn (unat b) d (pversion u) = Inr bn'" "rep D get (psplit a t b u) bn'"
proof -
  let ?m = "\<lparr>EncodedChildren = replicate nrOfChildren [], ChildrenVersion = []\<rparr>"
  have ab: "unat a < nrOfChildren" "unat b < nrOfChildren" using assms(4,5) by (auto simp: childPosOutOfRange_def)
  have bn: "rep D get (PBranch (Map.empty(unat a \<mapsto> t)))
      (BranchNode (?m\<lparr>ChildrenVersion := cversions (Map.empty(unat a \<mapsto> t))\<rparr>)
        ((replicate nrOfChildren None)[unat a := Some c]) newBase)"
    using assms(1) by (intro rep_branch_upd) auto
  then have "rep D get (psplit a t b u)
      (BranchNode (?m\<lparr>ChildrenVersion := cversions ((Map.empty(unat a \<mapsto> t))(unat b \<mapsto> u))\<rparr>)
        ((replicate nrOfChildren None)[unat a := Some c, unat b := Some d]) newBase)"
    unfolding psplit_def
    using rep_branch_upd [of "(replicate nrOfChildren None)[unat a := Some c]"
        "?m\<lparr>ChildrenVersion := cversions (Map.empty(unat a \<mapsto> t))\<rparr>" "unat b" D get _ u d] assms(2)
    by (auto simp: rep_PBranch)
  then show thesis
    using putChild_eq [OF ab(1), of ?m Map.empty "replicate nrOfChildren None" newBase c t]
      putChild_eq [OF ab(2), of "?m\<lparr>ChildrenVersion := cversions (Map.empty(unat a \<mapsto> t))\<rparr>" _
        "(replicate nrOfChildren None)[unat a := Some c]" newBase d u]
    by (intro that) (auto simp: newBranchNode_def cversions_empty)
qed


lemma pversion_pext [simp]: "pversion (pext k t) = pversion t"
  by (simp add: pext_def)

text \<open>What an insertion must return for a node that represents \<open>t\<close>.\<close>

definition insert_ok :: "deps \<Rightarrow> getter \<Rightarrow> ptrie \<Rightarrow> bytes \<Rightarrow> bytes \<Rightarrow> byte \<Rightarrow> node \<times> insert_result \<Rightarrow> bool" where
  "insert_ok D get t key v w res \<longleftrightarrow>
     (if map_option fst (plookup t key) = Some v then snd res = Inr None \<and> rep D get t (fst res)
      else \<exists>n hs. snd res = Inr (Some (n, hs)) \<and> rep D get (pinsert t key v w) n \<and>
        set hs \<subseteq> phash D ` psubs t)"

lemma insert_ok_new:
  "map_option fst (plookup t key) \<noteq> Some v \<Longrightarrow> rep D get (pinsert t key v w) n \<Longrightarrow>
   set hs \<subseteq> phash D ` psubs t \<Longrightarrow> insert_ok D get t key v w (n0, Inr (Some (n, hs)))"
  by (simp add: insert_ok_def)

lemma rep_pext_newExtensionNode:
  assumes "rep D get t c" "hasher_ok D"
  obtains n where "(if length k < 1 then Inr c else newExtensionNode k (Some c)) = Inr n" "rep D get (pext k t) n"
proof (cases "k = []")
  case True
  with assms show thesis by (intro that [of c]) (auto simp: pext_def)
next
  case False
  obtain n where "newExtensionNode k (Some c) = Inr n" "rep D get (PExt k t) n"
    using assms by (rule rep_newExtensionNode)
  with False show thesis by (intro that [of n]) (auto simp: pext_def)
qed

lemma leafInsert_rep:
  assumes "rep D get (PLeaf k v0 w0) (LeafNode l b)" "hasher_ok D" "pok (PLeaf k v0 w0) key"
  shows "insert_ok D get (PLeaf k v0 w0) key v w (leafInsert l b \<lparr>Key = key, Value = Some v, Version = w\<rparr>)"
proof -
  have l: "l = leafMsg k v0 w0" and b: "bok D get (PLeaf k v0 w0) b True" using assms(1) by (auto simp: rep_simps)
  note hs = oldHash_subs [OF b]
  show ?thesis
  proof (cases "key = k")
    case True
    have "rep D get (PLeaf k v w) (LeafNode (l\<lparr>LnValue := Some v, LnVersion := ucast w\<rparr>) newBase)"
      using rep_leaf [OF bok_newBase, of D get k v w] by (simp add: l leafMsg_def)
    with True assms(1) hs l show ?thesis
      by (auto simp: leafInsert_def insertInSameLn_def insert_ok_def slice_def Let_def)
  next
    case False
    let ?m = "prefixLen key k"
    have hk: "hex_key k" "hex_key key" using False assms(3) by (auto simp: pok_def)
    then have m: "?m < length key" "?m < length k" using hex_key_prefixLen [OF hk(2,1)] False by auto
    then have ne: "key ! ?m \<noteq> k ! ?m" by (rule prefixLen_differ)
    have sp: "splitPositions k key ?m = Inr (k ! ?m, key ! ?m)"
      using m hk by (intro splitPositions_ok) (auto dest: hex_key_range)
    let ?t1 = "PLeaf (drop (Suc ?m) k) v0 w0" and ?t2 = "PLeaf (drop (Suc ?m) key) v w"
    obtain bn bn' where bn:
      "putChild newBranchNode (unat (k ! ?m)) (newLeafNode \<lparr>Key = drop (Suc ?m) k, Value = Some v0, Version = w0\<rparr>) (pversion ?t1) = Inr bn"
      "putChild bn (unat (key ! ?m)) (newLeafNode \<lparr>Key = drop (Suc ?m) key, Value = Some v, Version = w\<rparr>) (pversion ?t2) = Inr bn'"
      "rep D get (psplit (k ! ?m) ?t1 (key ! ?m) ?t2) bn'"
      using rep_split [OF rep_newLeafNode rep_newLeafNode ne [symmetric] hex_key_range [OF hk(1) nth_mem [OF m(2)]]
          hex_key_range [OF hk(2) nth_mem [OF m(1)]]] by blast
    then have new: "leafInsertInNewBn l b \<lparr>Key = key, Value = Some v, Version = w\<rparr> ?m = Inr bn'"
      using sp by (simp add: leafInsertInNewBn_def l)
    obtain n where "(if length (take ?m k) < 1 then Inr bn' else newExtensionNode (take ?m k) (Some bn')) = Inr n"
      "rep D get (pext (take ?m k) (psplit (k ! ?m) ?t1 (key ! ?m) ?t2)) n"
      using bn(3) assms(2) by (rule rep_pext_newExtensionNode)
    then show ?thesis using False new hs m l
      by (cases "?m = 0") (auto simp: leafInsert_def insert_ok_def Let_def)
  qed
qed

lemma extInsert_rep:
  assumes "rep D get t c" "hasher_ok D" "bok D get (PExt k t) b fresh" "hex_key key"
    "\<forall>b \<in> set k. b < 16" "prefixLen key k \<noteq> length k"
  obtains n where "extInsertInNewBn (extMsg k h w0) c b \<lparr>Key = key, Value = Some v, Version = w\<rparr> (prefixLen key k) =
      Inr (Some (n, oldHash b))" "rep D get (pinsert (PExt k t) key v w) n"
proof -
  let ?m = "prefixLen key k"
  have m: "?m < length key" "?m < length k" using ext_key_split [OF assms(4,5,6)] by auto
  then have ne: "key ! ?m \<noteq> k ! ?m" by (rule prefixLen_differ)
  have sp: "splitPositions k key ?m = Inr (k ! ?m, key ! ?m)"
    using m assms(4,5) by (intro splitPositions_ok) (auto dest: nibble_range)
  let ?t1 = "pext (drop (Suc ?m) k) t" and ?t2 = "PLeaf (drop (Suc ?m) key) v w"
  obtain c1 where c1: "(if length (drop (Suc ?m) k) < 1 then Inr c else newExtensionNode (drop (Suc ?m) k) (Some c)) = Inr c1"
    "rep D get ?t1 c1" using assms(1,2) by (rule rep_pext_newExtensionNode)
  have range: "\<not> childPosOutOfRange (k ! ?m)" "\<not> childPosOutOfRange (key ! ?m)"
    using assms(4,5) m nibble_range hex_key_range by auto
  obtain bn bn' where bn: "putChild newBranchNode (unat (k ! ?m)) c1 (pversion ?t1) = Inr bn"
      "putChild bn (unat (key ! ?m)) (newLeafNode \<lparr>Key = drop (Suc ?m) key, Value = Some v, Version = w\<rparr>) (pversion ?t2) = Inr bn'"
      "rep D get (psplit (k ! ?m) ?t1 (key ! ?m) ?t2) bn'"
    using rep_split [OF c1(2) rep_newLeafNode ne [symmetric] range] by blast
  have "insertOldChildInBn newBranchNode (extMsg k h w0) c (k ! ?m) ?m = Inr bn"
    using c1(1) bn(1) getVersion_rep [OF assms(1,2)]
    by (cases "drop (Suc ?m) k") (auto simp: insertOldChildInBn_def)
  moreover obtain n where "(if length (take ?m k) < 1 then Inr bn' else newExtensionNode (take ?m k) (Some bn')) = Inr n"
      "rep D get (pext (take ?m k) (psplit (k ! ?m) ?t1 (key ! ?m) ?t2)) n"
    using bn(3) assms(2) by (rule rep_pext_newExtensionNode)
  moreover have "k \<noteq> []" using m by auto
  ultimately show thesis using sp bn assms(6) m
    by (intro that [of n]) (cases "?m = 0"; auto simp: extInsertInNewBn_def insertNewChildInBn_def Let_def)+
qed

lemma afterBranchInsert_rep:
  assumes "rep D get (PBranch f) (BranchNode m cs b)" "rep D get t c" "hasher_ok D" "pos < nrOfChildren"
  obtains n where "afterBranchInsert (BranchNode m (cs[pos := x]) b) hs pos c = (n, Inr (Some (n, hs @ oldHash b)))"
    "rep D get (PBranch (f(pos \<mapsto> t))) n"
proof -
  have r: "length cs = nrOfChildren" "length (EncodedChildren m) = nrOfChildren" "ChildrenVersion m = cversions f"
    "\<forall>i < nrOfChildren. srep D get (f i) (cs ! i) (EncodedChildren m ! i)"
    using assms(1) by (auto simp: rep_simps)
  have "rep D get (PBranch (f(pos \<mapsto> t)))
      (BranchNode (m\<lparr>ChildrenVersion := cversions (f(pos \<mapsto> t))\<rparr>) (cs[pos := Some c]) newBase)"
    using r assms(2) by (intro rep_branch_upd) auto
  with putChild_eq [OF assms(4) r(3), of "cs[pos := x]" b c t] getVersion_rep [OF assms(2,3)] show thesis
    by (intro that) (auto simp: afterBranchInsert_def modifyNodeAfterInsert_def)
qed

lemma psubs_ext: "phash D ` psubs t \<subseteq> phash D ` psubs (PExt k t)"
  by auto

lemma phash_psubs_child: "f i = Some t \<Longrightarrow> phash D ` psubs t \<subseteq> phash D ` psubs (PBranch f)"
  by (rule image_mono) (rule psubs_child)

lemma hashes_append: "set hs \<subseteq> A \<Longrightarrow> A \<subseteq> B \<Longrightarrow> set hs' \<subseteq> B \<Longrightarrow> set (hs @ hs') \<subseteq> B"
  by auto

context trie_codec
begin

lemma nodeInsert_PExt:
  assumes prems: "rep D get (PExt k t) n" "pok (PExt k t) key" "length key < fuel" "hasher_ok D" "v \<noteq> []"
    and IH: "\<And>n key fuel. rep D get t n \<Longrightarrow> pok t key \<Longrightarrow> length key < fuel \<Longrightarrow>
      insert_ok D get t key v w (nodeInsert D get fuel n \<lparr>Key = key, Value = Some v, Version = w\<rparr>)"
  shows "insert_ok D get (PExt k t) key v w (nodeInsert D get fuel n \<lparr>Key = key, Value = Some v, Version = w\<rparr>)"
proof -
  obtain fuel' where fuel: "fuel = Suc fuel'" using prems(3) by (cases fuel) auto
  obtain h c b where n: "n = ExtensionNode (extMsg k h (pversion t)) c b"
    and b: "bok D get (PExt k t) b (h = phash D t)" using prems(1) by (rule rep_extE)
  note ok = pok_PExt [OF prems(2)]
  have ne: "isEmptyOrNil n = None" using prems(1,4,2) by (rule pok_not_empty)
  obtain c' where c': "resolveIfCollapsed D get n 0 = Inr (ExtensionNode (extMsg k h (pversion t)) (Some c') b)"
    "rep D get t c'" using resolve_ext [of get k t] prems(1,4) ok(1) n by blast
  show ?thesis
  proof (cases "prefixLen key k = length k")
    case True
    then have pre: "take (length k) key = k" by (simp add: prefixLen_eq_length)
    have "length (drop (length k) key) < fuel'" using prems(3) fuel ok(3,4) by (cases k; cases key) auto
    then have sub: "insert_ok D get t (drop (length k) key) v w
        (nodeInsert D get fuel' c' \<lparr>Key = drop (length k) key, Value = Some v, Version = w\<rparr>)"
      using IH [OF c'(2) ok(6) [OF pre]] by blast
    have look: "plookup (PExt k t) key = plookup t (drop (length k) key)"
      using pre plookup.simps(2) [of k t] by simp
    obtain child' r where r: "nodeInsert D get fuel' c' \<lparr>Key = drop (length k) key, Value = Some v, Version = w\<rparr> = (child', r)"
      by (cases "nodeInsert D get fuel' c' \<lparr>Key = drop (length k) key, Value = Some v, Version = w\<rparr>")
    show ?thesis
    proof (cases "map_option fst (plookup (PExt k t) key) = Some v")
      case same: True
      with sub look r have "r = Inr None" "rep D get t child'" by (auto simp: insert_ok_def)
      then show ?thesis using same fuel n ne c' True r rep_ext_child [of D get k t _ c b child'] prems(1)
        by (simp add: insert_ok_def node_ops Let_def del: isEmptyOrNil.simps plookup_PExt)
    next
      case False
      with sub look r obtain nn hs where nn: "r = Inr (Some (nn, hs))"
        "rep D get (pinsert t (drop (length k) key) v w) nn" "set hs \<subseteq> phash D ` psubs t"
        by (auto simp: insert_ok_def)
      obtain en where en: "newExtensionNode k (Some nn) = Inr en"
        "rep D get (PExt k (pinsert t (drop (length k) key) v w)) en"
        using nn(2) prems(4) by (rule rep_newExtensionNode)
      have "set (hs @ oldHash b) \<subseteq> phash D ` psubs (PExt k t)"
        using nn(3) psubs_ext oldHash_subs [OF b] by (rule hashes_append)
      then show ?thesis using False fuel n ne c' True r nn en
        by (simp add: insert_ok_def node_ops Let_def del: isEmptyOrNil.simps plookup_PExt)
    qed
  next
    case False
    then have "plookup (PExt k t) key = None"
      using plookup.simps(2) [of k t] by (simp add: prefixLen_eq_length)
    moreover obtain nn where "extInsertInNewBn (extMsg k h (pversion t)) c' b
        \<lparr>Key = key, Value = Some v, Version = w\<rparr> (prefixLen key k) = Inr (Some (nn, oldHash b))"
      "rep D get (pinsert (PExt k t) key v w) nn"
      using extInsert_rep [OF c'(2) prems(4) b ok(4,5) False] by blast
    ultimately show ?thesis using False fuel n ne c' oldHash_subs [OF b]
      by (simp add: insert_ok_def node_ops Let_def del: isEmptyOrNil.simps plookup_PExt)
  qed
qed

lemma nodeInsert_PBranch:
  assumes prems: "rep D get (PBranch f) n" "pok (PBranch f) key" "length key < fuel" "hasher_ok D" "v \<noteq> []"
    and IH: "\<And>i t n key fuel. f i = Some t \<Longrightarrow> rep D get t n \<Longrightarrow> pok t key \<Longrightarrow> length key < fuel \<Longrightarrow>
      insert_ok D get t key v w (nodeInsert D get fuel n \<lparr>Key = key, Value = Some v, Version = w\<rparr>)"
  shows "insert_ok D get (PBranch f) key v w (nodeInsert D get fuel n \<lparr>Key = key, Value = Some v, Version = w\<rparr>)"
proof -
  obtain fuel' where fuel: "fuel = Suc fuel'" using prems(3) by (cases fuel) auto
  obtain m cs b where n: "n = BranchNode m cs b"
    and b: "bok D get (PBranch f) b (EncodedChildren m = pencs D f)" using prems(1) by (rule rep_branchE)
  obtain p key' where key: "key = p # key'" "pwf (PBranch f)" "slot_key (unat p) key'"
    "\<And>t. f (unat p) = Some t \<Longrightarrow> pok t key'" using prems(2) by (rule pok_PBranch) blast
  note range = slot_range [OF key(3)]
  have ne: "isEmptyOrNil n = None" using prems(1,4,2) by (rule pok_not_empty)
  obtain cs' where cs': "resolveIfCollapsed D get n (unat p) = Inr (BranchNode m cs' b)"
    "rep D get (PBranch f) (BranchNode m cs' b)" "length cs' = nrOfChildren"
    "case f (unat p) of None \<Rightarrow> cs' ! unat p = None | Some t \<Rightarrow> \<exists>c. cs' ! unat p = Some c \<and> rep D get t c"
    using resolve_branch [of get f m cs b "unat p"] prems(1,4) key(2) range(2) n by blast
  show ?thesis
  proof (cases "f (unat p)")
    case None
    obtain nn where "afterBranchInsert (BranchNode m (cs'[unat p := None]) b) [] (unat p)
        (newLeafNode \<lparr>Key = key', Value = Some v, Version = w\<rparr>) = (nn, Inr (Some (nn, [] @ oldHash b)))"
      "rep D get (PBranch (f(unat p \<mapsto> PLeaf key' v w))) nn"
      using cs'(2) rep_newLeafNode prems(4) range(2) by (rule afterBranchInsert_rep)
    moreover have "cs' ! unat p = None" using None cs'(4) by simp
    then have "cs'[unat p := None] = cs'" by (metis list_update_id)
    ultimately show ?thesis using cs' None fuel n ne key range oldHash_subs [OF b]
      by (simp add: insert_ok_def node_ops Let_def del: isEmptyOrNil.simps)
  next
    case (Some t)
    with cs' obtain c where c: "cs' ! unat p = Some c" "rep D get t c" by auto
    have "length key' < fuel'" using prems(3) fuel key(1) by simp
    then have sub: "insert_ok D get t key' v w (nodeInsert D get fuel' c \<lparr>Key = key', Value = Some v, Version = w\<rparr>)"
      using IH [OF Some c(2) key(4) [OF Some]] by blast
    obtain child' r where r: "nodeInsert D get fuel' c \<lparr>Key = key', Value = Some v, Version = w\<rparr> = (child', r)"
      by (cases "nodeInsert D get fuel' c \<lparr>Key = key', Value = Some v, Version = w\<rparr>")
    show ?thesis
    proof (cases "map_option fst (plookup t key') = Some v")
      case True
      with sub r have "r = Inr None" "rep D get t child'" by (auto simp: insert_ok_def)
      with rep_branch_child [OF cs'(2) Some] True Some c cs' r fuel n ne key range show ?thesis
        by (simp add: insert_ok_def node_ops Let_def del: isEmptyOrNil.simps)
    next
      case False
      with sub r obtain nn hs where nn: "r = Inr (Some (nn, hs))" "rep D get (pinsert t key' v w) nn"
        "set hs \<subseteq> phash D ` psubs t" by (auto simp: insert_ok_def)
      obtain bn where "afterBranchInsert (BranchNode m (cs'[unat p := Some child']) b) hs (unat p) nn =
          (bn, Inr (Some (bn, hs @ oldHash b)))"
        "rep D get (PBranch (f(unat p \<mapsto> pinsert t key' v w))) bn"
        using cs'(2) nn(2) prems(4) range(2) by (rule afterBranchInsert_rep)
      moreover have "set (hs @ oldHash b) \<subseteq> phash D ` psubs (PBranch f)"
        using nn(3) phash_psubs_child [of f "unat p" t, OF Some] oldHash_subs [OF b] by (rule hashes_append)
      ultimately show ?thesis using False Some c cs' r nn(1) fuel n ne key range
        by (simp add: insert_ok_def node_ops Let_def del: isEmptyOrNil.simps psubs_PBranch)
    qed
  qed
qed

lemma nodeInsert_rep:
  assumes "rep D get t n" "pok t key" "length key < fuel" "hasher_ok D" "v \<noteq> []"
  shows "insert_ok D get t key v w (nodeInsert D get fuel n \<lparr>Key = key, Value = Some v, Version = w\<rparr>)"
  using assms
proof (induction t arbitrary: n key fuel)
  case (PLeaf k v0 w0)
  then obtain fuel' where "fuel = Suc fuel'" by (cases fuel) auto
  moreover obtain b where n: "n = LeafNode (leafMsg k v0 w0) b" using PLeaf.prems(1) by (rule rep_leafE)
  moreover have "insert_ok D get (PLeaf k v0 w0) key v w
      (leafInsert (leafMsg k v0 w0) b \<lparr>Key = key, Value = Some v, Version = w\<rparr>)"
    using PLeaf.prems n by (intro leafInsert_rep) auto
  ultimately show ?case by simp
next
  case (PExt k t)
  show ?case using PExt.prems by (rule nodeInsert_PExt) (rule PExt.IH; use PExt.prems in blast)
next
  case (PBranch f)
  show ?case using PBranch.prems
    by (rule nodeInsert_PBranch) (rule PBranch.IH; use PBranch.prems in \<open>auto intro: rangeI simp: eq_commute\<close>)
qed

end


subsection \<open>Deletion\<close>

definition unfolded :: "node option \<Rightarrow> bool" where
  "unfolded no \<longleftrightarrow> (\<forall>e b. no \<noteq> Some (ExtensionNode e None b))"

text \<open>What a deletion must return for a node that represents \<open>t\<close>.\<close>

definition delete_ok :: "deps \<Rightarrow> getter \<Rightarrow> ptrie \<Rightarrow> bytes \<Rightarrow> node \<times> delete_result \<Rightarrow> bool" where
  "delete_ok D get t key res \<longleftrightarrow>
     (if plookup t key = None then \<exists>n. res = (n, Inr (False, Some n, [])) \<and> rep D get t n
      else \<exists>no hs. snd res = Inr (True, no, hs) \<and> rel_option (rep D get) (pdelete t key) no \<and>
        unfolded no \<and> set hs \<subseteq> phash D ` psubs t)"

lemma getChildPosition_rep:
  assumes "hasher_ok D" "length cs = nrOfChildren" "length es = nrOfChildren"
    "\<forall>i < nrOfChildren. srep D get (g i) (cs ! i) (es ! i)"
  shows "getChildPosition cs es childIndices (0, 0) =
    Inr (length (pchildren g), if pchildren g = [] then 0 else last (pchildren g))"
proof -
  have "getChildPosition cs es is (a, p) = Inr (a + length (filter (\<lambda>i. g i \<noteq> None) is),
      if filter (\<lambda>i. g i \<noteq> None) is = [] then p else last (filter (\<lambda>i. g i \<noteq> None) is))"
    if "set is \<subseteq> {0..<nrOfChildren}" for "is" a p
    using that
  proof (induction "is" arbitrary: a p)
    case (Cons i "is")
    then have "posNil cs es i = Inr (g i = None)" using assms by (intro posNil_rep) auto
    with Cons show ?case by auto
  qed simp
  then show ?thesis by (simp add: pchildren_def childIndices_def)
qed

text \<open>A child of a branch is replaced, in the trie by the result of a deletion.\<close>

lemma setNewChild_rep:
  assumes "length cs = nrOfChildren" "length (EncodedChildren m) = nrOfChildren" "ChildrenVersion m = cversions f"
    "\<forall>i < nrOfChildren. i \<noteq> pos \<longrightarrow> srep D get (f i) (cs ! i) (EncodedChildren m ! i)" "pos < nrOfChildren"
    "rel_option (rep D get) to no" "hasher_ok D"
  obtains m' where "setNewChild (BranchNode m cs b) pos no = (BranchNode m' (cs[pos := no]) (b\<lparr>hash := None\<rparr>), None)"
    "length (EncodedChildren m') = nrOfChildren" "ChildrenVersion m' = cversions (f(pos := to))"
    "\<forall>i < nrOfChildren. srep D get ((f(pos := to)) i) (cs[pos := no] ! i) (EncodedChildren m' ! i)"
proof (cases no)
  case None
  then have to: "to = None" using assms(6) by simp
  let ?m = "m\<lparr>ChildrenVersion := cversions (f(pos := to)), EncodedChildren := (EncodedChildren m)[pos := []]\<rparr>"
  have "srep D get ((f(pos := to)) i) (cs[pos := no] ! i) (EncodedChildren ?m ! i)" if "i < nrOfChildren" for i
    using that assms None to by (cases "i = pos") auto
  with assms None to setVersionForChild_rep [OF assms(5,3), of to] show thesis by (intro that [of ?m]) auto
next
  case (Some c)
  then obtain t where to: "to = Some t" "rep D get t c" using assms(6) by (auto simp: option_rel_Some2)
  let ?m = "m\<lparr>ChildrenVersion := cversions (f(pos := to))\<rparr>"
  have "srep D get ((f(pos := to)) i) (cs[pos := no] ! i) (EncodedChildren ?m ! i)" if "i < nrOfChildren" for i
    using that assms Some to by (cases "i = pos") auto
  with assms Some to setVersionForChild_rep [OF assms(5,3), of to] getVersion_rep [OF to(2) assms(7)]
  show thesis by (intro that [of ?m]) auto
qed

lemma reduceNode_rep:
  assumes "rep D get t n" "hasher_ok D" "\<And>k u. t = PExt k u \<Longrightarrow> childAt n 0 \<noteq> None"
  obtains n' x where "reduceNode n i = Inr (n', x)" "rep D get (pmerge [of_nat i] t) n'" "unfolded (Some n')"
proof (cases t)
  case (PLeaf k v w)
  then obtain b where n: "n = LeafNode (leafMsg k v w) b" using assms(1) by (auto elim: rep_leafE)
  with PLeaf show thesis using rep_newLeafNode [of D get "of_nat i # k" v w] that
    by (auto simp: newLeafNode_def unfolded_def)
next
  case (PExt k u)
  then obtain h c b where n: "n = ExtensionNode (extMsg k h (pversion u)) (Some c) b" "rep D get u c"
    using assms(1) assms(3) [OF PExt] by (auto simp: rep_simps)
  obtain n' where "newExtensionNode (of_nat i # k) (Some c) = Inr n'" "rep D get (PExt (of_nat i # k) u) n'"
    using n(2) assms(2) by (rule rep_newExtensionNode)
  with n PExt show thesis
    by (intro that [of n']) (auto simp: newExtensionNode_def unfolded_def split: sum.splits)
next
  case (PBranch f)
  then obtain m cs b where n: "n = BranchNode m cs b" using assms(1) by (auto simp: rep_simps)
  obtain n' where "newExtensionNode [of_nat i] (Some n) = Inr n'" "rep D get (PExt [of_nat i] (PBranch f)) n'"
    using assms(1,2) PBranch rep_newExtensionNode by blast
  with n PBranch show thesis
    by (intro that [of n']) (auto simp: newExtensionNode_def unfolded_def split: sum.splits)
qed

lemma extDeleteMerge_rep:
  assumes "rep D get t n" "hasher_ok D" "unfolded (Some n)"
  obtains n' where "extDeleteMerge k (Some n) = Inr (Some n')" "rep D get (pmerge k t) n'" "unfolded (Some n')"
proof (cases t)
  case (PLeaf k' v w)
  then obtain b where "n = LeafNode (leafMsg k' v w) b" using assms(1) by (auto elim: rep_leafE)
  with PLeaf show thesis using rep_newLeafNode [of D get "k @ k'" v w] that
    by (auto simp: extDeleteMerge_def newLeafNode_def unfolded_def)
next
  case (PExt k' u)
  then obtain h c b where n: "n = ExtensionNode (extMsg k' h (pversion u)) (Some c) b" "rep D get u c"
    using assms(1,3) by (auto simp: rep_simps unfolded_def)
  obtain n' where "newExtensionNode (k @ k') (Some c) = Inr n'" "rep D get (PExt (k @ k') u) n'"
    using n(2) assms(2) by (rule rep_newExtensionNode)
  with n PExt show thesis
    by (intro that [of n']) (auto simp: extDeleteMerge_def newExtensionNode_def unfolded_def split: sum.splits)
next
  case (PBranch f)
  then obtain m cs b where n: "n = BranchNode m cs b" using assms(1) by (auto simp: rep_simps)
  obtain n' where "newExtensionNode k (Some n) = Inr n'" "rep D get (PExt k (PBranch f)) n'"
    using assms(1,2) PBranch rep_newExtensionNode by blast
  with n PBranch show thesis
    by (intro that [of n']) (auto simp: extDeleteMerge_def newExtensionNode_def unfolded_def split: sum.splits)
qed

lemma clean_hash: "rep D get t n \<Longrightarrow> \<not> isDirty n \<Longrightarrow> slice (getHash n) = phash D t"
  by (cases t) (auto simp: rep_simps isDirty_def getHash_def bok_def slice_def)

text \<open>The only child left after a deletion is not the one the deletion went into.\<close>

lemma delete_single_other:
  assumes "\<forall>i t. f i = Some t \<longrightarrow> pslot i t" "two_children f" "pchildren (f(p := x)) = [i]" "(f(p := x)) i = Some u"
  shows "i \<noteq> p"
proof
  assume "i = p"
  moreover obtain j where j: "j \<noteq> p" "f j \<noteq> None" using assms(2) unfolding two_children_def by metis
  then have "j < nrOfChildren" using assms(1) pslot_bound by (metis not_Some_eq)
  with j have "j \<in> set (pchildren (f(p := x)))" by (simp add: pchildren_def)
  ultimately show False using assms(3) j(1) by simp
qed

context trie_codec
begin

lemma finishBranchDelete_rep:
  assumes "length cs = nrOfChildren" "length (EncodedChildren m) = nrOfChildren" "ChildrenVersion m = cversions g"
    "\<forall>i < nrOfChildren. srep D get (g i) (cs ! i) (EncodedChildren m ! i)" "hash b = None" "hasher_ok D"
    "\<forall>i t. g i = Some t \<longrightarrow> pslot i t" "g j \<noteq> None"
    "set hs \<subseteq> H" "\<And>i t. pchildren g = [i] \<Longrightarrow> g i = Some t \<Longrightarrow> phash D t \<in> H"
  obtains n1 n hs' where "finishBranchDelete D get (BranchNode m cs b) hs = (n1, Inr (True, Some n, hs'))"
    "rep D get (pcollapse g) n" "unfolded (Some n)" "set hs' \<subseteq> H"
  using assms(7,8)
proof (cases rule: pchildren_cases)
  case (one i t)
  have pos: "getChildPosition cs (EncodedChildren m) childIndices (0, 0) = Inr (1, i)"
    using getChildPosition_rep [OF assms(6,1,2,4)] one(1) by simp
  have sl: "pslot i t" using assms(7) one(2) by simp
  have ok: "u = t" if "g i = Some u" for u using that one(2) by simp
  obtain cs' where cs': "resolveIfCollapsed D get (BranchNode m cs b) i = Inr (BranchNode m cs' b)"
    "length cs' = nrOfChildren" "case g i of None \<Rightarrow> cs' ! i = None | Some t \<Rightarrow> \<exists>c. cs' ! i = Some c \<and> rep D get t c"
    using resolve_slots [OF assms(6,1,2,4), of i i b] one(2) pslot_bound [OF sl] pslot_ok [OF sl]
    by (metis option.distinct(1) option.inject)
  then obtain c where c: "cs' ! i = Some c" "rep D get t c" using one(2) by auto
  obtain c' where c': "resolveIfCollapsed D get c i = Inr c'" "rep D get t c'"
    "\<And>k u. t = PExt k u \<Longrightarrow> childAt c' 0 \<noteq> None" "isDirty c' = isDirty c"
    using c(2) assms(6) pslot_ok [OF sl] pslot_bound [OF sl] by (rule resolve_any) blast
  obtain n x where n: "reduceNode c' i = Inr (n, x)" "rep D get (pmerge [of_nat i] t) n" "unfolded (Some n)"
    using c'(2) assms(6) c'(3) by (rule reduceNode_rep)
  have "pcollapse g = pmerge [of_nat i] t" using one(1,2) by (simp add: pcollapse_def)
  moreover have "set (hs @ (if x \<and> \<not> isDirty c' then [slice (getHash c')] else [])) \<subseteq> H"
    using assms(9) assms(10) [OF one(1,2)] clean_hash [OF c'(2)] by auto
  ultimately show thesis using cs' c c' n pos pslot_bound [OF sl]
    by (intro that [of _ n "hs @ (if x \<and> \<not> isDirty c' then [slice (getHash c')] else [])"])
      (simp_all add: Let_def)
next
  case more
  then have len: "length (pchildren g) \<noteq> 1" by (auto simp: length_Suc_conv)
  let ?n = "BranchNode m cs (b\<lparr>dirty := True\<rparr>)"
  have "finishBranchDelete D get (BranchNode m cs b) hs = (?n, Inr (True, Some ?n, hs))"
    using getChildPosition_rep [OF assms(6,1,2,4)] len by (simp add: Let_def)
  moreover have "bok D get (PBranch g) (b\<lparr>dirty := True\<rparr>) (EncodedChildren m = pencs D g)"
    using assms(5) by (simp add: bok_def)
  then have "rep D get (PBranch g) ?n" using assms(1-4) by (cases m) (auto simp: rep_simps)
  moreover have "pcollapse g = PBranch g" using more(2) by (auto simp: pcollapse_def split: list.splits)
  ultimately show thesis using assms(9) by (intro that) (auto simp: unfolded_def)
qed

lemma nodeDelete_PExt:
  assumes prems: "rep D get (PExt k t) n" "pok (PExt k t) key" "length key < fuel" "hasher_ok D"
    and IH: "\<And>n key fuel. rep D get t n \<Longrightarrow> pok t key \<Longrightarrow> length key < fuel \<Longrightarrow>
      delete_ok D get t key (nodeDelete D get fuel n key)"
  shows "delete_ok D get (PExt k t) key (nodeDelete D get fuel n key)"
proof -
  obtain fuel' where fuel: "fuel = Suc fuel'" using prems(3) by (cases fuel) auto
  obtain h c b where n: "n = ExtensionNode (extMsg k h (pversion t)) c b"
    and b: "bok D get (PExt k t) b (h = phash D t)" using prems(1) by (rule rep_extE)
  note ok = pok_PExt [OF prems(2)]
  have ne: "isEmptyOrNil n = None" using prems(1,4,2) by (rule pok_not_empty)
  have key: "key \<noteq> []" using ok(4) by auto
  show ?thesis
  proof (cases "prefixLen key k < length k")
    case True
    then have "plookup (PExt k t) key = None"
      using plookup.simps(2) [of k t] by (metis less_irrefl prefixLen_eq_length)
    with True prems(1) n ne key fuel show ?thesis
      by (simp add: delete_ok_def node_ops Let_def del: isEmptyOrNil.simps plookup_PExt)
  next
    case False
    then have pre: "take (length k) key = k"
      using prefixLen_le(2) [of key k] by (simp add: prefixLen_eq_length)
    obtain c' where c': "resolveIfCollapsed D get n 0 = Inr (ExtensionNode (extMsg k h (pversion t)) (Some c') b)"
      "rep D get t c'" using resolve_ext [of get k t] prems(1,4) ok(1) n by blast
    have "length (drop (length k) key) < fuel'" using prems(3) fuel ok(3,4) by (cases k; cases key) auto
    then have sub: "delete_ok D get t (drop (length k) key) (nodeDelete D get fuel' c' (drop (length k) key))"
      using IH [OF c'(2) ok(6) [OF pre]] by blast
    have look: "plookup (PExt k t) key = plookup t (drop (length k) key)"
      using pre plookup.simps(2) [of k t] by simp
    obtain child' r where r: "nodeDelete D get fuel' c' (drop (length k) key) = (child', r)"
      by (cases "nodeDelete D get fuel' c' (drop (length k) key)")
    show ?thesis
    proof (cases "plookup (PExt k t) key = None")
      case True
      with sub look r have "r = Inr (False, Some child', [])" "rep D get t child'" by (auto simp: delete_ok_def)
      then show ?thesis using True False fuel n ne key c' r rep_ext_child [of D get k t _ c b child'] prems(1)
        by (simp add: delete_ok_def node_ops Let_def del: isEmptyOrNil.simps plookup_PExt)
    next
      case found: False
      with sub look r obtain no hs where no: "r = Inr (True, no, hs)" "unfolded no"
        "rel_option (rep D get) (pdelete t (drop (length k) key)) no" "set hs \<subseteq> phash D ` psubs t"
        by (auto simp: delete_ok_def)
      have "pdelete t (drop (length k) key) \<noteq> None"
        using ok(2) by (cases t; cases "drop (length k) key") (auto simp: pdelete.simps(3) split: option.splits)
      then obtain t' n' where t': "pdelete t (drop (length k) key) = Some t'" "no = Some n'" "rep D get t' n'"
        using no(3) by (auto simp: option_rel_Some1)
      obtain en where en: "extDeleteMerge k (Some n') = Inr (Some en)" "rep D get (pmerge k t') en" "unfolded (Some en)"
        using t'(3) prems(4) no(2) t'(2) extDeleteMerge_rep by blast
      have "set (hs @ oldHash b) \<subseteq> phash D ` psubs (PExt k t)"
        using no(4) psubs_ext oldHash_subs [OF b] by (rule hashes_append)
      then show ?thesis using found False fuel n ne key c' r no t' en
        by (simp add: delete_ok_def node_ops Let_def del: isEmptyOrNil.simps plookup_PExt)
    qed
  qed
qed

lemma nodeDelete_PBranch:
  assumes prems: "rep D get (PBranch f) n" "pok (PBranch f) key" "length key < fuel" "hasher_ok D"
    and IH: "\<And>i t n key fuel. f i = Some t \<Longrightarrow> rep D get t n \<Longrightarrow> pok t key \<Longrightarrow> length key < fuel \<Longrightarrow>
      delete_ok D get t key (nodeDelete D get fuel n key)"
  shows "delete_ok D get (PBranch f) key (nodeDelete D get fuel n key)"
proof -
  obtain fuel' where fuel: "fuel = Suc fuel'" using prems(3) by (cases fuel) auto
  obtain m cs b where n: "n = BranchNode m cs b"
    and b: "bok D get (PBranch f) b (EncodedChildren m = pencs D f)" using prems(1) by (rule rep_branchE)
  obtain p key' where key: "key = p # key'" "pwf (PBranch f)" "slot_key (unat p) key'"
    "\<And>t. f (unat p) = Some t \<Longrightarrow> pok t key'" using prems(2) by (rule pok_PBranch) blast
  note range = slot_range [OF key(3)]
  have ne: "isEmptyOrNil n = None" using prems(1,4,2) by (rule pok_not_empty)
  obtain cs' where cs': "resolveIfCollapsed D get n (unat p) = Inr (BranchNode m cs' b)"
    "rep D get (PBranch f) (BranchNode m cs' b)" "length cs' = nrOfChildren"
    "case f (unat p) of None \<Rightarrow> cs' ! unat p = None | Some t \<Rightarrow> \<exists>c. cs' ! unat p = Some c \<and> rep D get t c"
    using resolve_branch [of get f m cs b "unat p"] prems(1,4) key(2) range(2) n by blast
  show ?thesis
  proof (cases "f (unat p)")
    case None
    with cs' fuel n ne key range show ?thesis by (simp add: delete_ok_def node_ops Let_def del: isEmptyOrNil.simps)
  next
    case (Some t)
    with cs' obtain c where c: "cs' ! unat p = Some c" "rep D get t c" by auto
    have "length key' < fuel'" using prems(3) fuel key(1) by simp
    then have sub: "delete_ok D get t key' (nodeDelete D get fuel' c key')"
      using IH [OF Some c(2) key(4) [OF Some]] by blast
    obtain child' r where r: "nodeDelete D get fuel' c key' = (child', r)" by (cases "nodeDelete D get fuel' c key'")
    show ?thesis
    proof (cases "plookup t key' = None")
      case True
      with sub r have "r = Inr (False, Some child', [])" "rep D get t child'" by (auto simp: delete_ok_def)
      with rep_branch_child [OF cs'(2) Some] True Some c cs' r fuel n ne key range show ?thesis
        by (simp add: delete_ok_def node_ops Let_def del: isEmptyOrNil.simps)
    next
      case False
      with sub r obtain no hs where no: "r = Inr (True, no, hs)" "rel_option (rep D get) (pdelete t key') no"
        "set hs \<subseteq> phash D ` psubs t" by (auto simp: delete_ok_def)
      let ?g = "f(unat p := pdelete t key')"
      have sl: "\<forall>i t. f i = Some t \<longrightarrow> pslot i t" and two: "two_children f" using key(2) by (auto simp: pwf_PBranch)
      have hs: "set (hs @ oldHash b) \<subseteq> phash D ` psubs (PBranch f)"
        using no(3) phash_psubs_child [of f "unat p" t, OF Some] oldHash_subs [OF b] by (rule hashes_append)
      obtain m' where m': "setNewChild (BranchNode m (cs'[unat p := Some child']) b) (unat p) no =
          (BranchNode m' (cs'[unat p := Some child', unat p := no]) (b\<lparr>hash := None\<rparr>), None)"
        "length (EncodedChildren m') = nrOfChildren" "ChildrenVersion m' = cversions ?g"
        "\<forall>i < nrOfChildren. srep D get (?g i) (cs'[unat p := Some child', unat p := no] ! i) (EncodedChildren m' ! i)"
        using cs'(2) cs'(3)
        by (rule_tac setNewChild_rep [of "cs'[unat p := Some child']" m f "unat p" D get _ no b,
              OF _ _ _ _ range(2) no(2) prems(4)]) (auto simp: rep_PBranch)
      have slg: "\<forall>i u. ?g i = Some u \<longrightarrow> pslot i u"
        using sl pslot_pdelete [of "unat p" t key'] Some key(3) by auto
      obtain j where j: "?g j \<noteq> None" using two_children_other [OF two] by blast
      have single: "phash D u \<in> phash D ` psubs (PBranch f)" if "pchildren ?g = [i]" "?g i = Some u" for i u
      proof -
        have "i \<noteq> unat p" using delete_single_other [OF sl two that] .
        with that(2) have "f i = Some u" by simp
        then show ?thesis using phash_psubs_child [of f i u D] psubs_self [of u] by blast
      qed
      have len: "length (cs'[unat p := Some child', unat p := no]) = nrOfChildren" using cs'(3) by simp
      have nohash: "hash (b\<lparr>hash := None\<rparr>) = None" by simp
      obtain n1 nn hs' where "finishBranchDelete D get
          (BranchNode m' (cs'[unat p := Some child', unat p := no]) (b\<lparr>hash := None\<rparr>)) (hs @ oldHash b) =
          (n1, Inr (True, Some nn, hs'))"
        "rep D get (pcollapse ?g) nn" "unfolded (Some nn)" "set hs' \<subseteq> phash D ` psubs (PBranch f)"
        using len m'(2,3,4) nohash prems(4) slg j hs single by (rule finishBranchDelete_rep)
      with False Some c cs' r no(1) m'(1) fuel n ne key range show ?thesis
        by (simp add: delete_ok_def node_ops Let_def del: isEmptyOrNil.simps psubs_PBranch finishBranchDelete.simps setNewChild.simps)
    qed
  qed
qed

lemma nodeDelete_rep:
  assumes "rep D get t n" "pok t key" "length key < fuel" "hasher_ok D"
  shows "delete_ok D get t key (nodeDelete D get fuel n key)"
  using assms
proof (induction t arbitrary: n key fuel)
  case (PLeaf k v w)
  then obtain fuel' where "fuel = Suc fuel'" by (cases fuel) auto
  moreover obtain b where "n = LeafNode (leafMsg k v w) b" "bok D get (PLeaf k v w) b True"
    using PLeaf.prems(1) by (rule rep_leafE)
  ultimately show ?case using PLeaf.prems(1) oldHash_subs [of D get "PLeaf k v w" b True]
    by (auto simp: delete_ok_def unfolded_def node_ops Let_def)
next
  case (PExt k t)
  show ?case using PExt.prems by (rule nodeDelete_PExt) (rule PExt.IH; use PExt.prems in blast)
next
  case (PBranch f)
  show ?case using PBranch.prems
    by (rule nodeDelete_PBranch) (rule PBranch.IH; use PBranch.prems in \<open>auto intro: rangeI simp: eq_commute\<close>)
qed

end

end
