(* ===== verification/Trie_Hash.thy ===== *)
theory Trie_Hash
  imports Trie_Rep
begin

text \<open>
  Hashing and committing trie nodes: \<open>setHash\<close>, \<open>setRootHash\<close>, \<open>hashChildren\<close>, \<open>hashNode\<close>,
  \<open>getCollapsed\<close>, \<open>commitDirty\<close> and \<open>getDirtyHashes\<close> of the three node kinds with
  \<open>encodeNodeAndCommitToDB\<close> and the helpers of \<open>trie/node.go\<close>. Each function returns the receiver as
  the code leaves it. The database is a value of a parameter type with a \<open>Put\<close> that may fail; a
  branch's children are hashed from \<open>setRootHash\<close> by one goroutine each, which touch disjoint
  nodes, so the model hashes them in order and reports the first error.
\<close>

subsection \<open>Hashing\<close>

fun hashBranchLoop :: "deps \<Rightarrow> node option list \<Rightarrow> bytes list \<Rightarrow> nat list \<Rightarrow> bytes list \<times> trie_error option" where
  "hashBranchLoop D cs es [] = (es, None)"
| "hashBranchLoop D cs es (i # is) = (case idx Panic cs i of
     Inl e \<Rightarrow> (es, Some e)
   | Inr None \<Rightarrow> hashBranchLoop D cs es is
   | Inr (Some c) \<Rightarrow> (case encodeNodeAndGetHash D c of
       Inl e \<Rightarrow> (es, Some e)
     | Inr h \<Rightarrow> hashBranchLoop D cs (es[i := h]) is))"

fun hashNode :: "deps \<Rightarrow> node \<Rightarrow> node \<times> (trie_error + bytes)" where
  "hashNode D (LeafNode l b) = (case isEmptyOrNil (LeafNode l b) of
     Some e \<Rightarrow> (LeafNode l b, Inl e)
   | None \<Rightarrow> (LeafNode l b, encodeNodeAndGetHash D (LeafNode l b)))"
| "hashNode D (ExtensionNode m c b) = (case isEmptyOrNil (ExtensionNode m c b) of
     Some e \<Rightarrow> (ExtensionNode m c b, Inl e)
   | None \<Rightarrow> (case c of
       None \<Rightarrow> (ExtensionNode m c b, encodeNodeAndGetHash D (ExtensionNode m c b))
     | Some child \<Rightarrow> (case encodeNodeAndGetHash D child of
         Inl e \<Rightarrow> (ExtensionNode m c b, Inl e)
       | Inr h \<Rightarrow> (let n = ExtensionNode (m\<lparr>EncodedChild := h\<rparr>) c b in (n, encodeNodeAndGetHash D n)))))"
| "hashNode D (BranchNode m cs b) = (case isEmptyOrNil (BranchNode m cs b) of
     Some e \<Rightarrow> (BranchNode m cs b, Inl e)
   | None \<Rightarrow>
       (let (es, err) = hashBranchLoop D cs (EncodedChildren m) [0..<length (EncodedChildren m)];
            n = BranchNode (m\<lparr>EncodedChildren := es\<rparr>) cs b
        in case err of Some e \<Rightarrow> (n, Inl e) | None \<Rightarrow> (n, encodeNodeAndGetHash D n)))"

text \<open>The end of the methods that set a hash: \<open>hashNode\<close> with the result stored in the node.\<close>

definition finishHash :: "deps \<Rightarrow> node \<Rightarrow> node \<times> trie_error option" where
  "finishHash D n = (case hashNode D n of
     (n', Inl e) \<Rightarrow> (n', Some e)
   | (n', Inr h) \<Rightarrow> (setGivenHash n' h, None))"

definition hashCollapsed :: "deps \<Rightarrow> node \<Rightarrow> node \<times> trie_error option" where
  "hashCollapsed D n = (case encodeNodeAndGetHash D n of
     Inl e \<Rightarrow> (n, Some e)
   | Inr h \<Rightarrow> (setGivenHash n h, None))"

fun setHash :: "deps \<Rightarrow> node \<Rightarrow> node \<times> trie_error option"
  and hashChildren :: "deps \<Rightarrow> node option list \<Rightarrow> node option list \<times> trie_error option" where
  "setHash D (LeafNode l b) = (case isEmptyOrNil (LeafNode l b) of
     Some e \<Rightarrow> (LeafNode l b, Some e)
   | None \<Rightarrow> if hash b \<noteq> None then (LeafNode l b, None) else finishHash D (LeafNode l b))"
| "setHash D (ExtensionNode m c b) = (case isEmptyOrNil (ExtensionNode m c b) of
     Some e \<Rightarrow> (ExtensionNode m c b, Some e)
   | None \<Rightarrow>
       if hash b \<noteq> None then (ExtensionNode m c b, None)
       else if isCollapsed (ExtensionNode m c b) then hashCollapsed D (ExtensionNode m c b)
       else (case c of
         None \<Rightarrow> finishHash D (ExtensionNode m None b)
       | Some child \<Rightarrow> (case setHash D child of
           (child', Some e) \<Rightarrow> (ExtensionNode m (Some child') b, Some e)
         | (child', None) \<Rightarrow> finishHash D (ExtensionNode m (Some child') b))))"
| "setHash D (BranchNode m cs b) = (case isEmptyOrNil (BranchNode m cs b) of
     Some e \<Rightarrow> (BranchNode m cs b, Some e)
   | None \<Rightarrow>
       if hash b \<noteq> None then (BranchNode m cs b, None)
       else if isCollapsed (BranchNode m cs b) then hashCollapsed D (BranchNode m cs b)
       else (case hashChildren D cs of
         (cs', Some e) \<Rightarrow> (BranchNode m cs' b, Some e)
       | (cs', None) \<Rightarrow> finishHash D (BranchNode m cs' b)))"
| "hashChildren D [] = ([], None)"
| "hashChildren D (None # cs) = (let (cs', err) = hashChildren D cs in (None # cs', err))"
| "hashChildren D (Some c # cs) = (case setHash D c of
     (c', Some e) \<Rightarrow> (Some c' # cs, Some e)
   | (c', None) \<Rightarrow> (let (cs', err) = hashChildren D cs in (Some c' # cs', err)))"

text \<open>\<open>setHashConcurrent\<close> of every child of a branch.\<close>

fun hashChildrenConcurrent :: "deps \<Rightarrow> node option list \<Rightarrow> node option list \<times> trie_error list" where
  "hashChildrenConcurrent D [] = ([], [])"
| "hashChildrenConcurrent D (None # cs) = (let (cs', errs) = hashChildrenConcurrent D cs in (None # cs', errs))"
| "hashChildrenConcurrent D (Some c # cs) =
     (let (c', err) = setHash D c; (cs', errs) = hashChildrenConcurrent D cs
      in (Some c' # cs', (case err of None \<Rightarrow> [] | Some e \<Rightarrow> [e]) @ errs))"

fun setRootHash :: "deps \<Rightarrow> node \<Rightarrow> node \<times> trie_error option" where
  "setRootHash D (BranchNode m cs b) = (case isEmptyOrNil (BranchNode m cs b) of
     Some e \<Rightarrow> (BranchNode m cs b, Some e)
   | None \<Rightarrow>
       if hash b \<noteq> None then (BranchNode m cs b, None)
       else if isCollapsed (BranchNode m cs b) then hashCollapsed D (BranchNode m cs b)
       else (case hashChildrenConcurrent D cs of
         (cs', e # errs) \<Rightarrow> (BranchNode m cs' b, Some e)
       | (cs', []) \<Rightarrow> finishHash D (BranchNode m cs' b)))"
| "setRootHash D n = setHash D n"

subsection \<open>Collapsing\<close>

definition hasValidHash :: "node \<Rightarrow> trie_error + bool" where
  "hasValidHash n = (case isEmptyOrNil n of
     Some e \<Rightarrow> Inl e
   | None \<Rightarrow> Inr (\<not> (getHash n = None \<or> isDirty n)))"

text \<open>A child about to be replaced by its hash.\<close>

definition ensureHash :: "deps \<Rightarrow> node \<Rightarrow> node \<times> (trie_error + bytes)" where
  "ensureHash D c = (case hasValidHash c of
     Inl e \<Rightarrow> (c, Inl e)
   | Inr ok \<Rightarrow>
       if ok then (c, Inr (slice (getHash c)))
       else (case setHash D c of
         (c', Some e) \<Rightarrow> (c', Inl e)
       | (c', None) \<Rightarrow> (c', Inr (slice (getHash c')))))"

text \<open>The loop of \<open>getCollapsedBn\<close>; the clone shares the slice of encoded children with the receiver,
  so both see its updates.\<close>

fun collapseLoop :: "deps \<Rightarrow> node option list \<Rightarrow> bytes list \<Rightarrow> nat list \<Rightarrow>
    node option list \<times> bytes list \<times> trie_error option" where
  "collapseLoop D cs es [] = (cs, es, None)"
| "collapseLoop D cs es (i # is) = (case idx Panic cs i of
     Inl e \<Rightarrow> (cs, es, Some e)
   | Inr None \<Rightarrow> collapseLoop D cs es is
   | Inr (Some c) \<Rightarrow> (case ensureHash D c of
       (c', Inl e) \<Rightarrow> (cs[i := Some c'], es, Some e)
     | (c', Inr h) \<Rightarrow>
         if i \<ge> length es then (cs[i := Some c'], es, Some Panic)
         else collapseLoop D (cs[i := Some c']) (es[i := h]) is))"

fun getCollapsed :: "deps \<Rightarrow> node \<Rightarrow> node \<times> (trie_error + node)" where
  "getCollapsed D (LeafNode l b) = (LeafNode l b, Inr (LeafNode l b))"
| "getCollapsed D (ExtensionNode m c b) = (let n = ExtensionNode m c b in
     case isEmptyOrNil n of
       Some e \<Rightarrow> (n, Inl e)
     | None \<Rightarrow>
         if isCollapsed n then (n, Inr n)
         else (case c of
           None \<Rightarrow> (n, Inl Panic)
         | Some child \<Rightarrow> (case ensureHash D child of
             (child', Inl e) \<Rightarrow> (ExtensionNode m (Some child') b, Inl e)
           | (child', Inr h) \<Rightarrow>
               (ExtensionNode m (Some child') b, Inr (ExtensionNode (m\<lparr>EncodedChild := h\<rparr>) None b)))))"
| "getCollapsed D (BranchNode m cs b) = (let n = BranchNode m cs b in
     case isEmptyOrNil n of
       Some e \<Rightarrow> (n, Inl e)
     | None \<Rightarrow>
         if isCollapsed n then (n, Inr n)
         else (case collapseLoop D cs (EncodedChildren m) [0..<length cs] of
           (cs', es', Some e) \<Rightarrow> (BranchNode (m\<lparr>EncodedChildren := es'\<rparr>) cs' b, Inl e)
         | (cs', es', None) \<Rightarrow>
             (BranchNode (m\<lparr>EncodedChildren := es'\<rparr>) cs' b,
              Inr (BranchNode (m\<lparr>EncodedChildren := es'\<rparr>) (map (\<lambda>_. None) cs') b))))"

subsection \<open>Committing\<close>

type_synonym 'db putter = "bytes \<Rightarrow> bytes \<Rightarrow> 'db \<Rightarrow> trie_error + 'db"

definition computeAndSetNodeHash :: "deps \<Rightarrow> node \<Rightarrow> node \<times> (trie_error + bytes)" where
  "computeAndSetNodeHash D n =
     (if slice (getHash n) \<noteq> [] then (n, Inr (slice (getHash n)))
      else case setHash D n of
        (n', Some e) \<Rightarrow> (n', Inl e)
      | (n', None) \<Rightarrow> (n', Inr (slice (getHash n'))))"

definition collapseAndEncodeNode :: "deps \<Rightarrow> node \<Rightarrow> node \<times> (trie_error + bytes)" where
  "collapseAndEncodeNode D n = (case getCollapsed D n of
     (n', Inl e) \<Rightarrow> (n', Inl e)
   | (n', Inr collapsed) \<Rightarrow> (n', getEncodedNode D collapsed))"

definition encodeNodeAndCommitToDB :: "deps \<Rightarrow> 'db putter \<Rightarrow> node \<Rightarrow> 'db \<Rightarrow> node \<times> 'db \<times> (trie_error + nat)" where
  "encodeNodeAndCommitToDB D put n db = (case computeAndSetNodeHash D n of
     (n1, Inl e) \<Rightarrow> (n1, db, Inl e)
   | (n1, Inr key) \<Rightarrow> (case collapseAndEncodeNode D n1 of
       (n2, Inl e) \<Rightarrow> (n2, db, Inl e)
     | (n2, Inr val) \<Rightarrow> (case put key val db of
         Inl e \<Rightarrow> (n2, db, Inl e)
       | Inr db' \<Rightarrow> (n2, db', Inr (length val)))))"

text \<open>The common end of \<open>commitDirty\<close>: the node is encoded and stored, and collapsed when it stands at
  the lowest level kept in memory.\<close>

definition setDirty :: "node \<Rightarrow> bool \<Rightarrow> node" where
  "setDirty n d = setBase n ((baseOf n)\<lparr>dirty := d\<rparr>)"

definition collapseOnCommit :: "deps \<Rightarrow> byte \<Rightarrow> u64 \<Rightarrow> node \<Rightarrow> node \<times> trie_error option" where
  "collapseOnCommit D level maxTrieLevelInMemory n =
     (if ucast level = maxTrieLevelInMemory then
        (case getCollapsed D n of (n', Inl e) \<Rightarrow> (n', Some e) | (n', Inr collapsed) \<Rightarrow> (collapsed, None))
      else (n, None))"

definition commitNode :: "deps \<Rightarrow> 'db putter \<Rightarrow> byte \<Rightarrow> u64 \<Rightarrow> node \<Rightarrow> 'db \<Rightarrow> node \<times> 'db \<times> trie_error option" where
  "commitNode D put level maxTrieLevelInMemory n db =
     (case encodeNodeAndCommitToDB D put (setDirty n False) db of
        (n', db', Inl e) \<Rightarrow> (n', db', Some e)
      | (n', db', Inr _) \<Rightarrow>
          (let (n'', err) = collapseOnCommit D level maxTrieLevelInMemory n' in (n'', db', err)))"

fun commitDirty :: "deps \<Rightarrow> 'db putter \<Rightarrow> byte \<Rightarrow> u64 \<Rightarrow> node \<Rightarrow> 'db \<Rightarrow> node \<times> 'db \<times> trie_error option"
  and commitChildren :: "deps \<Rightarrow> 'db putter \<Rightarrow> byte \<Rightarrow> u64 \<Rightarrow> node option list \<Rightarrow> 'db \<Rightarrow>
    node option list \<times> 'db \<times> trie_error option" where
  "commitDirty D put level maxLevel (LeafNode l b) db = (case isEmptyOrNil (LeafNode l b) of
     Some e \<Rightarrow> (LeafNode l b, db, Some e)
   | None \<Rightarrow>
       if \<not> dirty b then (LeafNode l b, db, None)
       else (case encodeNodeAndCommitToDB D put (setDirty (LeafNode l b) False) db of
         (n', db', Inl e) \<Rightarrow> (n', db', Some e)
       | (n', db', Inr _) \<Rightarrow> (n', db', None)))"
| "commitDirty D put level maxLevel (ExtensionNode m c b) db = (case isEmptyOrNil (ExtensionNode m c b) of
     Some e \<Rightarrow> (ExtensionNode m c b, db, Some e)
   | None \<Rightarrow>
       if \<not> dirty b then (ExtensionNode m c b, db, None)
       else (case c of
         None \<Rightarrow> commitNode D put (level + 1) maxLevel (ExtensionNode m None b) db
       | Some child \<Rightarrow> (case commitDirty D put (level + 1) maxLevel child db of
           (child', db', Some e) \<Rightarrow> (ExtensionNode m (Some child') b, db', Some e)
         | (child', db', None) \<Rightarrow>
             commitNode D put (level + 1) maxLevel (ExtensionNode m (Some child') b) db')))"
| "commitDirty D put level maxLevel (BranchNode m cs b) db = (case isEmptyOrNil (BranchNode m cs b) of
     Some e \<Rightarrow> (BranchNode m cs b, db, Some e)
   | None \<Rightarrow>
       if \<not> dirty b then (BranchNode m cs b, db, None)
       else (case commitChildren D put (level + 1) maxLevel cs db of
         (cs', db', Some e) \<Rightarrow> (BranchNode m cs' b, db', Some e)
       | (cs', db', None) \<Rightarrow> commitNode D put (level + 1) maxLevel (BranchNode m cs' b) db'))"
| "commitChildren D put level maxLevel [] db = ([], db, None)"
| "commitChildren D put level maxLevel (None # cs) db =
     (let (cs', db', err) = commitChildren D put level maxLevel cs db in (None # cs', db', err))"
| "commitChildren D put level maxLevel (Some c # cs) db = (case commitDirty D put level maxLevel c db of
     (c', db', Some e) \<Rightarrow> (Some c' # cs, db', Some e)
   | (c', db', None) \<Rightarrow>
       (let (cs', db'', err) = commitChildren D put level maxLevel cs db' in (Some c' # cs', db'', err)))"

subsection \<open>Dirty hashes\<close>

fun getDirtyHashes :: "node \<Rightarrow> bytes list \<Rightarrow> bytes list \<times> trie_error option"
  and dirtyHashesLoop :: "node option list \<Rightarrow> bytes list \<Rightarrow> bytes list \<times> trie_error option" where
  "getDirtyHashes (LeafNode l b) hs = (case isEmptyOrNil (LeafNode l b) of
     Some e \<Rightarrow> (hs, Some e)
   | None \<Rightarrow> if \<not> dirty b then (hs, None) else (List.insert (slice (hash b)) hs, None))"
| "getDirtyHashes (ExtensionNode m c b) hs = (case isEmptyOrNil (ExtensionNode m c b) of
     Some e \<Rightarrow> (hs, Some e)
   | None \<Rightarrow>
       if \<not> dirty b then (hs, None)
       else (case c of
         None \<Rightarrow> (hs, None)
       | Some child \<Rightarrow> (case getDirtyHashes child hs of
           (hs', Some e) \<Rightarrow> (hs', Some e)
         | (hs', None) \<Rightarrow> (List.insert (slice (hash b)) hs', None))))"
| "getDirtyHashes (BranchNode m cs b) hs = (case isEmptyOrNil (BranchNode m cs b) of
     Some e \<Rightarrow> (hs, Some e)
   | None \<Rightarrow>
       if \<not> dirty b then (hs, None)
       else (case dirtyHashesLoop cs hs of
         (hs', Some e) \<Rightarrow> (hs', Some e)
       | (hs', None) \<Rightarrow> (List.insert (slice (hash b)) hs', None)))"
| "dirtyHashesLoop [] hs = (hs, None)"
| "dirtyHashesLoop (None # cs) hs = dirtyHashesLoop cs hs"
| "dirtyHashesLoop (Some c # cs) hs = (case getDirtyHashes c hs of
     (hs', Some e) \<Rightarrow> (hs', Some e)
   | (hs', None) \<Rightarrow> dirtyHashesLoop cs hs')"


subsection \<open>Hashing yields the hash of the content\<close>

lemma hashChildren_all:
  assumes "\<forall>i < length cs. \<forall>x. cs ! i = Some x \<longrightarrow> (\<exists>x'. setHash D x = (x', None) \<and> Q i x')"
  shows "\<exists>cs'. hashChildren D cs = (cs', None) \<and> hashChildrenConcurrent D cs = (cs', []) \<and>
    length cs' = length cs \<and> (\<forall>i < length cs. rel_option (\<lambda>_. Q i) (cs ! i) (cs' ! i))"
  using assms
proof (induction cs arbitrary: Q)
  case (Cons c cs)
  have "\<forall>i < length cs. \<forall>x. cs ! i = Some x \<longrightarrow> (\<exists>x'. setHash D x = (x', None) \<and> Q (Suc i) x')"
    using Cons.prems by (metis Suc_less_eq length_Cons nth_Cons_Suc)
  from Cons.IH [OF this] obtain cs' where cs': "hashChildren D cs = (cs', None)"
    "hashChildrenConcurrent D cs = (cs', [])" "length cs' = length cs"
    "\<forall>i < length cs. rel_option (\<lambda>_. Q (Suc i)) (cs ! i) (cs' ! i)" by blast
  show ?case
  proof (cases c)
    case None
    with cs' show ?thesis by (intro exI [of _ "None # cs'"]) (auto simp: nth_Cons split: nat.split)
  next
    case (Some x)
    then obtain x' where "setHash D x = (x', None)" "Q 0 x'"
      using Cons.prems by (metis length_greater_0_conv list.discI nth_Cons_0)
    with Some cs' show ?thesis by (intro exI [of _ "Some x' # cs'"]) (auto simp: nth_Cons split: nat.split)
  qed
qed simp

lemma hashBranchLoop_all:
  assumes "\<forall>i < length cs. \<forall>x. cs ! i = Some x \<longrightarrow> encodeNodeAndGetHash D x = Inr (h i)" "length es = length cs"
    "set is \<subseteq> {0..<length cs}"
  shows "\<exists>es'. hashBranchLoop D cs es is = (es', None) \<and> length es' = length es \<and>
    (\<forall>i < length cs. es' ! i = (if i \<in> set is \<and> cs ! i \<noteq> None then h i else es ! i))"
  using assms(2,3)
proof (induction "is" arbitrary: es)
  case (Cons j "is")
  then have j: "j < length cs" by simp
  show ?case
  proof (cases "cs ! j")
    case None
    with Cons.IH [of es] Cons.prems j show ?thesis by auto
  next
    case (Some x)
    then have "encodeNodeAndGetHash D x = Inr (h j)" using assms(1) j by blast
    with Cons.IH [of "es[j := h j]"] Cons.prems j Some show ?thesis
      by (auto simp: nth_list_update)
  qed
qed simp

lemma bok_hashed: "bok D get t b fresh \<Longrightarrow> hash b = Some h \<Longrightarrow> h = phash D t \<and> fresh"
  by (simp add: bok_def)

lemma bok_setHash: "bok D get t b fresh \<Longrightarrow> bok D get t (b\<lparr>hash := Some (phash D t)\<rparr>) True"
  by (auto simp: bok_def)

context trie_codec
begin

lemma encode_hashed:
  assumes "rep D get t n" "hasher_ok D" "pwf t \<or> pterminal t" "getHash n \<noteq> None"
  shows "getEncodedNode D n = Inr (penc D t)" "getHash n = Some (phash D t)"
  using assms rep_not_empty [OF assms(1-3)]
  by (cases t; auto simp: rep_simps getEncodedNode_def getHash_def branchMsg_def marshal_case
      simp del: isEmptyOrNil.simps dest: bok_hashed)+

lemma encode_hash_hashed:
  assumes "rep D get t n" "hasher_ok D" "pwf t \<or> pterminal t" "getHash n \<noteq> None"
  shows "encodeNodeAndGetHash D n = Inr (phash D t)"
  using encode_hashed [OF assms] by (simp add: encodeNodeAndGetHash_def phash_def)

text \<open>A node whose message is up to date is encoded and hashed as the trie.\<close>

lemma encode_fresh:
  assumes "isEmptyOrNil n = None" "n = pnode D t b \<or> (\<exists>f cs. t = PBranch f \<and> n = BranchNode (branchMsg D f) cs b) \<or>
    (\<exists>k u c. t = PExt k u \<and> n = ExtensionNode (extMsg k (phash D u) (pversion u)) c b)"
  shows "encodeNodeAndGetHash D n = Inr (phash D t)"
  using assms
  by (cases t)
    (auto simp: encodeNodeAndGetHash_def getEncodedNode_def phash_def marshal_case simp del: isEmptyOrNil.simps)

lemma finishHash_branch:
  assumes "length cs = nrOfChildren" "length es = nrOfChildren"
    "\<forall>i < nrOfChildren. srep D get (f i) (cs ! i) (es ! i)"
    "\<forall>i < nrOfChildren. \<forall>x. cs ! i = Some x \<longrightarrow> getHash x \<noteq> None"
    "bok D get (PBranch f) b fresh" "hasher_ok D" "pwf (PBranch f)"
  obtains n where "finishHash D (BranchNode \<lparr>EncodedChildren = es, ChildrenVersion = cversions f\<rparr> cs b) = (n, None)"
    "rep D get (PBranch f) n" "getHash n = Some (phash D (PBranch f))" "isDirty n = dirty b"
proof -
  let ?m = "\<lparr>EncodedChildren = es, ChildrenVersion = cversions f\<rparr>"
  obtain i t where i: "f i = Some t" using assms(7) unfolding pwf_PBranch two_children_def by auto
  have slots: "\<And>i t. f i = Some t \<Longrightarrow> pslot i t" using assms(7) by (simp add: pwf_PBranch)
  have ne: "isEmptyOrNil (BranchNode \<lparr>EncodedChildren = es', ChildrenVersion = cversions f\<rparr> cs b) = None"
    if "length es' = nrOfChildren" "\<forall>i < nrOfChildren. srep D get (f i) (cs ! i) (es' ! i)" for es'
    using that assms(1,3,6) i pslot_bound [OF slots [OF i]] by (intro slots_not_empty) auto
  have enc: "\<forall>j < length cs. \<forall>x. cs ! j = Some x \<longrightarrow>
      encodeNodeAndGetHash D x = Inr (case f j of None \<Rightarrow> [] | Some t \<Rightarrow> phash D t)"
  proof (intro allI impI)
    fix j x assume j: "j < length cs" "cs ! j = Some x"
    then obtain u where u: "f j = Some u" "rep D get u x" using assms(1,3) by (cases "f j") force+
    then show "encodeNodeAndGetHash D x = Inr (case f j of None \<Rightarrow> [] | Some t \<Rightarrow> phash D t)"
      using encode_hash_hashed [of get u x] assms(1,4,6) j pslot_ok [OF slots [OF u(1)]] by simp
  qed
  obtain es' where es': "hashBranchLoop D cs es [0..<length es] = (es', None)" "length es' = length es"
    "\<forall>j < length cs. es' ! j = (if j \<in> set [0..<length es] \<and> cs ! j \<noteq> None
        then case f j of None \<Rightarrow> [] | Some t \<Rightarrow> phash D t else es ! j)"
    using hashBranchLoop_all [OF enc, of es "[0..<length es]"] assms(1,2) by auto
  have "es' = pencs D f"
  proof (rule nth_equalityI)
    fix j assume "j < length es'"
    then have j: "j < nrOfChildren" using es'(2) assms(2) by simp
    with assms(3) have "srep D get (f j) (cs ! j) (es ! j)" by blast
    then show "es' ! j = pencs D f ! j" using es'(3) assms(1,2) j
      by (cases "f j"; cases "cs ! j") (auto simp: nth_pencs)
  qed (use es'(2) assms(2) in simp)
  moreover have sl: "\<forall>i < nrOfChildren. srep D get (f i) (cs ! i) (pencs D f ! i)"
  proof (intro allI impI)
    fix j assume "j < nrOfChildren"
    moreover from this assms(3) have "srep D get (f j) (cs ! j) (es ! j)" by blast
    ultimately show "srep D get (f j) (cs ! j) (pencs D f ! j)"
      by (cases "f j"; cases "cs ! j") (auto simp: nth_pencs)
  qed
  ultimately have "hashNode D (BranchNode ?m cs b) = (BranchNode (branchMsg D f) cs b, Inr (phash D (PBranch f)))"
    using ne [OF assms(2,3)] es'(1) encode_fresh [of "BranchNode (branchMsg D f) cs b" "PBranch f" b] ne [of "pencs D f"]
    by (simp add: branchMsg_def del: isEmptyOrNil.simps)
  moreover have "rep D get (PBranch f) (BranchNode (branchMsg D f) cs (b\<lparr>hash := Some (phash D (PBranch f))\<rparr>))"
    using sl assms(1) bok_setHash [OF assms(5)] by (simp add: rep_simps branchMsg_def)
  ultimately show thesis
    by (intro that) (auto simp: finishHash_def setGivenHash_def getHash_def isDirty_def)
qed

lemma hashCollapsed_rep:
  assumes "isEmptyOrNil n = None" "n = pnode D t b" "bok D get t b fresh" "rep D get t n"
  obtains n' where "hashCollapsed D n = (n', None)" "rep D get t n'" "getHash n' = Some (phash D t)"
    "isDirty n' = isDirty n"
proof
  have "encodeNodeAndGetHash D n = Inr (phash D t)" using assms(1,2) encode_fresh by blast
  then show "hashCollapsed D n = (setGivenHash n (phash D t), None)" by (simp add: hashCollapsed_def)
  show "rep D get t (setGivenHash n (phash D t))"
    using assms bok_setHash [OF assms(3)] by (cases t) (auto simp: rep_simps setGivenHash_def branchMsg_def)
qed (simp_all add: setGivenHash_def getHash_def isDirty_def assms(2), (cases t; simp)+)

lemma collapsed_branch:
  assumes "rep D get (PBranch f) (BranchNode m cs b)" "isCollapsed (BranchNode m cs b)"
  shows "BranchNode m cs b = pnode D (PBranch f) b"
proof -
  have r: "length cs = nrOfChildren" "m = \<lparr>EncodedChildren = EncodedChildren m, ChildrenVersion = cversions f\<rparr>"
    "length (EncodedChildren m) = nrOfChildren"
    "\<forall>i < nrOfChildren. srep D get (f i) (cs ! i) (EncodedChildren m ! i)"
    using assms(1) by (auto simp: rep_simps)
  have nil: "cs ! i = None" if "i < nrOfChildren" for i using assms(2) r(1) that by (simp add: list_all_length)
  then have "cs = replicate nrOfChildren None" using r(1) by (intro nth_equalityI) auto
  moreover have "EncodedChildren m = pencs D f"
  proof (rule nth_equalityI)
    fix j assume "j < length (EncodedChildren m)"
    then have "j < nrOfChildren" using r(3) by simp
    with r(4) nil [of j] have "srep D get (f j) None (EncodedChildren m ! j)" by metis
    with \<open>j < nrOfChildren\<close> show "EncodedChildren m ! j = pencs D f ! j" by (cases "f j") (auto simp: nth_pencs)
  qed (use r in simp)
  ultimately show ?thesis using r(2) by (simp add: branchMsg_def)
qed

text \<open>What setting the hash of a node must leave.\<close>

definition hash_done :: "getter \<Rightarrow> ptrie \<Rightarrow> bool \<Rightarrow> node \<times> trie_error option \<Rightarrow> bool" where
  "hash_done get t d res \<longleftrightarrow> snd res = None \<and> rep D get t (fst res) \<and>
     getHash (fst res) = Some (phash D t) \<and> isDirty (fst res) = d"

lemma setHash_PExt:
  assumes "rep D get (PExt k t) n" "hasher_ok D" "pwf (PExt k t)"
    and IH: "\<And>c. rep D get t c \<Longrightarrow> hash_done get t (isDirty c) (setHash D c)"
  shows "hash_done get (PExt k t) (isDirty n) (setHash D n)"
proof -
  obtain h c b where n: "n = ExtensionNode (extMsg k h (pversion t)) c b" "srep D get (Some t) c h"
    "bok D get (PExt k t) b (h = phash D t)" using assms(1) by (auto simp: rep_simps)
  have ne: "isEmptyOrNil n = None" using assms rep_not_empty by blast
  consider (hashed) "hash b \<noteq> None" | (coll) "hash b = None" "c = None" | (mem) x where "hash b = None" "c = Some x"
    by (cases c) auto
  then show ?thesis
  proof cases
    case hashed
    then have "getHash n = Some (phash D (PExt k t))"
      using n(1) encode_hashed(2) [of get "PExt k t" n] assms(1-3) by (simp add: getHash_def)
    with hashed assms(1) n(1) ne show ?thesis by (simp add: hash_done_def del: isEmptyOrNil.simps)
  next
    case coll
    then have pn: "n = pnode D (PExt k t) b" "EncodedChild (extMsg k h (pversion t)) \<noteq> []"
      using n assms(2) by (auto simp: extMsg_def phash_nonempty)
    obtain n' where "hashCollapsed D n = (n', None)" "rep D get (PExt k t) n'"
      "getHash n' = Some (phash D (PExt k t))" "isDirty n' = isDirty n"
      using ne pn(1) n(3) assms(1) by (rule hashCollapsed_rep)
    with coll n(1) ne pn(2) show ?thesis by (simp add: hash_done_def del: isEmptyOrNil.simps)
  next
    case mem
    then have "rep D get t x" using n(2) by simp
    with IH obtain x' where x': "setHash D x = (x', None)" "rep D get t x'" "getHash x' = Some (phash D t)"
      unfolding hash_done_def by (metis prod.collapse)
    let ?n = "ExtensionNode (extMsg k (phash D t) (pversion t)) (Some x') b"
    have "encodeNodeAndGetHash D x' = Inr (phash D t)"
      using encode_hash_hashed [OF x'(2) assms(2)] assms(3) x'(3) by simp
    moreover have "encodeNodeAndGetHash D ?n = Inr (phash D (PExt k t))"
      by (rule encode_fresh) auto
    moreover have "rep D get (PExt k t) (ExtensionNode (extMsg k (phash D t) (pversion t)) (Some x')
        (b\<lparr>hash := Some (phash D (PExt k t))\<rparr>))"
      using x'(2) bok_setHash [OF n(3)] by (intro rep_ext) simp_all
    ultimately show ?thesis using mem n(1) ne x'(1)
      by (auto simp: hash_done_def finishHash_def Let_def setGivenHash_def getHash_def isDirty_def extMsg_def)
  qed
qed

lemma children_of_rep:
  assumes "\<forall>i < nrOfChildren. srep D get (f i) (cs ! i) (es ! i)" "length cs = nrOfChildren"
    "\<forall>i < length cs. rel_option (\<lambda>_ x'. \<forall>t. f i = Some t \<longrightarrow> rep D get t x' \<and> getHash x' \<noteq> None) (cs ! i) (cs' ! i)"
  shows "\<forall>i < nrOfChildren. srep D get (f i) (cs' ! i) (es ! i)"
    "\<forall>i < nrOfChildren. \<forall>x. cs' ! i = Some x \<longrightarrow> getHash x \<noteq> None"
proof -
  have "srep D get (f i) (cs' ! i) (es ! i) \<and> (\<forall>x. cs' ! i = Some x \<longrightarrow> getHash x \<noteq> None)" if "i < nrOfChildren" for i
  proof -
    have "srep D get (f i) (cs ! i) (es ! i)"
      "rel_option (\<lambda>_ x'. \<forall>t. f i = Some t \<longrightarrow> rep D get t x' \<and> getHash x' \<noteq> None) (cs ! i) (cs' ! i)"
      using assms that by auto
    then show ?thesis by (cases "f i"; cases "cs ! i"; cases "cs' ! i") auto
  qed
  then show "\<forall>i < nrOfChildren. srep D get (f i) (cs' ! i) (es ! i)"
    "\<forall>i < nrOfChildren. \<forall>x. cs' ! i = Some x \<longrightarrow> getHash x \<noteq> None" by blast+
qed

lemma setHash_PBranch:
  assumes "rep D get (PBranch f) n" "hasher_ok D" "pwf (PBranch f)"
    and IH: "\<And>i t c. f i = Some t \<Longrightarrow> rep D get t c \<Longrightarrow> hash_done get t (isDirty c) (setHash D c)"
  shows "hash_done get (PBranch f) (isDirty n) (setHash D n)" "hash_done get (PBranch f) (isDirty n) (setRootHash D n)"
proof -
  obtain es cs b where n: "n = BranchNode \<lparr>EncodedChildren = es, ChildrenVersion = cversions f\<rparr> cs b"
    "length cs = nrOfChildren" "length es = nrOfChildren"
    "\<forall>i < nrOfChildren. srep D get (f i) (cs ! i) (es ! i)" "bok D get (PBranch f) b (es = pencs D f)"
    using assms(1) by (auto simp: rep_simps)
  have ne: "isEmptyOrNil n = None" using assms rep_not_empty by blast
  have "hash_done get (PBranch f) (isDirty n) (setHash D n) \<and> hash_done get (PBranch f) (isDirty n) (setRootHash D n)"
  proof (cases "hash b \<noteq> None \<or> isCollapsed n")
    case True
    show ?thesis
    proof (cases "hash b = None")
      case False
      then have "getHash n = Some (phash D (PBranch f))"
        using n(1) encode_hashed(2) [of get "PBranch f" n] assms(1-3) by (simp add: getHash_def)
      with False assms(1) n(1) ne show ?thesis by (simp add: hash_done_def del: isEmptyOrNil.simps)
    next
      case nohash: True
      then have pn: "n = pnode D (PBranch f) b" "isCollapsed n" using collapsed_branch True n(1) assms(1) by blast+
      obtain n' where "hashCollapsed D n = (n', None)" "rep D get (PBranch f) n'"
        "getHash n' = Some (phash D (PBranch f))" "isDirty n' = isDirty n"
        using ne pn(1) n(5) assms(1) by (rule hashCollapsed_rep)
      with nohash n(1) ne pn(2) show ?thesis by (simp add: hash_done_def del: isEmptyOrNil.simps isCollapsed.simps)
    qed
  next
    case False
    let ?Q = "\<lambda>i x'. \<forall>t. f i = Some t \<longrightarrow> rep D get t x' \<and> getHash x' \<noteq> None"
    have "\<forall>i < length cs. \<forall>x. cs ! i = Some x \<longrightarrow> (\<exists>x'. setHash D x = (x', None) \<and> ?Q i x')"
    proof (intro allI impI)
      fix i x assume i: "i < length cs" "cs ! i = Some x"
      then obtain t where t: "f i = Some t" "rep D get t x" using n(2,4) by (cases "f i") force+
      then have "hash_done get t (isDirty x) (setHash D x)" by (rule IH)
      with t(1) show "\<exists>x'. setHash D x = (x', None) \<and> ?Q i x'"
        by (cases "setHash D x") (auto simp: hash_done_def)
    qed
    from hashChildren_all [OF this] obtain cs' where cs': "hashChildren D cs = (cs', None)"
      "hashChildrenConcurrent D cs = (cs', [])" "length cs' = length cs"
      "\<forall>i < length cs. rel_option (\<lambda>_. ?Q i) (cs ! i) (cs' ! i)" by blast
    obtain n' where "finishHash D (BranchNode \<lparr>EncodedChildren = es, ChildrenVersion = cversions f\<rparr> cs' b) = (n', None)"
      "rep D get (PBranch f) n'" "getHash n' = Some (phash D (PBranch f))" "isDirty n' = dirty b"
      using finishHash_branch [OF _ n(3) children_of_rep [OF n(4,2) cs'(4)] n(5) assms(2,3)] cs'(3) n(2) by auto
    with False cs' n(1) ne show ?thesis
      by (simp add: hash_done_def isDirty_def del: isEmptyOrNil.simps isCollapsed.simps)
  qed
  then show "hash_done get (PBranch f) (isDirty n) (setHash D n)" "hash_done get (PBranch f) (isDirty n) (setRootHash D n)" by auto
qed

lemma setHash_rep:
  assumes "rep D get t n" "hasher_ok D" "pwf t \<or> pterminal t"
  shows "hash_done get t (isDirty n) (setHash D n)"
  using assms
proof (induction t arbitrary: n)
  case (PLeaf k v w)
  then obtain b where n: "n = LeafNode (leafMsg k v w) b" "bok D get (PLeaf k v w) b True" by (auto simp: rep_simps)
  have ne: "isEmptyOrNil n = None" using PLeaf.prems rep_not_empty by blast
  have e: "encodeNodeAndGetHash D n = Inr (phash D (PLeaf k v w))"
    using ne n(1) by (intro encode_fresh) auto
  have "rep D get (PLeaf k v w) (LeafNode (leafMsg k v w) (b\<lparr>hash := Some (phash D (PLeaf k v w))\<rparr>))"
    using bok_setHash [OF n(2)] by (simp add: rep_simps)
  with n ne e PLeaf.prems(1) show ?case
    by (cases "hash b")
      (auto simp: hash_done_def finishHash_def setGivenHash_def getHash_def isDirty_def dest: bok_hashed
        simp del: isEmptyOrNil.simps)
next
  case (PExt k t)
  then show ?case by (intro setHash_PExt) auto
next
  case (PBranch f)
  show ?case
  proof (rule setHash_PBranch(1))
    fix i t c assume "f i = Some t" "rep D get t c"
    moreover from this have "pwf t \<or> pterminal t" using PBranch.prems(3) pslot_ok [of i t] by (auto simp: pwf_PBranch)
    ultimately show "hash_done get t (isDirty c) (setHash D c)"
      using PBranch.IH [of "f i" t c] PBranch.prems(2) by (metis option.set_intros rangeI)
  qed (use PBranch.prems in auto)
qed

lemma setRootHash_rep:
  assumes "rep D get t n" "hasher_ok D" "pwf t"
  shows "hash_done get t (isDirty n) (setRootHash D n)"
proof (cases t)
  case (PBranch f)
  show ?thesis unfolding PBranch
  proof (rule setHash_PBranch(2))
    fix i u c assume "f i = Some u" "rep D get u c"
    moreover from this have "pwf u \<or> pterminal u" using PBranch assms(3) pslot_ok [of i u] by (auto simp: pwf_PBranch)
    ultimately show "hash_done get u (isDirty c) (setHash D c)" using assms(2) by (intro setHash_rep)
  qed (use assms PBranch in auto)
qed (use setHash_rep [OF assms(1,2)] assms in \<open>auto simp: rep_simps\<close>)

end

end
