(* ===== verification/Trie_Commit.thy ===== *)
theory Trie_Commit
  imports Trie_Hash
begin

text \<open>
  Committing a trie: \<open>commitDirty\<close> on a node that represents a trie succeeds, leaves every node of
  the trie in the database under its hash and a clean node that represents the same trie, and
  changes no entry that was there. The hypotheses are that the storer obeys \<open>storer_laws\<close>, that
  the hash function does not map two different encodings among the trie's nodes and the stored
  entries to one key (\<open>fresh_keys\<close>), and that the encodings are slices of the running program.
\<close>

definition storer_laws :: "('db \<Rightarrow> getter) \<Rightarrow> 'db putter \<Rightarrow> ('db \<Rightarrow> bool) \<Rightarrow> bool" where
  "storer_laws read put accepting \<longleftrightarrow>
     (\<forall>db k v. accepting db \<longrightarrow> v \<noteq> [] \<longrightarrow>
        (\<exists>db'. put k v db = Inr db' \<and> accepting db' \<and> read db' k = Inr v \<and>
           (\<forall>k'. k' \<noteq> k \<longrightarrow> read db' k' = read db k')))"

definition extends :: "getter \<Rightarrow> getter \<Rightarrow> bool" where
  "extends get get' \<longleftrightarrow> (\<forall>k v. get k = Inr v \<longrightarrow> get' k = Inr v)"

text \<open>No key of a set of tries holds a foreign value, and no two of them share a key.\<close>

definition fresh_keys :: "deps \<Rightarrow> ptrie set \<Rightarrow> getter \<Rightarrow> bool" where
  "fresh_keys D T get \<longleftrightarrow>
     (\<forall>s \<in> T. (\<forall>v. get (phash D s) = Inr v \<longrightarrow> v = penc D s) \<and>
        (\<forall>s' \<in> T. phash D s' = phash D s \<longrightarrow> penc D s' = penc D s) \<and> length (penc D s) < 2 ^ 63)"

lemma fresh_keysD:
  assumes "fresh_keys D T get" "s \<in> T"
  shows "get (phash D s) = Inr v \<Longrightarrow> v = penc D s" "length (penc D s) < 2 ^ 63"
    "s' \<in> T \<Longrightarrow> phash D s' = phash D s \<Longrightarrow> penc D s' = penc D s"
  using assms unfolding fresh_keys_def by blast+

lemma fresh_keys_put:
  assumes "fresh_keys D T get" "t \<in> T" "get' (phash D t) = Inr (penc D t)"
    "\<forall>k. k \<noteq> phash D t \<longrightarrow> get' k = get k"
  shows "fresh_keys D T get'" "extends get get'"
proof -
  have "v = penc D s" if s: "s \<in> T" "get' (phash D s) = Inr v" for s v
  proof (cases "phash D s = phash D t")
    case True
    then have "penc D s = penc D t" using fresh_keysD(3) [OF assms(1,2) s(1)] by simp
    with True s(2) assms(3) show ?thesis by simp
  next
    case False
    with s(2) assms(4) have "get (phash D s) = Inr v" by simp
    then show ?thesis by (rule fresh_keysD(1) [OF assms(1) s(1)])
  qed
  with fresh_keysD(2,3) [OF assms(1)] show "fresh_keys D T get'" unfolding fresh_keys_def by blast
  show "extends get get'"
    unfolding extends_def
  proof (intro allI impI)
    fix k v assume kv: "get k = Inr v"
    show "get' k = Inr v"
    proof (cases "k = phash D t")
      case True
      with kv have "v = penc D t" by (intro fresh_keysD(1) [OF assms(1,2)]) simp
      with True assms(3) show ?thesis by simp
    qed (use kv assms(4) in simp)
  qed
qed

lemma extends_refl [simp]: "extends get get"
  by (simp add: extends_def)

lemma extends_trans: "extends get get' \<Longrightarrow> extends get' get'' \<Longrightarrow> extends get get''"
  by (simp add: extends_def)

lemma pstored_extends: "pstored D get t \<Longrightarrow> extends get get' \<Longrightarrow> pstored D get' t"
  by (simp add: pstored_def stored1_def extends_def)

lemma bok_extends: "bok D get t b fresh \<Longrightarrow> extends get get' \<Longrightarrow> bok D get' t b fresh"
  by (auto simp: bok_def pstored_extends)

lemma rep_extends:
  assumes "extends get get'"
  shows "rep D get t n \<Longrightarrow> rep D get' t n" "srep D get to c h \<Longrightarrow> srep D get' to c h"
proof (induction rule: rep_srep.inducts)
  case (rep_branch cs es f b)
  then show ?case by (intro rep_srep.rep_branch) (auto intro: bok_extends [OF _ assms])
qed (auto intro: rep_srep.intros bok_extends [OF _ assms] pstored_extends [OF _ assms])

subsection \<open>The dirty flag does not influence hashing and collapsing\<close>

lemma setDirty_simps [simp]:
  "setDirty (LeafNode l b) d = LeafNode l (b\<lparr>dirty := d\<rparr>)"
  "setDirty (ExtensionNode e c b) d = ExtensionNode e c (b\<lparr>dirty := d\<rparr>)"
  "setDirty (BranchNode m cs b) d = BranchNode m cs (b\<lparr>dirty := d\<rparr>)"
  by (simp_all add: setDirty_def)

lemma isEmptyOrNil_setDirty [simp]: "isEmptyOrNil (setDirty n d) = isEmptyOrNil n"
  by (cases n) simp_all

lemma isCollapsed_setDirty [simp]: "isCollapsed (setDirty n d) = isCollapsed n"
  by (cases n) simp_all

lemma getHash_setDirty [simp]: "getHash (setDirty n d) = getHash n"
  by (cases n) (simp_all add: getHash_def)

lemma marshal_setDirty: "marshalNode D (setDirty n d) = marshalNode D n" "nodeTag (setDirty n d) = nodeTag n"
  by (cases n; simp)+

lemma encode_setDirty [simp]:
  "getEncodedNode D (setDirty n d) = getEncodedNode D n"
  "encodeNodeAndGetHash D (setDirty n d) = encodeNodeAndGetHash D n"
  unfolding getEncodedNode_def encodeNodeAndGetHash_def isEmptyOrNil_setDirty marshal_setDirty by (rule refl)+

lemma setGivenHash_setDirty: "setGivenHash (setDirty n d) h = setDirty (setGivenHash n h) d"
  by (cases n) (simp_all add: setGivenHash_def)

lemma encode_dirty:
  "encodeNodeAndGetHash D (LeafNode l (b\<lparr>dirty := d\<rparr>)) = encodeNodeAndGetHash D (LeafNode l b)"
  "encodeNodeAndGetHash D (ExtensionNode e c (b\<lparr>dirty := d\<rparr>)) = encodeNodeAndGetHash D (ExtensionNode e c b)"
  "encodeNodeAndGetHash D (BranchNode m cs (b\<lparr>dirty := d\<rparr>)) = encodeNodeAndGetHash D (BranchNode m cs b)"
  using encode_setDirty(2) [of D "LeafNode l b" d] encode_setDirty(2) [of D "ExtensionNode e c b" d]
    encode_setDirty(2) [of D "BranchNode m cs b" d]
  by (simp_all del: encode_setDirty)

lemma hashNode_setDirty: "hashNode D (setDirty n d) = map_prod (\<lambda>n. setDirty n d) id (hashNode D n)"
proof (cases n)
  case (ExtensionNode e c b)
  then show ?thesis by (simp add: Let_def encode_dirty split: option.split sum.split)
next
  case (BranchNode m cs b)
  then show ?thesis by (simp add: Let_def encode_dirty split: option.split prod.split)
qed (simp add: encode_dirty split: option.split)

lemma finishHash_setDirty: "finishHash D (setDirty n d) = map_prod (\<lambda>n. setDirty n d) id (finishHash D n)"
  by (simp add: finishHash_def hashNode_setDirty setGivenHash_setDirty split: prod.split sum.split)

lemma hashCollapsed_setDirty: "hashCollapsed D (setDirty n d) = map_prod (\<lambda>n. setDirty n d) id (hashCollapsed D n)"
  by (simp add: hashCollapsed_def setGivenHash_setDirty split: sum.split)

lemma setHash_setDirty: "setHash D (setDirty n d) = map_prod (\<lambda>n. setDirty n d) id (setHash D n)"
proof (cases n)
  case (LeafNode l b)
  then show ?thesis using finishHash_setDirty [of D "LeafNode l b" d] by (simp split: option.split)
next
  case (ExtensionNode e c b)
  then show ?thesis
    using finishHash_setDirty [of D "ExtensionNode e _ b" d] hashCollapsed_setDirty [of D "ExtensionNode e c b" d]
    by (auto split: option.split prod.split)
next
  case (BranchNode m cs b)
  then show ?thesis
    using finishHash_setDirty [of D "BranchNode m _ b" d] hashCollapsed_setDirty [of D "BranchNode m cs b" d]
    by (auto split: option.split prod.split)
qed

lemma getCollapsed_setDirty:
  "getCollapsed D (setDirty n d) =
     map_prod (\<lambda>n. setDirty n d) (map_sum id (\<lambda>n. setDirty n d)) (getCollapsed D n)"
  by (cases n) (auto simp: Let_def split: option.split prod.split sum.split)

subsection \<open>Collapsing\<close>

context trie_codec
begin

lemma pnode_not_empty:
  assumes "pwf t \<or> pterminal t" "hasher_ok D"
  shows "isEmptyOrNil (pnode D t b) = None"
proof (cases t)
  case (PBranch f)
  then obtain i where i: "f i \<noteq> None" "i < nrOfChildren"
    using assms(1) by (metis not_Some_eq pslot_bound pterminal.simps(3) pwf_PBranch two_children_def)
  have nil: "posNil (replicate nrOfChildren None) (pencs D f) j = Inr (f j = None)" if "j < nrOfChildren" for j
    using that assms(2) by (auto simp: posNil_def nth_pencs phash_nonempty split: option.split)
  have "anyChild (replicate nrOfChildren None) (pencs D f) is = None"
    if "i \<in> set is" "set is \<subseteq> {0..<nrOfChildren}" for "is"
    using that by (induction "is") (use nil i in auto)
  with i PBranch show ?thesis by (simp add: branchMsg_def)
qed (use assms in \<open>auto simp: leafMsg_def extMsg_def phash_nonempty\<close>)

lemma encode_pnode:
  assumes "pwf t \<or> pterminal t" "hasher_ok D"
  shows "getEncodedNode D (pnode D t b) = Inr (penc D t)"
  using pnode_not_empty [OF assms] marshal_case
  by (cases t) (auto simp: getEncodedNode_def marshal_case simp del: isEmptyOrNil.simps)

lemma ensureHash_rep:
  assumes "rep D get t c" "pwf t \<or> pterminal t" "hasher_ok D"
  obtains c' where "ensureHash D c = (c', Inr (phash D t))" "rep D get t c'" "isDirty c' = isDirty c"
proof (cases "getHash c = None \<or> isDirty c")
  case True
  obtain c' e where c': "setHash D c = (c', e)" by (cases "setHash D c")
  with setHash_rep [OF assms(1,3,2)] have "e = None" "rep D get t c'" "getHash c' = Some (phash D t)" "isDirty c' = isDirty c"
    by (auto simp: hash_done_def)
  with c' True rep_not_empty [OF assms(1,3,2)] show thesis
    by (intro that [of c']) (auto simp: ensureHash_def hasValidHash_def slice_def)
next
  case False
  with encode_hashed(2) [OF assms(1,3,2)] rep_not_empty [OF assms(1,3,2)] assms(1) show thesis
    by (intro that) (auto simp: ensureHash_def hasValidHash_def slice_def)
qed

lemma collapseLoop_rep:
  assumes "length cs = nrOfChildren" "length es = nrOfChildren"
    "\<forall>i < nrOfChildren. srep D get (f i) (cs ! i) (es ! i)" "hasher_ok D" "pwf (PBranch f)"
    "set is \<subseteq> {0..<nrOfChildren}"
  shows "\<exists>cs' es'. collapseLoop D cs es is = (cs', es', None) \<and> length cs' = nrOfChildren \<and>
    length es' = nrOfChildren \<and> (\<forall>i < nrOfChildren. srep D get (f i) (cs' ! i) (es' ! i)) \<and>
    (\<forall>i < nrOfChildren. i \<in> set is \<or> es ! i = pencs D f ! i \<longrightarrow> es' ! i = pencs D f ! i)"
  using assms(1,2,3,6)
proof (induction "is" arbitrary: cs es)
  case (Cons j "is")
  then have j: "j < nrOfChildren" and sj: "srep D get (f j) (cs ! j) (es ! j)" by auto
  show ?case
  proof (cases "cs ! j")
    case None
    then have "es ! j = pencs D f ! j" using sj j by (cases "f j") (auto simp: nth_pencs)
    with Cons.IH [OF Cons.prems(1-3)] Cons.prems None j show ?thesis by fastforce
  next
    case (Some c)
    then obtain t where t: "f j = Some t" "rep D get t c" using sj by (cases "f j") auto
    then have "pwf t \<or> pterminal t" using assms(5) pslot_ok [of j t] by (simp add: pwf_PBranch)
    with t(2) assms(4) obtain c' where c': "ensureHash D c = (c', Inr (phash D t))" "rep D get t c'"
      using ensureHash_rep by blast
    have "srep D get (f i) (cs[j := Some c'] ! i) (es[j := phash D t] ! i)" if "i < nrOfChildren" for i
      using that Cons.prems t(1) c'(2) by (cases "i = j") auto
    then obtain cs' es' where "collapseLoop D (cs[j := Some c']) (es[j := phash D t]) is = (cs', es', None)"
      "length cs' = nrOfChildren" "length es' = nrOfChildren"
      "\<forall>i < nrOfChildren. srep D get (f i) (cs' ! i) (es' ! i)"
      "\<forall>i < nrOfChildren. i \<in> set is \<or> es[j := phash D t] ! i = pencs D f ! i \<longrightarrow> es' ! i = pencs D f ! i"
      using Cons.IH [of "cs[j := Some c']" "es[j := phash D t]"] Cons.prems by auto
    moreover have "es[j := phash D t] ! i = pencs D f ! i" if "i = j \<or> es ! i = pencs D f ! i" "i < nrOfChildren" for i
      using that j Cons.prems(2) t(1) by (cases "i = j") (auto simp: nth_pencs)
    ultimately show ?thesis using Some c'(1) j Cons.prems
      by (intro exI [of _ cs'] exI [of _ es']) (simp, metis)
  qed
qed auto

lemma getCollapsed_rep:
  assumes "rep D get t n" "pwf t \<or> pterminal t" "hasher_ok D"
  obtains n' where "getCollapsed D n = (n', Inr (pnode D t (baseOf n)))" "rep D get t n'" "baseOf n' = baseOf n"
proof (cases t)
  case (PLeaf k v w)
  with assms(1) show thesis by (intro that [of n]) (auto simp: rep_simps)
next
  case (PExt k u)
  then obtain h c b where n: "n = ExtensionNode (extMsg k h (pversion u)) c b" "srep D get (Some u) c h"
    using assms(1) by (auto simp: rep_simps)
  have ne: "isEmptyOrNil n = None" using assms rep_not_empty by blast
  show thesis
  proof (cases c)
    case None
    with n assms(3) have "h = phash D u" "h \<noteq> []" by (auto simp: phash_nonempty)
    with None n ne PExt assms(1) show thesis by (intro that [of n]) (auto simp: extMsg_def Let_def)
  next
    case (Some x)
    obtain x' where x': "ensureHash D x = (x', Inr (phash D u))" "rep D get u x'"
      using ensureHash_rep [of get u x] n(2) Some assms(2,3) PExt by auto
    have "rep D get t (ExtensionNode (extMsg k h (pversion u)) (Some x') b)"
      using rep_ext_child [of D get k u _ c b x'] assms(1) n(1) x'(2) PExt by simp
    with Some n ne PExt x' show thesis
      by (intro that [of "ExtensionNode (extMsg k h (pversion u)) (Some x') b"]) (auto simp: extMsg_def)
  qed
next
  case (PBranch f)
  then obtain es cs b where n: "n = BranchNode \<lparr>EncodedChildren = es, ChildrenVersion = cversions f\<rparr> cs b"
    "length cs = nrOfChildren" "length es = nrOfChildren"
    "\<forall>i < nrOfChildren. srep D get (f i) (cs ! i) (es ! i)" "bok D get (PBranch f) b (es = pencs D f)"
    using assms(1) by (auto simp: rep_simps)
  have ne: "isEmptyOrNil n = None" using assms rep_not_empty by blast
  show thesis
  proof (cases "isCollapsed n")
    case True
    then have "n = pnode D t b" using collapsed_branch [of get f _ cs b] n(1) assms(1) PBranch by blast
    with True ne assms(1) n(1) show thesis
      by (intro that [of n]) (auto simp: Let_def simp del: isEmptyOrNil.simps isCollapsed.simps)
  next
    case False
    obtain cs' es' where c: "collapseLoop D cs es [0..<nrOfChildren] = (cs', es', None)" "length cs' = nrOfChildren"
      "length es' = nrOfChildren" "\<forall>i < nrOfChildren. srep D get (f i) (cs' ! i) (es' ! i)"
      "\<forall>i < nrOfChildren. es' ! i = pencs D f ! i"
      using collapseLoop_rep [OF n(2-4) assms(3), of "[0..<nrOfChildren]"] assms(2) PBranch by auto
    have es': "es' = pencs D f" using c(3,5) by (intro nth_equalityI) auto
    have "map (\<lambda>_. None) cs' = replicate nrOfChildren (None :: node option)" using c(2) by (simp add: map_replicate_const)
    moreover have "rep D get t (BranchNode \<lparr>EncodedChildren = es', ChildrenVersion = cversions f\<rparr> cs' b)"
      unfolding PBranch using c(2-4) n(5) es' by (intro rep_branch) (auto simp: bok_def)
    ultimately show thesis using c(1) n ne False PBranch es'
      by (intro that [of "BranchNode \<lparr>EncodedChildren = es', ChildrenVersion = cversions f\<rparr> cs' b"])
        (simp_all add: Let_def branchMsg_def del: isEmptyOrNil.simps isCollapsed.simps)
  qed
qed

text \<open>Storing one node whose subtries are already stored.\<close>

lemma psubs_proper: "s \<in> psubs t \<Longrightarrow> s \<noteq> t \<Longrightarrow> (\<exists>k u. t = PExt k u \<and> s \<in> psubs u) \<or> (\<exists>f i u. t = PBranch f \<and> f i = Some u \<and> s \<in> psubs u)"
  by (cases t) (auto simp: ran_def)

definition below_stored :: "getter \<Rightarrow> ptrie \<Rightarrow> bool" where
  "below_stored get t \<longleftrightarrow> (\<forall>s \<in> psubs t. s \<noteq> t \<longrightarrow> stored1 D get s)"

lemma rep_set_clean:
  assumes "rep D get t n" "getHash n = Some (phash D t)" "pstored D get t"
  shows "rep D get t (setDirty n False)"
  using assms by (cases t) (auto simp: rep_simps getHash_def bok_def)

lemma rep_pnode_base:
  assumes "pstored D get t" "rep D get t n" "getHash n = Some (phash D t)"
  shows "rep D get t (pnode D t (baseOf n))"
  using rep_pnode [OF assms(1), of "dirty (baseOf n)"] assms(3) unfolding getHash_def
  by (metis baseNode.surjective old.unit.exhaust)

lemma encodeNodeAndCommitToDB_rep:
  assumes "rep D (read db) t n" "pwf t \<or> pterminal t" "hasher_ok D"
    "storer_laws read put accepting" "accepting db" "fresh_keys D T (read db)" "t \<in> T"
    "below_stored (read db) t"
  obtains n' db' len where "encodeNodeAndCommitToDB D put (setDirty n False) db = (setDirty n' False, db', Inr len)"
    "extends (read db) (read db')" "accepting db'" "fresh_keys D T (read db')"
    "rep D (read db') t n'" "getHash n' = Some (phash D t)" "pstored D (read db') t"
proof -
  obtain n1 where n1: "computeAndSetNodeHash D (setDirty n False) = (setDirty n1 False, Inr (phash D t))"
    "rep D (read db) t n1" "getHash n1 = Some (phash D t)"
  proof (cases "getHash n = None")
    case True
    obtain n1 e where "setHash D n = (n1, e)" by (cases "setHash D n")
    with True setHash_rep [OF assms(1,3,2)] show thesis
      by (intro that [of n1]) (auto simp: computeAndSetNodeHash_def setHash_setDirty hash_done_def slice_def)
  next
    case False
    with encode_hashed(2) [OF assms(1,3,2)] assms(1,3) show thesis
      by (intro that [of n]) (auto simp: computeAndSetNodeHash_def slice_def phash_nonempty)
  qed
  obtain n2 where n2: "getCollapsed D n1 = (n2, Inr (pnode D t (baseOf n1)))" "rep D (read db) t n2" "baseOf n2 = baseOf n1"
    using n1(2) assms(2,3) by (rule getCollapsed_rep)
  have enc: "collapseAndEncodeNode D (setDirty n1 False) = (setDirty n2 False, Inr (penc D t))"
    using n2(1) encode_pnode [OF assms(2,3)] by (simp add: collapseAndEncodeNode_def getCollapsed_setDirty)
  have "penc D t \<noteq> []" by (cases t) auto
  then obtain db' where db': "put (phash D t) (penc D t) db = Inr db'" "accepting db'"
    "read db' (phash D t) = Inr (penc D t)" "\<forall>k'. k' \<noteq> phash D t \<longrightarrow> read db' k' = read db k'"
    using assms(4,5) unfolding storer_laws_def by blast
  have ext: "extends (read db) (read db')" using assms(6,7) db'(3,4) by (rule fresh_keys_put)
  have "fresh_keys D T (read db')" using assms(6,7) db'(3,4) by (rule fresh_keys_put)
  moreover have st: "pstored D (read db') t"
    unfolding pstored_def
  proof
    fix s assume s: "s \<in> psubs t"
    show "stored1 D (read db') s"
    proof (cases "s = t")
      case True
      then show ?thesis using db'(3) fresh_keysD(2) [OF assms(6,7)] by (simp add: stored1_def)
    next
      case False
      with s assms(8) have "stored1 D (read db) s" by (simp add: below_stored_def)
      with ext show ?thesis by (simp add: stored1_def extends_def)
    qed
  qed
  ultimately show thesis
    using n1 n2 enc db' ext rep_extends(1) [OF ext n2(2)]
    by (intro that [of n2 db']) (auto simp: encodeNodeAndCommitToDB_def getHash_def)
qed

text \<open>What committing a node must leave.\<close>

definition commit_done :: "('db \<Rightarrow> getter) \<Rightarrow> ('db \<Rightarrow> bool) \<Rightarrow> ptrie set \<Rightarrow> 'db \<Rightarrow> ptrie \<Rightarrow>
    node \<times> 'db \<times> trie_error option \<Rightarrow> bool" where
  "commit_done read accepting T db t res \<longleftrightarrow> (case res of (n', db', err) \<Rightarrow>
     err = None \<and> extends (read db) (read db') \<and> accepting db' \<and> fresh_keys D T (read db') \<and>
     rep D (read db') t n' \<and> \<not> isDirty n')"

lemma clean_stored: "rep D get t n \<Longrightarrow> \<not> isDirty n \<Longrightarrow> pstored D get t"
  by (cases t) (auto simp: rep_simps isDirty_def bok_def)

lemma isDirty_setDirty [simp]: "isDirty (setDirty n d) = d"
  by (cases n) (simp_all add: isDirty_def)

lemma commitNode_rep:
  assumes "rep D (read db) t n" "pwf t \<or> pterminal t" "hasher_ok D"
    "storer_laws read put accepting" "accepting db" "fresh_keys D T (read db)" "t \<in> T"
    "below_stored (read db) t"
  shows "commit_done read accepting T db t (commitNode D put level maxLevel n db)"
    "commit_done read accepting T db t (case encodeNodeAndCommitToDB D put (setDirty n False) db of
       (n', db', Inl e) \<Rightarrow> (n', db', Some e) | (n', db', Inr _) \<Rightarrow> (n', db', None))"
proof -
  obtain n' db' len where c: "encodeNodeAndCommitToDB D put (setDirty n False) db = (setDirty n' False, db', Inr len)"
    "extends (read db) (read db')" "accepting db'" "fresh_keys D T (read db')"
    "rep D (read db') t n'" "getHash n' = Some (phash D t)" "pstored D (read db') t"
    using assms by (rule encodeNodeAndCommitToDB_rep)
  note clean = rep_set_clean [OF c(5,6,7)]
  show "commit_done read accepting T db t (case encodeNodeAndCommitToDB D put (setDirty n False) db of
       (n', db', Inl e) \<Rightarrow> (n', db', Some e) | (n', db', Inr _) \<Rightarrow> (n', db', None))"
    using c clean by (simp add: commit_done_def)
  obtain n2 where n2: "getCollapsed D (setDirty n' False) = (n2, Inr (pnode D t (baseOf (setDirty n' False))))"
    using clean assms(2,3) by (rule getCollapsed_rep)
  have "rep D (read db') t (pnode D t (baseOf (setDirty n' False)))"
    using c(6,7) clean by (intro rep_pnode_base) auto
  moreover have "isDirty (pnode D t (baseOf (setDirty n' False))) = False"
    by (cases t; cases n') (simp_all add: isDirty_def)
  ultimately show "commit_done read accepting T db t (commitNode D put level maxLevel n db)"
    using c clean n2 by (auto simp: commitNode_def collapseOnCommit_def commit_done_def)
qed

lemma commitChildren_rep:
  assumes "\<forall>i < length cs. srep D (read db) (F i) (cs ! i) (E i)" "accepting db" "fresh_keys D T (read db)"
    and IH: "\<And>i t x db. i < length cs \<Longrightarrow> F i = Some t \<Longrightarrow> rep D (read db) t x \<Longrightarrow> accepting db \<Longrightarrow>
      fresh_keys D T (read db) \<Longrightarrow> commit_done read accepting T db t (commitDirty D put level maxLevel x db)"
  shows "\<exists>cs' db'. commitChildren D put level maxLevel cs db = (cs', db', None) \<and> length cs' = length cs \<and>
    extends (read db) (read db') \<and> accepting db' \<and> fresh_keys D T (read db') \<and>
    (\<forall>i < length cs. srep D (read db') (F i) (cs' ! i) (E i) \<and> (\<forall>t. F i = Some t \<longrightarrow> pstored D (read db') t))"
  using assms
proof (induction cs arbitrary: db F E)
  case (Cons c cs)
  have c0: "srep D (read db) (F 0) c (E 0)" using Cons.prems(1) by auto
  obtain c' db1 where c': "extends (read db) (read db1)" "accepting db1" "fresh_keys D T (read db1)"
    "srep D (read db1) (F 0) c' (E 0)" "\<forall>t. F 0 = Some t \<longrightarrow> pstored D (read db1) t"
    "commitChildren D put level maxLevel (c # cs) db =
      (let (cs', db', err) = commitChildren D put level maxLevel cs db1 in (c' # cs', db', err))"
  proof (cases c)
    case None
    with c0 Cons.prems(2,3) show thesis by (intro that [of db None]) (auto elim: srep.cases)
  next
    case (Some x)
    then obtain t where t: "F 0 = Some t" "rep D (read db) t x" using c0 by (cases "F 0") auto
    then have "commit_done read accepting T db t (commitDirty D put level maxLevel x db)"
      using Cons.prems(2,3) Cons.prems(4) [of 0] by simp
    then obtain x' db1 where r: "commitDirty D put level maxLevel x db = (x', db1, None)"
      "extends (read db) (read db1)" "accepting db1" "fresh_keys D T (read db1)" "rep D (read db1) t x'" "\<not> isDirty x'"
      by (auto simp: commit_done_def split: prod.splits)
    with Some t(1) clean_stored [OF r(5,6)] show thesis by (intro that [of db1 "Some x'"]) auto
  qed
  have "\<forall>i < length cs. srep D (read db1) (F (Suc i)) (cs ! i) (E (Suc i))"
    using Cons.prems(1) rep_extends(2) [OF c'(1)] by auto
  moreover have "commit_done read accepting T db2 t (commitDirty D put level maxLevel x db2)"
    if "i < length cs" "F (Suc i) = Some t" "rep D (read db2) t x" "accepting db2" "fresh_keys D T (read db2)"
    for i t x db2 using Cons.prems(4) [of "Suc i"] that by simp
  ultimately obtain cs' db' where "commitChildren D put level maxLevel cs db1 = (cs', db', None)" "length cs' = length cs"
    "extends (read db1) (read db')" "accepting db'" "fresh_keys D T (read db')"
    "\<forall>i < length cs. srep D (read db') (F (Suc i)) (cs' ! i) (E (Suc i)) \<and>
      (\<forall>t. F (Suc i) = Some t \<longrightarrow> pstored D (read db') t)"
    using Cons.IH [of db1 "\<lambda>i. F (Suc i)" "\<lambda>i. E (Suc i)"] c'(2,3) by blast
  with c' show ?case
    using rep_extends(2) [of "read db1" "read db'"] pstored_extends [of D "read db1" _ "read db'"]
    by (intro exI [of _ "c' # cs'"] exI [of _ db'])
      (auto simp: less_Suc_eq_0_disj intro: extends_trans)
qed simp

lemma below_stored_PExt: "pstored D get t \<Longrightarrow> below_stored get (PExt k t)"
  by (auto simp: below_stored_def pstored_def)

lemma below_stored_PBranch:
  assumes "pwf (PBranch f)" "\<forall>i < nrOfChildren. \<forall>t. f i = Some t \<longrightarrow> pstored D get t"
  shows "below_stored get (PBranch f)"
  unfolding below_stored_def
proof (intro ballI impI)
  fix s assume "s \<in> psubs (PBranch f)" "s \<noteq> PBranch f"
  then obtain i u where i: "f i = Some u" "s \<in> psubs u" using psubs_proper [of s "PBranch f"] by auto
  then have "i < nrOfChildren" using assms(1) pslot_bound by (auto simp: pwf_PBranch)
  with i assms(2) show "stored1 D get s" by (auto simp: pstored_def)
qed

lemma commit_done_trans:
  assumes "extends (read db) (read db1)" "commit_done read accepting T db1 t res"
  shows "commit_done read accepting T db t res"
  using assms by (auto simp: commit_done_def intro: extends_trans)

theorem commitDirty_rep:
  assumes "rep D (read db) t n" "pwf t \<or> pterminal t" "hasher_ok D" "storer_laws read put accepting"
    "accepting db" "fresh_keys D T (read db)" "psubs t \<subseteq> T"
  shows "commit_done read accepting T db t (commitDirty D put level maxLevel n db)"
  using assms(1,2,5,6,7)
proof (induction t arbitrary: n db level)
  case (PLeaf k v w)
  then obtain b where n: "n = LeafNode (leafMsg k v w) b" by (auto simp: rep_simps)
  have ne: "isEmptyOrNil n = None" using PLeaf.prems(1,2) assms(3) rep_not_empty by blast
  have below: "below_stored (read db) (PLeaf k v w)" by (simp add: below_stored_def)
  have T: "PLeaf k v w \<in> T" using PLeaf.prems(5) by simp
  show ?case
    using commitNode_rep(2) [OF PLeaf.prems(1,2) assms(3,4) PLeaf.prems(3,4) T below] n ne PLeaf.prems
    by (auto simp: commit_done_def isDirty_def simp del: isEmptyOrNil.simps)
next
  case (PExt k t)
  then obtain h c b where n: "n = ExtensionNode (extMsg k h (pversion t)) c b" "srep D (read db) (Some t) c h"
    by (auto simp: rep_simps)
  have ne: "isEmptyOrNil n = None" using PExt.prems(1,2) assms(3) rep_not_empty by blast
  have T: "PExt k t \<in> T" "psubs t \<subseteq> T" using PExt.prems(5) by auto
  show ?case
  proof (cases "dirty b")
    case False
    with n ne PExt.prems show ?thesis by (simp add: commit_done_def isDirty_def del: isEmptyOrNil.simps)
  next
    case True
    show ?thesis
    proof (cases c)
      case None
      then have below: "below_stored (read db) (PExt k t)" using n(2) below_stored_PExt by simp
      show ?thesis
        using commitNode_rep(1) [OF PExt.prems(1,2) assms(3,4) PExt.prems(3,4) T(1) below] n(1) ne True None
        by (simp del: isEmptyOrNil.simps)
    next
      case (Some x)
      obtain x' db1 e where r: "commitDirty D put (level + 1) maxLevel x db = (x', db1, e)"
        by (cases "commitDirty D put (level + 1) maxLevel x db")
      have "commit_done read accepting T db t (commitDirty D put (level + 1) maxLevel x db)"
        using PExt.IH [of db x "level + 1"] n(2) Some PExt.prems T by simp
      with r have x': "e = None" "extends (read db) (read db1)" "accepting db1" "fresh_keys D T (read db1)"
        "rep D (read db1) t x'" "\<not> isDirty x'" by (auto simp: commit_done_def)
      have rep1: "rep D (read db1) (PExt k t) (ExtensionNode (extMsg k h (pversion t)) (Some x') b)"
        using rep_ext_child rep_extends(1) [OF x'(2) PExt.prems(1)] x'(5) n(1) by blast
      have below: "below_stored (read db1) (PExt k t)" using clean_stored [OF x'(5,6)] by (rule below_stored_PExt)
      show ?thesis
        using commit_done_trans [OF x'(2) commitNode_rep(1) [OF rep1 PExt.prems(2) assms(3,4) x'(3,4) T(1) below]]
          n(1) ne True Some r x'(1) by (simp del: isEmptyOrNil.simps)
    qed
  qed
next
  case (PBranch f)
  then obtain es cs b where n: "n = BranchNode \<lparr>EncodedChildren = es, ChildrenVersion = cversions f\<rparr> cs b"
    "length cs = nrOfChildren" "length es = nrOfChildren"
    "\<forall>i < nrOfChildren. srep D (read db) (f i) (cs ! i) (es ! i)" "bok D (read db) (PBranch f) b (es = pencs D f)"
    by (auto simp: rep_simps)
  have wf: "pwf (PBranch f)" using PBranch.prems(2) by simp
  have ne: "isEmptyOrNil n = None" using PBranch.prems(1,2) assms(3) rep_not_empty by blast
  show ?case
  proof (cases "dirty b")
    case False
    with n ne PBranch.prems show ?thesis by (simp add: commit_done_def isDirty_def del: isEmptyOrNil.simps)
  next
    case True
    have IH: "commit_done read accepting T db' t (commitDirty D put (level + 1) maxLevel x db')"
      if "f i = Some t" "rep D (read db') t x" "accepting db'" "fresh_keys D T (read db')" for i t x db'
    proof -
      have "pwf t \<or> pterminal t" using wf that(1) pslot_ok [of i t] by (auto simp: pwf_PBranch)
      moreover have "psubs t \<subseteq> T" using PBranch.prems(5) psubs_child [of f i t, OF that(1)] by blast
      ultimately show ?thesis using PBranch.IH [of "f i" t db' x "level + 1"] that
        by (metis option.set_intros rangeI)
    qed
    obtain cs' db1 where c: "commitChildren D put (level + 1) maxLevel cs db = (cs', db1, None)"
      "length cs' = length cs" "extends (read db) (read db1)" "accepting db1" "fresh_keys D T (read db1)"
      "\<forall>i < length cs. srep D (read db1) (f i) (cs' ! i) (es ! i) \<and> (\<forall>t. f i = Some t \<longrightarrow> pstored D (read db1) t)"
      using commitChildren_rep [of cs read db f "(!) es" accepting T put "level + 1" maxLevel] IH n(2,4) PBranch.prems(3,4)
      by auto
    have rep1: "rep D (read db1) (PBranch f) (BranchNode \<lparr>EncodedChildren = es, ChildrenVersion = cversions f\<rparr> cs' b)"
      using c(2,6) n(2,3) bok_extends [OF n(5) c(3)] by (intro rep_branch) auto
    have below: "below_stored (read db1) (PBranch f)" using wf c(6) n(2) by (intro below_stored_PBranch) auto
    have T: "PBranch f \<in> T" using PBranch.prems(5) by simp
    show ?thesis
      using commit_done_trans [OF c(3) commitNode_rep(1) [OF rep1 PBranch.prems(2) assms(3,4) c(4,5) T below]]
        n(1) ne True c(1) by (simp del: isEmptyOrNil.simps)
  qed
qed

end

end
