(* ===== verification/Trie_Main.thy ===== *)
theory Trie_Main
  imports Trie_Refine Trie_Commit
begin

text \<open>
  The Patricia-Merkle trie of \<open>trie/patriciaMerkleTrie.go\<close>: the root pointer, the obsolete hashes
  and the old root it collects, and its operations. The storage manager is a database value with a
  read function and a \<open>Put\<close>; the mutex is taken at the start of every exported method, so a method
  is one atomic step. \<open>holds\<close> says that a trie has a given content; the operations act on
  that content as map operations, and the root hash is a function of it.
\<close>

record patriciaMerkleTrie =
  root :: "node option"
  oldHashes :: "bytes list"
  oldRoot :: bytes
  maxTrieLevelInMemory :: u64

definition EmptyTrieHash :: bytes where
  "EmptyTrieHash = replicate 32 0"

definition IsEmptyTrie :: "bytes \<Rightarrow> bool" where
  "IsEmptyTrie r = (length r = 0 \<or> r = EmptyTrieHash)"

datatype new_error = ErrInvalidLevelValue

definition NewTrie :: "u64 \<Rightarrow> new_error + patriciaMerkleTrie" where
  "NewTrie maxLevel =
     (if maxLevel = 0 then Inl ErrInvalidLevelValue
      else Inr \<lparr>root = None, oldHashes = [], oldRoot = [], maxTrieLevelInMemory = maxLevel\<rparr>)"

text \<open>One node at most is visited per nibble of the key.\<close>

definition keyFuel :: "bytes \<Rightarrow> nat" where
  "keyFuel hexKey = Suc (length hexKey)"

definition Get :: "deps \<Rightarrow> getter \<Rightarrow> patriciaMerkleTrie \<Rightarrow> bytes \<Rightarrow>
    patriciaMerkleTrie \<times> (trie_error + bytes option) \<times> u32" where
  "Get D get tr key = (case root tr of
     None \<Rightarrow> (tr, Inr None, 0)
   | Some n \<Rightarrow>
       (let hexKey = keyBytesToHex key;
            (n', r, depth) = tryGet D get (keyFuel hexKey) n hexKey 0
        in (tr\<lparr>root := Some n'\<rparr>, r, depth)))"

definition noteOldRoot :: "patriciaMerkleTrie \<Rightarrow> node \<Rightarrow> patriciaMerkleTrie" where
  "noteOldRoot tr n = (if \<not> isDirty n then tr\<lparr>oldRoot := slice (getHash n)\<rparr> else tr)"

definition deleteHex :: "deps \<Rightarrow> getter \<Rightarrow> patriciaMerkleTrie \<Rightarrow> bytes \<Rightarrow> patriciaMerkleTrie \<times> trie_error option" where
  "deleteHex D get tr hexKey = (case root tr of
     None \<Rightarrow> (tr, None)
   | Some n \<Rightarrow>
       (let tr1 = noteOldRoot tr n in
        case nodeDelete D get (keyFuel hexKey) n hexKey of
          (n', Inl e) \<Rightarrow> (tr1\<lparr>root := Some n'\<rparr>, Some e)
        | (n', Inr (_, newRoot, hs)) \<Rightarrow> (tr1\<lparr>root := newRoot, oldHashes := oldHashes tr1 @ hs\<rparr>, None)))"

definition update :: "deps \<Rightarrow> getter \<Rightarrow> patriciaMerkleTrie \<Rightarrow> bytes \<Rightarrow> bytes \<Rightarrow> version \<Rightarrow>
    patriciaMerkleTrie \<times> trie_error option" where
  "update D get tr key val version =
     (let hexKey = keyBytesToHex key in
      if length val \<noteq> 0 then
        let newData = \<lparr>Key = hexKey, Value = Some val, Version = version\<rparr> in
        (case root tr of
           None \<Rightarrow> (tr\<lparr>root := Some (newLeafNode newData)\<rparr>, None)
         | Some n \<Rightarrow>
             (let tr1 = noteOldRoot tr n in
              case nodeInsert D get (keyFuel hexKey) n newData of
                (n', Inl e) \<Rightarrow> (tr1\<lparr>root := Some n'\<rparr>, Some e)
              | (n', Inr None) \<Rightarrow> (tr1\<lparr>root := Some n'\<rparr>, None)
              | (n', Inr (Some (newRoot, hs))) \<Rightarrow>
                  (tr1\<lparr>root := Some newRoot, oldHashes := oldHashes tr1 @ hs\<rparr>, None)))
      else deleteHex D get tr hexKey)"

definition Update :: "deps \<Rightarrow> getter \<Rightarrow> patriciaMerkleTrie \<Rightarrow> bytes \<Rightarrow> bytes \<Rightarrow> patriciaMerkleTrie \<times> trie_error option" where
  "Update D get tr key val = update D get tr key val NotSpecified"

definition UpdateWithVersion :: "deps \<Rightarrow> getter \<Rightarrow> patriciaMerkleTrie \<Rightarrow> bytes \<Rightarrow> bytes \<Rightarrow> version \<Rightarrow>
    patriciaMerkleTrie \<times> trie_error option" where
  "UpdateWithVersion D get tr key val version = update D get tr key val version"

definition Delete :: "deps \<Rightarrow> getter \<Rightarrow> patriciaMerkleTrie \<Rightarrow> bytes \<Rightarrow> patriciaMerkleTrie \<times> trie_error option" where
  "Delete D get tr key = deleteHex D get tr (keyBytesToHex key)"

definition getRootHash :: "deps \<Rightarrow> patriciaMerkleTrie \<Rightarrow> patriciaMerkleTrie \<times> (trie_error + bytes)" where
  "getRootHash D tr = (case root tr of
     None \<Rightarrow> (tr, Inr EmptyTrieHash)
   | Some n \<Rightarrow> (case getHash n of
       Some h \<Rightarrow> (tr, Inr h)
     | None \<Rightarrow> (case setRootHash D n of
         (n', Some e) \<Rightarrow> (tr\<lparr>root := Some n'\<rparr>, Inl e)
       | (n', None) \<Rightarrow> (tr\<lparr>root := Some n'\<rparr>, Inr (slice (getHash n'))))))"

definition Commit :: "deps \<Rightarrow> 'db putter \<Rightarrow> patriciaMerkleTrie \<Rightarrow> 'db \<Rightarrow> patriciaMerkleTrie \<times> 'db \<times> trie_error option" where
  "Commit D put tr db = (case root tr of
     None \<Rightarrow> (tr, db, None)
   | Some n \<Rightarrow>
       if \<not> isDirty n then (tr, db, None)
       else (case setRootHash D n of
         (n', Some e) \<Rightarrow> (tr\<lparr>root := Some n'\<rparr>, db, Some e)
       | (n', None) \<Rightarrow>
           (let (n'', db', err) = commitDirty D put 0 (maxTrieLevelInMemory tr) n' db
            in (tr\<lparr>root := Some n'', oldRoot := [], oldHashes := []\<rparr>, db', err))))"

definition recreateFromDb :: "deps \<Rightarrow> getter \<Rightarrow> patriciaMerkleTrie \<Rightarrow> bytes \<Rightarrow> trie_error + patriciaMerkleTrie" where
  "recreateFromDb D get tr rootHash = (case getNodeFromDBAndDecode D get rootHash of
     Inl e \<Rightarrow> Inl e
   | Inr n \<Rightarrow> Inr \<lparr>root = Some (setGivenHash n rootHash), oldHashes = [], oldRoot = [],
       maxTrieLevelInMemory = maxTrieLevelInMemory tr\<rparr>)"

definition recreate :: "deps \<Rightarrow> getter \<Rightarrow> patriciaMerkleTrie \<Rightarrow> bytes \<Rightarrow> trie_error + patriciaMerkleTrie" where
  "recreate D get tr rootHash =
     (if IsEmptyTrie rootHash then
        Inr \<lparr>root = None, oldHashes = [], oldRoot = [], maxTrieLevelInMemory = maxTrieLevelInMemory tr\<rparr>
      else recreateFromDb D get tr rootHash)"

definition GetObsoleteHashes :: "patriciaMerkleTrie \<Rightarrow> bytes list" where
  "GetObsoleteHashes tr = oldHashes tr"

definition GetOldRoot :: "patriciaMerkleTrie \<Rightarrow> bytes" where
  "GetOldRoot tr = oldRoot tr"

definition GetDirtyHashes :: "deps \<Rightarrow> patriciaMerkleTrie \<Rightarrow> patriciaMerkleTrie \<times> (trie_error + bytes list)" where
  "GetDirtyHashes D tr = (case root tr of
     None \<Rightarrow> (tr, Inr [])
   | Some n \<Rightarrow> (case setRootHash D n of
       (n', Some e) \<Rightarrow> (tr\<lparr>root := Some n'\<rparr>, Inl e)
     | (n', None) \<Rightarrow> (case getDirtyHashes n' [] of
         (hs, Some e) \<Rightarrow> (tr\<lparr>root := Some n'\<rparr>, Inl e)
       | (hs, None) \<Rightarrow> (tr\<lparr>root := Some n'\<rparr>, Inr hs))))"

subsection \<open>Content\<close>

text \<open>The trie a root pointer stands for, and the content of a trie at byte keys.\<close>

definition tinv :: "deps \<Rightarrow> getter \<Rightarrow> ptrie option \<Rightarrow> patriciaMerkleTrie \<Rightarrow> bool" where
  "tinv D get to tr \<longleftrightarrow> twf to \<and> rel_option (rep D get) to (root tr)"

definition contentOf :: "ptrie option \<Rightarrow> (bytes \<rightharpoonup> entry) \<Rightarrow> bool" where
  "contentOf to m \<longleftrightarrow> (\<forall>key. olookup to (keyBytesToHex key) = m key) \<and>
     (\<forall>k. olookup to k \<noteq> None \<longrightarrow> k \<in> range keyBytesToHex)"

definition holds :: "deps \<Rightarrow> getter \<Rightarrow> (bytes \<rightharpoonup> entry) \<Rightarrow> patriciaMerkleTrie \<Rightarrow> bool" where
  "holds D get m tr \<longleftrightarrow> (\<exists>to. tinv D get to tr \<and> contentOf to m)"

lemma tinv_None [simp]: "tinv D get None tr \<longleftrightarrow> root tr = None"
  by (auto simp: tinv_def twf_def)

lemma tinv_Some: "tinv D get (Some t) tr \<longleftrightarrow> pwf t \<and> (\<exists>n. root tr = Some n \<and> rep D get t n)"
  by (auto simp: tinv_def twf_def option_rel_Some1)

lemma noteOldRoot_root [simp]: "root (noteOldRoot tr n) = root tr" "oldHashes (noteOldRoot tr n) = oldHashes tr"
  by (simp_all add: noteOldRoot_def)

context trie_codec
begin

lemma Get_tinv:
  assumes "tinv D get to tr" "hasher_ok D"
  obtains tr' d where "Get D get tr key = (tr', Inr (map_option fst (olookup to (keyBytesToHex key))), d)"
    "tinv D get to tr'"
proof (cases "to")
  case None
  with assms show thesis by (intro that [of tr 0]) (auto simp: Get_def)
next
  case (Some t)
  with assms obtain n where n: "root tr = Some n" "rep D get t n" "pwf t" by (auto simp: tinv_Some)
  have "pok t (keyBytesToHex key)" using n(3) hex_key_keyBytesToHex by (simp add: pok_def)
  then obtain n' d where "tryGet D get (keyFuel (keyBytesToHex key)) n (keyBytesToHex key) 0 =
      (n', Inr (map_option fst (plookup t (keyBytesToHex key))), d)" "rep D get t n'"
    using tryGet_rep [OF n(2) _ _ assms(2)] by (metis keyFuel_def lessI)
  with Some n show thesis by (intro that [of "tr\<lparr>root := Some n'\<rparr>" d]) (auto simp: Get_def tinv_Some)
qed

lemma deleteHex_tinv:
  assumes "tinv D get to tr" "hasher_ok D" "hex_key hexKey"
  obtains tr' hs where "deleteHex D get tr hexKey = (tr', None)" "tinv D get (tdelete to hexKey) tr'"
    "oldHashes tr' = oldHashes tr @ hs" "set hs \<subseteq> (\<Union>t \<in> set_option to. phash D ` psubs t)"
proof (cases "to")
  case None
  with assms show thesis by (intro that [of tr "[]"]) (auto simp: deleteHex_def tdelete_def)
next
  case (Some t)
  with assms obtain n where n: "root tr = Some n" "rep D get t n" "pwf t" by (auto simp: tinv_Some)
  have ok: "delete_ok D get t hexKey (nodeDelete D get (keyFuel hexKey) n hexKey)"
    using n assms(2,3) by (intro nodeDelete_rep) (auto simp: pok_def keyFuel_def)
  obtain n' r where r: "nodeDelete D get (keyFuel hexKey) n hexKey = (n', r)"
    by (cases "nodeDelete D get (keyFuel hexKey) n hexKey")
  have wf: "twf (tdelete to hexKey)" using ptrie.invar_delete [of "to" hexKey] assms(1,3) by (simp add: tinv_def)
  obtain d no hs where d: "r = Inr (d, no, hs)" "rel_option (rep D get) (pdelete t hexKey) no"
    "set hs \<subseteq> phash D ` psubs t"
    using ok r pdelete_absent [OF n(3) assms(3)] by (auto simp: delete_ok_def split: if_splits)
  with r n Some wf show thesis
    by (intro that [of "(noteOldRoot tr n)\<lparr>root := no, oldHashes := oldHashes tr @ hs\<rparr>" hs])
      (auto simp: deleteHex_def tinv_def tdelete_def Let_def)
qed

lemma update_tinv:
  assumes "tinv D get to tr" "hasher_ok D" "val \<noteq> []"
  obtains tr' hs where "update D get tr key val w = (tr', None)"
    "tinv D get (tinsert to (keyBytesToHex key) (val, w)) tr'"
    "oldHashes tr' = oldHashes tr @ hs" "set hs \<subseteq> (\<Union>t \<in> set_option to. phash D ` psubs t)"
proof (cases "to")
  case None
  let ?n = "newLeafNode \<lparr>Key = keyBytesToHex key, Value = Some val, Version = w\<rparr>"
  have "rep D get (PLeaf (keyBytesToHex key) val w) ?n" by (rule rep_newLeafNode)
  with None assms show thesis
    by (intro that [of "tr\<lparr>root := Some ?n\<rparr>" "[]"])
      (auto simp: update_def tinsert_def tinv_Some hex_key_keyBytesToHex)
next
  case (Some t)
  let ?key = "keyBytesToHex key"
  let ?d = "\<lparr>Key = ?key, Value = Some val, Version = w\<rparr>"
  from Some assms obtain n where n: "root tr = Some n" "rep D get t n" "pwf t" by (auto simp: tinv_Some)
  have ok: "insert_ok D get t ?key val w (nodeInsert D get (keyFuel ?key) n ?d)"
    using n assms(2,3) by (intro nodeInsert_rep) (auto simp: pok_def keyFuel_def hex_key_keyBytesToHex)
  obtain n' r where r: "nodeInsert D get (keyFuel ?key) n ?d = (n', r)" by (cases "nodeInsert D get (keyFuel ?key) n ?d")
  have wf: "pwf (pinsert t ?key val w)" using n(3) assms(3) by (intro pwf_pinsert hex_key_keyBytesToHex)
  show thesis
  proof (cases "map_option fst (plookup t ?key) = Some val")
    case True
    then have "pinsert t ?key val w = t" using pinsert_same [OF n(3) hex_key_keyBytesToHex assms(3)] by auto
    moreover have "r = Inr None" "rep D get t n'" using ok r True by (auto simp: insert_ok_def)
    ultimately show thesis using r n Some assms(3)
      by (intro that [of "(noteOldRoot tr n)\<lparr>root := Some n'\<rparr>" "[]"])
        (auto simp: update_def tinv_Some tinsert_def Let_def)
  next
    case False
    then obtain nn hs where "r = Inr (Some (nn, hs))" "rep D get (pinsert t ?key val w) nn" "set hs \<subseteq> phash D ` psubs t"
      using ok r by (auto simp: insert_ok_def)
    with r n Some assms(3) wf show thesis
      by (intro that [of "(noteOldRoot tr n)\<lparr>root := Some nn, oldHashes := oldHashes tr @ hs\<rparr>" hs])
        (auto simp: update_def tinv_Some tinsert_def Let_def)
  qed
qed

lemma getRootHash_tinv:
  assumes "tinv D get to tr" "hasher_ok D"
  obtains tr' where "getRootHash D tr = (tr', Inr (case to of None \<Rightarrow> EmptyTrieHash | Some t \<Rightarrow> phash D t))"
    "tinv D get to tr'"
proof (cases "to")
  case None
  with assms show thesis by (intro that [of tr]) (auto simp: getRootHash_def)
next
  case (Some t)
  with assms obtain n where n: "root tr = Some n" "rep D get t n" "pwf t" by (auto simp: tinv_Some)
  show thesis
  proof (cases "getHash n")
    case None
    obtain n' e where "setRootHash D n = (n', e)" by (cases "setRootHash D n")
    with setRootHash_rep [OF n(2) assms(2) n(3)] None n Some show thesis
      by (intro that [of "tr\<lparr>root := Some n'\<rparr>"]) (auto simp: getRootHash_def tinv_Some hash_done_def slice_def)
  next
    case (Some h)
    with encode_hashed(2) [OF n(2) assms(2)] n \<open>to = Some t\<close> assms(1) show thesis
      by (intro that [of tr]) (auto simp: getRootHash_def)
  qed
qed

lemma recreate_stored:
  assumes "pstored D get t" "pwf t" "hasher_ok D" "phash D t \<noteq> EmptyTrieHash"
  obtains tr' where "recreate D get tr (phash D t) = Inr tr'" "tinv D get (Some t) tr'"
proof -
  obtain n where "getNodeFromDBAndDecode D get (phash D t) = Inr n" "rep D get t (setGivenHash n (phash D t))"
    using assms(1,2) fetch_stored by blast
  with assms show thesis
    by (intro that) (auto simp: recreate_def recreateFromDb_def IsEmptyTrie_def phash_nonempty tinv_Some)
qed

lemma Commit_tinv:
  assumes "tinv D (read db) to tr" "hasher_ok D" "storer_laws read put accepting" "accepting db"
    "\<forall>t. to = Some t \<longrightarrow> fresh_keys D (psubs t) (read db)"
  obtains tr' db' where "Commit D put tr db = (tr', db', None)" "tinv D (read db') to tr'"
    "extends (read db) (read db')" "accepting db'" "\<forall>t. to = Some t \<longrightarrow> pstored D (read db') t"
proof (cases "to")
  case None
  with assms show thesis by (intro that [of tr db]) (auto simp: Commit_def)
next
  case (Some t)
  with assms obtain n where n: "root tr = Some n" "rep D (read db) t n" "pwf t" by (auto simp: tinv_Some)
  show thesis
  proof (cases "isDirty n")
    case False
    with n Some assms clean_stored [OF n(2)] show thesis by (intro that [of tr db]) (auto simp: Commit_def)
  next
    case True
    obtain n1 e where n1: "setRootHash D n = (n1, e)" by (cases "setRootHash D n")
    with setRootHash_rep [OF n(2) assms(2) n(3)] have r1: "e = None" "rep D (read db) t n1" by (auto simp: hash_done_def)
    obtain n2 db' e2 where c: "commitDirty D put 0 (maxTrieLevelInMemory tr) n1 db = (n2, db', e2)"
      by (cases "commitDirty D put 0 (maxTrieLevelInMemory tr) n1 db")
    have "commit_done read accepting (psubs t) db t (commitDirty D put 0 (maxTrieLevelInMemory tr) n1 db)"
      using assms(2-5) Some n(3) r1(2) by (intro commitDirty_rep) auto
    with c have r2: "e2 = None" "extends (read db) (read db')" "accepting db'" "rep D (read db') t n2" "\<not> isDirty n2"
      by (auto simp: commit_done_def)
    show thesis using True n n1 r1 c r2 Some clean_stored [OF r2(4,5)]
      by (intro that [of "tr\<lparr>root := Some n2, oldRoot := [], oldHashes := []\<rparr>" db'])
        (auto simp: Commit_def tinv_Some)
  qed
qed

end

end
