(* ===== verification/Trie_Storage.thy ===== *)
theory Trie_Storage
  imports Trie_Commit
begin

text \<open>
  The trie's storage manager (\<open>trie/trieStorageManager.go\<close>), its view at one epoch
  (\<open>trieStorageManagerInEpoch.go\<close>), its view during a snapshot (\<open>snapshotTrieStorageManager.go\<close>) and
  the variants without pruning. The storer underneath is the record \<open>storer\<close> of functions
  on a state of a parameter type; the functions only a pruning storer has are optional, as the code's
  type assertions make them. A storer whose reads return what was put (\<open>main_storer_laws\<close>) makes an
  open storage manager a storer with the laws the trie's commit relies on.
\<close>

record 'ms pruning_ops =
  sGetFromCurrentEpoch :: "'ms \<Rightarrow> bytes \<Rightarrow> trie_error + bytes"
  sPutInEpoch :: "'ms \<Rightarrow> bytes \<Rightarrow> bytes \<Rightarrow> u32 \<Rightarrow> trie_error + 'ms"
  sPutInEpochWithoutCache :: "'ms \<Rightarrow> bytes \<Rightarrow> bytes \<Rightarrow> u32 \<Rightarrow> trie_error + 'ms"
  sRemoveFromCurrentEpoch :: "'ms \<Rightarrow> bytes \<Rightarrow> trie_error + 'ms"
  sRemoveFromAllActiveEpochs :: "'ms \<Rightarrow> bytes \<Rightarrow> trie_error + 'ms"
  sGetLatestStorageEpoch :: "'ms \<Rightarrow> trie_error + u32"
  sGetFromOldEpochsWithoutAddingToCache :: "'ms \<Rightarrow> bytes \<Rightarrow> u32 \<Rightarrow> bytes \<times> u32 option \<times> trie_error option"
  sGetFromLastEpoch :: "'ms \<Rightarrow> bytes \<Rightarrow> trie_error + bytes"

record 'ms storer =
  sGet :: "'ms \<Rightarrow> bytes \<Rightarrow> bytes \<times> trie_error option"
  sPut :: "'ms \<Rightarrow> bytes \<Rightarrow> bytes \<Rightarrow> trie_error + 'ms"
  sRemove :: "'ms \<Rightarrow> bytes \<Rightarrow> trie_error + 'ms"
  sClose :: "'ms \<Rightarrow> 'ms \<times> trie_error option"
  sGetFromEpoch :: "'ms \<Rightarrow> bytes \<Rightarrow> u32 \<Rightarrow> bytes \<times> trie_error option"
  isClosingError :: "trie_error \<Rightarrow> bool"
  pruning :: "'ms pruning_ops option"

record 'ms trieStorageManager =
  mainStorer :: 'ms
  pruningBlockingOps :: u32
  closed :: bool

type_synonym 'ms tsm = "'ms trieStorageManager"

subsection \<open>Reading and writing\<close>

definition tsmGet :: "'ms storer \<Rightarrow> 'ms tsm \<Rightarrow> bytes \<Rightarrow> trie_error + bytes" where
  "tsmGet S tsm key =
     (if closed tsm then Inl ErrContextClosing
      else case sGet S (mainStorer tsm) key of (val, err) \<Rightarrow>
        (case err of
           Some e \<Rightarrow> if isClosingError S e then Inl e else if length val = 0 then Inl ErrKeyNotFound else Inr val
         | None \<Rightarrow> if length val = 0 then Inl ErrKeyNotFound else Inr val))"

definition liftStorer :: "'ms tsm \<Rightarrow> trie_error + 'ms \<Rightarrow> trie_error + 'ms tsm" where
  "liftStorer tsm r = (case r of Inl e \<Rightarrow> Inl e | Inr ms \<Rightarrow> Inr (tsm\<lparr>mainStorer := ms\<rparr>))"

definition tsmPut :: "'ms storer \<Rightarrow> bytes \<Rightarrow> bytes \<Rightarrow> 'ms tsm \<Rightarrow> trie_error + 'ms tsm" where
  "tsmPut S key val tsm =
     (if closed tsm then Inl ErrContextClosing else liftStorer tsm (sPut S (mainStorer tsm) key val))"

definition invalidStorer :: trie_error where
  "invalidStorer = ErrStorer ''invalid storer''"

definition GetFromCurrentEpoch :: "'ms storer \<Rightarrow> 'ms tsm \<Rightarrow> bytes \<Rightarrow> trie_error + bytes" where
  "GetFromCurrentEpoch S tsm key =
     (if closed tsm then Inl ErrContextClosing
      else case pruning S of None \<Rightarrow> Inl invalidStorer | Some P \<Rightarrow> sGetFromCurrentEpoch P (mainStorer tsm) key)"

definition PutInEpoch :: "'ms storer \<Rightarrow> bytes \<Rightarrow> bytes \<Rightarrow> u32 \<Rightarrow> 'ms tsm \<Rightarrow> trie_error + 'ms tsm" where
  "PutInEpoch S key val epoch tsm =
     (if closed tsm then Inl ErrContextClosing
      else case pruning S of
        None \<Rightarrow> Inl invalidStorer
      | Some P \<Rightarrow> liftStorer tsm (sPutInEpoch P (mainStorer tsm) key val epoch))"

definition PutInEpochWithoutCache :: "'ms storer \<Rightarrow> bytes \<Rightarrow> bytes \<Rightarrow> u32 \<Rightarrow> 'ms tsm \<Rightarrow> trie_error + 'ms tsm" where
  "PutInEpochWithoutCache S key val epoch tsm =
     (if closed tsm then Inl ErrContextClosing
      else case pruning S of
        None \<Rightarrow> Inl invalidStorer
      | Some P \<Rightarrow> liftStorer tsm (sPutInEpochWithoutCache P (mainStorer tsm) key val epoch))"

definition GetLatestStorageEpoch :: "'ms storer \<Rightarrow> 'ms tsm \<Rightarrow> trie_error + u32" where
  "GetLatestStorageEpoch S tsm = (case pruning S of
     None \<Rightarrow> Inl invalidStorer | Some P \<Rightarrow> sGetLatestStorageEpoch P (mainStorer tsm))"

definition Remove :: "'ms storer \<Rightarrow> bytes \<Rightarrow> 'ms tsm \<Rightarrow> trie_error + 'ms tsm" where
  "Remove S h tsm = (case pruning S of
     None \<Rightarrow> liftStorer tsm (sRemove S (mainStorer tsm) h)
   | Some P \<Rightarrow> liftStorer tsm (sRemoveFromCurrentEpoch P (mainStorer tsm) h))"

definition RemoveFromAllActiveEpochs :: "'ms storer \<Rightarrow> bytes \<Rightarrow> 'ms tsm \<Rightarrow> trie_error + 'ms tsm" where
  "RemoveFromAllActiveEpochs S h tsm = (case pruning S of
     None \<Rightarrow> Inl invalidStorer
   | Some P \<Rightarrow> liftStorer tsm (sRemoveFromAllActiveEpochs P (mainStorer tsm) h))"

definition tsmClose :: "'ms storer \<Rightarrow> 'ms tsm \<Rightarrow> 'ms tsm \<times> trie_error option" where
  "tsmClose S tsm = (let (ms, err) = sClose S (mainStorer tsm) in (tsm\<lparr>closed := True, mainStorer := ms\<rparr>, err))"

definition IsClosed :: "'ms tsm \<Rightarrow> bool" where
  "IsClosed tsm = closed tsm"

subsection \<open>Operations that block pruning\<close>

definition EnterPruningBufferingMode :: "'ms tsm \<Rightarrow> 'ms tsm" where
  "EnterPruningBufferingMode tsm = tsm\<lparr>pruningBlockingOps := pruningBlockingOps tsm + 1\<rparr>"

definition ExitPruningBufferingMode :: "'ms tsm \<Rightarrow> 'ms tsm" where
  "ExitPruningBufferingMode tsm =
     (if pruningBlockingOps tsm < 1 then tsm
      else tsm\<lparr>pruningBlockingOps := pruningBlockingOps tsm - 1\<rparr>)"

definition IsPruningBlocked :: "'ms tsm \<Rightarrow> bool" where
  "IsPruningBlocked tsm = (pruningBlockingOps tsm \<noteq> 0)"

subsection \<open>The manager at an epoch and during a snapshot\<close>

definition numEpochsToVerify :: nat where
  "numEpochsToVerify = 2"

fun inEpochLoop :: "'ms storer \<Rightarrow> 'ms \<Rightarrow> bytes \<Rightarrow> u32 \<Rightarrow> nat list \<Rightarrow> trie_error + bytes" where
  "inEpochLoop S ms key epoch [] = Inl ErrKeyNotFound"
| "inEpochLoop S ms key epoch (i # is) =
     (if of_nat i > epoch then Inl ErrKeyNotFound
      else let (val, err) = sGetFromEpoch S ms key (epoch - of_nat i) in
        if length val \<noteq> 0 then Inr val else inEpochLoop S ms key epoch is)"

definition inEpochGet :: "'ms storer \<Rightarrow> u32 \<Rightarrow> 'ms tsm \<Rightarrow> bytes \<Rightarrow> trie_error + bytes" where
  "inEpochGet S epoch tsm key =
     (if closed tsm then Inl ErrContextClosing
      else inEpochLoop S (mainStorer tsm) key epoch [0..<numEpochsToVerify])"

definition ActiveDBKey :: bytes where "ActiveDBKey = map of_char ''activeDB''"
definition TrieSyncedKey :: bytes where "TrieSyncedKey = map of_char ''synced''"
definition TrieSyncedVal :: bytes where "TrieSyncedVal = map of_char ''yes''"

definition putInPreviousStorerIfAbsent :: "'ms pruning_ops \<Rightarrow> u32 \<Rightarrow> bytes \<Rightarrow> bytes \<Rightarrow> u32 option \<Rightarrow> 'ms \<Rightarrow> 'ms" where
  "putInPreviousStorerIfAbsent P stsmEpoch key val epoch ms = (case epoch of
     None \<Rightarrow> ms
   | Some e \<Rightarrow>
       if stsmEpoch = 0 then ms
       else if e \<ge> stsmEpoch - 1 then ms
       else if key = ActiveDBKey \<or> key = TrieSyncedKey then ms
       else (case sPutInEpoch P ms key val (stsmEpoch - 1) of Inl _ \<Rightarrow> ms | Inr ms' \<Rightarrow> ms'))"

definition snapshotGet :: "'ms storer \<Rightarrow> 'ms pruning_ops \<Rightarrow> u32 \<Rightarrow> 'ms tsm \<Rightarrow> bytes \<Rightarrow> 'ms tsm \<times> (trie_error + bytes)" where
  "snapshotGet S P stsmEpoch tsm key =
     (if closed tsm then (tsm, Inl ErrContextClosing)
      else case sGetFromOldEpochsWithoutAddingToCache P (mainStorer tsm) key stsmEpoch of (val, epoch, err) \<Rightarrow>
        if pred_option (isClosingError S) err \<and> err \<noteq> None then (tsm, Inl (the err))
        else if length val = 0 then (tsm, Inl ErrKeyNotFound)
        else (tsm\<lparr>mainStorer := putInPreviousStorerIfAbsent P stsmEpoch key val epoch (mainStorer tsm)\<rparr>, Inr val))"

definition snapshotPut :: "'ms pruning_ops \<Rightarrow> u32 \<Rightarrow> bytes \<Rightarrow> bytes \<Rightarrow> 'ms tsm \<Rightarrow> trie_error + 'ms tsm" where
  "snapshotPut P stsmEpoch key data tsm =
     (if closed tsm then Inl ErrContextClosing
      else liftStorer tsm (sPutInEpochWithoutCache P (mainStorer tsm) key data stsmEpoch))"

definition GetFromLastEpoch :: "'ms pruning_ops \<Rightarrow> 'ms tsm \<Rightarrow> bytes \<Rightarrow> trie_error + bytes" where
  "GetFromLastEpoch P tsm key =
     (if closed tsm then Inl ErrContextClosing else sGetFromLastEpoch P (mainStorer tsm) key)"

definition isTrieSynced :: "'ms storer \<Rightarrow> 'ms tsm \<Rightarrow> bool" where
  "isTrieSynced S tsm = (case GetFromCurrentEpoch S tsm TrieSyncedKey of
     Inl _ \<Rightarrow> False | Inr val \<Rightarrow> val = TrieSyncedVal)"

definition ShouldTakeSnapshot :: "'ms storer \<Rightarrow> 'ms tsm \<Rightarrow> bool" where
  "ShouldTakeSnapshot S tsm = (case pruning S of None \<Rightarrow> False | Some _ \<Rightarrow> \<not> isTrieSynced S tsm)"

text \<open>\<open>trieStorageManagerWithoutPruning\<close> replaces \<open>Remove\<close>.\<close>

definition removeWithoutPruning :: "bytes \<Rightarrow> 'ms tsm \<Rightarrow> trie_error + 'ms tsm" where
  "removeWithoutPruning h tsm = Inr tsm"

subsection \<open>The manager as the trie's storer\<close>

text \<open>A storer that is working: a put succeeds, and a read returns what was put last.\<close>

definition main_storer_laws :: "'ms storer \<Rightarrow> ('ms \<Rightarrow> bool) \<Rightarrow> bool" where
  "main_storer_laws S working \<longleftrightarrow>
     (\<forall>ms k v. working ms \<longrightarrow>
        (\<exists>ms'. sPut S ms k v = Inr ms' \<and> working ms' \<and> sGet S ms' k = (v, None) \<and>
           (\<forall>k'. k' \<noteq> k \<longrightarrow> sGet S ms' k' = sGet S ms k')))"

definition tsmAccepting :: "('ms \<Rightarrow> bool) \<Rightarrow> 'ms tsm \<Rightarrow> bool" where
  "tsmAccepting working tsm \<longleftrightarrow> \<not> closed tsm \<and> working (mainStorer tsm)"

lemma tsm_storer:
  assumes "main_storer_laws S working"
  shows "storer_laws (tsmGet S) (tsmPut S) (tsmAccepting working)"
  unfolding storer_laws_def
proof (intro allI impI)
  fix tsm :: "'a tsm" and k v :: bytes assume a: "tsmAccepting working tsm" "v \<noteq> []"
  then obtain ms' where ms': "sPut S (mainStorer tsm) k v = Inr ms'" "working ms'" "sGet S ms' k = (v, None)"
    "\<forall>k'. k' \<noteq> k \<longrightarrow> sGet S ms' k' = sGet S (mainStorer tsm) k'"
    using assms unfolding main_storer_laws_def tsmAccepting_def by blast
  with a show "\<exists>db'. tsmPut S k v tsm = Inr db' \<and> tsmAccepting working db' \<and> tsmGet S db' k = Inr v \<and>
      (\<forall>k'. k' \<noteq> k \<longrightarrow> tsmGet S db' k' = tsmGet S tsm k')"
    by (auto simp: tsmPut_def tsmGet_def tsmAccepting_def liftStorer_def)
qed

text \<open>A storer in memory, for concrete runs.\<close>

definition memStorer :: "(bytes \<rightharpoonup> bytes) storer" where
  "memStorer = \<lparr>
     sGet = (\<lambda>m k. case m k of None \<Rightarrow> ([], Some ErrKeyNotFound) | Some v \<Rightarrow> (v, None)),
     sPut = (\<lambda>m k v. Inr (m(k \<mapsto> v))),
     sRemove = (\<lambda>m k. Inr (m(k := None))),
     sClose = (\<lambda>m. (m, None)),
     sGetFromEpoch = (\<lambda>m k e. case m k of None \<Rightarrow> ([], Some ErrKeyNotFound) | Some v \<Rightarrow> (v, None)),
     isClosingError = (\<lambda>e. e = ErrContextClosing),
     pruning = None\<rparr>"

lemma memStorer_laws: "main_storer_laws memStorer (\<lambda>_. True)"
  by (simp add: main_storer_laws_def memStorer_def)

definition memManager :: "(bytes \<rightharpoonup> bytes) tsm" where
  "memManager = \<lparr>mainStorer = Map.empty, pruningBlockingOps = 0, closed = False\<rparr>"



subsection \<open>The counter of operations that block pruning\<close>

datatype pruning_op = EnterOp | ExitOp

fun pruningStep :: "pruning_op \<Rightarrow> 'ms tsm \<Rightarrow> 'ms tsm" where
  "pruningStep EnterOp = EnterPruningBufferingMode"
| "pruningStep ExitOp = ExitPruningBufferingMode"

text \<open>Operations in progress: an exit without a matching enter is ignored.\<close>

fun inProgress :: "pruning_op list \<Rightarrow> nat" where
  "inProgress [] = 0"
| "inProgress (EnterOp # ops) = Suc (inProgress ops)"
| "inProgress (ExitOp # ops) = inProgress ops - 1"

lemma inProgress_le: "inProgress ops \<le> length ops"
  by (induction ops rule: inProgress.induct) auto

lemma unat_u32_Suc: "unat (x :: u32) + 1 < 2 ^ 32 \<Longrightarrow> unat (x + 1) = Suc (unat x)"
  by (simp add: unat_word_ariths(1))

lemma unat_u32_pred: "\<not> (x :: u32) < 1 \<Longrightarrow> unat (x - 1) = unat x - 1"
  by (simp add: unat_sub_if_size word_less_nat_alt word_le_nat_alt)

text \<open>C7. The counter of blocking operations is exact while fewer than \<open>2 ^ 32\<close> calls were made: after
  any sequence of enters and exits (latest first) from a fresh manager, pruning is blocked exactly
  when an operation is in progress.\<close>

theorem pruning_counter_exact:
  assumes "pruningBlockingOps tsm = 0" "length ops < 2 ^ 32"
  shows "unat (pruningBlockingOps (foldr pruningStep ops tsm)) = inProgress ops \<and>
    (IsPruningBlocked (foldr pruningStep ops tsm) \<longleftrightarrow> inProgress ops > 0)"
proof -
  have "unat (pruningBlockingOps (foldr pruningStep ops tsm)) = inProgress ops"
    using assms(2)
  proof (induction ops)
    case (Cons op ops)
    then have IH: "unat (pruningBlockingOps (foldr pruningStep ops tsm)) = inProgress ops" by simp
    have "inProgress ops + 1 < 2 ^ 32" using inProgress_le [of ops] Cons.prems by simp
    with IH show ?case
      by (cases op) (auto simp: EnterPruningBufferingMode_def ExitPruningBufferingMode_def unat_u32_Suc
          unat_u32_pred word_less_nat_alt)
  qed (simp add: assms(1))
  then show ?thesis by (auto simp: IsPruningBlocked_def unat_eq_0 [symmetric])
qed

theorem pruning_counter_exact_witness:
  "unat (pruningBlockingOps (foldr pruningStep [ExitOp, EnterOp, EnterOp, ExitOp] memManager)) = 1 \<and>
    (IsPruningBlocked (foldr pruningStep [ExitOp, EnterOp, EnterOp, ExitOp] memManager) \<longleftrightarrow> (1 :: nat) > 0)"
  using pruning_counter_exact [of memManager "[ExitOp, EnterOp, EnterOp, ExitOp]"]
  by (simp add: memManager_def)

end
