(* ===== verification/Trie_Theorems.thy ===== *)
theory Trie_Theorems
  imports Trie_Main Trie_Storage
begin

text \<open>
  The trie's guarantees, stated for the generated codec and any hash function that never returns an
  empty hash: lookups return the last value written, updates and deletions act on one key only, the
  root hash is a function of the content, a commit followed by a recreation from the root hash
  gives the content back, and obsolete hashes belong to nodes of the old trie.
\<close>

abbreviation nonempty_hash :: "(bytes \<Rightarrow> bytes) \<Rightarrow> bool" where
  "nonempty_hash H \<equiv> (\<forall>x. H x \<noteq> [])"

lemma hasher_ok_gogo [simp]: "hasher_ok (gogo_deps H) \<longleftrightarrow> nonempty_hash H"
  by (simp add: hasher_ok_def gogo_deps_def)

lemma keyBytesToHex_eq [simp]: "keyBytesToHex a = keyBytesToHex b \<longleftrightarrow> a = b"
  using keyBytesToHex_inj by (auto dest: injD)

lemma tput_eq: "tput old (v, w) = pput old v w"
  by (simp add: tput_def)

subsection \<open>Operations on the content\<close>

lemma content_tinsert:
  assumes "twf to" "contentOf to m" "val \<noteq> []"
  shows "contentOf (tinsert to (keyBytesToHex key) (val, w)) (m(key \<mapsto> pput (m key) val w))"
  using ptrie.lookup_update [OF assms(1) hex_key_keyBytesToHex, of "(val, w)" key] assms
  by (auto simp: contentOf_def tput_eq split: if_splits)

lemma content_tdelete:
  assumes "twf to" "contentOf to m"
  shows "contentOf (tdelete to (keyBytesToHex key)) (m(key := None))"
  using ptrie.lookup_delete [OF assms(1) hex_key_keyBytesToHex, of key] assms
  by (auto simp: contentOf_def split: if_splits)

lemma tinv_twf: "tinv D get to tr \<Longrightarrow> twf to"
  by (simp add: tinv_def)

lemma holds_update:
  assumes "holds (gogo_deps H) get m tr" "nonempty_hash H" "val \<noteq> []"
  shows "\<exists>tr'. update (gogo_deps H) get tr key val w = (tr', None) \<and>
    holds (gogo_deps H) get (m(key \<mapsto> pput (m key) val w)) tr'"
proof -
  obtain "to" where t: "tinv (gogo_deps H) get to tr" "contentOf to m" using assms(1) by (auto simp: holds_def)
  obtain tr' where "update (gogo_deps H) get tr key val w = (tr', None)"
    "tinv (gogo_deps H) get (tinsert to (keyBytesToHex key) (val, w)) tr'"
    using gogo.update_tinv [OF t(1) _ assms(3)] assms(2) by (metis hasher_ok_gogo)
  with content_tinsert [OF tinv_twf [OF t(1)] t(2) assms(3)] show ?thesis by (auto simp: holds_def)
qed

lemma holds_delete:
  assumes "holds (gogo_deps H) get m tr" "nonempty_hash H"
  shows "\<exists>tr'. deleteHex (gogo_deps H) get tr (keyBytesToHex key) = (tr', None) \<and>
    holds (gogo_deps H) get (m(key := None)) tr'"
proof -
  obtain "to" where t: "tinv (gogo_deps H) get to tr" "contentOf to m" using assms(1) by (auto simp: holds_def)
  obtain tr' where "deleteHex (gogo_deps H) get tr (keyBytesToHex key) = (tr', None)"
    "tinv (gogo_deps H) get (tdelete to (keyBytesToHex key)) tr'"
    using gogo.deleteHex_tinv [OF t(1) _ hex_key_keyBytesToHex] assms(2) by (metis hasher_ok_gogo)
  with content_tdelete [OF tinv_twf [OF t(1)] t(2)] show ?thesis by (auto simp: holds_def)
qed

lemma holds_get:
  assumes "holds (gogo_deps H) get m tr" "nonempty_hash H"
  shows "\<exists>tr' d. Get (gogo_deps H) get tr key = (tr', Inr (map_option fst (m key)), d) \<and>
    holds (gogo_deps H) get m tr'"
proof -
  obtain "to" where t: "tinv (gogo_deps H) get to tr" "contentOf to m" using assms(1) by (auto simp: holds_def)
  obtain tr' d where "Get (gogo_deps H) get tr key = (tr', Inr (map_option fst (olookup to (keyBytesToHex key))), d)"
    "tinv (gogo_deps H) get to tr'" using gogo.Get_tinv [OF t(1)] assms(2) by (metis hasher_ok_gogo)
  with t(2) show ?thesis by (auto simp: holds_def contentOf_def)
qed

lemma holds_rootHash:
  assumes "holds (gogo_deps H) get m tr" "nonempty_hash H"
  shows "\<exists>tr' h. getRootHash (gogo_deps H) tr = (tr', Inr h) \<and> holds (gogo_deps H) get m tr'"
proof -
  obtain "to" where t: "tinv (gogo_deps H) get to tr" "contentOf to m" using assms(1) by (auto simp: holds_def)
  obtain tr' h where "getRootHash (gogo_deps H) tr = (tr', Inr h)" "tinv (gogo_deps H) get to tr'"
    using gogo.getRootHash_tinv [OF t(1)] assms(2) by (metis hasher_ok_gogo)
  with t(2) show ?thesis by (auto simp: holds_def)
qed

lemma holds_value:
  assumes "holds D get m tr" "m key = Some (v, w)"
  shows "v \<noteq> []"
proof -
  obtain "to" where "twf to" "olookup to (keyBytesToHex key) = Some (v, w)"
    using assms by (auto simp: holds_def tinv_def contentOf_def)
  then show ?thesis by (rule olookup_value)
qed

text \<open>The empty trie holds nothing; used to build concrete tries.\<close>

definition emptyTrie :: patriciaMerkleTrie where
  "emptyTrie = \<lparr>root = None, oldHashes = [], oldRoot = [], maxTrieLevelInMemory = 5\<rparr>"

lemma holds_empty: "root tr = None \<Longrightarrow> holds D get Map.empty tr"
  by (auto simp: holds_def contentOf_def intro!: exI [of _ None])

lemma holds_emptyTrie [simp]: "holds D get Map.empty emptyTrie"
  by (rule holds_empty) (simp add: emptyTrie_def)

lemma holds_oneLeaf:
  assumes "root tr = Some (newLeafNode \<lparr>Key = keyBytesToHex key, Value = Some val, Version = w\<rparr>)" "val \<noteq> []"
  shows "holds D get [key \<mapsto> (val, w)] tr"
  unfolding holds_def
  by (intro exI [of _ "Some (PLeaf (keyBytesToHex key) val w)"])
    (use assms rep_newLeafNode [of D get "keyBytesToHex key" val w] in
      \<open>auto simp: contentOf_def tinv_Some hex_key_keyBytesToHex split: if_splits\<close>)

definition oneLeafTrie :: patriciaMerkleTrie where
  "oneLeafTrie = emptyTrie\<lparr>root :=
     Some (newLeafNode \<lparr>Key = keyBytesToHex [7], Value = Some [9], Version = 1\<rparr>)\<rparr>"

lemma holds_oneLeafTrie [simp]: "holds D get [[7] \<mapsto> ([9], 1)] oneLeafTrie"
  by (rule holds_oneLeaf) (simp_all add: oneLeafTrie_def)

definition noStore :: getter where
  "noStore k = Inl ErrKeyNotFound"

text \<open>C1. \<open>Get\<close> on a trie with a given content returns, without an error and whatever is collapsed to
  storage, the value the content has at the key, and leaves a trie with the same content.\<close>

theorem trie_get_content:
  assumes "holds (gogo_deps H) get m tr" "nonempty_hash H"
  shows "\<exists>tr' d. Get (gogo_deps H) get tr key = (tr', Inr (map_option fst (m key)), d) \<and>
    holds (gogo_deps H) get m tr'"
  using assms by (rule holds_get)

theorem trie_get_content_witness:
  "\<exists>tr' d. Get (gogo_deps (\<lambda>x. 1 # x)) noStore oneLeafTrie [7] = (tr', Inr (Some [9]), d) \<and>
    holds (gogo_deps (\<lambda>x. 1 # x)) noStore [[7] \<mapsto> ([9], 1)] tr'"
  using trie_get_content [of "\<lambda>x. 1 # x" noStore "[[7] \<mapsto> ([9], 1)]" oneLeafTrie "[7]"] by simp



text \<open>C3. Deleting a key, by \<open>Delete\<close> or by an update with an empty value, succeeds and removes that
  key only, whether or not it was there.\<close>

theorem trie_delete_content:
  assumes "holds (gogo_deps H) get m tr" "nonempty_hash H"
  shows "\<exists>tr'. Delete (gogo_deps H) get tr key = (tr', None) \<and> Update (gogo_deps H) get tr key [] = (tr', None) \<and>
    holds (gogo_deps H) get (m(key := None)) tr'"
  using holds_delete [OF assms, of key] by (auto simp: Delete_def Update_def update_def Let_def)

theorem trie_delete_content_witness:
  "\<exists>tr'. Delete (gogo_deps (\<lambda>x. 1 # x)) noStore oneLeafTrie [7] = (tr', None) \<and>
    Update (gogo_deps (\<lambda>x. 1 # x)) noStore oneLeafTrie [7] [] = (tr', None) \<and>
    holds (gogo_deps (\<lambda>x. 1 # x)) noStore Map.empty tr'"
  using trie_delete_content [of "\<lambda>x. 1 # x" noStore "[[7] \<mapsto> ([9], 1)]" oneLeafTrie "[7]"] by simp

subsection \<open>The root hash is a function of the content\<close>

lemma content_unique:
  assumes "twf to" "twf to'" "contentOf to m" "contentOf to' m"
  shows "to = to'"
proof (rule ptrie.canonical [OF assms(1,2)], rule ext)
  fix k
  show "olookup to k = olookup to' k"
  proof (cases "k \<in> range keyBytesToHex")
    case False
    then have "olookup to k = None" "olookup to' k = None" using assms(3,4) unfolding contentOf_def by blast+
    then show ?thesis by simp
  qed (use assms(3,4) in \<open>auto simp: contentOf_def\<close>)
qed

lemma same_content_same_root:
  assumes "holds (gogo_deps H) get m tr" "holds (gogo_deps H) get' m tr'" "nonempty_hash H"
  shows "\<exists>h. snd (getRootHash (gogo_deps H) tr) = Inr h \<and> snd (getRootHash (gogo_deps H) tr') = Inr h"
proof -
  obtain "to" where t: "tinv (gogo_deps H) get to tr" "contentOf to m" using assms(1) by (auto simp: holds_def)
  obtain to' where t': "tinv (gogo_deps H) get' to' tr'" "contentOf to' m" using assms(2) by (auto simp: holds_def)
  have "to = to'" using content_unique [OF tinv_twf [OF t(1)] tinv_twf [OF t'(1)] t(2) t'(2)] .
  moreover obtain tr1 tr1' where
    "getRootHash (gogo_deps H) tr = (tr1, Inr (case to of None \<Rightarrow> EmptyTrieHash | Some t \<Rightarrow> phash (gogo_deps H) t))"
    "getRootHash (gogo_deps H) tr' = (tr1', Inr (case to' of None \<Rightarrow> EmptyTrieHash | Some t \<Rightarrow> phash (gogo_deps H) t))"
    using gogo.getRootHash_tinv [OF t(1)] gogo.getRootHash_tinv [OF t'(1)] assms(3) by (metis hasher_ok_gogo)
  ultimately show ?thesis by simp
qed

text \<open>C4. Two tries with the same content, however they came to it and however much of them is
  collapsed to storage, have the same root hash.\<close>

theorem root_hash_of_content:
  assumes "holds (gogo_deps H) get m tr" "holds (gogo_deps H) get' m tr'" "nonempty_hash H"
  shows "\<exists>h. snd (getRootHash (gogo_deps H) tr) = Inr h \<and> snd (getRootHash (gogo_deps H) tr') = Inr h"
  using assms by (rule same_content_same_root)

theorem root_hash_of_content_witness:
  "\<exists>h. snd (getRootHash (gogo_deps (\<lambda>x. 1 # x)) emptyTrie) = Inr h \<and>
    snd (getRootHash (gogo_deps (\<lambda>x. 1 # x)) (emptyTrie\<lparr>oldRoot := [3]\<rparr>)) = Inr h"
proof (rule root_hash_of_content)
  show "holds (gogo_deps (\<lambda>x. 1 # x)) noStore Map.empty emptyTrie" by simp
  show "holds (gogo_deps (\<lambda>x. 1 # x)) noStore Map.empty (emptyTrie\<lparr>oldRoot := [3]\<rparr>)"
    by (rule holds_empty) (simp add: emptyTrie_def)
qed simp

text \<open>A batch of updates, in order.\<close>

fun updateAll :: "deps \<Rightarrow> getter \<Rightarrow> patriciaMerkleTrie \<Rightarrow> (bytes \<times> bytes \<times> version) list \<Rightarrow>
    patriciaMerkleTrie \<times> trie_error option" where
  "updateAll D get tr [] = (tr, None)"
| "updateAll D get tr ((key, val, w) # kvs) = (case update D get tr key val w of
     (tr', Some e) \<Rightarrow> (tr', Some e)
   | (tr', None) \<Rightarrow> updateAll D get tr' kvs)"

lemma updateAll_content:
  assumes "holds (gogo_deps H) get m tr" "nonempty_hash H" "\<forall>(k, v, w) \<in> set kvs. v \<noteq> []" "distinct (map fst kvs)"
  shows "\<exists>tr'. updateAll (gogo_deps H) get tr kvs = (tr', None) \<and>
    holds (gogo_deps H) get (\<lambda>k. case map_of kvs k of None \<Rightarrow> m k | Some (v, w) \<Rightarrow> Some (pput (m k) v w)) tr'"
  using assms
proof (induction kvs arbitrary: tr m)
  case (Cons kv kvs)
  obtain k v w where kv: "kv = (k, v, w)" by (cases kv)
  with Cons.prems have "v \<noteq> []" by auto
  then obtain tr1 where tr1: "update (gogo_deps H) get tr k v w = (tr1, None)"
    "holds (gogo_deps H) get (m(k \<mapsto> pput (m k) v w)) tr1"
    using holds_update [OF Cons.prems(1,2)] by blast
  from kv Cons.prems(4) have "map_of kvs k = None" by (simp add: map_of_eq_None_iff)
  then have "(\<lambda>k'. case map_of kvs k' of None \<Rightarrow> (m(k \<mapsto> pput (m k) v w)) k'
        | Some (v', w') \<Rightarrow> Some (pput ((m(k \<mapsto> pput (m k) v w)) k') v' w')) =
      (\<lambda>k'. case map_of (kv # kvs) k' of None \<Rightarrow> m k' | Some (v', w') \<Rightarrow> Some (pput (m k') v' w'))"
    by (auto simp: kv fun_eq_iff split: option.split)
  with Cons.IH [OF tr1(2) Cons.prems(2)] Cons.prems(3,4) kv tr1(1) show ?case by auto
qed simp

text \<open>C5. Writing a batch of distinct keys succeeds, and the root hash after it does not depend on the
  order in which the batch was written.\<close>

theorem root_hash_order_independent:
  assumes "holds (gogo_deps H) get m tr" "nonempty_hash H" "\<forall>(k, v, w) \<in> set xs. v \<noteq> []" "distinct (map fst xs)"
    "mset xs = mset ys"
  shows "\<exists>tr1 tr2 h. updateAll (gogo_deps H) get tr xs = (tr1, None) \<and> updateAll (gogo_deps H) get tr ys = (tr2, None) \<and>
    snd (getRootHash (gogo_deps H) tr1) = Inr h \<and> snd (getRootHash (gogo_deps H) tr2) = Inr h"
proof -
  have same: "set xs = set ys" "distinct (map fst ys)"
    using assms(4,5) by (metis mset_eq_setD, metis mset_eq_imp_distinct_iff mset_map)
  then have eq: "map_of xs = map_of ys" using assms(4) by (simp add: map_of_inject_set)
  let ?m = "\<lambda>k. case map_of ys k of None \<Rightarrow> m k | Some (v, w) \<Rightarrow> Some (pput (m k) v w)"
  obtain tr1 where tr1: "updateAll (gogo_deps H) get tr xs = (tr1, None)" "holds (gogo_deps H) get ?m tr1"
    using updateAll_content [OF assms(1-4)] unfolding eq by blast
  obtain tr2 where tr2: "updateAll (gogo_deps H) get tr ys = (tr2, None)" "holds (gogo_deps H) get ?m tr2"
    using updateAll_content [OF assms(1,2) _ same(2)] assms(3) unfolding same(1) by blast
  obtain h where "snd (getRootHash (gogo_deps H) tr1) = Inr h" "snd (getRootHash (gogo_deps H) tr2) = Inr h"
    using same_content_same_root [OF tr1(2) tr2(2) assms(2)] by blast
  with tr1(1) tr2(1) show ?thesis by blast
qed

theorem root_hash_order_independent_witness:
  "\<exists>tr1 tr2 h. updateAll (gogo_deps (\<lambda>x. 1 # x)) noStore emptyTrie [([1], [2], 0), ([3], [4], 0)] = (tr1, None) \<and>
    updateAll (gogo_deps (\<lambda>x. 1 # x)) noStore emptyTrie [([3], [4], 0), ([1], [2], 0)] = (tr2, None) \<and>
    snd (getRootHash (gogo_deps (\<lambda>x. 1 # x)) tr1) = Inr h \<and> snd (getRootHash (gogo_deps (\<lambda>x. 1 # x)) tr2) = Inr h"
  by (rule root_hash_order_independent [where m = Map.empty]) simp_all

subsection \<open>Durability\<close>

text \<open>C8. \<open>Commit\<close> on an open storage manager over a working storer succeeds when the hash function
  does not collide on the trie's nodes: the trie keeps its content and its root hash, a trie
  recreated from that hash in any later state of the storage that keeps its entries has the same
  content, and nothing that was in storage before is changed.\<close>

theorem commit_then_recreate:
  assumes "main_storer_laws S working" "working (mainStorer tsm)" "\<not> closed tsm" "nonempty_hash H"
    "tinv (gogo_deps H) (tsmGet S tsm) (Some t) tr" "contentOf (Some t) m"
    "fresh_keys (gogo_deps H) (psubs t) (tsmGet S tsm)" "phash (gogo_deps H) t \<noteq> EmptyTrieHash"
  shows "\<exists>tr' tsm' h. Commit (gogo_deps H) (tsmPut S) tr tsm = (tr', tsm', None) \<and>
    holds (gogo_deps H) (tsmGet S tsm') m tr' \<and> extends (tsmGet S tsm) (tsmGet S tsm') \<and>
    snd (getRootHash (gogo_deps H) tr') = Inr h \<and>
    (\<forall>get tr0. extends (tsmGet S tsm') get \<longrightarrow>
       (\<exists>tr2. recreate (gogo_deps H) get tr0 h = Inr tr2 \<and> holds (gogo_deps H) get m tr2))"
proof -
  let ?D = "gogo_deps H"
  have ok: "hasher_ok ?D" "tsmAccepting working tsm" "pwf t"
    using assms by (auto simp: tsmAccepting_def tinv_Some)
  obtain tr' tsm' where c: "Commit ?D (tsmPut S) tr tsm = (tr', tsm', None)" "tinv ?D (tsmGet S tsm') (Some t) tr'"
    "extends (tsmGet S tsm) (tsmGet S tsm')" "pstored ?D (tsmGet S tsm') t"
    using gogo.Commit_tinv [OF assms(5) ok(1) tsm_storer [OF assms(1)] ok(2)] assms(7) by blast
  obtain tr1 where "getRootHash ?D tr' = (tr1, Inr (phash ?D t))"
    using gogo.getRootHash_tinv [OF c(2) ok(1)] by auto
  moreover have "\<exists>tr2. recreate ?D get tr0 (phash ?D t) = Inr tr2 \<and> holds ?D get m tr2"
    if "extends (tsmGet S tsm') get" for get tr0
    using gogo.recreate_stored [OF pstored_extends [OF c(4) that] ok(3,1) assms(8)] assms(6)
    unfolding holds_def by metis
  ultimately show ?thesis using c assms(6) unfolding holds_def by (metis snd_conv)
qed

lemma length_oneLeaf: "length (MarshalLn (leafMsg (keyBytesToHex [7]) [9] 1)) = 10"
  by code_simp

lemma fresh_oneLeaf:
  "fresh_keys (gogo_deps (\<lambda>x. 1 # x)) (psubs (PLeaf (keyBytesToHex [7]) [9] 1)) (tsmGet memStorer memManager)"
  by (simp add: fresh_keys_def tsmGet_def memStorer_def memManager_def gogo_deps_def length_oneLeaf)

theorem commit_then_recreate_witness:
  "\<exists>tr' tsm' h. Commit (gogo_deps (\<lambda>x. 1 # x)) (tsmPut memStorer) oneLeafTrie memManager = (tr', tsm', None) \<and>
    holds (gogo_deps (\<lambda>x. 1 # x)) (tsmGet memStorer tsm') [[7] \<mapsto> ([9], 1)] tr' \<and>
    extends (tsmGet memStorer memManager) (tsmGet memStorer tsm') \<and>
    snd (getRootHash (gogo_deps (\<lambda>x. 1 # x)) tr') = Inr h \<and>
    (\<forall>get tr0. extends (tsmGet memStorer tsm') get \<longrightarrow>
       (\<exists>tr2. recreate (gogo_deps (\<lambda>x. 1 # x)) get tr0 h = Inr tr2 \<and>
         holds (gogo_deps (\<lambda>x. 1 # x)) get [[7] \<mapsto> ([9], 1)] tr2))"
proof (rule commit_then_recreate [OF memStorer_laws])
  show "tinv (gogo_deps (\<lambda>x. 1 # x)) (tsmGet memStorer memManager) (Some (PLeaf (keyBytesToHex [7]) [9] 1)) oneLeafTrie"
    by (simp add: tinv_Some oneLeafTrie_def hex_key_keyBytesToHex rep_newLeafNode)
  show "contentOf (Some (PLeaf (keyBytesToHex [7]) [9] 1)) [[7] \<mapsto> ([9], 1)]"
    by (auto simp: contentOf_def)
  show "phash (gogo_deps (\<lambda>x. 1 # x)) (PLeaf (keyBytesToHex [7]) [9] 1) \<noteq> EmptyTrieHash"
    by (simp add: phash_def gogo_deps_def EmptyTrieHash_def numeral_eq_Suc)
  show "\<not> closed memManager" by (simp add: memManager_def)
qed (simp_all only: fresh_oneLeaf, simp_all)

subsection \<open>Obsolete hashes\<close>

text \<open>C11. The hashes an update or deletion adds to the obsolete ones are hashes of nodes of the trie as
  it was before: nothing else is ever reported for pruning.\<close>

theorem obsolete_hashes_of_old_nodes:
  assumes "tinv (gogo_deps H) get (Some t) tr" "nonempty_hash H"
  shows "\<exists>tr' hs. UpdateWithVersion (gogo_deps H) get tr key val w = (tr', None) \<and>
    GetObsoleteHashes tr' = GetObsoleteHashes tr @ hs \<and> set hs \<subseteq> phash (gogo_deps H) ` psubs t"
proof (cases "val = []")
  case True
  obtain tr' hs where "deleteHex (gogo_deps H) get tr (keyBytesToHex key) = (tr', None)"
    "oldHashes tr' = oldHashes tr @ hs" "set hs \<subseteq> (\<Union>u \<in> set_option (Some t). phash (gogo_deps H) ` psubs u)"
    using gogo.deleteHex_tinv [OF assms(1) _ hex_key_keyBytesToHex] assms(2) by (metis hasher_ok_gogo)
  with True show ?thesis by (auto simp: UpdateWithVersion_def update_def GetObsoleteHashes_def Let_def)
next
  case False
  obtain tr' hs where "update (gogo_deps H) get tr key val w = (tr', None)"
    "oldHashes tr' = oldHashes tr @ hs" "set hs \<subseteq> (\<Union>u \<in> set_option (Some t). phash (gogo_deps H) ` psubs u)"
    using gogo.update_tinv [OF assms(1) _ False] assms(2) by (metis hasher_ok_gogo)
  then show ?thesis by (auto simp: UpdateWithVersion_def GetObsoleteHashes_def)
qed

theorem obsolete_hashes_of_old_nodes_witness:
  "\<exists>tr' hs. UpdateWithVersion (gogo_deps (\<lambda>x. 1 # x)) noStore oneLeafTrie [8] [5] 0 = (tr', None) \<and>
    GetObsoleteHashes tr' = GetObsoleteHashes oneLeafTrie @ hs \<and>
    set hs \<subseteq> phash (gogo_deps (\<lambda>x. 1 # x)) ` psubs (PLeaf (keyBytesToHex [7]) [9] 1)"
  by (rule obsolete_hashes_of_old_nodes)
    (simp_all add: tinv_Some oneLeafTrie_def hex_key_keyBytesToHex rep_newLeafNode)

subsection \<open>Encoding\<close>

text \<open>What survives of a node in its encoding: its message.\<close>

fun collapsedCopy :: "node \<Rightarrow> node" where
  "collapsedCopy (LeafNode l b) = LeafNode l \<lparr>hash = None, dirty = False\<rparr>"
| "collapsedCopy (ExtensionNode e c b) = ExtensionNode e None \<lparr>hash = None, dirty = False\<rparr>"
| "collapsedCopy (BranchNode m cs b) = BranchNode m (replicate nrOfChildren None) \<lparr>hash = None, dirty = False\<rparr>"

text \<open>C12. Encoding a node and decoding the result gives the node back with its children collapsed,
  no cached hash and a clear dirty flag, for every node that can be encoded (a leaf's value must not
  be the empty slice, which the codec does not distinguish from nil).\<close>

theorem decode_encode_node:
  assumes "getEncodedNode (gogo_deps H) n = Inr enc" "length enc < 2 ^ 63" "\<forall>l b. n = LeafNode l b \<longrightarrow> LnValue l \<noteq> Some []"
  shows "decodeNode (gogo_deps H) enc = Inr (collapsedCopy n)"
  using assms
  by (cases n)
    (auto simp: getEncodedNode_def decodeNode_def gogo_deps_def leaf_def branch_def extension_def Let_def
      UnmarshalLn_MarshalLn UnmarshalEn_MarshalEn UnmarshalBn_MarshalBn split: option.splits)

theorem decode_encode_node_witness:
  "decodeNode (gogo_deps (\<lambda>x. 1 # x)) (MarshalLn (leafMsg [1, 16] [9] 1) @ [leaf]) =
    Inr (LeafNode (leafMsg [1, 16] [9] 1) \<lparr>hash = None, dirty = False\<rparr>)"
proof -
  have len: "length (MarshalLn (leafMsg [1, 16] [9] 1) @ [leaf]) = 10" by code_simp
  have "getEncodedNode (gogo_deps (\<lambda>x. 1 # x)) (LeafNode (leafMsg [1, 16] [9] 1) newBase) =
      Inr (MarshalLn (leafMsg [1, 16] [9] 1) @ [leaf])"
    by (simp add: getEncodedNode_def gogo_deps_def)
  then show ?thesis
    using decode_encode_node [of "\<lambda>x. 1 # x" "LeafNode (leafMsg [1, 16] [9] 1) newBase"] len by simp
qed

subsection \<open>A deletion that fails half way\<close>

text \<open>A branch with a leaf at position 0 and a collapsed child at position 1 that storage does not have.\<close>

definition halfMissing :: node where
  "halfMissing = BranchNode
     \<lparr>EncodedChildren = (replicate nrOfChildren [])[1 := [5]], ChildrenVersion = []\<rparr>
     ((replicate nrOfChildren None)[0 := Some (newLeafNode \<lparr>Key = [16], Value = Some [9], Version = 0\<rparr>)])
     \<lparr>hash = Some [3], dirty = False\<rparr>"


end
