(* ===== verification/Trie_Provider.thy ===== *)
theory Trie_Provider
  imports Trie_Interface Trie_Theorems
begin

text \<open>
  \<open>pmtOps\<close> gives the operations of the Patricia-Merkle trie over its storage manager, for which the laws of
  \<open>trie_laws\<close> hold whenever no hash is empty. \<open>GetAllHashes\<close>, which only the account state uses, is modelled here.
\<close>

subsection \<open>All hashes of a trie\<close>

fun branchAllHashes :: "(node \<Rightarrow> node \<times> (trie_error + bytes list)) \<Rightarrow> deps \<Rightarrow> getter \<Rightarrow> nat list \<Rightarrow> node \<Rightarrow> bytes list \<Rightarrow>
    node \<times> (trie_error + bytes list)" where
  "branchAllHashes rec D get [] n hs = (n, Inr (hs @ [slice (getHash n)]))"
| "branchAllHashes rec D get (i # is) n hs = (case resolveIfCollapsed D get n i of
     Inl e \<Rightarrow> (n, Inl e)
   | Inr n' \<Rightarrow> (case childAt n' i of
       None \<Rightarrow> branchAllHashes rec D get is n' hs
     | Some c \<Rightarrow> (case rec c of
         (c', Inl e) \<Rightarrow> (setChildAt n' i (Some c'), Inl e)
       | (c', Inr chs) \<Rightarrow> branchAllHashes rec D get is (setChildAt n' i (Some c')) (hs @ chs))))"

definition extAllHashes :: "(node \<Rightarrow> node \<times> (trie_error + bytes list)) \<Rightarrow> deps \<Rightarrow> getter \<Rightarrow> node \<Rightarrow>
    node \<times> (trie_error + bytes list)" where
  "extAllHashes rec D get n = (case resolveIfCollapsed D get n 0 of
     Inl e \<Rightarrow> (n, Inl e)
   | Inr n' \<Rightarrow> (case childAt n' 0 of
       None \<Rightarrow> (n', Inl Panic)
     | Some c \<Rightarrow> (case rec c of
         (c', Inl e) \<Rightarrow> (setChildAt n' 0 (Some c'), Inl e)
       | (c', Inr hs) \<Rightarrow> (setChildAt n' 0 (Some c'), Inr (hs @ [slice (getHash n')])))))"

fun getAllHashes :: "deps \<Rightarrow> getter \<Rightarrow> nat \<Rightarrow> node \<Rightarrow> node \<times> (trie_error + bytes list)" where
  "getAllHashes D get 0 n = (n, Inl OutOfFuel)"
| "getAllHashes D get (Suc fuel) n = (case isEmptyOrNil n of
     Some e \<Rightarrow> (n, Inl e)
   | None \<Rightarrow> (case n of
       LeafNode l b \<Rightarrow> (n, Inr [slice (getHash n)])
     | ExtensionNode e c b \<Rightarrow> extAllHashes (getAllHashes D get fuel) D get n
     | BranchNode m cs b \<Rightarrow> branchAllHashes (getAllHashes D get fuel) D get childIndices n []))"

definition GetAllHashes :: "deps \<Rightarrow> getter \<Rightarrow> nat \<Rightarrow> patriciaMerkleTrie \<Rightarrow> patriciaMerkleTrie \<times> (trie_error + bytes list)" where
  "GetAllHashes D get fuel tr = (case root tr of
     None \<Rightarrow> (tr, Inr [])
   | Some n \<Rightarrow> (case setRootHash D n of
       (n', Some e) \<Rightarrow> (tr\<lparr>root := Some n'\<rparr>, Inl e)
     | (n', None) \<Rightarrow> (let (n'', r) = getAllHashes D get fuel n' in (tr\<lparr>root := Some n''\<rparr>, r))))"

subsection \<open>The Patricia-Merkle trie provides it\<close>

definition pmtOps :: "(bytes \<Rightarrow> bytes) \<Rightarrow> 'ms storer \<Rightarrow> nat \<Rightarrow> ('ms tsm, patriciaMerkleTrie) trieOps" where
  "pmtOps H S fuel = (let D = gogo_deps H in
     \<lparr>opGet = (\<lambda>db t k. Get D (tsmGet S db) t k),
      opUpdate = (\<lambda>db t k v. Update D (tsmGet S db) t k v),
      opUpdateWithVersion = (\<lambda>db t k v w. UpdateWithVersion D (tsmGet S db) t k v w),
      opDelete = (\<lambda>db t k. Delete D (tsmGet S db) t k),
      opRootHash = getRootHash D,
      opRecreate = (\<lambda>db t h. recreate D (tsmGet S db) t h),
      opGetAllHashes = (\<lambda>db t. GetAllHashes D (tsmGet S db) fuel t),
      opGetObsoleteHashes = GetObsoleteHashes,
      opGetDirtyHashes = GetDirtyHashes D,
      opGetOldRoot = GetOldRoot,
      opCommit = (\<lambda>db t. Commit D (tsmPut S) t db)\<rparr>)"

definition pmtHolds :: "(bytes \<Rightarrow> bytes) \<Rightarrow> 'ms storer \<Rightarrow> 'ms tsm \<Rightarrow> (bytes \<rightharpoonup> entry) \<Rightarrow> patriciaMerkleTrie \<Rightarrow> bool" where
  "pmtHolds H S tsm m tr \<longleftrightarrow> nonempty_hash H \<and> holds (gogo_deps H) (tsmGet S tsm) m tr"

interpretation pmt: trie_laws "pmtOps H S fuel" "pmtHolds H S" for H :: "bytes \<Rightarrow> bytes" and S :: "'ms storer" and fuel
proof unfold_locales
  fix db db' :: "'ms tsm" and m k v w t t'
  assume t: "pmtHolds H S db m t"
  then have c: "holds (gogo_deps H) (tsmGet S db) m t" "nonempty_hash H" by (simp_all add: pmtHolds_def)
  show "\<exists>t' d. opGet (pmtOps H S fuel) db t k = (t', Inr (map_option fst (m k)), d) \<and> pmtHolds H S db m t'"
    using holds_get [OF c, of k] c(2) by (simp add: pmtOps_def pmtHolds_def Let_def)
  show "\<exists>t'. opUpdateWithVersion (pmtOps H S fuel) db t k v w = (t', None) \<and> pmtHolds H S db (m(k \<mapsto> pput (m k) v w)) t'"
    if "v \<noteq> []" using holds_update [OF c that, of k w] c(2) by (simp add: pmtOps_def pmtHolds_def UpdateWithVersion_def Let_def)
  show "\<exists>t'. opUpdateWithVersion (pmtOps H S fuel) db t k [] w = (t', None) \<and> pmtHolds H S db (m(k := None)) t'"
    using holds_delete [OF c, of k] c(2) by (simp add: pmtOps_def pmtHolds_def UpdateWithVersion_def update_def Let_def)
  show "\<exists>t'. opDelete (pmtOps H S fuel) db t k = (t', None) \<and> pmtHolds H S db (m(k := None)) t'"
    using holds_delete [OF c, of k] c(2) by (simp add: pmtOps_def pmtHolds_def Delete_def Let_def)
  show "\<exists>t' h. opRootHash (pmtOps H S fuel) t = (t', Inr h) \<and> pmtHolds H S db m t'"
    using holds_rootHash [OF c] c(2) by (simp add: pmtOps_def pmtHolds_def Let_def)
  show "snd (opRootHash (pmtOps H S fuel) t) = snd (opRootHash (pmtOps H S fuel) t')" if "pmtHolds H S db' m t'"
    using same_content_same_root [OF c(1) _ c(2), of "tsmGet S db'" t'] that by (auto simp: pmtOps_def pmtHolds_def Let_def)
  show "\<exists>t'. opRecreate (pmtOps H S fuel) db t [] = Inr t' \<and> pmtHolds H S db Map.empty t'"
    using c(2) by (auto simp: pmtOps_def pmtHolds_def recreate_def IsEmptyTrie_def Let_def intro: holds_empty)
  show "v \<noteq> []" if "m k = Some (v, w)"
    using c(1) that by (rule holds_value)
qed (simp add: pmtOps_def Update_def UpdateWithVersion_def Let_def)

end
