(* ===== verification/Trackable_Theorems.thy ===== *)
theory Trackable_Theorems
  imports Trackable_Trie Trie_Provider
begin

text \<open>
  What saving dirty data does to the content of a data trie, with and without hashed keys and through the
  migration from one to the other: every saved key reads back as the saved value, every other key as
  before, and writing the recorded old values back restores the content. The client lemmas are proved in the
  context of \<open>trie_laws\<close>; \<open>K\<close> is the set of keys in use, on which the hash must not collide.
\<close>

subsection \<open>Hypotheses\<close>

definition env_ok :: "tdtEnv \<Rightarrow> bool" where
  "env_ok E \<longleftrightarrow> GetVersionForNewData E = (if autoBalanceFlag E then AutoBalanceEnabled else NotSpecified) \<and>
     (\<forall>l. tldValue l \<noteq> [] \<longrightarrow> (\<exists>b. marshalLeafData E l = Inr b \<and> b \<noteq> [] \<and> unmarshalLeafData E b = Inr l))"

definition hash_ok :: "tdtEnv \<Rightarrow> bytes set \<Rightarrow> bool" where
  "hash_ok E K \<longleftrightarrow> inj_on (hashKey E) K \<and> hashKey E ` K \<inter> K = {} \<and> [] \<notin> hashKey E ` K"

definition data_ok :: "tdtEnv \<Rightarrow> bytes set \<Rightarrow> (bytes \<rightharpoonup> entry) \<Rightarrow> bool" where
  "data_ok E K m \<longleftrightarrow> (\<forall>k \<in> K.
     (\<forall>v w. m k = Some (v, w) \<longrightarrow> w = NotSpecified) \<and>
     (\<forall>v w. m (hashKey E k) = Some (v, w) \<longrightarrow> w = AutoBalanceEnabled \<and> (\<exists>l. unmarshalLeafData E v = Inr l)) \<and>
     (m k = None \<or> m (hashKey E k) = None) \<and> (\<not> autoBalanceFlag E \<longrightarrow> m (hashKey E k) = None))"

definition dirty_ok :: "tdtEnv \<Rightarrow> bytes set \<Rightarrow> dirtyMap \<Rightarrow> bool" where
  "dirty_ok E K dd \<longleftrightarrow> distinct (map fst dd) \<and> fst ` set dd \<subseteq> K \<and>
     (\<forall>(k, d) \<in> set dd. deIndex d < length dd \<and> deVersion d = GetVersionForNewData E)"

lemma length_AList_update: "length (AList.update k v xs) = (if k \<in> fst ` set xs then length xs else Suc (length xs))"
  by (induction xs) auto

lemma set_AList_update: "set (AList.update k v xs) \<subseteq> insert (k, v) (set xs)"
  by (induction xs) auto

lemma SaveKeyValue_dirty_ok:
  assumes "dirty_ok E K dd" "k \<in> K" "SaveKeyValue E k v dd = Inr dd'"
  shows "dirty_ok E K dd'"
proof -
  let ?d = "\<lparr>deIndex = getIndexForKey dd k, deValue = v, deVersion = GetVersionForNewData E\<rparr>"
  have dd': "dd' = AList.update k ?d dd" using assms(3) by (simp add: SaveKeyValue_def split: if_splits)
  have len: "length dd \<le> length dd'" by (simp add: dd' length_AList_update)
  have ix: "getIndexForKey dd k < length dd'"
  proof (cases "map_of dd k")
    case None
    then have "k \<notin> fst ` set dd" by (simp add: map_of_eq_None_iff)
    with None show ?thesis by (simp add: dd' getIndexForKey_def length_AList_update)
  next
    case (Some d)
    then have "deIndex d < length dd" using assms(1) map_of_SomeD [OF Some] by (auto simp: dirty_ok_def)
    with Some len show ?thesis by (simp add: getIndexForKey_def)
  qed
  have "set dd' \<subseteq> insert (k, ?d) (set dd)" unfolding dd' by (rule set_AList_update)
  moreover have "distinct (map fst dd')" using assms(1) by (simp add: dirty_ok_def dd' distinct_update)
  moreover have "\<forall>(k, d) \<in> set dd. k \<in> K \<and> deIndex d < length dd' \<and> deVersion d = GetVersionForNewData E"
    using assms(1) len by (auto simp: dirty_ok_def)
  ultimately have "\<forall>(k, d) \<in> set dd'. k \<in> K \<and> deIndex d < length dd' \<and> deVersion d = GetVersionForNewData E"
      "distinct (map fst dd')" using ix assms(2) by fastforce+
  then show ?thesis unfolding dirty_ok_def by fastforce
qed

subsection \<open>The effect on the content\<close>

definition oldData :: "tdtEnv \<Rightarrow> (bytes \<rightharpoonup> entry) \<Rightarrow> bytes \<Rightarrow> TrieData" where
  "oldData E m k =
     (if autoBalanceFlag E \<and> m (hashKey E k) \<noteq> None
        then \<lparr>Key = hashKey E k, Value = map_option fst (m (hashKey E k)), Version = AutoBalanceEnabled\<rparr>
      else if m k \<noteq> None then \<lparr>Key = k, Value = map_option fst (m k), Version = NotSpecified\<rparr>
      else \<lparr>Key = getKeyForVersion E k (GetVersionForNewData E), Value = None, Version = GetVersionForNewData E\<rparr>)"

definition writtenKey :: "tdtEnv \<Rightarrow> (bytes \<rightharpoonup> entry) \<Rightarrow> bytes \<Rightarrow> dirtyEntry \<Rightarrow> bytes" where
  "writtenKey E m k d =
     (if deValue d = [] then (if Value (oldData E m k) = None then [] else Key (oldData E m k))
      else getKeyForVersion E k (deVersion d))"

definition migrates :: "tdtEnv \<Rightarrow> (bytes \<rightharpoonup> entry) \<Rightarrow> bytes \<Rightarrow> dirtyEntry \<Rightarrow> bool" where
  "migrates E m k d \<longleftrightarrow> Version (oldData E m k) = NotSpecified \<and> deVersion d = AutoBalanceEnabled"

definition newContent :: "tdtEnv \<Rightarrow> bytes \<Rightarrow> (bytes \<rightharpoonup> entry) \<Rightarrow> bytes \<Rightarrow> dirtyEntry \<Rightarrow> (bytes \<rightharpoonup> entry)" where
  "newContent E ident m k d =
     (if deValue d = [] then (if Value (oldData E m k) = None then m else m(Key (oldData E m k) := None))
      else
        let m1 = (if autoBalanceFlag E \<and> migrates E m k d then m(k := None) else m); k' = writtenKey E m k d
        in m1(k' \<mapsto> pput (m1 k') (projr (getValueForVersion E ident k (deValue d) (deVersion d))) (deVersion d)))"

definition extraData :: "tdtEnv \<Rightarrow> (bytes \<rightharpoonup> entry) \<Rightarrow> bytes \<Rightarrow> dirtyEntry \<Rightarrow> TrieData list" where
  "extraData E m k d = (if migrates E m k d \<and> writtenKey E m k d \<noteq> []
     then [\<lparr>Key = writtenKey E m k d, Value = None, Version = NotSpecified\<rparr>] else [])"

fun saveAll :: "tdtEnv \<Rightarrow> bytes \<Rightarrow> (bytes \<rightharpoonup> entry) \<Rightarrow> dirtyMap \<Rightarrow> (bytes \<rightharpoonup> entry) \<times> TrieData list \<times> TrieData list" where
  "saveAll E ident m [] = (m, [], [])"
| "saveAll E ident m ((k, d) # ds) =
     (let (m', os, es) = saveAll E ident (newContent E ident m k d) ds
      in (m', oldData E m k # os, extraData E m k d @ es))"

definition undo :: "(bytes \<rightharpoonup> entry) \<Rightarrow> TrieData \<Rightarrow> (bytes \<rightharpoonup> entry)" where
  "undo m d = (if slice (Value d) = [] then m(Key d := None)
     else m(Key d \<mapsto> pput (m (Key d)) (slice (Value d)) (Version d)))"

text \<open>An entry reads and writes only at its key and the hash of its key.\<close>

lemma footprint:
  "Key (oldData E m k) \<in> {k, hashKey E k}"
  "e \<in> set (extraData E m k d) \<Longrightarrow> Key e \<in> {k, hashKey E k}"
  "x \<notin> {k, hashKey E k} \<Longrightarrow> newContent E ident m k d x = m x"
  by (auto simp: oldData_def extraData_def writtenKey_def newContent_def getKeyForVersion_def Let_def)

lemma undo_twist: "Key d \<noteq> Key e \<Longrightarrow> undo (undo m d) e = undo (undo m e) d"
  by (auto simp: undo_def fun_upd_twist)

lemma undo_commute: "\<forall>e \<in> set es. Key e \<noteq> Key d \<Longrightarrow> foldl undo (undo m d) es = undo (foldl undo m es) d"
  by (induction es arbitrary: m) (auto simp: undo_twist)

lemma undo_swap: "\<forall>d \<in> set ds. \<forall>e \<in> set es. Key e \<noteq> Key d \<Longrightarrow>
    foldl undo (foldl undo m ds) es = foldl undo (foldl undo m es) ds"
  by (induction ds arbitrary: m) (auto simp: undo_commute)

lemma hash_okD:
  assumes "hash_ok E K" "k \<in> K" "k' \<in> K"
  shows "hashKey E k \<noteq> k'" "k' \<noteq> hashKey E k" "hashKey E k = hashKey E k' \<longleftrightarrow> k = k'" "hashKey E k \<noteq> []"
proof -
  show "hashKey E k \<noteq> k'" "k' \<noteq> hashKey E k" "hashKey E k \<noteq> []"
    using assms by (auto simp: hash_ok_def) (metis imageI)
  show "hashKey E k = hashKey E k' \<longleftrightarrow> k = k'" using assms by (auto simp: hash_ok_def inj_on_def)
qed

lemma versions_differ [simp]: "NotSpecified \<noteq> AutoBalanceEnabled" "AutoBalanceEnabled \<noteq> NotSpecified"
  by (simp_all add: NotSpecified_def AutoBalanceEnabled_def)

lemma slice_Some [simp]: "slice (Some v) = v" "slice None = []"
  by (simp_all add: slice_def)

lemma pput_same [simp]: "pput (Some (v, w)) v w' = (v, w)" "pput (Some (v', w)) v w = (v, w)" "pput None v w = (v, w)"
  by (auto simp: pput_def)

text \<open>One entry: the recorded old data undo it and the trie stays well-formed.\<close>

lemma encoded:
  assumes "env_ok E" "deValue d \<noteq> []"
  obtains b where "getValueForVersion E ident k (deValue d) (deVersion d) = Inr b" "b \<noteq> []"
    "deVersion d = AutoBalanceEnabled \<Longrightarrow> unmarshalLeafData E b = Inr \<lparr>tldValue = deValue d, tldKey = k, tldAddress = ident\<rparr>"
    "deVersion d \<noteq> AutoBalanceEnabled \<Longrightarrow> b = deValue d @ k @ ident"
proof (cases "deVersion d = AutoBalanceEnabled")
  case True
  let ?l = "\<lparr>tldValue = deValue d, tldKey = k, tldAddress = ident\<rparr>"
  have "tldValue ?l \<noteq> []" using assms(2) by simp
  then obtain b where "marshalLeafData E ?l = Inr b" "b \<noteq> []" "unmarshalLeafData E b = Inr ?l"
    using assms(1) unfolding env_ok_def by blast
  with True assms(2) that show thesis by (simp add: getValueForVersion_def)
next
  case False
  with assms(2) that show thesis by (simp add: getValueForVersion_def)
qed

lemma undo_entry:
  assumes "env_ok E" "hash_ok E K" "data_ok E K m" "k \<in> K" "deVersion d = GetVersionForNewData E"
    and vals: "\<And>x v w. m x = Some (v, w) \<Longrightarrow> v \<noteq> []"
  shows "foldl undo (newContent E ident m k d) (rev (extraData E m k d) @ [oldData E m k]) = m"
proof -
  note hk = hash_okD [OF assms(2,4,4)]
  have raw: "m k = Some (v, w) \<Longrightarrow> w = NotSpecified \<and> v \<noteq> []" for v w
    using assms(3,4) vals by (auto simp: data_ok_def)
  have hashed: "m (hashKey E k) = Some (v, w) \<Longrightarrow> w = AutoBalanceEnabled \<and> v \<noteq> []" for v w
    using assms(3,4) vals by (auto simp: data_ok_def)
  have nv: "GetVersionForNewData E = (if autoBalanceFlag E then AutoBalanceEnabled else NotSpecified)"
    using assms(1) by (simp add: env_ok_def)
  show ?thesis
    using raw hashed hk assms(5) nv
    by (cases "m k"; cases "m (hashKey E k)"; cases "deValue d = []"; cases "autoBalanceFlag E")
      (auto simp: newContent_def extraData_def oldData_def migrates_def writtenKey_def getKeyForVersion_def undo_def Let_def fun_eq_iff)
qed

lemma data_ok_newContent:
  assumes "env_ok E" "hash_ok E K" "data_ok E K m" "k \<in> K" "deVersion d = GetVersionForNewData E"
  shows "data_ok E K (newContent E ident m k d)"
  unfolding data_ok_def
proof
  fix x assume x: "x \<in> K"
  let ?m = "newContent E ident m k d"
  have old: "(\<forall>v w. m x = Some (v, w) \<longrightarrow> w = NotSpecified) \<and>
     (\<forall>v w. m (hashKey E x) = Some (v, w) \<longrightarrow> w = AutoBalanceEnabled \<and> (\<exists>l. unmarshalLeafData E v = Inr l)) \<and>
     (m x = None \<or> m (hashKey E x) = None) \<and> (\<not> autoBalanceFlag E \<longrightarrow> m (hashKey E x) = None)"
    using assms(3) x by (simp add: data_ok_def)
  have nv: "GetVersionForNewData E = (if autoBalanceFlag E then AutoBalanceEnabled else NotSpecified)"
    using assms(1) by (simp add: env_ok_def)
  show "(\<forall>v w. ?m x = Some (v, w) \<longrightarrow> w = NotSpecified) \<and>
     (\<forall>v w. ?m (hashKey E x) = Some (v, w) \<longrightarrow> w = AutoBalanceEnabled \<and> (\<exists>l. unmarshalLeafData E v = Inr l)) \<and>
     (?m x = None \<or> ?m (hashKey E x) = None) \<and> (\<not> autoBalanceFlag E \<longrightarrow> ?m (hashKey E x) = None)"
  proof (cases "x = k")
    case False
    then have "?m x = m x" "?m (hashKey E x) = m (hashKey E x)"
      using hash_okD [OF assms(2,4) x] hash_okD [OF assms(2) x assms(4)] by (auto intro!: footprint(3))
    with old show ?thesis by simp
  next
    case True
    note hk = hash_okD [OF assms(2,4,4)]
    show ?thesis
    proof (cases "deValue d = []")
      case del: True
      show ?thesis using old hk nv unfolding True
        by (cases "m k"; cases "m (hashKey E k)") (auto simp: newContent_def del oldData_def)
    next
      case upd: False
      obtain b where b: "getValueForVersion E ident k (deValue d) (deVersion d) = Inr b"
          "deVersion d = AutoBalanceEnabled \<Longrightarrow> \<exists>l. unmarshalLeafData E b = Inr l"
        using encoded [OF assms(1) upd] by (metis (no_types))
      show ?thesis using old hk nv b assms(5) unfolding True
        by (cases "m k"; cases "m (hashKey E k)"; cases "autoBalanceFlag E")
          (auto simp: newContent_def upd oldData_def migrates_def writtenKey_def getKeyForVersion_def Let_def pput_def split: if_splits)
    qed
  qed
qed

lemma newContent_value:
  assumes "env_ok E" "\<And>x v w. m x = Some (v, w) \<Longrightarrow> v \<noteq> []" "newContent E ident m k d x = Some (v, w)"
  shows "v \<noteq> []"
proof (cases "deValue d = []")
  case True
  with assms(2,3) show ?thesis by (auto simp: newContent_def split: if_splits)
next
  case False
  obtain b where "getValueForVersion E ident k (deValue d) (deVersion d) = Inr b" "b \<noteq> []"
    using encoded [OF assms(1) False] by metis
  with False assms(2,3) show ?thesis
    by (auto simp: newContent_def Let_def pput_def split: if_splits option.splits)
qed

subsection \<open>The loop\<close>

lemma saveAll_Cons:
  assumes "saveAll E ident m ((k, d) # ds) = (m', os, es)"
  obtains os1 es1 where "saveAll E ident (newContent E ident m k d) ds = (m', os1, es1)"
    "os = oldData E m k # os1" "es = extraData E m k d @ es1"
  using assms by (auto simp: Let_def split: prod.splits)

lemma saveAll_keys:
  assumes "saveAll E ident m ds = (m', os, es)" "e \<in> set os \<union> set es"
  shows "\<exists>k \<in> fst ` set ds. Key e \<in> {k, hashKey E k}"
  using assms
proof (induction ds arbitrary: m os es)
  case (Cons kd ds)
  obtain k d where kd: "kd = (k, d)" by (cases kd)
  from Cons.prems(1) obtain os1 es1 where r: "saveAll E ident (newContent E ident m k d) ds = (m', os1, es1)"
      "os = oldData E m k # os1" "es = extraData E m k d @ es1" unfolding kd by (rule saveAll_Cons)
  with Cons.prems(2) have "e = oldData E m k \<or> e \<in> set (extraData E m k d) \<or> e \<in> set os1 \<union> set es1" by auto
  then show ?case using Cons.IH [OF r(1)] footprint(1) [of E m k] footprint(2) [of e E m k d] by (auto simp: kd)
qed simp

text \<open>The hypotheses on a loop over dirty data, as far as its induction needs them.\<close>

definition entries_ok :: "tdtEnv \<Rightarrow> bytes set \<Rightarrow> dirtyMap \<Rightarrow> bool" where
  "entries_ok E K ds \<longleftrightarrow> distinct (map fst ds) \<and> fst ` set ds \<subseteq> K \<and>
     (\<forall>(k, d) \<in> set ds. deVersion d = GetVersionForNewData E)"

definition content_ok :: "tdtEnv \<Rightarrow> bytes set \<Rightarrow> (bytes \<rightharpoonup> entry) \<Rightarrow> bool" where
  "content_ok E K m \<longleftrightarrow> data_ok E K m \<and> (\<forall>x v w. m x = Some (v, w) \<longrightarrow> v \<noteq> [])"

lemma entries_ok_Cons: "entries_ok E K ((k, d) # ds) \<longleftrightarrow>
    k \<notin> fst ` set ds \<and> k \<in> K \<and> deVersion d = GetVersionForNewData E \<and> entries_ok E K ds"
  by (auto simp: entries_ok_def)

lemma dirty_entries_ok: "dirty_ok E K dd \<Longrightarrow> entries_ok E K dd"
  by (auto simp: dirty_ok_def entries_ok_def)

lemma content_ok_newContent:
  assumes "env_ok E" "hash_ok E K" "content_ok E K m" "k \<in> K" "deVersion d = GetVersionForNewData E"
  shows "content_ok E K (newContent E ident m k d)"
  using data_ok_newContent [OF assms(1,2) _ assms(4,5)] newContent_value [OF assms(1)] assms(3)
  unfolding content_ok_def by blast

lemma other_keys:
  assumes "hash_ok E K" "k \<in> K" "k' \<in> K" "k \<noteq> k'" "x \<in> {k, hashKey E k}" "y \<in> {k', hashKey E k'}"
  shows "x \<noteq> y"
  using hash_okD [OF assms(1-3)] hash_okD [OF assms(1,3,2)] assms(4-6) by auto

lemma saveAll_undo:
  assumes "env_ok E" "hash_ok E K" "content_ok E K m" "entries_ok E K ds"
    and "saveAll E ident m ds = (m', os, es)"
  shows "foldl undo m' (rev (os @ es)) = m"
  using assms(3-)
proof (induction ds arbitrary: m os es)
  case (Cons kd ds)
  obtain k d where kd: "kd = (k, d)" by (cases kd)
  let ?m = "newContent E ident m k d"
  from Cons.prems(2) have ok: "k \<notin> fst ` set ds" "k \<in> K" "deVersion d = GetVersionForNewData E" "entries_ok E K ds"
    by (simp_all add: kd entries_ok_Cons)
  from Cons.prems(3) obtain os1 es1 where r: "saveAll E ident ?m ds = (m', os1, es1)"
      "os = oldData E m k # os1" "es = extraData E m k d @ es1" unfolding kd by (rule saveAll_Cons)
  have IH: "foldl undo m' (rev (os1 @ es1)) = ?m"
    using Cons.IH [OF content_ok_newContent [OF assms(1,2) Cons.prems(1) ok(2,3)] ok(4) r(1)] .
  have "Key e \<noteq> Key o'" if e: "e \<in> set (extraData E m k d)" and o': "o' \<in> set os1" for e o'
  proof -
    obtain k' where "k' \<in> fst ` set ds" "Key o' \<in> {k', hashKey E k'}" using saveAll_keys [OF r(1)] o' by blast
    moreover have "Key e \<in> {k, hashKey E k}" using footprint(2) [OF e] .
    moreover have "k' \<in> K" using calculation(1) ok(4) by (auto simp: entries_ok_def)
    ultimately show ?thesis using other_keys [OF assms(2) ok(2)] ok(1) by metis
  qed
  then have "foldl undo (foldl undo (foldl undo m' (rev es1)) (rev (extraData E m k d))) (rev os1) =
      foldl undo (foldl undo (foldl undo m' (rev es1)) (rev os1)) (rev (extraData E m k d))"
    by (intro undo_swap) (metis set_rev)
  also have "\<dots> = foldl undo ?m (rev (extraData E m k d))" using IH by simp
  finally have "foldl undo m' (rev (os @ es)) = foldl undo ?m (rev (extraData E m k d) @ [oldData E m k])"
    by (simp add: r)
  also have "\<dots> = m"
    using Cons.prems(1) ok by (intro undo_entry [OF assms(1,2)]) (auto simp: content_ok_def)
  finally show ?case .
qed simp

text \<open>What the loop leaves at each key in use.\<close>

definition readData :: "tdtEnv \<Rightarrow> bytes \<Rightarrow> (bytes \<rightharpoonup> entry) \<Rightarrow> bytes \<Rightarrow> state_error + bytes" where
  "readData E ident m k = getValueWithoutMetadata E ident k (oldData E m k)"

lemma oldData_cong: "m k = m' k \<Longrightarrow> m (hashKey E k) = m' (hashKey E k) \<Longrightarrow> oldData E m k = oldData E m' k"
  unfolding oldData_def by (simp only:)

lemma readData_other:
  assumes "hash_ok E K" "k \<in> K" "k' \<in> K" "k \<noteq> k'"
  shows "readData E ident (newContent E ident m k d) k' = readData E ident m k'"
proof -
  have "newContent E ident m k d x = m x" if "x \<in> {k', hashKey E k'}" for x
    using other_keys [OF assms, of _ x] that by (intro footprint(3)) blast
  then show ?thesis unfolding readData_def by (intro arg_cong [where f = "getValueWithoutMetadata E ident k'"] oldData_cong) auto
qed

lemma readData_same:
  assumes "env_ok E" "hash_ok E K" "content_ok E K m" "k \<in> K" "deVersion d = GetVersionForNewData E"
  shows "readData E ident (newContent E ident m k d) k = Inr (deValue d)"
proof -
  note hk = hash_okD [OF assms(2,4,4)]
  have nv: "GetVersionForNewData E = (if autoBalanceFlag E then AutoBalanceEnabled else NotSpecified)"
    using assms(1) by (simp add: env_ok_def)
  have m: "m k = None \<or> m (hashKey E k) = None" using assms(3,4) by (simp add: content_ok_def data_ok_def)
  show ?thesis
  proof (cases "deValue d = []")
    case True
    then show ?thesis using hk m
      by (auto simp: readData_def newContent_def oldData_def getValueWithoutMetadata_def)
  next
    case False
    obtain b where b: "getValueForVersion E ident k (deValue d) (deVersion d) = Inr b" "b \<noteq> []"
        "deVersion d = AutoBalanceEnabled \<Longrightarrow> unmarshalLeafData E b = Inr \<lparr>tldValue = deValue d, tldKey = k, tldAddress = ident\<rparr>"
        "deVersion d \<noteq> AutoBalanceEnabled \<Longrightarrow> b = deValue d @ k @ ident"
      using encoded [OF assms(1) False, of ident k] by blast
    have kv: "fst (pput x b w) = b" for x w by (auto simp: pput_def split: option.splits)
    show ?thesis
    proof (cases "autoBalanceFlag E")
      case True
      then obtain w where "newContent E ident m k d (hashKey E k) = Some (b, w)"
        using False nv assms(5) b(1) kv by (simp add: newContent_def writtenKey_def getKeyForVersion_def Let_def) (metis prod.collapse)
      with True b nv assms(5) show ?thesis
        by (simp add: readData_def oldData_def getValueWithoutMetadata_def getValueAutoBalanceVersion_def)
    next
      case noflag: False
      then obtain w where "newContent E ident m k d k = Some (b, w)"
        using False nv assms(5) b(1) kv by (simp add: newContent_def writtenKey_def getKeyForVersion_def Let_def) (metis prod.collapse)
      with noflag b nv assms(5) show ?thesis
        by (simp add: readData_def oldData_def getValueWithoutMetadata_def getValueNotSpecifiedVersion_def TrimSuffixFromValue_def)
    qed
  qed
qed

lemma saveAll_reads:
  assumes "env_ok E" "hash_ok E K" "content_ok E K m" "entries_ok E K ds"
    and "saveAll E ident m ds = (m', os, es)" "k \<in> K"
  shows "readData E ident m' k =
    (case map_of ds k of None \<Rightarrow> readData E ident m k | Some d \<Rightarrow> Inr (deValue d)) \<and> content_ok E K m'"
  using assms(3-)
proof (induction ds arbitrary: m os es)
  case (Cons kd ds)
  obtain k1 d1 where kd: "kd = (k1, d1)" by (cases kd)
  let ?m = "newContent E ident m k1 d1"
  from Cons.prems(2) have ok: "k1 \<notin> fst ` set ds" "k1 \<in> K" "deVersion d1 = GetVersionForNewData E" "entries_ok E K ds"
    by (simp_all add: kd entries_ok_Cons)
  from Cons.prems(3) obtain os1 es1 where r: "saveAll E ident ?m ds = (m', os1, es1)"
    unfolding kd by (rule saveAll_Cons)
  note c = content_ok_newContent [OF assms(1,2) Cons.prems(1) ok(2,3)]
  note IH = Cons.IH [OF c ok(4) r assms(6)]
  show ?case
  proof (cases "k = k1")
    case True
    then have "map_of ds k = None" using ok(1) by (simp add: map_of_eq_None_iff)
    with IH True readData_same [OF assms(1,2) Cons.prems(1) ok(2,3)] show ?thesis by (simp add: kd)
  next
    case False
    then have "readData E ident ?m k = readData E ident m k" using readData_other [OF assms(2) ok(2) assms(6)] by metis
    with IH False show ?thesis by (auto simp: kd split: option.splits)
  qed
qed simp

subsection \<open>The operations on a trie\<close>

context trie_laws
begin

lemma retrieveRaw_con:
  assumes "con db m t"
  shows "\<exists>t' d. retrieveRaw E T db t k = (t', Inr
    ((if m k \<noteq> None then \<lparr>Key = k, Value = map_option fst (m k), Version = NotSpecified\<rparr>
      else \<lparr>Key = getKeyForVersion E k (GetVersionForNewData E), Value = None, Version = GetVersionForNewData E\<rparr>), d)) \<and> con db m t'"
  using get_con [OF assms, of k] con_value [OF assms, of k] by (cases "m k") (auto simp: retrieveRaw_def)

lemma retrieve_con:
  assumes "con db m t"
  shows "\<exists>t' d. retrieveValueFromTrie E T db t k = (t', Inr (oldData E m k, d)) \<and> con db m t'"
proof (cases "autoBalanceFlag E")
  case True
  obtain t1 d1 where g: "opGet T db t (hashKey E k) = (t1, Inr (map_option fst (m (hashKey E k))), d1)" "con db m t1"
    using get_con [OF assms, of "hashKey E k"] by blast
  show ?thesis
    using True g con_value [OF assms, of "hashKey E k"] retrieveRaw_con [OF g(2), of E k]
    by (cases "m (hashKey E k)") (auto simp: retrieveValueFromTrie_def oldData_def)
next
  case False
  with retrieveRaw_con [OF assms, of E k] show ?thesis by (simp add: retrieveValueFromTrie_def oldData_def)
qed

lemma modify_con:
  assumes "con db m t" "env_ok E" "old = oldData E m k"
  shows "\<exists>t1 t2 del. deleteOldEntryIfMigrated E T db t k d old = (t1, Inr del) \<and>
    modifyTrie E T db ident t1 k d old = (t2, Inr (writtenKey E m k d)) \<and> con db (newContent E ident m k d) t2"
proof (cases "deValue d = []")
  case True
  then have del: "deleteOldEntryIfMigrated E T db t k d old = (t, Inr False)" by (simp add: deleteOldEntryIfMigrated_def)
  have "\<exists>t2. deleteFromTrie E T db t old k = (t2, Inr (writtenKey E m k d)) \<and> con db (newContent E ident m k d) t2"
  proof (cases "Value old = None")
    case None: True
    then show ?thesis using True assms(1,3) by (simp add: deleteFromTrie_def writtenKey_def newContent_def)
  next
    case False
    then have "slice (Value old) \<noteq> []" "Version old = AutoBalanceEnabled \<and> Key old = hashKey E k \<or> Version old = NotSpecified \<and> Key old = k"
      using con_value [OF assms(1)] by (auto simp: assms(3) oldData_def split: if_splits)
    then show ?thesis using True False assms(3) delete_con [OF assms(1), of "Key old"]
      by (auto simp: deleteFromTrie_def writtenKey_def newContent_def trieStep_def)
  qed
  then obtain t2 where "deleteFromTrie E T db t old k = (t2, Inr (writtenKey E m k d))" "con db (newContent E ident m k d) t2"
    by blast
  with True del have "modifyTrie E T db ident t k d old = (t2, Inr (writtenKey E m k d))" by (simp add: modifyTrie_def)
  with del \<open>con db (newContent E ident m k d) t2\<close> show ?thesis by blast
next
  case False
  obtain b where b: "getValueForVersion E ident k (deValue d) (deVersion d) = Inr b" "b \<noteq> []"
    using encoded [OF assms(2) False] by metis
  let ?m1 = "if autoBalanceFlag E \<and> migrates E m k d then m(k := None) else m"
  obtain t1 del where t1: "deleteOldEntryIfMigrated E T db t k d old = (t1, Inr del)" "con db ?m1 t1"
  proof (cases "autoBalanceFlag E \<and> migrates E m k d")
    case True
    then obtain t1 where "opDelete T db t k = (t1, None)" "con db (m(k := None)) t1" using delete_con [OF assms(1)] by blast
    with True False assms(3) that [of t1 True] show thesis
      by (simp add: deleteOldEntryIfMigrated_def migrates_def trieStep_def)
  next
    case no: False
    with False assms(1,3) that [of t False] show thesis by (auto simp: deleteOldEntryIfMigrated_def migrates_def)
  qed
  obtain t2 where "opUpdateWithVersion T db t1 (writtenKey E m k d) b (deVersion d) = (t2, None)"
      "con db (?m1(writtenKey E m k d \<mapsto> pput (?m1 (writtenKey E m k d)) b (deVersion d))) t2"
    using update_con [OF t1(2) b(2)] by blast
  then show ?thesis using False b t1(1)
    by (auto simp: modifyTrie_def newContent_def writtenKey_def trieStep_def Let_def)
qed

lemma recordChange_ok:
  assumes "env_ok E" "hash_ok E K" "content_ok E K m" "k \<in> K" "deIndex d < length (accNew acc)"
  shows "\<exists>acc'. recordChange E ident k d (oldData E m k) del (writtenKey E m k d) acc = Inr acc' \<and>
    accOld acc' = accOld acc @ [oldData E m k] \<and> accExtra acc' = accExtra acc @ extraData E m k d \<and>
    length (accNew acc') = length (accNew acc)"
proof -
  have "\<exists>l. unmarshalLeafData E v = Inr l" if "m (hashKey E k) = Some (v, w)" for v w
    using assms(3,4) that by (auto simp: content_ok_def data_ok_def)
  then have "\<exists>c. newDataChange E ident k d (oldData E m k) = Inr c"
    by (auto simp: newDataChange_def getValueWithoutMetadata_def getValueAutoBalanceVersion_def oldData_def)
  then obtain c where "newDataChange E ident k d (oldData E m k) = Inr c" by blast
  with assms(5) show ?thesis
    by (auto simp: recordChange_def extraData_def migrates_def Let_def)
qed

lemma updateTrieLoop_con:
  assumes "con db m t" "env_ok E" "hash_ok E K" "content_ok E K m" "entries_ok E K ds"
    and "\<forall>(k, d) \<in> set ds. deIndex d < length (accNew acc)" "saveAll E ident m ds = (m', os, es)"
  shows "\<exists>t' acc'. updateTrieLoop E T db ident ds t acc = (t', Inr acc') \<and> con db m' t' \<and>
    accOld acc' = accOld acc @ os \<and> accExtra acc' = accExtra acc @ es"
  using assms(1,4-)
proof (induction ds arbitrary: m t acc os es)
  case (Cons kd ds)
  obtain k d where kd: "kd = (k, d)" by (cases kd)
  from Cons.prems(3) have ok: "k \<in> K" "deVersion d = GetVersionForNewData E" "entries_ok E K ds"
    by (simp_all add: kd entries_ok_Cons)
  from Cons.prems(5) obtain os1 es1 where r: "saveAll E ident (newContent E ident m k d) ds = (m', os1, es1)"
      "os = oldData E m k # os1" "es = extraData E m k d @ es1" unfolding kd by (rule saveAll_Cons)
  obtain t1 dp where t1: "retrieveValueFromTrie E T db t k = (t1, Inr (oldData E m k, dp))" "con db m t1"
    using retrieve_con [OF Cons.prems(1)] by blast
  obtain t2 t3 del where t3: "deleteOldEntryIfMigrated E T db t1 k d (oldData E m k) = (t2, Inr del)"
      "modifyTrie E T db ident t2 k d (oldData E m k) = (t3, Inr (writtenKey E m k d))"
      "con db (newContent E ident m k d) t3"
    using modify_con [OF t1(2) assms(2) refl] by blast
  obtain acc1 where acc1: "recordChange E ident k d (oldData E m k) del (writtenKey E m k d) acc = Inr acc1"
      "accOld acc1 = accOld acc @ [oldData E m k]" "accExtra acc1 = accExtra acc @ extraData E m k d"
      "length (accNew acc1) = length (accNew acc)"
  proof -
    have "deIndex d < length (accNew acc)" using Cons.prems(4) kd by simp
    from recordChange_ok [OF assms(2,3) Cons.prems(2) ok(1) this, of ident del] that show thesis by blast
  qed
  have "updateEntry E T db ident t k d acc = (t3, Inr acc1)"
    using t1(1) t3(1,2) acc1(1) by (simp add: updateEntry_def)
  moreover obtain t' acc' where "updateTrieLoop E T db ident ds t3 acc1 = (t', Inr acc')" "con db m' t'"
      "accOld acc' = accOld acc1 @ os1" "accExtra acc' = accExtra acc1 @ es1"
  proof -
    have "\<forall>(k, d) \<in> set ds. deIndex d < length (accNew acc1)" using Cons.prems(4) acc1(4) kd by simp
    from Cons.IH [OF t3(3) content_ok_newContent [OF assms(2,3) Cons.prems(2) ok(1,2)] ok(3) this r(1)] that
    show thesis by blast
  qed
  ultimately show ?case using acc1 r(2,3) by (simp add: kd)
qed simp

lemma revertUpdates_con:
  "con db m t \<Longrightarrow> \<exists>t'. revertUpdates T db ds t = (t', None) \<and> con db (foldl undo m ds) t'"
proof (induction ds arbitrary: m t)
  case (Cons d ds)
  have "\<exists>t1. opUpdateWithVersion T db t (Key d) (slice (Value d)) (Version d) = (t1, None) \<and> con db (undo m d) t1"
    using update_con [OF Cons.prems, of "slice (Value d)"] update_empty [OF Cons.prems] by (auto simp: undo_def)
  with Cons.IH show ?case by fastforce
qed simp

text \<open>Saving dirty data as a whole: it succeeds, the new content is the old one with the values saved, and
  the old values it returns lead back.\<close>

lemma updateTrie_con:
  assumes "con db m t" "env_ok E" "hash_ok E K" "content_ok E K m" "dirty_ok E K dd"
  shows "\<exists>t' m' cs olds. updateTrie E T db ident dd t = (t', Inr (cs, olds)) \<and> con db m' t' \<and>
    foldl undo m' (rev olds) = m \<and> content_ok E K m' \<and> length dd \<le> length olds \<and>
    (\<forall>k \<in> K. readData E ident m' k =
       (case map_of dd k of None \<Rightarrow> readData E ident m k | Some d \<Rightarrow> Inr (deValue d)))"
proof -
  obtain m' os es where s: "saveAll E ident m dd = (m', os, es)" by (metis prod_cases3)
  note ok = dirty_entries_ok [OF assms(5)]
  let ?acc = "\<lparr>accOld = [], accExtra = [], accNew = replicate (length dd) None, accDeleted = []\<rparr>"
  obtain t' acc' where l: "updateTrieLoop E T db ident dd t ?acc = (t', Inr acc')" "con db m' t'"
      "accOld acc' = os" "accExtra acc' = es"
  proof -
    have "\<forall>(k, d) \<in> set dd. deIndex d < length (accNew ?acc)" using assms(5) by (auto simp: dirty_ok_def)
    from updateTrieLoop_con [OF assms(1-4) ok this s] that show thesis by auto
  qed
  have len: "length dd = length os" using s
    by (induction dd arbitrary: m os es) (auto simp: Let_def split: prod.splits)
  have "content_ok E K m'"
  proof (cases "K = {}")
    case False
    then show ?thesis using saveAll_reads [OF assms(2-4) ok s] by blast
  next
    case True
    then have "dd = []" using assms(5) by (auto simp: dirty_ok_def)
    with s assms(4) show ?thesis by simp
  qed
  then show ?thesis
    using l len saveAll_undo [OF assms(2-4) ok s] saveAll_reads [OF assms(2-4) ok s]
    by (auto simp: updateTrie_def)
qed

end

end
