(* ===== verification/Accounts_Content.thy ===== *)
theory Accounts_Content
  imports Accounts_DB Trackable_Theorems
begin

text \<open>
  The content of the main trie of the account state: accounts under their addresses and code entries under
  the hashes of their code. Dropping and adding references to code entries as the save of an account does is
  undone by its journal entry, and keeps the reference counts equal to the numbers of accounts.
\<close>

subsection \<open>The main trie's content\<close>

definition acc_env_ok :: "accEnv \<Rightarrow> bool" where
  "acc_env_ok E \<longleftrightarrow> env_ok (tdtEnvOf E) \<and>
     (\<forall>d. \<exists>b. marshalAccount E d = Inr b \<and> b \<noteq> [] \<and> unmarshalAccount E b = Inr d) \<and>
     (\<forall>c. 0 < NumReferences c \<longrightarrow> (\<exists>b. marshalCode E c = Inr b \<and> b \<noteq> [] \<and> unmarshalCode E b = Inr c)) \<and>
     (\<forall>c. c \<noteq> [] \<longrightarrow> codeHash E c \<noteq> [])"

definition codeKeys :: "accEnv \<Rightarrow> bytes set" where
  "codeKeys E = codeHash E ` {c. c \<noteq> []}"

definition accAt :: "accEnv \<Rightarrow> (bytes \<rightharpoonup> entry) \<Rightarrow> bytes \<Rightarrow> userAccountData option" where
  "accAt E m k = (if k \<in> codeKeys E then None else case m k of
     None \<Rightarrow> None | Some (v, w) \<Rightarrow> (case unmarshalAccount E v of Inl e \<Rightarrow> None | Inr d \<Rightarrow> Some d))"

definition codeAt :: "accEnv \<Rightarrow> (bytes \<rightharpoonup> entry) \<Rightarrow> bytes \<Rightarrow> codeEntry option" where
  "codeAt E m h = (if h \<notin> codeKeys E then None else case m h of
     None \<Rightarrow> None | Some (v, w) \<Rightarrow> (case unmarshalCode E v of Inl e \<Rightarrow> None | Inr c \<Rightarrow> Some c))"

definition putAcc :: "accEnv \<Rightarrow> (bytes \<rightharpoonup> entry) \<Rightarrow> userAccountData \<Rightarrow> (bytes \<rightharpoonup> entry)" where
  "putAcc E m d = m(uaAddress d \<mapsto> (projr (marshalAccount E d), NotSpecified))"

definition putCode :: "accEnv \<Rightarrow> (bytes \<rightharpoonup> entry) \<Rightarrow> bytes \<Rightarrow> codeEntry \<Rightarrow> (bytes \<rightharpoonup> entry)" where
  "putCode E m h c = m(h \<mapsto> (projr (marshalCode E c), NotSpecified))"

definition main_ok :: "accEnv \<Rightarrow> (bytes \<rightharpoonup> entry) \<Rightarrow> bool" where
  "main_ok E m \<longleftrightarrow> (\<forall>k v w. m k = Some (v, w) \<longrightarrow> w = NotSpecified \<and> k \<noteq> [] \<and>
     (if k \<in> codeKeys E then \<exists>c. marshalCode E c = Inr v \<and> 0 < NumReferences c
      else \<exists>d. marshalAccount E d = Inr v \<and> uaAddress d = k))"

text \<open>The accounts whose code has a given hash, and the agreement of the reference counts with them.\<close>

definition users :: "accEnv \<Rightarrow> (bytes \<rightharpoonup> entry) \<Rightarrow> bytes \<Rightarrow> bytes set" where
  "users E m h = {k. \<exists>d. accAt E m k = Some d \<and> uaCodeHash d = h}"

definition refs_ok :: "accEnv \<Rightarrow> (bytes \<rightharpoonup> entry) \<Rightarrow> bool" where
  "refs_ok E m \<longleftrightarrow> finite (dom m) \<and> (\<forall>h. h \<noteq> [] \<longrightarrow>
     card (users E m h) = (case codeAt E m h of None \<Rightarrow> 0 | Some c \<Rightarrow> unat (NumReferences c)))"

lemma marshalAccount_ok:
  assumes "acc_env_ok E"
  obtains b where "marshalAccount E d = Inr b" "b \<noteq> []" "unmarshalAccount E b = Inr d"
  using assms unfolding acc_env_ok_def by blast

lemma marshalCode_ok:
  assumes "acc_env_ok E" "0 < NumReferences c"
  obtains b where "marshalCode E c = Inr b" "b \<noteq> []" "unmarshalCode E b = Inr c"
  using assms unfolding acc_env_ok_def by blast

lemma empty_not_codeKey: "acc_env_ok E \<Longrightarrow> [] \<notin> codeKeys E"
  by (auto simp: acc_env_ok_def codeKeys_def)

lemma accAt_put:
  assumes "acc_env_ok E"
  shows "uaAddress d \<notin> codeKeys E \<Longrightarrow> accAt E (putAcc E m d) k = (if k = uaAddress d then Some d else accAt E m k)"
    and "h \<in> codeKeys E \<Longrightarrow> accAt E (putCode E m h c) k = accAt E m k"
    and "a \<notin> codeKeys E \<Longrightarrow> accAt E (m(a := None)) k = (if k = a then None else accAt E m k)"
    and "h \<in> codeKeys E \<Longrightarrow> accAt E (m(h := None)) k = accAt E m k"
proof -
  obtain b where b: "marshalAccount E d = Inr b" "unmarshalAccount E b = Inr d" using marshalAccount_ok [OF assms] by metis
  show "uaAddress d \<notin> codeKeys E \<Longrightarrow> accAt E (putAcc E m d) k = (if k = uaAddress d then Some d else accAt E m k)"
    using b by (auto simp: accAt_def putAcc_def)
qed (auto simp: accAt_def putCode_def)

lemma codeAt_put:
  assumes "acc_env_ok E"
  shows "h \<in> codeKeys E \<Longrightarrow> 0 < NumReferences c \<Longrightarrow>
      codeAt E (putCode E m h c) k = (if k = h then Some c else codeAt E m k)"
    and "uaAddress d \<notin> codeKeys E \<Longrightarrow> codeAt E (putAcc E m d) k = codeAt E m k"
    and "h \<in> codeKeys E \<Longrightarrow> codeAt E (m(h := None)) k = (if k = h then None else codeAt E m k)"
    and "a \<notin> codeKeys E \<Longrightarrow> codeAt E (m(a := None)) k = codeAt E m k"
proof -
  assume c: "h \<in> codeKeys E" "0 < NumReferences c"
  obtain b where b: "marshalCode E c = Inr b" "unmarshalCode E b = Inr c" using marshalCode_ok [OF assms c(2)] by metis
  with c show "codeAt E (putCode E m h c) k = (if k = h then Some c else codeAt E m k)"
    by (auto simp: codeAt_def putCode_def)
qed (auto simp: codeAt_def putAcc_def)

text \<open>Writing back what is stored changes nothing.\<close>

lemma putAcc_stored:
  assumes "acc_env_ok E" "main_ok E m" "accAt E m k = Some d"
  shows "uaAddress d = k" "m k = Some (projr (marshalAccount E d), NotSpecified)"
proof -
  from assms(3) obtain v w where v: "m k = Some (v, w)" "k \<notin> codeKeys E" "unmarshalAccount E v = Inr d"
    by (auto simp: accAt_def split: if_splits option.splits sum.splits)
  with assms(2) obtain d' where d': "marshalAccount E d' = Inr v" "uaAddress d' = k" "w = NotSpecified"
    unfolding main_ok_def by (metis (full_types))
  with v(3) marshalAccount_ok [OF assms(1), of d'] have "d' = d" by (metis Inr_inject)
  with v d' show "uaAddress d = k" "m k = Some (projr (marshalAccount E d), NotSpecified)" by auto
qed

lemma codeAt_stored:
  assumes "acc_env_ok E" "main_ok E m" "codeAt E m h = Some c"
  shows "h \<in> codeKeys E" "0 < NumReferences c" "m h = Some (projr (marshalCode E c), NotSpecified)"
proof -
  from assms(3) obtain v w where v: "m h = Some (v, w)" "h \<in> codeKeys E" "unmarshalCode E v = Inr c"
    by (auto simp: codeAt_def split: if_splits option.splits sum.splits)
  with assms(2) obtain c' where c': "marshalCode E c' = Inr v" "0 < NumReferences c'" "w = NotSpecified"
    unfolding main_ok_def by (metis (full_types))
  with v(3) marshalCode_ok [OF assms(1) c'(2)] have "c' = c" by (metis Inr_inject)
  with v c' show "h \<in> codeKeys E" "0 < NumReferences c" "m h = Some (projr (marshalCode E c), NotSpecified)" by auto
qed

lemma codeAt_None:
  assumes "acc_env_ok E" "main_ok E m" "h \<in> codeKeys E" "codeAt E m h = None"
  shows "m h = None"
proof (rule ccontr)
  assume "m h \<noteq> None"
  then obtain v w where v: "m h = Some (v, w)" by auto
  with assms(2,3) obtain c where c: "marshalCode E c = Inr v" "0 < NumReferences c" unfolding main_ok_def by (metis (full_types))
  with marshalCode_ok [OF assms(1) c(2)] have "unmarshalCode E v = Inr c" by (metis Inr_inject)
  with v assms(3,4) show False by (simp add: codeAt_def)
qed

lemma accAt_None:
  assumes "acc_env_ok E" "main_ok E m" "k \<notin> codeKeys E" "accAt E m k = None"
  shows "m k = None"
proof (rule ccontr)
  assume "m k \<noteq> None"
  then obtain v w where v: "m k = Some (v, w)" by auto
  with assms(2,3) obtain d where "marshalAccount E d = Inr v" unfolding main_ok_def by (metis (full_types))
  with marshalAccount_ok [OF assms(1), of d] have "unmarshalAccount E v = Inr d" by (metis Inr_inject)
  with v assms(3,4) show False by (simp add: accAt_def)
qed

lemma main_ok_putAcc:
  assumes "acc_env_ok E" "main_ok E m" "uaAddress d \<notin> codeKeys E" "uaAddress d \<noteq> []"
  shows "main_ok E (putAcc E m d)"
proof -
  obtain b where "marshalAccount E d = Inr b" using marshalAccount_ok [OF assms(1)] by metis
  with assms show ?thesis unfolding main_ok_def putAcc_def by auto
qed

lemma main_ok_putCode:
  assumes "acc_env_ok E" "main_ok E m" "h \<in> codeKeys E" "0 < NumReferences c"
  shows "main_ok E (putCode E m h c)"
proof -
  obtain b where "marshalCode E c = Inr b" using marshalCode_ok [OF assms(1,4)] by metis
  with assms empty_not_codeKey [OF assms(1)] show ?thesis unfolding main_ok_def putCode_def by auto
qed

lemma main_ok_delete: "main_ok E m \<Longrightarrow> main_ok E (m(k := None))"
  unfolding main_ok_def by auto

text \<open>Dropping and adding a reference to a code entry.\<close>

definition decCode :: "accEnv \<Rightarrow> (bytes \<rightharpoonup> entry) \<Rightarrow> bytes \<Rightarrow> (bytes \<rightharpoonup> entry)" where
  "decCode E m h = (case codeAt E m h of
     None \<Rightarrow> m
   | Some c \<Rightarrow> if NumReferences c \<le> 1 then m(h := None) else putCode E m h (c\<lparr>NumReferences := NumReferences c - 1\<rparr>))"

definition incCode :: "accEnv \<Rightarrow> (bytes \<rightharpoonup> entry) \<Rightarrow> bytes \<Rightarrow> bytes \<Rightarrow> (bytes \<rightharpoonup> entry)" where
  "incCode E m h code = (if code = [] then m
     else let c = (case codeAt E m h of None \<Rightarrow> \<lparr>ceCode = code, NumReferences = 0\<rparr> | Some c \<Rightarrow> c)
          in putCode E m h (c\<lparr>NumReferences := NumReferences c + 1\<rparr>))"

lemma dec_positive: "\<not> (x :: 32 word) \<le> 1 \<Longrightarrow> 0 < x - 1"
  by (metis eq_iff_diff_eq_0 order_refl word_gt_0)

lemma inc_above_one:
  fixes x :: "32 word"
  assumes "x + 1 \<noteq> 0" "0 < x"
  shows "\<not> x + 1 \<le> 1"
proof -
  have "unat (x + 1) = Suc (unat x)" using assms(1) by (metis add.commute unatSuc)
  moreover have "0 < unat x" using assms(2) by (simp add: unat_gt_0 word_gt_0)
  ultimately show ?thesis by (simp add: word_le_nat_alt)
qed

lemma main_ok_decCode:
  assumes "acc_env_ok E" "main_ok E m"
  shows "main_ok E (decCode E m h)"
  using assms codeAt_stored [OF assms] dec_positive
  by (auto simp: decCode_def intro: main_ok_delete main_ok_putCode split: option.splits)

lemma codeAt_decCode:
  assumes "acc_env_ok E" "main_ok E m"
  shows "codeAt E (decCode E m h) k = (if k = h then (case codeAt E m h of None \<Rightarrow> None
     | Some c \<Rightarrow> if NumReferences c \<le> 1 then None else Some (c\<lparr>NumReferences := NumReferences c - 1\<rparr>)) else codeAt E m k)"
proof (cases "codeAt E m h")
  case (Some c)
  with codeAt_stored [OF assms Some] show ?thesis by (simp add: decCode_def codeAt_put [OF assms(1)] dec_positive)
qed (simp add: decCode_def)

lemma accAt_decCode: "acc_env_ok E \<Longrightarrow> main_ok E m \<Longrightarrow> accAt E (decCode E m h) k = accAt E m k"
  using codeAt_stored(1) [of E m h] by (auto simp: decCode_def accAt_put split: option.splits)

lemma accAt_incCode: "acc_env_ok E \<Longrightarrow> h \<in> codeKeys E \<or> code = [] \<Longrightarrow> accAt E (incCode E m h code) k = accAt E m k"
  by (auto simp: incCode_def accAt_put Let_def)

lemma decCode_other: "k \<noteq> h \<Longrightarrow> decCode E m h k = m k"
  by (auto simp: decCode_def putCode_def split: option.splits)

lemma incCode_other: "k \<noteq> h \<Longrightarrow> incCode E m h code k = m k"
  by (auto simp: incCode_def putCode_def Let_def split: option.splits)

text \<open>A reference that was added is dropped again, and the entry of the old code written back.\<close>

lemma decCode_incCode:
  assumes "acc_env_ok E" "main_ok E m" "h \<in> codeKeys E" "code \<noteq> []"
    and "\<And>c. codeAt E m h = Some c \<Longrightarrow> NumReferences c \<noteq> - 1"
  shows "decCode E (incCode E m h code) h = m"
proof (cases "codeAt E m h")
  case None
  have "m h = None" using codeAt_None [OF assms(1-3) None] .
  then show ?thesis using None assms(1,3,4)
    by (simp add: incCode_def decCode_def codeAt_put Let_def word_gt_0) (simp add: putCode_def fun_upd_idem)
next
  case (Some c)
  note st = codeAt_stored [OF assms(1,2) Some]
  have "NumReferences c + 1 \<noteq> 0" using assms(5) [OF Some] by (metis add.commute eq_neg_iff_add_eq_0)
  moreover from this have "\<not> NumReferences c + 1 \<le> 1" using st(2) by (rule inc_above_one)
  ultimately show ?thesis using Some assms(1,3,4) st(3)
    by (simp add: incCode_def decCode_def codeAt_put Let_def word_gt_0) (simp add: putCode_def fun_upd_idem)
qed

lemma incCode_commute: "h \<noteq> k \<Longrightarrow> codeAt E (m(k := x)) h = codeAt E m h \<Longrightarrow>
    incCode E (m(k := x)) h code = (incCode E m h code)(k := x)"
  by (auto simp: incCode_def putCode_def Let_def fun_upd_twist)

text \<open>What \<open>saveCode\<close> does to the content and how its journal entry undoes it.\<close>

definition codeChange :: "accEnv \<Rightarrow> (bytes \<rightharpoonup> entry) \<Rightarrow> bytes \<Rightarrow> bytes \<Rightarrow> bytes \<Rightarrow> (bytes \<rightharpoonup> entry)" where
  "codeChange E m oh nh code = incCode E (decCode E m oh) nh code"

definition undoCode :: "accEnv \<Rightarrow> (bytes \<rightharpoonup> entry) \<Rightarrow> codeEntry option \<Rightarrow> bytes \<Rightarrow> bytes \<Rightarrow> (bytes \<rightharpoonup> entry)" where
  "undoCode E m u oh nh =
     decCode E (if oh = [] then m else putCode E m oh (the u)) nh"

lemma undoCode_codeChange:
  assumes "acc_env_ok E" "main_ok E m" "oh \<noteq> nh" "oh = [] \<or> codeAt E m oh \<noteq> None"
    and "if code = [] then nh = [] else nh \<in> codeKeys E"
    and "\<And>c. codeAt E m nh = Some c \<Longrightarrow> NumReferences c \<noteq> - 1"
    and a: "a \<notin> codeKeys E"
  shows "undoCode E ((codeChange E m oh nh code)(a := x)) (codeAt E m oh) oh nh = m(a := x)"
proof -
  let ?d = "decCode E m oh"
  note ok = main_ok_decCode [OF assms(1,2), of oh]
  have cn: "codeAt E ?d nh = codeAt E m nh" using codeAt_decCode [OF assms(1,2)] assms(3) by simp
  have cnil: "codeAt E m' [] = None" for m' using empty_not_codeKey [OF assms(1)] by (simp add: codeAt_def)
  have restored: "decCode E (incCode E ?d nh code) nh = ?d"
  proof (cases "code = []")
    case True
    with assms(5) cnil show ?thesis by (simp add: incCode_def decCode_def)
  next
    case False
    show ?thesis by (rule decCode_incCode [OF assms(1) ok]) (use False assms(5,6) in \<open>simp_all add: cn\<close>)
  qed
  have dec_upd: "decCode E (m'(k := y)) nh = (decCode E m' nh)(k := y)"
    if "k \<noteq> nh" "codeAt E (m'(k := y)) nh = codeAt E m' nh" for m' k y
    using that by (auto simp: decCode_def putCode_def fun_upd_twist split: option.splits)
  have codeA: "codeAt E (m'(a := y)) h = codeAt E m' h" for m' y h using a by (auto simp: codeAt_def)
  have an: "a \<noteq> nh \<or> nh = []" using a assms(5) by (auto split: if_splits)
  have decA: "decCode E (m'(a := y)) nh = (decCode E m' nh)(a := y)" for m' y
  proof (cases "nh = []")
    case True
    with cnil show ?thesis by (simp add: decCode_def)
  next
    case False
    with an codeA show ?thesis by (intro dec_upd) simp_all
  qed
  show ?thesis
  proof (cases "oh = []")
    case True
    then have "?d = m" using cnil by (simp add: decCode_def)
    with True restored decA show ?thesis by (simp add: undoCode_def codeChange_def)
  next
    case False
    then obtain c where c: "codeAt E m oh = Some c" using assms(4) by auto
    note st = codeAt_stored [OF assms(1,2) c]
    have "oh \<noteq> a" using st(1) a by blast
    then have "putCode E ((codeChange E m oh nh code)(a := x)) oh c =
        ((codeChange E m oh nh code)(oh := Some (projr (marshalCode E c), NotSpecified)))(a := x)"
      by (simp add: putCode_def fun_upd_twist)
    moreover have "decCode E ((incCode E ?d nh code)(oh := Some (projr (marshalCode E c), NotSpecified))) nh =
        ?d(oh := Some (projr (marshalCode E c), NotSpecified))"
      using restored assms(3) dec_upd [of oh "incCode E ?d nh code"] codeAt_put(1) [OF assms(1) st(1,2)]
      by (simp add: putCode_def)
    moreover have "?d(oh := Some (projr (marshalCode E c), NotSpecified)) = m"
      using decCode_other [of _ oh E m] st(3) by (auto simp: fun_eq_iff)
    ultimately show ?thesis using False c decA by (simp add: undoCode_def codeChange_def)
  qed
qed

subsection \<open>Reference counts\<close>

lemma users_finite: "finite (dom m) \<Longrightarrow> finite (users E m h)"
  by (rule finite_subset [of _ "dom m"]) (auto simp: users_def accAt_def split: if_splits option.splits)

lemma users_cong: "(\<And>k. accAt E m k = accAt E m' k) \<Longrightarrow> users E m h = users E m' h"
  by (simp add: users_def)

lemma dom_decCode: "acc_env_ok E \<Longrightarrow> main_ok E m \<Longrightarrow> dom (decCode E m h) \<subseteq> dom m"
  using codeAt_stored(3) [of E m h] by (auto simp: decCode_def putCode_def split: option.splits if_splits)

lemma dom_incCode: "dom (incCode E m h code) \<subseteq> insert h (dom m)"
  by (auto simp: incCode_def putCode_def Let_def split: option.splits if_splits)

lemma refs_bound:
  assumes "refs_ok E m" "h \<noteq> []" "codeAt E m h = Some c"
  shows "unat (NumReferences c) = card (users E m h)"
  using assms unfolding refs_ok_def by (metis option.simps(5))

lemma unat_dec: "0 < (x :: 32 word) \<Longrightarrow> unat (x - 1) = unat x - 1"
  by (simp add: unat_minus_one word_gt_0)

lemma count_decCode:
  assumes "acc_env_ok E" "main_ok E m" "codeAt E m h \<noteq> None"
  shows "(case codeAt E (decCode E m h) k of None \<Rightarrow> 0 | Some c \<Rightarrow> unat (NumReferences c)) =
    (case codeAt E m k of None \<Rightarrow> 0 | Some c \<Rightarrow> unat (NumReferences c)) - (if k = h then 1 else (0::nat))"
proof -
  obtain c where c: "codeAt E m h = Some c" using assms(3) by auto
  note st = codeAt_stored [OF assms(1,2) c]
  have "NumReferences c \<le> 1 \<Longrightarrow> unat (NumReferences c) - 1 = 0"
    by (metis diff_is_0_eq' unat_1 word_le_nat_alt)
  then show ?thesis using c st(2) by (auto simp: codeAt_decCode [OF assms(1,2)] unat_dec)
qed

lemma count_incCode:
  assumes "acc_env_ok E" "h \<in> codeKeys E" "code \<noteq> []"
    and "\<And>c. codeAt E m h = Some c \<Longrightarrow> NumReferences c \<noteq> - 1"
  shows "(case codeAt E (incCode E m h code) k of None \<Rightarrow> 0 | Some c \<Rightarrow> unat (NumReferences c)) =
    (case codeAt E m k of None \<Rightarrow> 0 | Some c \<Rightarrow> unat (NumReferences c)) + (if k = h then 1 else (0::nat))"
proof -
  have "unat (x + 1) = unat x + 1" if "x \<noteq> - 1" for x :: "32 word"
    using that by (metis Suc_eq_plus1 add.commute unatSuc eq_neg_iff_add_eq_0)
  moreover have "0 < x + 1" if "x \<noteq> - 1" for x :: "32 word" using that by (metis eq_neg_iff_add_eq_0 word_gt_0)
  ultimately show ?thesis using assms
    by (cases "codeAt E m h") (simp_all add: incCode_def Let_def codeAt_put)
qed

definition storedCodeHash :: "accEnv \<Rightarrow> (bytes \<rightharpoonup> entry) \<Rightarrow> bytes \<Rightarrow> bytes" where
  "storedCodeHash E m a = (case accAt E m a of None \<Rightarrow> [] | Some d \<Rightarrow> uaCodeHash d)"

lemma stored_code_counted:
  assumes "acc_env_ok E" "refs_ok E m" "storedCodeHash E m a \<noteq> []"
  shows "a \<in> users E m (storedCodeHash E m a)" "codeAt E m (storedCodeHash E m a) \<noteq> None"
proof -
  show a: "a \<in> users E m (storedCodeHash E m a)"
    using assms(3) by (auto simp: storedCodeHash_def users_def split: option.splits)
  then have "card (users E m (storedCodeHash E m a)) \<noteq> 0"
    using users_finite [of m E] assms(2) by (auto simp: refs_ok_def card_eq_0_iff)
  then show "codeAt E m (storedCodeHash E m a) \<noteq> None"
    using assms(2,3) unfolding refs_ok_def by (metis option.simps(4))
qed

lemma few_references:
  assumes "refs_ok E m" "card (dom m) < 2 ^ 32 - 1" "h \<noteq> []" "codeAt E m h = Some c"
  shows "NumReferences c \<noteq> - 1"
proof -
  have "card (users E m h) \<le> card (dom m)"
    using assms(1) by (intro card_mono) (auto simp: refs_ok_def users_def accAt_def split: if_splits option.splits)
  then have "unat (NumReferences c) < 2 ^ 32 - 1" using refs_bound [OF assms(1,3,4)] assms(2) by simp
  moreover have "unat (- 1 :: 32 word) = 2 ^ 32 - 1"
    by (simp add: unsigned_minus_1_eq_mask mask_eq_exp_minus_1)
  ultimately have "unat (NumReferences c) \<noteq> unat (- 1 :: 32 word)" by linarith
  then show ?thesis by auto
qed

text \<open>Saving an account whose code hash changes from the stored one to a new one keeps the counts.\<close>

lemma refs_ok_save:
  assumes ok: "acc_env_ok E" "main_ok E m" "refs_ok E m" and few: "card (dom m) < 2 ^ 32 - 1"
    and a: "a = uaAddress d" "a \<notin> codeKeys E"
    and m1: "m1 = (if uaCodeHash d = storedCodeHash E m a then m
      else codeChange E m (storedCodeHash E m a) (uaCodeHash d) code)"
    and code: "uaCodeHash d \<noteq> storedCodeHash E m a \<Longrightarrow> if code = [] then uaCodeHash d = [] else uaCodeHash d \<in> codeKeys E"
  shows "refs_ok E (putAcc E m1 d)"
proof -
  let ?o = "storedCodeHash E m a" and ?n = "uaCodeHash d"
  let ?count = "\<lambda>m h. case codeAt E m h of None \<Rightarrow> 0 | Some c \<Rightarrow> unat (NumReferences c)"
  have fin: "finite (dom m)" using ok(3) by (simp add: refs_ok_def)
  have cnil: "codeAt E m' [] = None" for m' using empty_not_codeKey [OF ok(1)] by (simp add: codeAt_def)
  have acc: "accAt E m1 k = accAt E m k" for k
    using code accAt_incCode [OF ok(1)] accAt_decCode [OF ok(1,2)] by (auto simp: m1 codeChange_def split: if_splits)
  have us: "users E (putAcc E m1 d) h = (if h = ?n then insert a (users E m h) else users E m h - {a})" for h
    using a acc by (auto simp: users_def accAt_put [OF ok(1)])
  have ain: "a \<in> users E m h \<longleftrightarrow> h = ?o" if "h \<noteq> []" for h
    using that by (auto simp: users_def storedCodeHash_def split: option.splits)
  have cnt: "?count m1 h = (if ?n = ?o then ?count m h else ?count m h + (if h = ?n then 1 else 0) - (if h = ?o then 1 else 0))"
    if h: "h \<noteq> []" for h
  proof (cases "?n = ?o")
    case False
    have dec: "?count (decCode E m ?o) h = ?count m h - (if h = ?o then 1 else 0)"
    proof (cases "?o = []")
      case True
      with h cnil show ?thesis by (simp add: decCode_def)
    next
      case ne: False
      from count_decCode [OF ok(1,2) stored_code_counted(2) [OF ok(1,3) ne]] show ?thesis .
    qed
    show ?thesis
    proof (cases "code = []")
      case True
      with code False h dec show ?thesis by (simp add: m1 codeChange_def incCode_def)
    next
      case ne: False
      have nk: "?n \<in> codeKeys E" using code False ne by simp
      have "?n \<noteq> []" using nk empty_not_codeKey [OF ok(1)] by metis
      then have "NumReferences c \<noteq> - 1" if "codeAt E (decCode E m ?o) ?n = Some c" for c
        using that False few_references [OF ok(3) few] codeAt_decCode [OF ok(1,2)] by auto
      from count_incCode [OF ok(1) nk ne this, where k = h] dec False show ?thesis by (auto simp: m1 codeChange_def)
    qed
  qed (simp add: m1)
  have "card (users E (putAcc E m1 d) h) = ?count (putAcc E m1 d) h" if h: "h \<noteq> []" for h
  proof -
    have old: "card (users E m h) = ?count m h" using ok(3) h by (simp add: refs_ok_def)
    have pos: "0 < card (users E m h)" if "h = ?o"
      using ain [OF h] that users_finite [OF fin] by (auto simp: card_gt_0_iff)
    have "?count (putAcc E m1 d) h = ?count m1 h" using a codeAt_put(2) [OF ok(1)] by simp
    also have "\<dots> = (if ?n = ?o then card (users E m h)
        else card (users E m h) + (if h = ?n then 1 else 0) - (if h = ?o then 1 else 0))"
      using cnt [OF h] old by simp
    also have "\<dots> = card (if h = ?n then insert a (users E m h) else users E m h - {a})"
      using pos ain [OF h] users_finite [OF fin, of E h]
      by (cases "?n = ?o"; cases "h = ?n"; cases "h = ?o") (simp_all add: insert_absorb)
    finally show ?thesis using us [of h] by simp
  qed
  moreover have "finite (dom (putAcc E m1 d))"
    using fin dom_incCode dom_decCode [OF ok(1,2)]
    by (auto simp: putAcc_def m1 codeChange_def intro: finite_subset) (meson finite.insertI finite_subset)
  ultimately show ?thesis by (simp add: refs_ok_def)
qed

lemma refs_ok_remove:
  assumes ok: "acc_env_ok E" "main_ok E m" "refs_ok E m" and a: "a \<notin> codeKeys E"
  shows "refs_ok E ((decCode E m (storedCodeHash E m a))(a := None))"
proof -
  let ?o = "storedCodeHash E m a"
  let ?m = "(decCode E m ?o)(a := None)"
  let ?count = "\<lambda>m h. case codeAt E m h of None \<Rightarrow> 0 | Some c \<Rightarrow> unat (NumReferences c)"
  have fin: "finite (dom m)" using ok(3) by (simp add: refs_ok_def)
  have us: "users E ?m h = users E m h - {a}" for h
    using a accAt_decCode [OF ok(1,2)] by (auto simp: users_def accAt_put [OF ok(1)])
  have "card (users E ?m h) = ?count ?m h" if h: "h \<noteq> []" for h
  proof -
    have old: "card (users E m h) = ?count m h" using ok(3) h by (simp add: refs_ok_def)
    have ain: "a \<in> users E m h \<longleftrightarrow> h = ?o"
      using h by (auto simp: users_def storedCodeHash_def split: option.splits)
    have "?count ?m h = ?count (decCode E m ?o) h" using a codeAt_put(4) [OF ok(1)] by simp
    also have "\<dots> = ?count m h - (if h = ?o then 1 else 0)"
    proof (cases "?o = []")
      case True
      moreover have "codeAt E m [] = None" using empty_not_codeKey [OF ok(1)] by (simp add: codeAt_def)
      ultimately show ?thesis using h by (simp add: decCode_def)
    next
      case False
      from count_decCode [OF ok(1,2) stored_code_counted(2) [OF ok(1,3) False]] show ?thesis .
    qed
    finally have "?count ?m h = card (users E m h) - (if h = ?o then 1 else 0)" using old by simp
    also have "\<dots> = card (users E m h - {a})"
      using ain users_finite [OF fin, of E h] by (cases "h = ?o") simp_all
    finally show ?thesis using us [of h] by simp
  qed
  moreover have "finite (dom ?m)" using fin dom_decCode [OF ok(1,2)] by (auto intro: finite_subset)
  ultimately show ?thesis by (simp add: refs_ok_def)
qed

end
