(* ===== verification/Accounts_Journal.thy ===== *)
theory Accounts_Journal
  imports Accounts_Content
begin

text \<open>
  The state of the accounts database read through the contents of its tries, and what its journal promises:
  \<open>undoes\<close> says that a list of entries leads from any later state with the given contents back to the earlier
  contents. The lemmas on the operations are proved in the context of \<open>trie_laws\<close>.
\<close>

subsection \<open>The state\<close>

definition obj_ok :: "accEnv \<Rightarrow> bytes set \<Rightarrow> nat \<Rightarrow> userAccount \<Rightarrow> bool" where
  "obj_ok E K n a \<longleftrightarrow> AddressBytes a \<notin> codeKeys E \<and> AddressBytes a \<noteq> [] \<and> dirty_ok (tdtEnvOf E) K (accDirty a) \<and>
     (\<forall>p. accTrie a = Some p \<longrightarrow> p < n)"

text \<open>What the tries of a state hold: the main trie \<open>m\<close> and the data tries \<open>cs\<close>.\<close>

definition views :: "('db \<Rightarrow> (bytes \<rightharpoonup> entry) \<Rightarrow> 't \<Rightarrow> bool) \<Rightarrow> (bytes \<rightharpoonup> entry) \<Rightarrow> (bytes \<rightharpoonup> entry) list \<Rightarrow>
    ('db, 't) accountsDB \<Rightarrow> bool" where
  "views con m cs adb \<longleftrightarrow> con (storage adb) m (mainTrie adb) \<and> list_all2 (con (storage adb)) cs (tries adb)"

definition adb_inv :: "('db \<Rightarrow> (bytes \<rightharpoonup> entry) \<Rightarrow> 't \<Rightarrow> bool) \<Rightarrow> accEnv \<Rightarrow> bytes set \<Rightarrow> (bytes \<rightharpoonup> entry) \<Rightarrow>
    (bytes \<rightharpoonup> entry) list \<Rightarrow> ('db, 't) accountsDB \<Rightarrow> bool" where
  "adb_inv con E K m cs adb \<longleftrightarrow> views con m cs adb \<and> main_ok E m \<and> refs_ok E m \<and>
     (\<forall>c \<in> set cs. content_ok (tdtEnvOf E) K c) \<and> (\<forall>a \<in> set (objects adb). obj_ok E K (length cs) a) \<and>
     (\<forall>p \<in> snd ` set (dataTries adb). p < length cs)"

text \<open>The part of it that does not concern the main trie.\<close>

definition shape :: "accEnv \<Rightarrow> bytes set \<Rightarrow> (bytes \<rightharpoonup> entry) list \<Rightarrow> ('db, 't) accountsDB \<Rightarrow> bool" where
  "shape E K cs adb \<longleftrightarrow> (\<forall>c \<in> set cs. content_ok (tdtEnvOf E) K c) \<and> (\<forall>a \<in> set (objects adb). obj_ok E K (length cs) a) \<and>
     (\<forall>p \<in> snd ` set (dataTries adb). p < length cs)"

lemma adb_inv_shape: "adb_inv con E K m cs adb \<longleftrightarrow> views con m cs adb \<and> main_ok E m \<and> refs_ok E m \<and> shape E K cs adb"
  by (simp add: adb_inv_def shape_def)

lemma shape_same: "objects b = objects a \<Longrightarrow> dataTries b = dataTries a \<Longrightarrow> shape E K cs b = shape E K cs a"
  by (simp add: shape_def)

text \<open>Objects are never moved: they keep their address and, once they have one, their data trie.\<close>

definition objs_kept :: "('db, 't) accountsDB \<Rightarrow> ('db, 't) accountsDB \<Rightarrow> bool" where
  "objs_kept a b \<longleftrightarrow> storage b = storage a \<and> length (objects a) \<le> length (objects b) \<and>
     (\<forall>r < length (objects a). AddressBytes (objects b ! r) = AddressBytes (objects a ! r) \<and>
        (\<forall>p. accTrie (objects a ! r) = Some p \<longrightarrow> accTrie (objects b ! r) = Some p))"

lemma objs_kept_refl [simp]: "objs_kept a a"
  by (simp add: objs_kept_def)

lemma objs_kept_trans: "objs_kept a b \<Longrightarrow> objs_kept b c \<Longrightarrow> objs_kept a c"
  unfolding objs_kept_def by (metis le_trans order_less_le_trans)

lemma objs_kept_same: "objects b = objects a \<Longrightarrow> storage b = storage a \<Longrightarrow> objs_kept a b"
  by (simp add: objs_kept_def)

lemma objs_kept_mod:
  assumes "\<And>a. AddressBytes (f a) = AddressBytes a" "\<And>a p. accTrie a = Some p \<Longrightarrow> accTrie (f a) = Some p"
  shows "objs_kept adb (modObject r f adb)"
  unfolding objs_kept_def
proof (intro conjI allI impI)
  fix i assume i: "i < length (objects adb)"
  show "AddressBytes (objects (modObject r f adb) ! i) = AddressBytes (objects adb ! i)"
    using i assms(1) by (cases "i = r") (simp_all add: modObject_def)
  fix p assume "accTrie (objects adb ! i) = Some p"
  then show "accTrie (objects (modObject r f adb) ! i) = Some p"
    using i assms(2) by (cases "i = r") (simp_all add: modObject_def)
qed (simp_all add: modObject_def)

lemma views_length: "views con m cs adb \<Longrightarrow> length (tries adb) = length cs"
  by (auto simp: views_def dest: list_all2_lengthD)

lemma views_main [simp]: "views con m cs (adb\<lparr>mainTrie := t\<rparr>) \<longleftrightarrow> con (storage adb) m t \<and> list_all2 (con (storage adb)) cs (tries adb)"
  by (simp add: views_def)

lemma views_cong: "mainTrie b = mainTrie a \<Longrightarrow> tries b = tries a \<Longrightarrow> storage b = storage a \<Longrightarrow> views con m cs b = views con m cs a"
  by (simp add: views_def)

lemma views_setTrie:
  "views con m cs adb \<Longrightarrow> p < length cs \<Longrightarrow> con (storage adb) c t \<Longrightarrow> views con m (cs[p := c]) (setTrie p t adb)"
  by (auto simp: views_def setTrie_def intro: list_all2_update_cong)

lemma views_newTrie: "views con m cs adb \<Longrightarrow> con (storage adb) c t \<Longrightarrow> views con m (cs @ [c]) (fst (newTrie t adb))"
  by (auto simp: views_def newTrie_def list_all2_appendI)

text \<open>What an entry list promises: from any later state with the given contents it leads back.\<close>

definition undoes :: "('db \<Rightarrow> (bytes \<rightharpoonup> entry) \<Rightarrow> 't \<Rightarrow> bool) \<Rightarrow> accEnv \<Rightarrow> bytes set \<Rightarrow> ('db, 't) trieOps \<Rightarrow> journalEntry list \<Rightarrow>
    ('db, 't) accountsDB \<Rightarrow> (bytes \<rightharpoonup> entry) \<times> (bytes \<rightharpoonup> entry) list \<Rightarrow> (bytes \<rightharpoonup> entry) \<times> (bytes \<rightharpoonup> entry) list \<Rightarrow> bool" where
  "undoes con E K T es adb' after before \<longleftrightarrow>
     (\<forall>b more. objs_kept adb' b \<and> views con (fst after) (snd after @ more) b \<and> shape E K (snd after @ more) b \<longrightarrow>
       (\<exists>b' more'. revertEntries E T (rev es) b = (b', Inr ()) \<and> objs_kept b b' \<and> entries b' = entries b \<and>
          views con (fst before) (snd before @ more') b' \<and> shape E K (snd before @ more') b'))"

lemma revertEntries_append:
  "revertEntries E T (es @ fs) adb = andThen (revertEntries E T es adb) (\<lambda>adb _. revertEntries E T fs adb)"
proof (induction es arbitrary: adb)
  case (Cons e es)
  have assoc: "andThen (andThen r f) g = andThen r (\<lambda>s a. andThen (f s a) g)" for r :: "('a, 'b) accountsDB \<times> (state_error + 'c)"
      and f :: "('a, 'b) accountsDB \<Rightarrow> 'c \<Rightarrow> ('a, 'b) accountsDB \<times> (state_error + unit)"
      and g :: "('a, 'b) accountsDB \<Rightarrow> unit \<Rightarrow> ('a, 'b) accountsDB \<times> (state_error + unit)"
    by (auto simp: andThen_def split: prod.splits sum.splits)
  show ?case by (simp add: Cons assoc)
qed simp

lemma undoes_append:
  assumes "undoes con E K T es adb1 s1 s0" "undoes con E K T fs adb2 s2 s1" "objs_kept adb1 adb2"
  shows "undoes con E K T (es @ fs) adb2 s2 s0"
  unfolding undoes_def
proof (intro allI impI)
  fix b more assume b: "objs_kept adb2 b \<and> views con (fst s2) (snd s2 @ more) b \<and> shape E K (snd s2 @ more) b"
  then obtain b1 more1 where b1: "revertEntries E T (rev fs) b = (b1, Inr ())" "objs_kept b b1" "entries b1 = entries b"
      "views con (fst s1) (snd s1 @ more1) b1" "shape E K (snd s1 @ more1) b1" using assms(2) unfolding undoes_def by blast
  moreover have "objs_kept adb1 b1" using assms(3) b b1(2) by (meson objs_kept_trans)
  ultimately obtain b2 more2 where b2: "revertEntries E T (rev es) b1 = (b2, Inr ())" "objs_kept b1 b2" "entries b2 = entries b1"
      "views con (fst s0) (snd s0 @ more2) b2" "shape E K (snd s0 @ more2) b2" using assms(1) unfolding undoes_def by blast
  show "\<exists>b' more'. revertEntries E T (rev (es @ fs)) b = (b', Inr ()) \<and> objs_kept b b' \<and> entries b' = entries b \<and>
      views con (fst s0) (snd s0 @ more') b' \<and> shape E K (snd s0 @ more') b'"
    using b1 b2 by (intro exI [of _ b2] exI [of _ more2]) (auto simp: revertEntries_append intro: objs_kept_trans)
qed

lemma undoes_Nil: "undoes con E K T [] adb (m, cs @ new) (m, cs)"
  unfolding undoes_def by auto

subsection \<open>Operations on the main trie\<close>

text \<open>An operation that touches only the main trie: its answer, and the content it leaves.\<close>

definition main_step :: "('db \<Rightarrow> (bytes \<rightharpoonup> entry) \<Rightarrow> 't \<Rightarrow> bool) \<Rightarrow> ('db, 't) accountsDB \<Rightarrow> ('db, 't, 'a) adb_result \<Rightarrow> 'a \<Rightarrow>
    (bytes \<rightharpoonup> entry) \<Rightarrow> (bytes \<rightharpoonup> entry) list \<Rightarrow> bool" where
  "main_step con adb r x m cs \<longleftrightarrow> (\<exists>t. r = (adb\<lparr>mainTrie := t\<rparr>, Inr x) \<and> views con m cs (adb\<lparr>mainTrie := t\<rparr>))"

lemma main_step_bind:
  assumes "main_step con adb r x m1 cs"
    and "\<And>adb'. views con m1 cs adb' \<Longrightarrow> main_step con adb' (f adb' x) y m2 cs"
  shows "main_step con adb (andThen r f) y m2 cs"
proof -
  obtain t where t: "r = (adb\<lparr>mainTrie := t\<rparr>, Inr x)" "views con m1 cs (adb\<lparr>mainTrie := t\<rparr>)"
    using assms(1) by (auto simp: main_step_def)
  with assms(2) [OF t(2)] show ?thesis by (auto simp: main_step_def)
qed

lemma main_step_return: "views con m cs adb \<Longrightarrow> main_step con adb (adb, Inr x) x m cs"
  by (auto simp: main_step_def views_def intro!: exI [of _ "mainTrie adb"])

lemma main_step_obtain:
  assumes "main_step con adb r x m cs"
  obtains adb' where "r = (adb', Inr x)" "views con m cs adb'" "objects adb' = objects adb" "tries adb' = tries adb"
    "storage adb' = storage adb" "entries adb' = entries adb" "dataTries adb' = dataTries adb"
    "obsoleteDataTrieHashes adb' = obsoleteDataTrieHashes adb"
  using assms by (auto simp: main_step_def)

context trie_laws
begin

lemma mainGet_con: "views con m cs adb \<Longrightarrow> main_step con adb (mainGet T k adb) (map_option fst (m k)) m cs"
  using get_con [of "storage adb" m "mainTrie adb" k] by (auto simp: main_step_def mainGet_def views_def)

lemma mainUpdate_con:
  assumes "views con m cs adb" "main_ok E m" "v \<noteq> []"
  shows "main_step con adb (mainUpdate T k v adb) () (m(k \<mapsto> (v, NotSpecified))) cs"
proof -
  have "pput (m k) v NotSpecified = (v, NotSpecified)"
    using assms(2) by (cases "m k") (auto simp: main_ok_def pput_def)
  then show ?thesis
    using update_con [of "storage adb" m "mainTrie adb" v k NotSpecified] assms(1,3)
    by (auto simp: main_step_def mainUpdate_def liftTrie_def views_def update_unversioned)
qed

lemma mainUpdate_empty: "views con m cs adb \<Longrightarrow> main_step con adb (mainUpdate T k [] adb) () (m(k := None)) cs"
  using update_empty [of "storage adb" m "mainTrie adb" k NotSpecified]
  by (auto simp: main_step_def mainUpdate_def liftTrie_def views_def update_unversioned)

lemma mainDelete_con: "views con m cs adb \<Longrightarrow> main_step con adb (mainDelete T k adb) () (m(k := None)) cs"
  using delete_con [of "storage adb" m "mainTrie adb" k] by (auto simp: main_step_def mainDelete_def liftTrie_def views_def)

lemma saveAccountToTrie_con:
  assumes "views con m cs adb" "main_ok E m" "acc_env_ok E"
  shows "main_step con adb (saveAccountToTrie E T d adb) () (putAcc E m d) cs"
proof -
  obtain b where b: "marshalAccount E d = Inr b" "b \<noteq> []" using marshalAccount_ok [OF assms(3)] by metis
  with mainUpdate_con [OF assms(1,2) b(2), of "uaAddress d"] show ?thesis by (simp add: saveAccountToTrie_def putAcc_def)
qed

lemma saveCodeEntry_con:
  assumes "views con m cs adb" "main_ok E m" "acc_env_ok E" "0 < NumReferences c"
  shows "main_step con adb (saveCodeEntry E T h c adb) () (putCode E m h c) cs"
proof -
  obtain b where b: "marshalCode E c = Inr b" "b \<noteq> []" using marshalCode_ok [OF assms(3,4)] by metis
  with mainUpdate_con [OF assms(1,2) b(2), of h] show ?thesis by (simp add: saveCodeEntry_def putCode_def)
qed

lemma getAccount_con:
  assumes "views con m cs adb" "main_ok E m" "acc_env_ok E" "k \<notin> codeKeys E" "k \<noteq> []"
  shows "main_step con adb (getAccount E T k adb) (accAt E m k) m cs"
  unfolding getAccount_def
proof (rule main_step_bind [OF mainGet_con [OF assms(1)]])
  fix adb' assume v: "views con m cs adb'"
  show "main_step con adb' (case map_option fst (m k) of None \<Rightarrow> (adb', Inr None)
     | Some val \<Rightarrow> (case NewUserAccount k of Inl e \<Rightarrow> (adb', Inl e)
       | Inr _ \<Rightarrow> (case unmarshalAccount E val of Inl e \<Rightarrow> (adb', Inl e) | Inr d \<Rightarrow> (adb', Inr (Some d))))) (accAt E m k) m cs"
  proof (cases "accAt E m k")
    case None
    then show ?thesis using accAt_None [OF assms(3,2,4) None] main_step_return [OF v] by simp
  next
    case (Some d)
    then show ?thesis using main_step_return [OF v] assms(5)
      by (auto simp: accAt_def NewUserAccount_def split: if_splits option.splits sum.splits)
  qed
qed

lemma getCodeEntry_con:
  assumes "views con m cs adb" "main_ok E m" "acc_env_ok E" "h \<in> codeKeys E \<or> h = []"
  shows "main_step con adb (getCodeEntry E T h adb) (codeAt E m h) m cs"
  unfolding getCodeEntry_def
proof (rule main_step_bind [OF mainGet_con [OF assms(1)]])
  fix adb' assume v: "views con m cs adb'"
  show "main_step con adb' (if length (slice (map_option fst (m h))) = 0 then (adb', Inr None)
     else (case unmarshalCode E (slice (map_option fst (m h))) of Inl e \<Rightarrow> (adb', Inl e) | Inr c \<Rightarrow> (adb', Inr (Some c))))
     (codeAt E m h) m cs"
  proof (cases "codeAt E m h")
    case None
    have "m h = None"
    proof (cases "h = []")
      case True
      then show ?thesis using assms(2) by (cases "m h") (auto simp: main_ok_def)
    next
      case False
      then show ?thesis using codeAt_None [OF assms(3,2) _ None] assms(4) by blast
    qed
    with None main_step_return [OF v] show ?thesis by simp
  next
    case (Some c)
    obtain b where "marshalCode E c = Inr b" "b \<noteq> []" "unmarshalCode E b = Inr c"
      using marshalCode_ok [OF assms(3) codeAt_stored(2) [OF assms(3,2) Some]] by metis
    with Some codeAt_stored(3) [OF assms(3,2) Some] main_step_return [OF v] show ?thesis by simp
  qed
qed

lemma updateOldCodeEntry_con:
  assumes "views con m cs adb" "main_ok E m" "acc_env_ok E" "h \<in> codeKeys E \<or> h = []"
  shows "main_step con adb (updateOldCodeEntry E T h adb) (codeAt E m h) (decCode E m h) cs"
  unfolding updateOldCodeEntry_def
proof (rule main_step_bind [OF getCodeEntry_con [OF assms]])
  fix adb' assume v: "views con m cs adb'"
  show "main_step con adb' (case codeAt E m h of None \<Rightarrow> (adb', Inr None)
   | Some c \<Rightarrow> if NumReferences c \<le> 1 then andThen (mainDelete T h adb') (\<lambda>adb _. (adb, Inr (Some c)))
       else andThen (saveCodeEntry E T h (c\<lparr>NumReferences := NumReferences c - 1\<rparr>) adb') (\<lambda>adb _. (adb, Inr (Some c))))
     (codeAt E m h) (decCode E m h) cs"
  proof (cases "codeAt E m h")
    case (Some c)
    have "main_step con adb' (andThen (saveCodeEntry E T h (c\<lparr>NumReferences := NumReferences c - 1\<rparr>) adb') (\<lambda>adb _. (adb, Inr (Some c))))
        (Some c) (putCode E m h (c\<lparr>NumReferences := NumReferences c - 1\<rparr>)) cs" if "\<not> NumReferences c \<le> 1"
      by (rule main_step_bind [OF saveCodeEntry_con [OF v assms(2,3)] main_step_return]) (simp add: dec_positive that)
    moreover have "main_step con adb' (andThen (mainDelete T h adb') (\<lambda>adb _. (adb, Inr (Some c)))) (Some c) (m(h := None)) cs"
      by (rule main_step_bind [OF mainDelete_con [OF v]], rule main_step_return)
    ultimately show ?thesis using Some by (simp add: decCode_def)
  qed (use main_step_return [OF v] in \<open>simp add: decCode_def\<close>)
qed

lemma updateNewCodeEntry_con:
  assumes "views con m cs adb" "main_ok E m" "acc_env_ok E" "code = [] \<or> h \<in> codeKeys E"
    and "\<And>c. code \<noteq> [] \<Longrightarrow> codeAt E m h = Some c \<Longrightarrow> NumReferences c \<noteq> - 1"
  shows "main_step con adb (updateNewCodeEntry E T h code adb) () (incCode E m h code) cs"
proof (cases "code = []")
  case True
  with main_step_return [OF assms(1)] show ?thesis by (simp add: updateNewCodeEntry_def incCode_def)
next
  case False
  let ?c = "case codeAt E m h of None \<Rightarrow> \<lparr>ceCode = code, NumReferences = 0\<rparr> | Some c \<Rightarrow> c"
  have "NumReferences ?c + 1 \<noteq> 0" using assms(5) [OF False]
    by (cases "codeAt E m h") (simp_all add: eq_neg_iff_add_eq_0 [symmetric])
  then have pos: "0 < NumReferences (?c\<lparr>NumReferences := NumReferences ?c + 1\<rparr>)" by (simp add: word_gt_0)
  have h: "h \<in> codeKeys E \<or> h = []" using False assms(4) by blast
  have "main_step con adb (andThen (getCodeEntry E T h adb) (\<lambda>adb co.
      let c = (case co of None \<Rightarrow> \<lparr>ceCode = code, NumReferences = 0\<rparr> | Some c \<Rightarrow> c)
      in saveCodeEntry E T h (c\<lparr>NumReferences := NumReferences c + 1\<rparr>) adb)) ()
      (putCode E m h (?c\<lparr>NumReferences := NumReferences ?c + 1\<rparr>)) cs"
    unfolding Let_def by (rule main_step_bind [OF getCodeEntry_con [OF assms(1-3) h]], rule saveCodeEntry_con [OF _ assms(2,3) pos])
  with False show ?thesis by (simp add: updateNewCodeEntry_def incCode_def Let_def)
qed

lemma revertCode_con:
  assumes "views con m cs adb" "main_ok E m" "acc_env_ok E" "oh \<noteq> nh" "nh \<in> codeKeys E \<or> nh = []"
    and "oh = [] \<or> oh \<in> codeKeys E \<and> (\<exists>c. u = Some c \<and> 0 < NumReferences c)"
  shows "main_step con adb (Revert E T (JournalEntryCode u oh nh) adb) None (undoCode E m u oh nh) cs"
proof -
  let ?m = "if oh = [] then m else putCode E m oh (the u)"
  have m: "main_ok E ?m" using assms(2,3,6) by (auto intro: main_ok_putCode)
  have old: "main_step con adb (revertOldCodeEntry E T u oh adb) () ?m cs"
    using assms(6) main_step_return [OF assms(1)] saveCodeEntry_con [OF assms(1-3)] by (auto simp: revertOldCodeEntry_def)
  have new: "main_step con adb' (revertNewCodeEntry E T nh adb') () (decCode E ?m nh) cs" if "views con ?m cs adb'" for adb'
    unfolding revertNewCodeEntry_def
  proof (rule main_step_bind [OF getCodeEntry_con [OF that m assms(3,5)]])
    fix b assume v: "views con ?m cs b"
    show "main_step con b (case codeAt E ?m nh of None \<Rightarrow> (b, Inr ())
       | Some c \<Rightarrow> if NumReferences c \<le> 1 then mainUpdate T nh [] b
           else saveCodeEntry E T nh (c\<lparr>NumReferences := NumReferences c - 1\<rparr>) b) () (decCode E ?m nh) cs"
      using main_step_return [OF v] mainUpdate_empty [OF v] saveCodeEntry_con [OF v m assms(3)]
      by (auto simp: decCode_def dec_positive split: option.splits)
  qed
  have "main_step con adb (andThen (revertOldCodeEntry E T u oh adb) (\<lambda>adb _.
        andThen (revertNewCodeEntry E T nh adb) (\<lambda>adb _. (adb, Inr None)))) None (decCode E ?m nh) cs"
    by (rule main_step_bind [OF old], rule main_step_bind [OF new], assumption, rule main_step_return)
  with assms(4) show ?thesis by (simp add: undoCode_def)
qed

end

subsection \<open>Data tries\<close>

lemma modObject_simps [simp]:
  "mainTrie (modObject r f adb) = mainTrie adb" "tries (modObject r f adb) = tries adb" "entries (modObject r f adb) = entries adb"
  "storage (modObject r f adb) = storage adb" "dataTries (modObject r f adb) = dataTries adb"
  "length (objects (modObject r f adb)) = length (objects adb)"
  by (simp_all add: modObject_def)

lemma setTrie_simps [simp]:
  "mainTrie (setTrie p t adb) = mainTrie adb" "objects (setTrie p t adb) = objects adb" "entries (setTrie p t adb) = entries adb"
  "storage (setTrie p t adb) = storage adb" "dataTries (setTrie p t adb) = dataTries adb"
  by (simp_all add: setTrie_def)

lemma modObject_nth: "r < length (objects adb) \<Longrightarrow> objects (modObject r f adb) ! r = f (objects adb ! r)"
  by (simp add: modObject_def)

lemma set_modObject: "set (objects (modObject r f adb)) \<subseteq> insert (f (objects adb ! r)) (set (objects adb))"
  by (simp add: modObject_def set_update_subset_insert)

lemma hash_setters [simp]:
  "AddressBytes (SetRootHash h a) = AddressBytes a" "accTrie (SetRootHash h a) = accTrie a" "accDirty (SetRootHash h a) = accDirty a"
  "AddressBytes (SetCodeHash h a) = AddressBytes a" "accTrie (SetCodeHash h a) = accTrie a" "accDirty (SetCodeHash h a) = accDirty a"
  "uaCodeHash (accData (SetCodeHash h a)) = h" "uaCodeHash (accData (SetRootHash h a)) = uaCodeHash (accData a)"
  "hasNewCode (SetRootHash h a) = hasNewCode a" "accCode (SetRootHash h a) = accCode a"
  by (simp_all add: SetRootHash_def SetCodeHash_def modData_def AddressBytes_def)

lemma obj_ok_mono: "obj_ok E K n a \<Longrightarrow> n \<le> n' \<Longrightarrow> obj_ok E K n' a"
  by (auto simp: obj_ok_def)

text \<open>The state after the dirty data of object \<open>r\<close> went into the data trie \<open>p\<close>, which may be a new one.\<close>

definition flushed :: "nat \<Rightarrow> nat \<Rightarrow> 't \<Rightarrow> ('db, 't) accountsDB \<Rightarrow> ('db, 't) accountsDB" where
  "flushed r p t adb = adb\<lparr>objects := (objects adb)[r := (objects adb ! r)\<lparr>accDirty := [], accTrie := Some p\<rparr>],
     tries := (if p < length (tries adb) then (tries adb)[p := t] else tries adb @ [t])\<rparr>"

lemma kept_flushed:
  assumes "r < length (objects adb)" "\<And>q. accTrie (objects adb ! r) = Some q \<Longrightarrow> p = q"
  shows "objs_kept adb (flushed r p t adb)"
  unfolding objs_kept_def
proof (intro conjI allI impI)
  fix i assume i: "i < length (objects adb)"
  show "AddressBytes (objects (flushed r p t adb) ! i) = AddressBytes (objects adb ! i)"
    using i by (cases "i = r") (simp_all add: flushed_def AddressBytes_def)
  fix q assume "accTrie (objects adb ! i) = Some q"
  then show "accTrie (objects (flushed r p t adb) ! i) = Some q"
    using i assms(2) by (cases "i = r") (simp_all add: flushed_def)
qed (simp_all add: flushed_def)

lemma views_flushed:
  assumes "views con m cs adb" "p \<le> length cs" "new = (if p < length cs then [] else [Map.empty])" "con (storage adb) c t"
  shows "views con m ((cs @ new)[p := c]) (flushed r p t adb)"
proof (cases "p < length cs")
  case True
  with assms views_length [OF assms(1)] show ?thesis
    by (auto simp: views_def flushed_def intro: list_all2_update_cong)
next
  case False
  with assms(2) have "p = length cs" by simp
  with assms views_length [OF assms(1)] show ?thesis by (simp add: views_def flushed_def list_all2_appendI)
qed

lemma inv_flushed:
  assumes inv: "adb_inv con E K m cs adb" and r: "r < length (objects adb)" and p: "p \<le> length cs"
    and new: "new = (if p < length cs then [] else [Map.empty])" and c: "con (storage adb) c t" "content_ok (tdtEnvOf E) K c"
  shows "adb_inv con E K m ((cs @ new)[p := c]) (flushed r p t adb)"
proof -
  let ?cs = "(cs @ new)[p := c]" and ?b = "flushed r p t adb" and ?a = "(objects adb ! r)\<lparr>accDirty := [], accTrie := Some p\<rparr>"
  have len: "length cs \<le> length ?cs" "p < length ?cs" using p by (auto simp: new)
  have "content_ok (tdtEnvOf E) K Map.empty" by (simp add: content_ok_def data_ok_def)
  then have "\<forall>x \<in> set ?cs. content_ok (tdtEnvOf E) K x"
    using inv c(2) set_update_subset_insert [of "cs @ new" p c] by (auto simp: adb_inv_def new split: if_splits)
  moreover have "obj_ok E K (length ?cs) x" if "x \<in> set (objects ?b)" for x
  proof -
    have "x = ?a \<or> x \<in> set (objects adb)"
      using that set_update_subset_insert [of "objects adb" r ?a] by (auto simp: flushed_def)
    moreover have "obj_ok E K (length ?cs) ?a"
      using inv r len(2) by (auto simp: adb_inv_def obj_ok_def dirty_ok_def AddressBytes_def)
    moreover have "obj_ok E K (length ?cs) y" if "y \<in> set (objects adb)" for y
      using inv that obj_ok_mono [OF _ len(1)] by (auto simp: adb_inv_def)
    ultimately show ?thesis by blast
  qed
  moreover have "\<forall>q \<in> snd ` set (dataTries ?b). q < length ?cs"
    using inv len(1) by (fastforce simp: adb_inv_def flushed_def)
  moreover have "views con m ?cs ?b" using inv p new c(1) by (intro views_flushed) (simp_all add: adb_inv_def)
  ultimately show ?thesis using inv by (simp add: adb_inv_def)
qed

context trie_laws
begin

lemma dataRootHash_con:
  assumes "views con m cs adb" "p < length cs"
  obtains adb' h where "dataRootHash T p adb = (adb', Inr h)" "views con m cs adb'" "objects adb' = objects adb"
    "entries adb' = entries adb" "storage adb' = storage adb" "dataTries adb' = dataTries adb"
proof -
  have "con (storage adb) (cs ! p) (tries adb ! p)" using assms by (auto simp: views_def list_all2_conv_all_nth)
  then obtain t h where t: "opRootHash T (tries adb ! p) = (t, Inr h)" "con (storage adb) (cs ! p) t" using root_con by blast
  have "views con m cs (setTrie p t adb)" using views_setTrie [OF assms t(2)] by simp
  with t(1) that [of "setTrie p t adb" h] show thesis by (simp add: dataRootHash_def)
qed

lemma revertDataTrie_con:
  assumes "views con m cs b" "r < length (objects b)" "accTrie (objects b ! r) = Some p" "p < length cs"
  obtains b' d where "revertDataTrie T ups r b = (b', Inr (Some d))" "uaAddress d = AddressBytes (objects b ! r)"
    "views con m (cs[p := foldl undo (cs ! p) (rev ups)]) b'" "objs_kept b b'" "entries b' = entries b"
    "dataTries b' = dataTries b" "\<exists>h. objects b' = (objects b)[r := SetRootHash h (objects b ! r)]"
proof -
  have "con (storage b) (cs ! p) (tries b ! p)" using assms(1,4) by (auto simp: views_def list_all2_conv_all_nth)
  then obtain t where t: "revertUpdates T (storage b) (rev ups) (tries b ! p) = (t, None)"
      "con (storage b) (foldl undo (cs ! p) (rev ups)) t" using revertUpdates_con by blast
  have "views con m (cs[p := foldl undo (cs ! p) (rev ups)]) (setTrie p t b)" using views_setTrie [OF assms(1,4) t(2)] .
  then obtain b1 h where b1: "dataRootHash T p (setTrie p t b) = (b1, Inr h)"
      "views con m (cs[p := foldl undo (cs ! p) (rev ups)]) b1" "objects b1 = objects b" "entries b1 = entries b" "storage b1 = storage b"
      "dataTries b1 = dataTries b"
    using dataRootHash_con [of m _ "setTrie p t b" p] assms(4) by (metis length_list_update setTrie_simps(2-5))
  let ?b = "modObject r (SetRootHash h) b1"
  have "objs_kept b1 ?b" by (rule objs_kept_mod) simp_all
  moreover have "objs_kept b b1" using b1 by (intro objs_kept_same) simp_all
  ultimately have "objs_kept b ?b" using objs_kept_trans by blast
  moreover have "views con m (cs[p := foldl undo (cs ! p) (rev ups)]) ?b" using b1(2) by (simp add: views_def)
  moreover have "uaAddress (accData (objects ?b ! r)) = AddressBytes (objects b ! r)"
    using assms(2) b1(3) by (simp add: modObject_nth flip: AddressBytes_def)
  moreover have "\<exists>h. objects ?b = (objects b)[r := SetRootHash h (objects b ! r)]" using b1(3) by (auto simp: modObject_def)
  ultimately show thesis using that [of ?b "accData (objects ?b ! r)"] assms(3) t(1) b1 by (simp add: revertDataTrie_def Let_def)
qed

lemma flush_eq:
  assumes "accDirty a \<noteq> []" "a = objects adb ! r" "r < length (objects adb)"
    and "case accTrie a of None \<Rightarrow> p = length (tries adb) \<and> opRecreate T (storage adb) (mainTrie adb) [] = Inr t
         | Some q \<Rightarrow> p = q \<and> q < length (tries adb) \<and> t = tries adb ! q"
    and "updateTrie (tdtEnvOf E) T (storage adb) (AddressBytes a) (accDirty a) t = (t', Inr (ch, olds))"
  shows "flushDirtyData E T r adb = (flushed r p t' adb, Inr olds)"
proof (cases "accTrie a")
  case None
  with assms show ?thesis
    by (simp add: flushDirtyData_def SaveDirtyData_def Let_def newTrie_def modObject_def SetDataTrie_def flushed_def)
next
  case (Some q)
  then have eq: "(objects adb ! r)\<lparr>accDirty := [], accTrie := Some q\<rparr> = (objects adb ! r)\<lparr>accDirty := []\<rparr>"
    using assms(2) by (cases a) simp
  show ?thesis using Some assms
    by (simp add: flushDirtyData_def SaveDirtyData_def Let_def setTrie_def modObject_def flushed_def) (simp only: eq)
qed

text \<open>The data trie a save writes to, with its content; a fresh one is empty.\<close>

lemma flush_source:
  assumes "views con m cs adb" "obj_ok E K (length cs) a" "\<forall>c \<in> set cs. content_ok (tdtEnvOf E) K c"
  obtains p t new where "con (storage adb) ((cs @ new) ! p) t" "p < length (cs @ new)"
    "\<forall>c \<in> set (cs @ new). content_ok (tdtEnvOf E) K c"
    "new = (if p < length cs then [] else [Map.empty])" "\<And>q. accTrie a = Some q \<Longrightarrow> p = q"
    "case accTrie a of None \<Rightarrow> p = length (tries adb) \<and> opRecreate T (storage adb) (mainTrie adb) [] = Inr t
      | Some q \<Rightarrow> p = q \<and> q < length (tries adb) \<and> t = tries adb ! q"
proof (cases "accTrie a")
  case None
  have "con (storage adb) m (mainTrie adb)" using assms(1) by (simp add: views_def)
  then obtain t where t: "opRecreate T (storage adb) (mainTrie adb) [] = Inr t" "con (storage adb) Map.empty t"
    using recreate_empty by blast
  have "content_ok (tdtEnvOf E) K Map.empty" by (simp add: content_ok_def data_ok_def)
  with None t assms(3) views_length [OF assms(1)] that [of "[Map.empty]" "length cs" t] show thesis by simp
next
  case (Some q)
  then have q: "q < length cs" using assms(2) by (simp add: obj_ok_def)
  then have "con (storage adb) (cs ! q) (tries adb ! q)" using assms(1) by (auto simp: views_def list_all2_conv_all_nth)
  then show thesis by (intro that [of "[]" q "tries adb ! q"]) (use Some q assms(3) views_length [OF assms(1)] in simp_all)
qed

lemma flushDirtyData_con:
  assumes inv: "adb_inv con E K m cs adb" and r: "r < length (objects adb)" and env: "acc_env_ok E" "hash_ok (tdtEnvOf E) K"
  obtains adb' olds cs' cs0 where "flushDirtyData E T r adb = (adb', Inr olds)" "adb_inv con E K m cs' adb'"
    "objs_kept adb adb'" "entries adb' = entries adb" "length (objects adb') = length (objects adb)"
    "accData (objects adb' ! r) = accData (objects adb ! r)" "accCode (objects adb' ! r) = accCode (objects adb ! r)"
    "hasNewCode (objects adb' ! r) = hasNewCode (objects adb ! r)"
    "olds = [] \<Longrightarrow> cs' = cs"
    "olds \<noteq> [] \<Longrightarrow> (\<exists>p new. cs0 = cs @ new \<and> p < length cs0 \<and> accTrie (objects adb' ! r) = Some p \<and> length cs' = length cs0 \<and>
       cs0 = cs'[p := foldl undo (cs' ! p) (rev olds)]) \<and> (\<forall>c \<in> set cs0. content_ok (tdtEnvOf E) K c)"
proof (cases "accDirty (objects adb ! r) = []")
  case True
  then have "modObject r (\<lambda>a. a\<lparr>accDirty := []\<rparr>) adb = adb" using r by (simp add: modObject_def list_update_same_conv)
  moreover have "setTrie p (tries adb ! p) adb = adb" for p by (simp add: setTrie_def)
  ultimately have "flushDirtyData E T r adb = (adb, Inr [])"
    using True by (cases "accTrie (objects adb ! r)") (simp_all add: flushDirtyData_def SaveDirtyData_def Let_def)
  with inv that [of adb "[]" cs] show thesis by simp
next
  case False
  let ?a = "objects adb ! r" and ?E = "tdtEnvOf E"
  have v: "views con m cs adb" and ck: "\<forall>c \<in> set cs. content_ok ?E K c" and a: "obj_ok E K (length cs) ?a"
    using inv r by (auto simp: adb_inv_def)
  obtain p t new where
    t: "con (storage adb) ((cs @ new) ! p) t" "p < length (cs @ new)" "\<forall>c \<in> set (cs @ new). content_ok ?E K c"
      "new = (if p < length cs then [] else [Map.empty])" "\<And>q. accTrie ?a = Some q \<Longrightarrow> p = q"
      "case accTrie ?a of None \<Rightarrow> p = length (tries adb) \<and> opRecreate T (storage adb) (mainTrie adb) [] = Inr t
        | Some q \<Rightarrow> p = q \<and> q < length (tries adb) \<and> t = tries adb ! q" by (rule flush_source [OF v a ck]) (rule that)
  have e: "env_ok ?E" using env(1) by (simp add: acc_env_ok_def)
  have ok: "content_ok ?E K ((cs @ new) ! p)" using t(2,3) nth_mem by blast
  have dk: "dirty_ok ?E K (accDirty ?a)" using a by (simp add: obj_ok_def)
  from updateTrie_con [OF t(1) e env(2) ok dk, of "AddressBytes ?a"] obtain t' c' ch olds where
    u: "updateTrie ?E T (storage adb) (AddressBytes ?a) (accDirty ?a) t = (t', Inr (ch, olds))" "con (storage adb) c' t'"
      "foldl undo c' (rev olds) = (cs @ new) ! p" "content_ok ?E K c'" "length (accDirty ?a) \<le> length olds" by blast
  let ?b = "flushed r p t' adb" and ?cs = "(cs @ new)[p := c']"
  have fl: "flushDirtyData E T r adb = (?b, Inr olds)" by (rule flush_eq [OF False refl r t(6) u(1)])
  have p: "p \<le> length cs" using t(2,4) by (auto split: if_splits)
  have "olds \<noteq> []" using u(5) False by auto
  moreover have "?cs[p := foldl undo (?cs ! p) (rev olds)] = cs @ new" using t(2) u(3) by simp
  moreover have "adb_inv con E K m ?cs ?b" by (rule inv_flushed [OF inv r p t(4) u(2,4)])
  moreover have "objs_kept adb ?b" by (rule kept_flushed [OF r t(5)])
  ultimately show thesis using that [OF fl, of ?cs "cs @ new"] r t(2,3) by (simp add: flushed_def)
qed

end

subsection \<open>Saving\<close>

lemma journalize_simps [simp]:
  "mainTrie (journalize e adb) = mainTrie adb" "tries (journalize e adb) = tries adb" "objects (journalize e adb) = objects adb"
  "storage (journalize e adb) = storage adb" "dataTries (journalize e adb) = dataTries adb"
  "entries (journalize e adb) = entries adb @ [e]" "views con m cs (journalize e adb) = views con m cs adb"
  by (simp_all add: journalize_def views_def)

lemma objs_kept_journalize [simp]: "objs_kept (journalize e adb) b = objs_kept adb b" "objs_kept b (journalize e adb) = objs_kept b adb"
  by (simp_all add: objs_kept_def)

lemma adb_inv_journalize [simp]: "adb_inv con E K m cs (journalize e adb) = adb_inv con E K m cs adb"
  by (simp add: adb_inv_def)

text \<open>An invariant carries over to a state that differs in object \<open>r\<close> only, if the object stays well-formed.\<close>

lemma adb_inv_objects:
  assumes "adb_inv con E K m cs adb" "views con m' cs b" "main_ok E m'" "refs_ok E m'"
    and "set (objects b) \<subseteq> insert a (set (objects adb))" "obj_ok E K (length cs) a"
    and "snd ` set (dataTries b) \<subseteq> {p. p < length cs}"
  shows "adb_inv con E K m' cs b"
  using assms unfolding adb_inv_def by blast

text \<open>Undoing the data trie entry of a save writes the account's object to the main trie, whatever it is then.\<close>

definition data_undoes :: "('db \<Rightarrow> (bytes \<rightharpoonup> entry) \<Rightarrow> 't \<Rightarrow> bool) \<Rightarrow> accEnv \<Rightarrow> bytes set \<Rightarrow> ('db, 't) trieOps \<Rightarrow> journalEntry list \<Rightarrow>
    ('db, 't) accountsDB \<Rightarrow> bytes \<Rightarrow> (bytes \<rightharpoonup> entry) list \<Rightarrow> (bytes \<rightharpoonup> entry) list \<Rightarrow> bool" where
  "data_undoes con E K T es adb' a after before \<longleftrightarrow>
     (\<forall>b more mm. objs_kept adb' b \<and> views con mm (after @ more) b \<and> shape E K (after @ more) b \<and> main_ok E mm \<longrightarrow>
       (\<exists>b' more' mm'. revertEntries E T (rev es) b = (b', Inr ()) \<and> objs_kept b b' \<and> entries b' = entries b \<and>
          views con mm' (before @ more') b' \<and> shape E K (before @ more') b' \<and> (mm' = mm \<or> (\<exists>d. uaAddress d = a \<and> mm' = putAcc E mm d))))"

lemma shape_rootHash:
  assumes "shape E K (cs' @ rest) b" "length cs0 = length cs'" "r < length (objects b)" "dataTries b1 = dataTries b"
    and "\<exists>h. objects b1 = (objects b)[r := SetRootHash h (objects b ! r)]" "\<forall>c \<in> set cs0. content_ok (tdtEnvOf E) K c"
  shows "shape E K (cs0 @ rest) b1"
proof -
  obtain h where h: "objects b1 = (objects b)[r := SetRootHash h (objects b ! r)]" using assms(5) by blast
  have "obj_ok E K (length (cs' @ rest)) (SetRootHash h (objects b ! r))"
    using assms(1,3) by (auto simp: shape_def obj_ok_def)
  then have "\<forall>a \<in> set (objects b1). obj_ok E K (length (cs' @ rest)) a"
    using assms(1) h set_update_subset_insert [of "objects b" r "SetRootHash h (objects b ! r)"] by (auto simp: shape_def)
  with assms show ?thesis by (auto simp: shape_def)
qed

context trie_laws
begin

lemma data_entry_undoes:
  assumes "acc_env_ok E" "cs0 = cs @ new" "p < length cs0" "accTrie (objects adb' ! r) = Some p" "length cs' = length cs0"
    and "cs0 = cs'[p := foldl undo (cs' ! p) (rev olds)]" "r < length (objects adb')" "a = AddressBytes (objects adb' ! r)"
    and "\<forall>c \<in> set cs0. content_ok (tdtEnvOf E) K c"
  shows "data_undoes con E K T [JournalEntryDataTrieUpdates olds r] adb' a cs' cs"
  unfolding data_undoes_def
proof (intro allI impI)
  fix b more mm assume b: "objs_kept adb' b \<and> views con mm (cs' @ more) b \<and> shape E K (cs' @ more) b \<and> main_ok E mm"
  have ob: "r < length (objects b)" "accTrie (objects b ! r) = Some p" "AddressBytes (objects b ! r) = a"
    using b assms(4,7,8) by (auto simp: objs_kept_def)
  obtain b1 d where b1: "revertDataTrie T olds r b = (b1, Inr (Some d))" "uaAddress d = a"
      "views con mm ((cs' @ more)[p := foldl undo ((cs' @ more) ! p) (rev olds)]) b1" "objs_kept b b1" "entries b1 = entries b"
      "dataTries b1 = dataTries b" "\<exists>h. objects b1 = (objects b)[r := SetRootHash h (objects b ! r)]"
    using revertDataTrie_con [of mm "cs' @ more" b r p olds] b ob assms(3,5) by auto
  have "p < length cs'" using assms(3,5) by simp
  then have "(cs' @ more)[p := foldl undo ((cs' @ more) ! p) (rev olds)] = cs'[p := foldl undo (cs' ! p) (rev olds)] @ more"
    by (simp add: list_update_append1 nth_append)
  also have "\<dots> = cs0 @ more" using assms(6) by (rule arg_cong [OF sym])
  finally have "(cs' @ more)[p := foldl undo ((cs' @ more) ! p) (rev olds)] = cs0 @ more" .
  with b1(3) have v: "views con mm (cs @ new @ more) b1" by (simp add: assms(2))
  have "main_ok E mm" using b by blast
  from saveAccountToTrie_con [OF v this assms(1), of d] obtain b2 where
    b2: "saveAccountToTrie E T d b1 = (b2, Inr ())" "views con (putAcc E mm d) (cs @ new @ more) b2" "objects b2 = objects b1"
      "storage b2 = storage b1" "entries b2 = entries b1" "dataTries b2 = dataTries b1" by (rule main_step_obtain)
  have sh: "shape E K (cs' @ more) b" using b by blast
  have "shape E K (cs0 @ more) b1" by (rule shape_rootHash [OF sh assms(5) [symmetric] ob(1) b1(6,7) assms(9)])
  then have "shape E K (cs @ new @ more) b2" using shape_same [OF b2(3,6)] assms(2) by simp
  moreover have "objs_kept b b2" using b1(4) objs_kept_same [OF b2(3,4)] by (rule objs_kept_trans)
  ultimately show "\<exists>b' more' mm'. revertEntries E T (rev [JournalEntryDataTrieUpdates olds r]) b = (b', Inr ()) \<and> objs_kept b b' \<and>
      entries b' = entries b \<and> views con mm' (cs @ more') b' \<and> shape E K (cs @ more') b' \<and>
      (mm' = mm \<or> (\<exists>d. uaAddress d = a \<and> mm' = putAcc E mm d))"
    using b1 b2 by (intro exI [of _ b2] exI [of _ "new @ more"] exI [of _ "putAcc E mm d"]) auto
qed

lemma saveDataTrie_con:
  assumes inv: "adb_inv con E K m cs adb" and r: "r < length (objects adb)" and env: "acc_env_ok E" "hash_ok (tdtEnvOf E) K"
  obtains adb' es cs' where "saveDataTrie E T r adb = (adb', Inr ())" "adb_inv con E K m cs' adb'" "entries adb' = entries adb @ es"
    "objs_kept adb adb'" "length (objects adb') = length (objects adb)"
    "uaCodeHash (accData (objects adb' ! r)) = uaCodeHash (accData (objects adb ! r))"
    "accCode (objects adb' ! r) = accCode (objects adb ! r)" "hasNewCode (objects adb' ! r) = hasNewCode (objects adb ! r)"
    "data_undoes con E K T es adb' (AddressBytes (objects adb ! r)) cs' cs" "\<exists>new. length cs' = length (cs @ new)"
proof -
  obtain b olds cs' cs0 where f: "flushDirtyData E T r adb = (b, Inr olds)" "adb_inv con E K m cs' b"
    "objs_kept adb b" "entries b = entries adb" "length (objects b) = length (objects adb)"
    "accData (objects b ! r) = accData (objects adb ! r)" "accCode (objects b ! r) = accCode (objects adb ! r)"
    "hasNewCode (objects b ! r) = hasNewCode (objects adb ! r)" "olds = [] \<Longrightarrow> cs' = cs"
    "olds \<noteq> [] \<Longrightarrow> (\<exists>p new. cs0 = cs @ new \<and> p < length cs0 \<and> accTrie (objects b ! r) = Some p \<and> length cs' = length cs0 \<and>
       cs0 = cs'[p := foldl undo (cs' ! p) (rev olds)]) \<and> (\<forall>c \<in> set cs0. content_ok (tdtEnvOf E) K c)"
    by (rule flushDirtyData_con [OF inv r env]) (rule that)
  show thesis
  proof (cases "olds = []")
    case True
    have "data_undoes con E K T [] b (AddressBytes (objects adb ! r)) cs cs" unfolding data_undoes_def by auto
    with True f that [of b cs' "[]"] show thesis by (simp add: saveDataTrie_def)
  next
    case False
    from f(10) [OF False] obtain p new where p: "cs0 = cs @ new" "p < length cs0" "accTrie (objects b ! r) = Some p"
      "length cs' = length cs0" "cs0 = cs'[p := foldl undo (cs' ! p) (rev olds)]"
      "\<forall>c \<in> set cs0. content_ok (tdtEnvOf E) K c" by blast
    let ?j = "journalize (JournalEntryDataTrieUpdates olds r) b" and ?a = "AddressBytes (objects adb ! r)"
    have "views con m cs' ?j" using f(2) by (simp add: adb_inv_def)
    then obtain b1 h where b1: "dataRootHash T p ?j = (b1, Inr h)" "views con m cs' b1" "objects b1 = objects b"
        "entries b1 = entries b @ [JournalEntryDataTrieUpdates olds r]" "storage b1 = storage b" "dataTries b1 = dataTries b"
      using dataRootHash_con [of m cs' ?j p] p(2,4) by (metis journalize_simps(3-6))
    let ?b2 = "modObject r (SetRootHash h) b1"
    define b3 where "b3 = (if map_of (dataTries ?b2) ?a = None then ?b2\<lparr>dataTries := AList.update ?a p (dataTries ?b2)\<rparr> else ?b2)"
    have addr: "AddressBytes (objects b ! r) = ?a" using f(6) by (simp add: AddressBytes_def)
    have sv: "saveDataTrie E T r adb = (b3, Inr ())"
      using f(1) False p(3) b1(1) addr b1(3) by (simp add: saveDataTrie_def b3_def Let_def)
    have ob: "objects b3 = objects ?b2" "entries b3 = entries b1" "storage b3 = storage b1" "mainTrie b3 = mainTrie b1" "tries b3 = tries b1"
      by (simp_all add: b3_def)
    have k: "objs_kept b b3"
    proof -
      have "objs_kept b b1" using b1 by (intro objs_kept_same) simp_all
      moreover have "objs_kept b1 ?b2" by (rule objs_kept_mod) simp_all
      moreover have "objs_kept ?b2 b3" using ob by (intro objs_kept_same) simp_all
      ultimately show ?thesis by (meson objs_kept_trans)
    qed
    have nth: "objects b3 ! r = SetRootHash h (objects b ! r)" using ob(1) b1(3) f(5) r by (simp add: modObject_nth)
    have "adb_inv con E K m cs' b3"
    proof (rule adb_inv_objects [OF f(2)])
      show "views con m cs' b3" using b1(2) ob by (simp add: views_def)
      show "main_ok E m" "refs_ok E m" using inv by (simp_all add: adb_inv_def)
      show "set (objects b3) \<subseteq> insert (SetRootHash h (objects b ! r)) (set (objects b))"
        using set_modObject [of r "SetRootHash h" b1] ob(1) b1(3) by simp
      show "obj_ok E K (length cs') (SetRootHash h (objects b ! r))"
        using f(2,5) r by (auto simp: adb_inv_def obj_ok_def)
      show "snd ` set (dataTries b3) \<subseteq> {q. q < length cs'}"
        using f(2) b1(6) p(2,4) set_AList_update [of ?a p "dataTries b"] by (auto simp: adb_inv_def b3_def)
    qed
    moreover have "data_undoes con E K T [JournalEntryDataTrieUpdates olds r] b3 ?a cs' cs"
      by (rule data_entry_undoes [OF env(1) p(1,2) _ p(4,5) _ _ p(6)]) (use p(3) nth addr f(5) r ob(1) b1(3) in simp_all)
    ultimately show thesis
      using that [of b3 cs' "[JournalEntryDataTrieUpdates olds r]"] sv f(3-8) k ob nth b1(3,4) p(1,4) by (auto intro: objs_kept_trans)
  qed
qed

end

end
