(* ===== verification/Accounts_Theorems.thy ===== *)
theory Accounts_Theorems
  imports Accounts_Journal
begin

text \<open>
  Saving, removing and loading accounts: each keeps the invariant of the state and appends journal entries that
  undo it. A run is any sequence of these and of edits of account objects; what a run did, its entries undo.
\<close>

subsection \<open>Saving an account\<close>

lemma codeHash_key: "c \<noteq> [] \<Longrightarrow> codeHash E c \<in> codeKeys E"
  by (auto simp: codeKeys_def)

lemma stored_key: "acc_env_ok E \<Longrightarrow> main_ok E m \<Longrightarrow> refs_ok E m \<Longrightarrow> storedCodeHash E m a \<in> codeKeys E \<or> storedCodeHash E m a = []"
  using stored_code_counted(2) [of E m a] by (auto simp: codeAt_def split: if_splits)

lemma main_ok_codeChange:
  assumes "acc_env_ok E" "main_ok E m" "refs_ok E m" "card (dom m) < 2 ^ 32 - 1" "oh \<noteq> nh"
    and "if code = [] then nh = [] else nh \<in> codeKeys E"
  shows "main_ok E (codeChange E m oh nh code)"
proof (cases "code = []")
  case True
  with main_ok_decCode [OF assms(1,2)] show ?thesis by (simp add: codeChange_def incCode_def)
next
  case False
  then have nh: "nh \<in> codeKeys E" "nh \<noteq> []" using assms(6) empty_not_codeKey [OF assms(1)] by auto
  have d: "codeAt E (decCode E m oh) nh = codeAt E m nh" using codeAt_decCode [OF assms(1,2)] assms(5) by simp
  have "0 < NumReferences c + 1" if "codeAt E m nh = Some c" for c
    using few_references [OF assms(3,4) nh(2) that] by (metis eq_neg_iff_add_eq_0 word_gt_0)
  then show ?thesis using False d main_ok_decCode [OF assms(1,2), of oh] nh(1) assms(1)
    by (auto simp: codeChange_def incCode_def Let_def intro!: main_ok_putCode split: option.splits)
qed

context trie_laws
begin

lemma saveCode_con:
  assumes inv: "adb_inv con E K m cs adb" and r: "r < length (objects adb)" and env: "acc_env_ok E"
    and a: "a = AddressBytes (objects adb ! r)" and few: "card (dom m) < 2 ^ 32 - 1"
    and current: "hasNewCode (objects adb ! r) \<or> uaCodeHash (accData (objects adb ! r)) = storedCodeHash E m a"
  obtains adb' nh h where "saveCode E T r (accAt E m a) adb = (adb', Inr ())"
    "objects adb' = (objects adb)[r := h (objects adb ! r)]" "h = id \<or> h = SetCodeHash nh"
    "uaCodeHash (accData (h (objects adb ! r))) = nh" "dataTries adb' = dataTries adb" "storage adb' = storage adb"
    "entries adb' = entries adb @ (if nh = storedCodeHash E m a then []
       else [JournalEntryCode (codeAt E m (storedCodeHash E m a)) (storedCodeHash E m a) nh])"
    "views con (if nh = storedCodeHash E m a then m else codeChange E m (storedCodeHash E m a) nh (accCode (objects adb ! r))) cs adb'"
    "nh \<noteq> storedCodeHash E m a \<Longrightarrow> if accCode (objects adb ! r) = [] then nh = [] else nh \<in> codeKeys E"
proof -
  let ?o = "objects adb ! r" and ?oh = "storedCodeHash E m a"
  define nh where "nh = (if accCode ?o \<noteq> [] then codeHash E (accCode ?o) else [])"
  have v: "views con m cs adb" and m: "main_ok E m" "refs_ok E m" using inv by (simp_all add: adb_inv_def)
  have oh: "(case accAt E m a of None \<Rightarrow> [] | Some d \<Rightarrow> uaCodeHash d) = ?oh" by (simp add: storedCodeHash_def)
  consider "\<not> hasNewCode ?o" | "hasNewCode ?o" "?oh = nh" | "hasNewCode ?o" "?oh \<noteq> nh" by blast
  then show thesis
  proof cases
    case 1
    with current have "uaCodeHash (accData ?o) = ?oh" by simp
    with 1 v show thesis by (intro that [of adb id ?oh]) (simp_all add: saveCode_def Let_def)
  next
    case 2
    let ?b = "modObject r (SetCodeHash nh) adb"
    have "saveCode E T r (accAt E m a) adb = (?b, Inr ())" using 2 oh by (simp add: saveCode_def nh_def Let_def)
    moreover have "views con m cs ?b" using v by (simp add: views_def)
    ultimately show thesis using 2(2) by (intro that [of ?b "SetCodeHash nh" nh]) (simp_all add: modObject_def)
  next
    case 3
    have code: "accCode ?o = [] \<or> nh \<in> codeKeys E" "if accCode ?o = [] then nh = [] else nh \<in> codeKeys E"
      by (auto simp: nh_def codeHash_key)
    have fewer: "NumReferences c \<noteq> - 1" if "accCode ?o \<noteq> []" "codeAt E (decCode E m ?oh) nh = Some c" for c
    proof -
      have "nh \<noteq> []" using code(1) that(1) empty_not_codeKey [OF env] by auto
      then show ?thesis using few_references [OF m(2) few] that(2) 3(2) codeAt_decCode [OF env m(1), of ?oh nh] by metis
    qed
    obtain b1 where b1: "updateOldCodeEntry E T ?oh adb = (b1, Inr (codeAt E m ?oh))" "views con (decCode E m ?oh) cs b1"
        "objects b1 = objects adb" "storage b1 = storage adb" "entries b1 = entries adb" "dataTries b1 = dataTries adb"
      using updateOldCodeEntry_con [OF v m(1) env stored_key [OF env m]] by (rule main_step_obtain)
    obtain b2 where b2: "updateNewCodeEntry E T nh (accCode ?o) b1 = (b2, Inr ())"
        "views con (codeChange E m ?oh nh (accCode ?o)) cs b2"
        "objects b2 = objects b1" "storage b2 = storage b1" "entries b2 = entries b1" "dataTries b2 = dataTries b1"
      using updateNewCodeEntry_con [OF b1(2) main_ok_decCode [OF env m(1)] env code(1) fewer]
      unfolding codeChange_def by (rule main_step_obtain)
    let ?b = "modObject r (SetCodeHash nh) (journalize (JournalEntryCode (codeAt E m ?oh) ?oh nh) b2)"
    have "saveCode E T r (accAt E m a) adb = (?b, Inr ())"
      using 3 oh b1(1) b2(1) by (simp add: saveCode_def nh_def Let_def)
    moreover have "views con (codeChange E m ?oh nh (accCode ?o)) cs ?b" using b2(2) by (simp add: views_def)
    ultimately show thesis using 3(2) b1 b2 code(2)
      by (intro that [of ?b "SetCodeHash nh" nh]) (simp_all add: modObject_def)
  qed
qed

text \<open>Reverting the first entry of a save puts the stored account back, or removes it.\<close>

lemma account_entry_undoes:
  assumes "views con mm cs b" "main_ok E mm" "main_ok E m" "acc_env_ok E" "a \<notin> codeKeys E" "\<And>k. k \<noteq> a \<Longrightarrow> mm k = m k"
  obtains b' where "revertEntries E T [case accAt E m a of None \<Rightarrow> JournalEntryAccountCreation a | Some d \<Rightarrow> JournalEntryAccount d] b = (b', Inr ())"
    "objs_kept b b'" "entries b' = entries b" "views con m cs b'" "objects b' = objects b" "dataTries b' = dataTries b"
proof (cases "accAt E m a")
  case None
  have "m a = None" using accAt_None [OF assms(4,3,5) None] .
  then have "mm(a := None) = m" using assms(6) by (auto simp: fun_eq_iff)
  with mainUpdate_empty [OF assms(1), of a] obtain b' where b': "mainUpdate T a [] b = (b', Inr ())" "views con m cs b'"
      "objects b' = objects b" "tries b' = tries b" "storage b' = storage b" "entries b' = entries b"
      "dataTries b' = dataTries b" by (metis main_step_obtain)
  with None that [of b'] show thesis by (simp add: objs_kept_same)
next
  case (Some d)
  note st = putAcc_stored [OF assms(4,3) Some]
  have "putAcc E mm d = m" using st assms(6) by (auto simp: putAcc_def fun_eq_iff)
  with saveAccountToTrie_con [OF assms(1,2,4), of d] obtain b' where b': "saveAccountToTrie E T d b = (b', Inr ())" "views con m cs b'"
      "objects b' = objects b" "tries b' = tries b" "storage b' = storage b" "entries b' = entries b"
      "dataTries b' = dataTries b" by (metis main_step_obtain)
  with Some that [of b'] show thesis by (simp add: objs_kept_same)
qed

lemma save_undoes:
  assumes env: "acc_env_ok E" and m: "main_ok E m" "refs_ok E m" and few: "card (dom m) < 2 ^ 32 - 1"
    and a: "a \<notin> codeKeys E" "a \<noteq> []"
    and x: "main_ok E ((if nh = oh then m else codeChange E m oh nh code)(a := x))" "main_ok E (m(a := x))"
    and code: "nh \<noteq> oh \<Longrightarrow> if code = [] then nh = [] else nh \<in> codeKeys E" and oh: "oh = storedCodeHash E m a"
    and dataes: "data_undoes con E K T es adb1 a cs' cs" and kept: "objs_kept adb1 adb'"
  shows "undoes con E K T ([case accAt E m a of None \<Rightarrow> JournalEntryAccountCreation a | Some d \<Rightarrow> JournalEntryAccount d] @ es @
      (if nh = oh then [] else [JournalEntryCode (codeAt E m oh) oh nh])) adb'
    ((if nh = oh then m else codeChange E m oh nh code)(a := x), cs') (m, cs)"
  unfolding undoes_def
proof (intro allI impI, unfold fst_conv snd_conv, elim conjE)
  fix b more
  let ?m1 = "if nh = oh then m else codeChange E m oh nh code"
  let ?ce = "if nh = oh then [] else [JournalEntryCode (codeAt E m oh) oh nh]"
  let ?ae = "[case accAt E m a of None \<Rightarrow> JournalEntryAccountCreation a | Some d \<Rightarrow> JournalEntryAccount d]"
  assume b: "objs_kept adb' b" "views con (?m1(a := x)) (cs' @ more) b" "shape E K (cs' @ more) b"
  have "\<exists>b1. revertEntries E T (rev ?ce) b = (b1, Inr ()) \<and> objs_kept b b1 \<and> entries b1 = entries b \<and>
      views con (m(a := x)) (cs' @ more) b1 \<and> shape E K (cs' @ more) b1"
  proof (cases "nh = oh")
    case False
    have key: "nh \<in> codeKeys E \<or> nh = []" using code [OF False] by (auto split: if_splits)
    have old: "oh = [] \<or> oh \<in> codeKeys E \<and> (\<exists>c. codeAt E m oh = Some c \<and> 0 < NumReferences c)"
      using stored_code_counted(2) [OF env m(2), of a] codeAt_stored [OF env m(1)] oh by blast
    have fw: "NumReferences c \<noteq> - 1" if "codeAt E m nh = Some c" for c
      using that few_references [OF m(2) few] key empty_not_codeKey [OF env] by (metis codeAt_def option.distinct(1))
    have "undoCode E (?m1(a := x)) (codeAt E m oh) oh nh = m(a := x)"
      using undoCode_codeChange [OF env m(1) _ _ code [OF False] fw a(1), of oh x] False old by auto
    then have "main_step con b (Revert E T (JournalEntryCode (codeAt E m oh) oh nh) b) None (m(a := x)) (cs' @ more)"
      using revertCode_con [OF b(2) x(1) env False [symmetric] key old] by simp
    then obtain b1 where
      "Revert E T (JournalEntryCode (codeAt E m oh) oh nh) b = (b1, Inr None)" "views con (m(a := x)) (cs' @ more) b1"
      "objects b1 = objects b" "storage b1 = storage b" "entries b1 = entries b" "dataTries b1 = dataTries b"
      by (rule main_step_obtain)
    moreover from this(3,6) have "shape E K (cs' @ more) b1" using b(3) by (simp add: shape_def)
    ultimately show ?thesis using False by (intro exI [of _ b1]) (simp add: objs_kept_same)
  qed (use b in simp)
  then obtain b1 where b1: "revertEntries E T (rev ?ce) b = (b1, Inr ())" "objs_kept b b1" "entries b1 = entries b"
      "views con (m(a := x)) (cs' @ more) b1" "shape E K (cs' @ more) b1" by blast
  have "objs_kept adb1 b1" using kept b(1) b1(2) by (meson objs_kept_trans)
  with dataes b1(4,5) x(2) obtain b2 more2 mm where b2: "revertEntries E T (rev es) b1 = (b2, Inr ())" "objs_kept b1 b2"
      "entries b2 = entries b1" "views con mm (cs @ more2) b2" "shape E K (cs @ more2) b2"
      "mm = m(a := x) \<or> (\<exists>d'. uaAddress d' = a \<and> mm = putAcc E (m(a := x)) d')" unfolding data_undoes_def by blast
  have mm: "main_ok E mm" using b2(6) x(2) main_ok_putAcc [OF env x(2)] a by auto
  have other: "mm k = m k" if "k \<noteq> a" for k using b2(6) that by (auto simp: putAcc_def)
  obtain b3 where b3: "revertEntries E T ?ae b2 = (b3, Inr ())" "objs_kept b2 b3" "entries b3 = entries b2" "views con m (cs @ more2) b3"
      "objects b3 = objects b2" "dataTries b3 = dataTries b2"
    using account_entry_undoes [OF b2(4) mm m(1) env a(1) other] by blast
  have "revertEntries E T (rev (?ae @ es @ ?ce)) b = (b3, Inr ())"
    unfolding rev_append revertEntries_append b1(1) andThen_simps b2(1) using b3(1) by (simp only: rev_singleton_conv rev.simps append_Nil)
  then show "\<exists>b' more'. revertEntries E T (rev (?ae @ es @ ?ce)) b = (b', Inr ()) \<and> objs_kept b b' \<and> entries b' = entries b \<and>
      views con m (cs @ more') b' \<and> shape E K (cs @ more') b'"
    using b1(2,3) b2(2,3,5) b3 shape_same [OF b3(5,6), of E K] by (intro exI [of _ b3] exI [of _ more2]) (auto intro: objs_kept_trans)
qed

lemma getAccount_inv:
  assumes "adb_inv con E K m cs adb" "acc_env_ok E" "k \<notin> codeKeys E" "k \<noteq> []"
  obtains adb' where "getAccount E T k adb = (adb', Inr (accAt E m k))" "adb_inv con E K m cs adb'" "objects adb' = objects adb"
    "tries adb' = tries adb" "storage adb' = storage adb" "entries adb' = entries adb" "dataTries adb' = dataTries adb"
proof -
  have v: "views con m cs adb" "main_ok E m" using assms(1) by (simp_all add: adb_inv_def)
  obtain adb' where b: "getAccount E T k adb = (adb', Inr (accAt E m k))" "views con m cs adb'" "objects adb' = objects adb"
    "tries adb' = tries adb" "storage adb' = storage adb" "entries adb' = entries adb" "dataTries adb' = dataTries adb"
    using getAccount_con [OF v assms(2-4)] by (rule main_step_obtain)
  moreover from b have "adb_inv con E K m cs adb'" using assms(1) by (simp add: adb_inv_def)
  ultimately show thesis using that by blast
qed

lemma SaveAccount_con:
  assumes inv: "adb_inv con E K m cs adb" and r: "r < length (objects adb)" and env: "acc_env_ok E" "hash_ok (tdtEnvOf E) K"
    and few: "card (dom m) < 2 ^ 32 - 1"
    and current: "hasNewCode (objects adb ! r) \<or>
      uaCodeHash (accData (objects adb ! r)) = storedCodeHash E m (AddressBytes (objects adb ! r))"
  obtains adb' m' cs' es where "SaveAccount E T r adb = (adb', Inr ())" "adb_inv con E K m' cs' adb'" "entries adb' = entries adb @ es"
    "objs_kept adb adb'" "undoes con E K T es adb' (m', cs') (m, cs)"
    "accAt E m' (AddressBytes (objects adb ! r)) = Some (accData (objects adb' ! r))"
proof -
  let ?a = "AddressBytes (objects adb ! r)"
  let ?e = "case accAt E m ?a of None \<Rightarrow> JournalEntryAccountCreation ?a | Some d \<Rightarrow> JournalEntryAccount d"
  have a: "?a \<notin> codeKeys E" "?a \<noteq> []" using inv r by (auto simp: adb_inv_def obj_ok_def)
  have m: "main_ok E m" "refs_ok E m" using inv by (simp_all add: adb_inv_def)
  obtain b0 where b0: "getAccount E T ?a adb = (b0, Inr (accAt E m ?a))" "adb_inv con E K m cs b0" "objects b0 = objects adb"
      "tries b0 = tries adb" "storage b0 = storage adb" "entries b0 = entries adb" "dataTries b0 = dataTries adb"
    using getAccount_inv [OF inv env(1) a] by blast
  have i0: "adb_inv con E K m cs (journalize ?e b0)" "r < length (objects (journalize ?e b0))" using b0(2,3) r by simp_all
  obtain b1 es1 cs' where b1: "saveDataTrie E T r (journalize ?e b0) = (b1, Inr ())" "adb_inv con E K m cs' b1"
      "entries b1 = entries (journalize ?e b0) @ es1" "objs_kept (journalize ?e b0) b1" "length (objects b1) = length (objects adb)"
      "uaCodeHash (accData (objects b1 ! r)) = uaCodeHash (accData (objects adb ! r))"
      "accCode (objects b1 ! r) = accCode (objects adb ! r)" "hasNewCode (objects b1 ! r) = hasNewCode (objects adb ! r)"
      "data_undoes con E K T es1 b1 ?a cs' cs"
    by (rule saveDataTrie_con [OF i0 env, unfolded journalize_simps(3) b0(3)]) (rule that)
  have a1: "?a = AddressBytes (objects b1 ! r)" and r1: "r < length (objects b1)"
    using b1(4,5) b0(3) r by (auto simp: objs_kept_def)
  let ?oh = "storedCodeHash E m ?a" and ?code = "accCode (objects adb ! r)"
  have cur: "hasNewCode (objects b1 ! r) \<or> uaCodeHash (accData (objects b1 ! r)) = ?oh" using current b1(6,8) by simp
  obtain b2 nh h where b2: "saveCode E T r (accAt E m ?a) b1 = (b2, Inr ())"
      "objects b2 = (objects b1)[r := h (objects b1 ! r)]" "h = id \<or> h = SetCodeHash nh"
      "uaCodeHash (accData (h (objects b1 ! r))) = nh" "dataTries b2 = dataTries b1" "storage b2 = storage b1"
      "entries b2 = entries b1 @ (if nh = ?oh then [] else [JournalEntryCode (codeAt E m ?oh) ?oh nh])"
      "views con (if nh = ?oh then m else codeChange E m ?oh nh (accCode (objects b1 ! r))) cs' b2"
      "nh \<noteq> ?oh \<Longrightarrow> if accCode (objects b1 ! r) = [] then nh = [] else nh \<in> codeKeys E"
    using saveCode_con [OF b1(2) r1 env(1) a1 few cur] by blast
  let ?m1 = "if nh = ?oh then m else codeChange E m ?oh nh ?code" and ?d = "accData (objects b2 ! r)"
  have nth: "objects b2 ! r = h (objects b1 ! r)" using b2(2) r1 by simp
  have "AddressBytes (objects b2 ! r) = ?a" using b2(3) nth a1 by (elim disjE) simp_all
  then have d: "uaAddress ?d = ?a" "uaCodeHash ?d = nh" using b2(4) nth by (simp_all add: AddressBytes_def)
  have code: "nh \<noteq> ?oh \<Longrightarrow> if ?code = [] then nh = [] else nh \<in> codeKeys E" using b2(9) b1(7) by simp
  have m1: "main_ok E ?m1" using main_ok_codeChange [OF env(1) m few _ code] m(1) by auto
  have v2: "views con ?m1 cs' b2" using b2(8) unfolding b1(7) .
  obtain b3 where b3: "saveAccountToTrie E T ?d b2 = (b3, Inr ())" "views con (putAcc E ?m1 ?d) cs' b3" "objects b3 = objects b2"
      "tries b3 = tries b2" "storage b3 = storage b2" "entries b3 = entries b2" "dataTries b3 = dataTries b2"
    using saveAccountToTrie_con [OF v2 m1 env(1), of ?d] by (rule main_step_obtain)
  have sv: "SaveAccount E T r adb = (b3, Inr ())"
    using b0(1) b1(1) b2(1) b3(1) a(2) by (simp add: SaveAccount_def saveCodeAndDataTrie_def Let_def)
  have kept12: "objs_kept b1 b3"
    using objs_kept_mod [of h b1 r] b2(2,3,6) b3(3,5) by (auto simp: objs_kept_def modObject_def)
  moreover have "objs_kept adb b1" using b1(4) objs_kept_same [OF b0(3,5)] objs_kept_trans by simp
  ultimately have kept: "objs_kept adb b3" using objs_kept_trans by blast
  have "adb_inv con E K (putAcc E ?m1 ?d) cs' b3"
  proof (rule adb_inv_objects [OF b1(2) b3(2)])
    show "main_ok E (putAcc E ?m1 ?d)" using main_ok_putAcc [OF env(1) m1] d(1) a by simp
    show "refs_ok E (putAcc E ?m1 ?d)"
      by (rule refs_ok_save [OF env(1) m few d(1) [symmetric] a(1), of ?m1 ?code, unfolded d(2)]) (rule refl, rule code)
    show "set (objects b3) \<subseteq> insert (objects b2 ! r) (set (objects b1))"
      using b3(3) b2(2) nth set_update_subset_insert by metis
    have "obj_ok E K (length cs') (objects b1 ! r)" using b1(2) r1 by (simp add: adb_inv_def)
    then show "obj_ok E K (length cs') (objects b2 ! r)" using b2(3) nth by (auto simp: obj_ok_def)
    show "snd ` set (dataTries b3) \<subseteq> {p. p < length cs'}" using b1(2) b2(5) b3(7) by (auto simp: adb_inv_def)
  qed
  moreover have "undoes con E K T ([?e] @ es1 @ (if nh = ?oh then [] else [JournalEntryCode (codeAt E m ?oh) ?oh nh])) b3
      (putAcc E ?m1 ?d, cs') (m, cs)"
    using save_undoes [OF env(1) m few a _ _ code refl b1(9) kept12, of "Some (projr (marshalAccount E ?d), NotSpecified)"]
      main_ok_putAcc [OF env(1) m1, of ?d] main_ok_putAcc [OF env(1) m(1), of ?d] d(1) a by (simp add: putAcc_def)
  moreover have "accAt E (putAcc E ?m1 ?d) ?a = Some ?d" using accAt_put(1) [OF env(1), of ?d] d(1) a(1) by simp
  ultimately show thesis using that [OF sv _ _ kept] b0(6) b1(3) b2(7) b3(3,6) by simp
qed

subsection \<open>Removing an account\<close>

lemma data_undoes_Nil: "data_undoes con E K T [] adb a cs cs"
  unfolding data_undoes_def by auto

text \<open>Entries whose revert leaves the tries alone.\<close>

lemma entry_without_effect:
  assumes "\<And>b. \<exists>b'. Revert E T e b = (b', Inr None) \<and> mainTrie b' = mainTrie b \<and> tries b' = tries b \<and> objects b' = objects b \<and>
    storage b' = storage b \<and> entries b' = entries b \<and> dataTries b' = dataTries b"
  shows "undoes con E K T [e] adb s s"
  unfolding undoes_def
proof (intro allI impI)
  fix b more assume b: "objs_kept adb b \<and> views con (fst s) (snd s @ more) b \<and> shape E K (snd s @ more) b"
  obtain b' where "Revert E T e b = (b', Inr None)" "mainTrie b' = mainTrie b" "tries b' = tries b" "objects b' = objects b"
    "storage b' = storage b" "entries b' = entries b" "dataTries b' = dataTries b" using assms by blast
  with b show "\<exists>b' more'. revertEntries E T (rev [e]) b = (b', Inr ()) \<and> objs_kept b b' \<and> entries b' = entries b \<and>
      views con (fst s) (snd s @ more') b' \<and> shape E K (snd s @ more') b'"
    by (intro exI [of _ b'] exI [of _ more]) (simp add: objs_kept_same shape_def views_def)
qed

lemma removeDataTrie_result:
  assumes "removeDataTrie T d b = (b', Inr ())"
  obtains es where "entries b' = entries b @ es" "mainTrie b' = mainTrie b" "tries b' = tries b" "objects b' = objects b"
    "storage b' = storage b" "dataTries b' = dataTries b" "\<And>adb s. undoes con E K T es adb s s"
proof (cases "uaRootHash d = []")
  case True
  with assms show thesis by (intro that [of "[]"]) (auto simp: removeDataTrie_def undoes_def)
next
  case False
  with assms obtain t hs where "opRecreate T (storage b) (mainTrie b) (uaRootHash d) = Inr t"
      "snd (opGetAllHashes T (storage b) t) = Inr hs"
    by (auto simp: removeDataTrie_def Let_def split: sum.splits)
  moreover have "undoes con E K T [JournalEntryDataTrieRemove (uaRootHash d)] adb s s" for adb s
    by (rule entry_without_effect) simp
  ultimately show thesis using False assms
    by (intro that [of "[JournalEntryDataTrieRemove (uaRootHash d)]"]) (auto simp: removeDataTrie_def journalize_def Let_def)
qed

lemma remove_undoes:
  assumes env: "acc_env_ok E" and m: "main_ok E m" "refs_ok E m" and few: "card (dom m) < 2 ^ 32 - 1"
    and a: "a \<notin> codeKeys E" "a \<noteq> []" "accAt E m a = Some d"
  shows "undoes con E K T [JournalEntryAccount d, JournalEntryCode (codeAt E m (uaCodeHash d)) (uaCodeHash d) []] adb
    ((decCode E m (uaCodeHash d))(a := None), cs) (m, cs)"
proof -
  let ?oh = "uaCodeHash d"
  have oh: "?oh = storedCodeHash E m a" using a(3) by (simp add: storedCodeHash_def)
  have cc: "(if [] = ?oh then m else codeChange E m ?oh [] []) = decCode E m ?oh"
    using empty_not_codeKey [OF env] by (auto simp: codeChange_def incCode_def decCode_def codeAt_def)
  have ok: "main_ok E ((if [] = ?oh then m else codeChange E m ?oh [] [])(a := None))" "main_ok E (m(a := None))"
    unfolding cc using main_ok_delete main_ok_decCode [OF env m(1)] m(1) by blast+
  have "undoes con E K T ([JournalEntryAccount d] @ (if [] = ?oh then [] else [JournalEntryCode (codeAt E m ?oh) ?oh []])) adb
      ((decCode E m ?oh)(a := None), cs) (m, cs)"
    using save_undoes [OF env m few a(1,2) ok _ oh data_undoes_Nil objs_kept_refl, of K adb cs] a(3) unfolding cc by simp
  moreover have "undoes con E K T [JournalEntryCode (codeAt E m []) [] []] adb s s" for s
    by (rule entry_without_effect) simp
  ultimately show ?thesis using undoes_append [OF _ _ objs_kept_refl] by (cases "?oh = []") fastforce+
qed

lemma RemoveAccount_con:
  assumes inv: "adb_inv con E K m cs adb" and env: "acc_env_ok E" and few: "card (dom m) < 2 ^ 32 - 1"
    and a: "a \<notin> codeKeys E" and ok: "RemoveAccount E T a adb = (adb', Inr ())"
  obtains m' es where "adb_inv con E K m' cs adb'" "entries adb' = entries adb @ es" "objs_kept adb adb'"
    "undoes con E K T es adb' (m', cs) (m, cs)" "accAt E m' a = None"
proof -
  have ne: "a \<noteq> []" using ok by (auto simp: RemoveAccount_def)
  have m: "main_ok E m" "refs_ok E m" using inv by (simp_all add: adb_inv_def)
  obtain b0 where b0: "getAccount E T a adb = (b0, Inr (accAt E m a))" "adb_inv con E K m cs b0" "objects b0 = objects adb"
      "tries b0 = tries adb" "storage b0 = storage adb" "entries b0 = entries adb" "dataTries b0 = dataTries adb"
    using getAccount_inv [OF inv env a ne] by blast
  obtain d where d: "accAt E m a = Some d" using ok b0(1) ne by (cases "accAt E m a") (simp_all add: RemoveAccount_def)
  let ?oh = "uaCodeHash d" and ?b = "journalize (JournalEntryAccount d) b0"
  have oh: "?oh = storedCodeHash E m a" using d by (simp add: storedCodeHash_def)
  have "views con m cs ?b" using b0(2) by (simp add: adb_inv_def)
  from updateOldCodeEntry_con [OF this m(1) env stored_key [OF env m, of a]] obtain b1 where
    b1: "updateOldCodeEntry E T ?oh ?b = (b1, Inr (codeAt E m ?oh))" "views con (decCode E m ?oh) cs b1" "objects b1 = objects ?b"
      "storage b1 = storage ?b" "entries b1 = entries ?b" "dataTries b1 = dataTries ?b"
    unfolding oh by (rule main_step_obtain)
  let ?b1 = "journalize (JournalEntryCode (codeAt E m ?oh) ?oh []) b1"
  have st: "andThen (removeDataTrie T d ?b1) (\<lambda>adb _. mainDelete T a adb) = (adb', Inr ())"
    using ok ne b0(1) d b1(1) by (simp add: RemoveAccount_def removeCodeAndDataTrie_def removeCode_def)
  obtain b2 where b2: "removeDataTrie T d ?b1 = (b2, Inr ())" "mainDelete T a b2 = (adb', Inr ())"
    using st by (cases "removeDataTrie T d ?b1"; cases "snd (removeDataTrie T d ?b1)") auto
  from removeDataTrie_result [OF b2(1)] obtain es where
    es: "entries b2 = entries ?b1 @ es" "mainTrie b2 = mainTrie ?b1" "tries b2 = tries ?b1" "objects b2 = objects ?b1"
      "storage b2 = storage ?b1" "dataTries b2 = dataTries ?b1" "\<And>adb s. undoes con E K T es adb s s" by metis
  have "views con (decCode E m ?oh) cs b2" using b1(2) es by (simp add: views_def)
  from mainDelete_con [OF this, of a] b2(2) have b3: "views con ((decCode E m ?oh)(a := None)) cs adb'" "objects adb' = objects b2"
      "storage adb' = storage b2" "entries adb' = entries b2" "dataTries adb' = dataTries b2"
    by (auto simp: main_step_def)
  have objs: "objects adb' = objects adb" "dataTries adb' = dataTries adb" "storage adb' = storage adb"
    using b0(3,5,7) b1(3,4,6) es(4,5,6) b3(2,3,5) by simp_all
  show thesis
  proof (rule that)
    show "adb_inv con E K ((decCode E m ?oh)(a := None)) cs adb'"
      using b3(1) inv shape_same [OF objs(1,2)] main_ok_delete [OF main_ok_decCode [OF env m(1)]] refs_ok_remove [OF env m a]
      unfolding adb_inv_shape oh by blast
    show "entries adb' = entries adb @ [JournalEntryAccount d, JournalEntryCode (codeAt E m ?oh) ?oh []] @ es"
      using b0(6) b1(5) es(1) b3(4) by simp
    show "objs_kept adb adb'" using objs by (simp add: objs_kept_same)
    show "undoes con E K T ([JournalEntryAccount d, JournalEntryCode (codeAt E m ?oh) ?oh []] @ es) adb'
        ((decCode E m ?oh)(a := None), cs) (m, cs)"
      by (rule undoes_append [OF remove_undoes [OF env m few a ne d] es(7) objs_kept_refl])
    show "accAt E ((decCode E m ?oh)(a := None)) a = None" using accAt_put(3) [OF env a] by simp
  qed
qed

end

end
