(* ===== verification/Accounts_Runs.thy ===== *)
theory Accounts_Runs
  imports Accounts_Theorems
begin

text \<open>
  Runs of the account state between two commits: loads, edits of account objects, saves, removals and nested
  reverts, in any order. Whatever a run did, \<open>RevertToSnapshot\<close> to its start succeeds and restores every trie.
\<close>

subsection \<open>Runs\<close>

text \<open>What a caller may do with an account it was given, one rule per method that changes it.\<close>

inductive user_call :: "accEnv \<Rightarrow> bytes set \<Rightarrow> userAccount \<Rightarrow> userAccount \<Rightarrow> bool" for E K where
  "AddToBalance v a = Inr a' \<Longrightarrow> user_call E K a a'"
| "SubFromBalance v a = Inr a' \<Longrightarrow> user_call E K a a'"
| "ClaimDeveloperRewards s a = Inr (v, a') \<Longrightarrow> user_call E K a a'"
| "user_call E K a (AddToDeveloperReward v a)"
| "ChangeOwnerAddress s n a = Inr a' \<Longrightarrow> user_call E K a a'"
| "user_call E K a (SetOwnerAddress s a)"
| "user_call E K a (IncreaseNonce n a)"
| "user_call E K a (SetUserName u a)"
| "user_call E K a (SetCodeMetadata cm a)"
| "user_call E K a (SetCode c a)"
| "key \<in> K \<Longrightarrow> SaveKeyValue (tdtEnvOf E) key value (accDirty a) = Inr dd \<Longrightarrow> user_call E K a (a\<lparr>accDirty := dd\<rparr>)"

lemmas account_methods = AddToBalance_def SubFromBalance_def ClaimDeveloperRewards_def AddToDeveloperReward_def
  ChangeOwnerAddress_def SetOwnerAddress_def IncreaseNonce_def SetUserName_def SetCodeMetadata_def SetCode_def

lemma user_call_kept:
  assumes "user_call E K a a'"
  shows "AddressBytes a' = AddressBytes a \<and> accTrie a' = accTrie a \<and>
    (dirty_ok (tdtEnvOf E) K (accDirty a) \<longrightarrow> dirty_ok (tdtEnvOf E) K (accDirty a'))"
  using assms SaveKeyValue_dirty_ok
  by cases (auto simp: account_methods modData_def AddressBytes_def Let_def split: if_splits)

text \<open>
  The tries a load takes from storage hold well-formed data; the number of stored entries fits the reference
  counters; an account is saved from an object that has new code or agrees with the stored code hash.
\<close>

definition loads_ok :: "('db \<Rightarrow> (bytes \<rightharpoonup> entry) \<Rightarrow> 't \<Rightarrow> bool) \<Rightarrow> accEnv \<Rightarrow> bytes set \<Rightarrow> ('db, 't) accountsDB \<Rightarrow>
    ('db, 't) accountsDB \<Rightarrow> bool" where
  "loads_ok con E K adb adb' \<longleftrightarrow> (\<forall>t \<in> set (drop (length (tries adb)) (tries adb')).
     \<exists>c. con (storage adb) c t \<and> content_ok (tdtEnvOf E) K c)"

definition few_entries :: "('db \<Rightarrow> (bytes \<rightharpoonup> entry) \<Rightarrow> 't \<Rightarrow> bool) \<Rightarrow> ('db, 't) accountsDB \<Rightarrow> bool" where
  "few_entries con adb \<longleftrightarrow> (\<forall>m. con (storage adb) m (mainTrie adb) \<longrightarrow> card (dom m) < 2 ^ 32 - 1)"

definition code_current :: "accEnv \<Rightarrow> ('db, 't) trieOps \<Rightarrow> nat \<Rightarrow> ('db, 't) accountsDB \<Rightarrow> bool" where
  "code_current E T r adb \<longleftrightarrow> hasNewCode (objects adb ! r) \<or> uaCodeHash (accData (objects adb ! r)) =
     (case snd (getAccount E T (AddressBytes (objects adb ! r)) adb) of Inr (Some d) \<Rightarrow> uaCodeHash d | _ \<Rightarrow> [])"

inductive acc_run :: "('db \<Rightarrow> (bytes \<rightharpoonup> entry) \<Rightarrow> 't \<Rightarrow> bool) \<Rightarrow> accEnv \<Rightarrow> bytes set \<Rightarrow> ('db, 't) trieOps \<Rightarrow>
    ('db, 't) accountsDB \<Rightarrow> ('db, 't) accountsDB \<Rightarrow> bool" for con E K T where
  start: "acc_run con E K T a a"
| edit: "acc_run con E K T a b \<Longrightarrow> r < length (objects b) \<Longrightarrow> user_call E K (objects b ! r) x \<Longrightarrow>
    acc_run con E K T a (modObject r (\<lambda>_. x) b)"
| save: "acc_run con E K T a b \<Longrightarrow> r < length (objects b) \<Longrightarrow> code_current E T r b \<Longrightarrow> few_entries con b \<Longrightarrow>
    SaveAccount E T r b = (c, res) \<Longrightarrow> acc_run con E K T a c"
| remove: "acc_run con E K T a b \<Longrightarrow> address \<notin> codeKeys E \<Longrightarrow> few_entries con b \<Longrightarrow>
    RemoveAccount E T address b = (c, Inr ()) \<Longrightarrow> acc_run con E K T a c"
| load: "acc_run con E K T a b \<Longrightarrow> address \<notin> codeKeys E \<Longrightarrow> LoadAccount E T address b = (c, Inr r) \<Longrightarrow>
    loads_ok con E K b c \<Longrightarrow> acc_run con E K T a c"
| get: "acc_run con E K T a b \<Longrightarrow> address \<notin> codeKeys E \<Longrightarrow> GetExistingAccount E T address b = (c, Inr r) \<Longrightarrow>
    loads_ok con E K b c \<Longrightarrow> acc_run con E K T a c"
| revert: "acc_run con E K T a b \<Longrightarrow> acc_run con E K T b c \<Longrightarrow> 0 < JournalLen b \<Longrightarrow>
    RevertToSnapshot E T (int (JournalLen b)) c = (d, res) \<Longrightarrow> acc_run con E K T a d"

subsection \<open>Each step\<close>

lemma undoes_more:
  assumes "undoes con E K T es b (m, cs) s" "objs_kept b d"
  shows "undoes con E K T es d (m, cs @ new) s"
  using undoes_append [OF assms(1) undoes_Nil assms(2), of new] by simp

lemma inv_edit:
  assumes "adb_inv con E K m cs b" "r < length (objects b)" "user_call E K (objects b ! r) x"
  shows "adb_inv con E K m cs (modObject r (\<lambda>_. x) b)" "objs_kept b (modObject r (\<lambda>_. x) b)"
proof -
  note k = user_call_kept [OF assms(3)]
  have "obj_ok E K (length cs) (objects b ! r)" using assms(1,2) by (simp add: adb_inv_def)
  then have x: "obj_ok E K (length cs) x" using k by (simp add: obj_ok_def)
  show "adb_inv con E K m cs (modObject r (\<lambda>_. x) b)"
  proof (rule adb_inv_objects [OF assms(1) _ _ _ _ x])
    show "set (objects (modObject r (\<lambda>_. x) b)) \<subseteq> insert x (set (objects b))" using set_modObject by blast
  qed (use assms(1) in \<open>auto simp: adb_inv_def views_def\<close>)
  show "objs_kept b (modObject r (\<lambda>_. x) b)" unfolding objs_kept_def
  proof (intro conjI allI impI)
    fix i assume i: "i < length (objects b)"
    show "AddressBytes (objects (modObject r (\<lambda>_. x) b) ! i) = AddressBytes (objects b ! i)"
      using i k by (cases "i = r") (simp_all add: modObject_def)
    fix p assume "accTrie (objects b ! i) = Some p"
    then show "accTrie (objects (modObject r (\<lambda>_. x) b) ! i) = Some p"
      using i k by (cases "i = r") (simp_all add: modObject_def)
  qed simp_all
qed

text \<open>A new object, with the tries it brings.\<close>

lemma inv_new_object:
  assumes inv: "adb_inv con E K m cs b" and x: "objects c = objects b @ [x]" "obj_ok E K (length (tries c)) x"
    and t: "tries c = tries b @ ts" "\<forall>t \<in> set ts. \<exists>d. con (storage b) d t \<and> content_ok (tdtEnvOf E) K d"
    and same: "mainTrie c = mainTrie b" "storage c = storage b"
    and dt: "snd ` set (dataTries c) \<subseteq> {p. p < length (tries c)}"
  obtains new where "adb_inv con E K m (cs @ new) c" "objs_kept b c"
proof -
  from t(2) obtain new where new: "list_all2 (con (storage b)) new ts" "\<forall>d \<in> set new. content_ok (tdtEnvOf E) K d"
  proof (induction ts arbitrary: thesis)
    case (Cons t ts)
    then obtain d new where "con (storage b) d t" "content_ok (tdtEnvOf E) K d" "list_all2 (con (storage b)) new ts"
      "\<forall>d \<in> set new. content_ok (tdtEnvOf E) K d" by (metis list.set_intros)
    then show ?case by (intro Cons.prems(1) [of "d # new"]) simp_all
  qed simp
  have v: "views con m (cs @ new) c"
    using inv new(1) same t(1) by (auto simp: adb_inv_def views_def list_all2_appendI)
  have len: "length (tries c) = length (cs @ new)" using views_length [OF v] .
  have "obj_ok E K (length (cs @ new)) a" if "a \<in> set (objects b)" for a
    using inv that obj_ok_mono [of E K "length cs" a] by (simp add: adb_inv_def)
  then have "adb_inv con E K m (cs @ new) c"
    using v inv new(2) x dt unfolding adb_inv_def len by auto
  moreover have "objs_kept b c" using x(1) same(2) by (simp add: objs_kept_def nth_append)
  ultimately show thesis using that by blast
qed

lemma loadObject_inv:
  assumes inv: "adb_inv con E K m cs b" and ok: "loadObject T d b = (c, Inr r)" and a: "uaAddress d \<notin> codeKeys E" "uaAddress d \<noteq> []"
    and lo: "loads_ok con E K b c"
  obtains new where "adb_inv con E K m (cs @ new) c" "objs_kept b c" "entries c = entries b"
proof -
  let ?o = "\<lparr>accData = d, accDirty = [], accTrie = None, accCode = [], hasNewCode = False\<rparr>"
  have len: "length (tries b) = length cs" using inv views_length by (auto simp: adb_inv_def)
  have dts: "\<forall>p \<in> snd ` set (dataTries b). p < length (tries b)" using inv len by (simp add: adb_inv_def)
  consider (held) p where "map_of (dataTries b) (uaAddress d) = Some p" "c = b\<lparr>objects := objects b @ [?o\<lparr>accTrie := Some p\<rparr>]\<rparr>"
    | (none) "c = b\<lparr>objects := objects b @ [?o]\<rparr>"
    | (fresh) t where "c = b\<lparr>tries := tries b @ [t], objects := objects b @ [?o\<lparr>accTrie := Some (length (tries b))\<rparr>],
        dataTries := AList.update (uaAddress d) (length (tries b)) (dataTries b)\<rparr>"
    using ok by (auto simp: loadObject_def newObject_def loadDataTrie_def newTrie_def modObject_def SetDataTrie_def AddressBytes_def Let_def
        split: option.splits if_splits sum.splits)
  then show thesis
  proof cases
    case held
    have "p < length (tries b)" using dts map_of_SomeD [OF held(1)] by force
    with held(2) a dts inv_new_object [OF inv, of c "?o\<lparr>accTrie := Some p\<rparr>" "[]"] that show thesis
      by (auto simp: obj_ok_def AddressBytes_def dirty_ok_def)
  next
    case none
    with a dts inv_new_object [OF inv, of c ?o "[]"] that show thesis
      by (auto simp: obj_ok_def AddressBytes_def dirty_ok_def)
  next
    case fresh
    have "p < Suc (length (tries b))"
      if "(x, p) \<in> set (AList.update (uaAddress d) (length (tries b)) (dataTries b))" for x p
      using set_AList_update that dts by fastforce
    then have "snd ` set (dataTries c) \<subseteq> {p. p < length (tries c)}" using fresh by auto
    moreover have "\<exists>d. con (storage b) d t \<and> content_ok (tdtEnvOf E) K d" using lo fresh by (simp add: loads_ok_def)
    ultimately show thesis
      using fresh a inv_new_object [OF inv, of c "?o\<lparr>accTrie := Some (length (tries b))\<rparr>" "[t]"] that
      by (auto simp: obj_ok_def AddressBytes_def dirty_ok_def)
  qed
qed

context trie_laws
begin

lemma few_entries_con: "few_entries con b \<Longrightarrow> adb_inv con E K m cs b \<Longrightarrow> card (dom m) < 2 ^ 32 - 1"
  by (simp add: few_entries_def adb_inv_def views_def)

text \<open>The number of entries is the same for every content the trie may be said to have.\<close>

lemma few_entries_if:
  assumes "con (storage b) m (mainTrie b)" "card (dom m) < 2 ^ 32 - 1"
  shows "few_entries con b"
  unfolding few_entries_def
proof (intro allI impI)
  fix m' assume m': "con (storage b) m' (mainTrie b)"
  have "map_option fst (m k) = map_option fst (m' k)" for k
    using get_con [OF assms(1), of k] get_con [OF m', of k] by auto
  then have "dom m = dom m'" by (metis (no_types, lifting) domIff map_option_is_None subsetI subset_antisym)
  with assms(2) show "card (dom m') < 2 ^ 32 - 1" by simp
qed

lemma load_inv:
  assumes inv: "adb_inv con E K m cs b" and env: "acc_env_ok E" and a: "address \<notin> codeKeys E" and lo: "loads_ok con E K b c"
    and ok: "LoadAccount E T address b = (c, Inr r) \<or> GetExistingAccount E T address b = (c, Inr r)"
  obtains new where "adb_inv con E K m (cs @ new) c" "objs_kept b c" "entries c = entries b"
proof -
  have ne: "address \<noteq> []" using ok by (auto simp: LoadAccount_def GetExistingAccount_def)
  obtain b0 where b0: "getAccount E T address b = (b0, Inr (accAt E m address))" "adb_inv con E K m cs b0" "objects b0 = objects b"
    "tries b0 = tries b" "storage b0 = storage b" "entries b0 = entries b" "dataTries b0 = dataTries b"
    using getAccount_inv [OF inv env a ne] by blast
  have kept: "objs_kept b c" if "objs_kept b0 c" using that b0(3,5) by (simp add: objs_kept_def)
  show thesis
  proof (cases "accAt E m address")
    case (Some d)
    have d: "uaAddress d = address" using putAcc_stored(1) [OF env _ Some] inv by (simp add: adb_inv_def)
    have "loadObject T d b0 = (c, Inr r)" using ok ne b0(1) Some by (auto simp: LoadAccount_def GetExistingAccount_def)
    moreover have "loads_ok con E K b0 c" using lo b0(4,5) by (simp add: loads_ok_def)
    ultimately show thesis using loadObject_inv [OF b0(2)] a ne d kept b0(6) that by metis
  next
    case None
    let ?o = "\<lparr>accData = \<lparr>uaNonce = 0, uaBalance = 0, uaCodeHash = [], uaRootHash = [], uaAddress = address,
          uaDeveloperReward = 0, uaOwnerAddress = [], uaUserName = [], uaCodeMetadata = []\<rparr>,
        accDirty = [], accTrie = None, accCode = [], hasNewCode = False\<rparr>"
    have c: "c = b0\<lparr>objects := objects b0 @ [?o]\<rparr>"
      using ok ne b0(1) None by (auto simp: LoadAccount_def GetExistingAccount_def NewUserAccount_def newObject_def)
    have "length (tries b0) = length cs" using b0(2) views_length by (auto simp: adb_inv_def)
    then have "snd ` set (dataTries b0) \<subseteq> {p. p < length (tries b0)}" using b0(2) by (auto simp: adb_inv_def)
    then obtain new where "adb_inv con E K m (cs @ new) c" "objs_kept b0 c"
      using inv_new_object [OF b0(2), of c ?o "[]"] c a ne by (auto simp: obj_ok_def AddressBytes_def dirty_ok_def)
    with kept b0(6) c that show thesis by simp
  qed
qed

text \<open>Reverting to the journal length before a list of entries that undo.\<close>

lemma revert_con:
  assumes "undoes con E K T es c (m', cs') (m, cs)" "adb_inv con E K m' cs' c" "entries c = es0 @ es" "es0 \<noteq> []"
  obtains d new where "RevertToSnapshot E T (int (length es0)) c = (d, Inr ())" "views con m (cs @ new) d" "shape E K (cs @ new) d"
    "objs_kept c d" "entries d = es0"
proof -
  have "views con m' (cs' @ []) c" "shape E K (cs' @ []) c" using assms(2) by (simp_all add: adb_inv_shape)
  with assms(1) obtain b new where b: "revertEntries E T (rev es) c = (b, Inr ())" "objs_kept c b" "entries b = entries c"
      "views con m (cs @ new) b" "shape E K (cs @ new) b"
    unfolding undoes_def fst_conv snd_conv using objs_kept_refl by blast
  let ?d = "b\<lparr>entries := es0\<rparr>"
  show thesis
  proof (rule that [of ?d new])
    show "RevertToSnapshot E T (int (length es0)) c = (?d, Inr ())"
      using b(1,3) assms(3,4) by (simp add: RevertToSnapshot_def)
  qed (use b in \<open>simp_all add: views_def shape_def objs_kept_def\<close>)
qed

text \<open>Every run keeps the invariant, and its journal entries undo it.\<close>

lemma run_undoes:
  assumes "acc_run con E K T a b" "acc_env_ok E" "hash_ok (tdtEnvOf E) K" "adb_inv con E K m cs a"
  shows "\<exists>m' cs' es. adb_inv con E K m' cs' b \<and> entries b = entries a @ es \<and> objs_kept a b \<and>
    undoes con E K T es b (m', cs') (m, cs)"
  using assms(1,4)
proof (induction arbitrary: m cs rule: acc_run.induct)
  case (start a)
  then show ?case using undoes_Nil [of con E K T a m cs "[]"] by (intro exI [of _ m] exI [of _ cs] exI [of _ "[]"]) simp
next
  case (edit a b r x)
  from edit.IH [OF edit.prems] obtain m' cs' es where b: "adb_inv con E K m' cs' b" "entries b = entries a @ es" "objs_kept a b"
    "undoes con E K T es b (m', cs') (m, cs)" by blast
  note e = inv_edit [OF b(1) edit.hyps(2,3)]
  from undoes_more [OF b(4) e(2), of "[]"] e b objs_kept_trans [OF b(3) e(2)] show ?case
    by (intro exI [of _ m'] exI [of _ cs'] exI [of _ es]) simp
next
  case (save a b r c res)
  from save.IH [OF save.prems] obtain m' cs' es where b: "adb_inv con E K m' cs' b" "entries b = entries a @ es" "objs_kept a b"
    "undoes con E K T es b (m', cs') (m, cs)" by blast
  have few: "card (dom m') < 2 ^ 32 - 1" by (rule few_entries_con [OF save.hyps(4) b(1)])
  have "obj_ok E K (length cs') (objects b ! r)" using b(1) save.hyps(2) by (simp add: adb_inv_def)
  then have "AddressBytes (objects b ! r) \<notin> codeKeys E" "AddressBytes (objects b ! r) \<noteq> []" by (simp_all add: obj_ok_def)
  then have "snd (getAccount E T (AddressBytes (objects b ! r)) b) = Inr (accAt E m' (AddressBytes (objects b ! r)))"
    using getAccount_inv [OF b(1) assms(2)] by (metis snd_conv)
  then have cur: "hasNewCode (objects b ! r) \<or> uaCodeHash (accData (objects b ! r)) = storedCodeHash E m' (AddressBytes (objects b ! r))"
    using save.hyps(3) by (auto simp: code_current_def storedCodeHash_def split: option.splits)
  obtain c' m2 cs2 es2 where c': "SaveAccount E T r b = (c', Inr ())" "adb_inv con E K m2 cs2 c'" "entries c' = entries b @ es2"
    "objs_kept b c'" "undoes con E K T es2 c' (m2, cs2) (m', cs')"
    by (rule SaveAccount_con [OF b(1) save.hyps(2) assms(2,3) few cur]) (rule that)
  with save.hyps(5) have "c' = c" by simp
  with c' b undoes_append [OF b(4) c'(5,4)] objs_kept_trans [OF b(3) c'(4)] show ?case
    by (intro exI [of _ m2] exI [of _ cs2] exI [of _ "es @ es2"]) simp
next
  case (remove a b address c)
  from remove.IH [OF remove.prems] obtain m' cs' es where b: "adb_inv con E K m' cs' b" "entries b = entries a @ es" "objs_kept a b"
    "undoes con E K T es b (m', cs') (m, cs)" by blast
  have few: "card (dom m') < 2 ^ 32 - 1" by (rule few_entries_con [OF remove.hyps(3) b(1)])
  obtain m2 es2 where c: "adb_inv con E K m2 cs' c" "entries c = entries b @ es2" "objs_kept b c"
    "undoes con E K T es2 c (m2, cs') (m', cs')"
    by (rule RemoveAccount_con [OF b(1) assms(2) few remove.hyps(2,4)]) (rule that)
  with b undoes_append [OF b(4) c(4,3)] objs_kept_trans [OF b(3) c(3)] show ?case
    by (intro exI [of _ m2] exI [of _ cs'] exI [of _ "es @ es2"]) simp
next
  case (load a b address c r)
  from load.IH [OF load.prems] obtain m' cs' es where b: "adb_inv con E K m' cs' b" "entries b = entries a @ es" "objs_kept a b"
    "undoes con E K T es b (m', cs') (m, cs)" by blast
  obtain new where c: "adb_inv con E K m' (cs' @ new) c" "objs_kept b c" "entries c = entries b"
    using load_inv [OF b(1) assms(2) load.hyps(2,4)] load.hyps(3) by blast
  with b undoes_more [OF b(4) c(2)] objs_kept_trans [OF b(3) c(2)] show ?case
    by (intro exI [of _ m'] exI [of _ "cs' @ new"] exI [of _ es]) simp
next
  case (get a b address c r)
  from get.IH [OF get.prems] obtain m' cs' es where b: "adb_inv con E K m' cs' b" "entries b = entries a @ es" "objs_kept a b"
    "undoes con E K T es b (m', cs') (m, cs)" by blast
  obtain new where c: "adb_inv con E K m' (cs' @ new) c" "objs_kept b c" "entries c = entries b"
    using load_inv [OF b(1) assms(2) get.hyps(2,4)] get.hyps(3) by blast
  with b undoes_more [OF b(4) c(2)] objs_kept_trans [OF b(3) c(2)] show ?case
    by (intro exI [of _ m'] exI [of _ "cs' @ new"] exI [of _ es]) simp
next
  case (revert a b c d res)
  from revert.IH(1) [OF revert.prems] obtain m1 cs1 es1 where b: "adb_inv con E K m1 cs1 b" "entries b = entries a @ es1"
    "objs_kept a b" "undoes con E K T es1 b (m1, cs1) (m, cs)" by blast
  from revert.IH(2) [OF b(1)] obtain m2 cs2 es2 where c: "adb_inv con E K m2 cs2 c" "entries c = entries b @ es2" "objs_kept b c"
    "undoes con E K T es2 c (m2, cs2) (m1, cs1)" by blast
  have "entries b \<noteq> []" using revert.hyps(3) by (simp add: JournalLen_def)
  then obtain d' new where d': "RevertToSnapshot E T (int (length (entries b))) c = (d', Inr ())" "views con m1 (cs1 @ new) d'"
      "shape E K (cs1 @ new) d'" "objs_kept c d'" "entries d' = entries b"
    using revert_con [OF c(4,1,2)] by blast
  then have "d' = d" using revert.hyps(4) by (simp add: JournalLen_def)
  have "adb_inv con E K m1 (cs1 @ new) d'" using d' b(1) by (simp add: adb_inv_shape)
  moreover have kept: "objs_kept b d'" using c(3) d'(4) objs_kept_trans by blast
  ultimately show ?case using \<open>d' = d\<close> d'(5) b undoes_more [OF b(4) kept] objs_kept_trans [OF b(3) kept]
    by (intro exI [of _ m1] exI [of _ "cs1 @ new"] exI [of _ es1]) simp
qed

lemma run_reverts:
  assumes "acc_run con E K T a b" "acc_env_ok E" "hash_ok (tdtEnvOf E) K" "adb_inv con E K m cs a" "0 < JournalLen a"
  shows "\<exists>c new. RevertToSnapshot E T (int (JournalLen a)) b = (c, Inr ()) \<and> adb_inv con E K m (cs @ new) c \<and>
    entries c = entries a \<and> snd (opRootHash T (mainTrie c)) = snd (opRootHash T (mainTrie a)) \<and>
    (\<forall>p < length (tries a). snd (opRootHash T (tries c ! p)) = snd (opRootHash T (tries a ! p)))"
proof -
  obtain m' cs' es where b: "adb_inv con E K m' cs' b" "entries b = entries a @ es" "undoes con E K T es b (m', cs') (m, cs)"
    using run_undoes [OF assms(1-4)] by blast
  have "entries a \<noteq> []" using assms(5) by (simp add: JournalLen_def)
  then obtain c new where c: "RevertToSnapshot E T (int (length (entries a))) b = (c, Inr ())" "views con m (cs @ new) c"
      "shape E K (cs @ new) c" "entries c = entries a"
    using revert_con [OF b(3,1,2)] by blast
  have i: "adb_inv con E K m (cs @ new) c" using c assms(4) by (simp add: adb_inv_shape)
  have v: "con (storage a) m (mainTrie a)" "con (storage c) m (mainTrie c)" "list_all2 (con (storage a)) cs (tries a)"
      "list_all2 (con (storage c)) (cs @ new) (tries c)"
    using c(2) assms(4) by (simp_all add: adb_inv_def views_def)
  have "snd (opRootHash T (tries c ! p)) = snd (opRootHash T (tries a ! p))" if "p < length (tries a)" for p
  proof -
    have p: "p < length cs" using that v(3) list_all2_lengthD by fastforce
    have "con (storage a) (cs ! p) (tries a ! p)" using list_all2_nthD [OF v(3) p] .
    moreover have "con (storage c) (cs ! p) (tries c ! p)" using list_all2_nthD [OF v(4), of p] p by (simp add: nth_append)
    ultimately show ?thesis using root_same by metis
  qed
  then show ?thesis using c i root_same [OF v(2,1)] by (intro exI [of _ c] exI [of _ new]) (simp add: JournalLen_def)
qed

text \<open>Reference counts, read with the operations.\<close>

lemma inv_counts:
  assumes "adb_inv con E K m cs b" "acc_env_ok E" "h \<in> codeKeys E"
  shows "card {a. a \<noteq> [] \<and> a \<notin> codeKeys E \<and> (\<exists>d. snd (getAccount E T a b) = Inr (Some d) \<and> uaCodeHash d = h)} =
    (case snd (getCodeEntry E T h b) of Inr (Some c) \<Rightarrow> unat (NumReferences c) | _ \<Rightarrow> 0)"
proof -
  have v: "views con m cs b" "main_ok E m" "refs_ok E m" using assms(1) by (simp_all add: adb_inv_def)
  have acc: "snd (getAccount E T a b) = Inr (accAt E m a)" if "a \<noteq> []" "a \<notin> codeKeys E" for a
    using getAccount_con [OF v(1,2) assms(2) that(2,1)] by (auto simp: main_step_def)
  have "a \<noteq> [] \<and> a \<notin> codeKeys E" if "accAt E m a = Some d" for a d
    using that v(2) by (auto simp: accAt_def main_ok_def split: if_splits option.splits)
  then have "{a. a \<noteq> [] \<and> a \<notin> codeKeys E \<and> (\<exists>d. snd (getAccount E T a b) = Inr (Some d) \<and> uaCodeHash d = h)} = users E m h"
    using acc by (auto simp: users_def)
  moreover have "snd (getCodeEntry E T h b) = Inr (codeAt E m h)"
    using getCodeEntry_con [OF v(1,2) assms(2), of h] assms(3) by (auto simp: main_step_def)
  moreover have "h \<noteq> []" using assms(2,3) empty_not_codeKey by auto
  ultimately show ?thesis using v(3) by (simp add: refs_ok_def split: option.splits)
qed

lemma run_counts:
  assumes "acc_run con E K T a b" "acc_env_ok E" "hash_ok (tdtEnvOf E) K" "adb_inv con E K m cs a" "h \<in> codeKeys E"
  shows "card {a. a \<noteq> [] \<and> a \<notin> codeKeys E \<and> (\<exists>d. snd (getAccount E T a b) = Inr (Some d) \<and> uaCodeHash d = h)} =
    (case snd (getCodeEntry E T h b) of Inr (Some c) \<Rightarrow> unat (NumReferences c) | _ \<Rightarrow> 0)"
  using run_undoes [OF assms(1-4)] inv_counts [OF _ assms(2,5)] by blast

text \<open>Dirty data, saved and read back.\<close>

lemma RetrieveValue_con:
  assumes "con db m t"
  shows "map_sum id fst (snd (RetrieveValue E T db ident [] (Some t) k)) = readData E ident m k"
  using retrieve_con [OF assms, of E k]
  by (auto simp: RetrieveValue_def readData_def split: sum.splits)

lemma SaveDirtyData_con:
  assumes "con db m t" "env_ok E" "hash_ok E K" "content_ok E K m" "dirty_ok E K dd" "dd \<noteq> []"
  shows "\<exists>t' ch olds t''. SaveDirtyData E T db mt ident dd (Some t) = (Some t', [], Inr (ch, olds)) \<and>
    (\<forall>k \<in> K. map_sum id fst (snd (RetrieveValue E T db ident [] (Some t') k)) = (case map_of dd k of
       Some d \<Rightarrow> Inr (deValue d) | None \<Rightarrow> map_sum id fst (snd (RetrieveValue E T db ident [] (Some t) k)))) \<and>
    revertUpdates T db (rev olds) t' = (t'', None) \<and> con db m t''"
proof -
  obtain t' m' ch olds where u: "updateTrie E T db ident dd t = (t', Inr (ch, olds))" "con db m' t'"
    "foldl undo m' (rev olds) = m" "\<forall>k \<in> K. readData E ident m' k =
       (case map_of dd k of None \<Rightarrow> readData E ident m k | Some d \<Rightarrow> Inr (deValue d))"
    using updateTrie_con [OF assms(1-5), of ident] by blast
  moreover obtain t'' where "revertUpdates T db (rev olds) t' = (t'', None)" "con db m t''"
    using revertUpdates_con [OF u(2), of "rev olds"] u(3) by auto
  ultimately show ?thesis using assms(6) RetrieveValue_con [OF assms(1)] RetrieveValue_con [OF u(2)]
    by (intro exI [of _ t'] exI [of _ ch] exI [of _ olds] exI [of _ t'']) (auto simp: SaveDirtyData_def split: option.splits)
qed

end

end
