(* ===== verification/Accounts_Properties.thy ===== *)
theory Accounts_Properties
  imports Accounts_Runs
begin

text \<open>
  The properties of the account state over the Patricia-Merkle trie, with an environment in which their
  hypotheses hold: a self-delimiting encoding for the marshaller and prefixing for the hashes.
\<close>

subsection \<open>An environment\<close>

definition frame :: "bytes \<Rightarrow> bytes" where
  "frame xs = concat (map (\<lambda>x. [1, x]) xs) @ [0]"

fun unframe :: "bytes \<Rightarrow> bytes \<Rightarrow> bytes list" where
  "unframe acc [] = []"
| "unframe acc [x] = (if x = 0 then [acc] else [])"
| "unframe acc (x # y # xs) = (if x = 0 then acc # unframe [] (y # xs) else unframe (acc @ [y]) xs)"

definition frames :: "bytes list \<Rightarrow> bytes" where
  "frames xss = concat (map frame xss)"

lemma unframe_frame: "unframe acc (frame xs @ ys) = (acc @ xs) # unframe [] ys"
  by (induction xs arbitrary: acc) (cases ys; simp add: frame_def)+

lemma unframe_frames [simp]: "unframe [] (frames xss) = xss"
  by (induction xss) (simp_all add: frames_def unframe_frame)

lemma frames_nonempty: "xss \<noteq> [] \<Longrightarrow> frames xss \<noteq> []"
  by (cases xss) (simp_all add: frames_def frame_def)

definition intBytes :: "int \<Rightarrow> bytes" where
  "intBytes i = (if i < 0 then 1 else 0) # replicate (nat \<bar>i\<bar>) 0"

definition bytesInt :: "bytes \<Rightarrow> int" where
  "bytesInt xs = (if hd xs = 1 then - int (length (tl xs)) else int (length (tl xs)))"

lemma bytesInt_intBytes [simp]: "bytesInt (intBytes i) = i"
  by (simp add: bytesInt_def intBytes_def)

definition tinyTdtEnv :: "tdtEnv" where
  "tinyTdtEnv = \<lparr>autoBalanceFlag = True, GetVersionForNewData = AutoBalanceEnabled, hashKey = (\<lambda>k. 3 # k),
     marshalLeafData = (\<lambda>l. Inr (frames [tldValue l, tldKey l, tldAddress l])),
     unmarshalLeafData = (\<lambda>b. case unframe [] b of
       [v, k, a] \<Rightarrow> Inr \<lparr>tldValue = v, tldKey = k, tldAddress = a\<rparr> | _ \<Rightarrow> Inl ErrUnmarshalling),
     MaxLeafSize = 100\<rparr>"

definition tinyEnv :: accEnv where
  "tinyEnv = \<lparr>tdtEnvOf = tinyTdtEnv, codeHash = (\<lambda>c. 4 # c),
     marshalAccount = (\<lambda>d. Inr (frames [replicate (unat (uaNonce d)) 0, intBytes (uaBalance d), uaCodeHash d, uaRootHash d,
       uaAddress d, intBytes (uaDeveloperReward d), uaOwnerAddress d, uaUserName d, uaCodeMetadata d])),
     unmarshalAccount = (\<lambda>b. case unframe [] b of
       [n, ba, ch, rh, ad, dr, ow, us, cm] \<Rightarrow> Inr \<lparr>uaNonce = of_nat (length n), uaBalance = bytesInt ba, uaCodeHash = ch,
         uaRootHash = rh, uaAddress = ad, uaDeveloperReward = bytesInt dr, uaOwnerAddress = ow, uaUserName = us, uaCodeMetadata = cm\<rparr>
       | _ \<Rightarrow> Inl ErrUnmarshalling),
     marshalCode = (\<lambda>c. Inr (frames [ceCode c, replicate (unat (NumReferences c)) 0])),
     unmarshalCode = (\<lambda>b. case unframe [] b of
       [c, n] \<Rightarrow> Inr \<lparr>ceCode = c, NumReferences = of_nat (length n)\<rparr> | _ \<Rightarrow> Inl ErrUnmarshalling),
     IsPruningEnabled = False, MarkForEvictionErr = (\<lambda>_ _. None), CollectorStoreErr = None\<rparr>"

lemma tinyTdtEnv_ok: "env_ok tinyTdtEnv"
  by (simp add: env_ok_def tinyTdtEnv_def frames_nonempty)

lemma tinyEnv_ok: "acc_env_ok tinyEnv"
  by (simp add: acc_env_ok_def tinyEnv_def tinyTdtEnv_ok frames_nonempty)

lemma tiny_hash_ok: "hash_ok (tdtEnvOf tinyEnv) {[5]}"
  by (simp add: hash_ok_def tinyEnv_def tinyTdtEnv_def)

text \<open>An empty account state over an empty storage, with one entry in its journal and an account not yet saved.\<close>

definition tinyAccount :: userAccount where
  "tinyAccount = \<lparr>accData = \<lparr>uaNonce = 0, uaBalance = 0, uaCodeHash = [], uaRootHash = [], uaAddress = [2],
       uaDeveloperReward = 0, uaOwnerAddress = [], uaUserName = [], uaCodeMetadata = []\<rparr>,
     accDirty = [([5], \<lparr>deIndex = 0, deValue = [6], deVersion = AutoBalanceEnabled\<rparr>)], accTrie = None, accCode = [7], hasNewCode = True\<rparr>"

definition tinyState :: "userAccount list \<Rightarrow> ((bytes \<rightharpoonup> bytes) tsm, patriciaMerkleTrie) accountsDB" where
  "tinyState os = \<lparr>mainTrie = emptyTrie, dataTries = [], obsoleteDataTrieHashes = [], lastRootHash = [],
     entries = [JournalEntryAccountCreation [9]], storage = memManager, objects = os, tries = [], evictions = []\<rparr>"

lemma tiny_inv: "adb_inv (pmtHolds (\<lambda>x. 1 # x) memStorer) tinyEnv {[5]} Map.empty [] (tinyState [tinyAccount])"
proof -
  have "holds (gogo_deps (\<lambda>x. 1 # x)) (tsmGet memStorer memManager) Map.empty emptyTrie" by (rule holds_empty) (simp add: emptyTrie_def)
  moreover have "refs_ok tinyEnv Map.empty" by (simp add: refs_ok_def users_def accAt_def codeAt_def)
  moreover have "obj_ok tinyEnv {[5]} 0 tinyAccount"
    by (simp add: obj_ok_def tinyAccount_def AddressBytes_def codeKeys_def tinyEnv_def tinyTdtEnv_def dirty_ok_def image_iff)
  ultimately show ?thesis by (simp add: adb_inv_def views_def pmtHolds_def tinyState_def main_ok_def)
qed

lemma tiny_run: "acc_run (pmtHolds (\<lambda>x. 1 # x) memStorer) tinyEnv {[5]} (pmtOps (\<lambda>x. 1 # x) memStorer 10) (tinyState [tinyAccount])
  (fst (SaveAccount tinyEnv (pmtOps (\<lambda>x. 1 # x) memStorer 10) 0 (tinyState [tinyAccount])))"
proof (rule acc_run.save [OF acc_run.start])
  show "few_entries (pmtHolds (\<lambda>x. 1 # x) memStorer) (tinyState [tinyAccount])"
    using tiny_inv by (intro pmt.few_entries_if [of _ _ _ Map.empty]) (simp_all add: adb_inv_def views_def)
  show "code_current tinyEnv (pmtOps (\<lambda>x. 1 # x) memStorer 10) 0 (tinyState [tinyAccount])"
    by (simp add: code_current_def tinyState_def tinyAccount_def)
qed (simp add: tinyState_def, rule prod.collapse [symmetric])

lemma tiny_code_entry: "snd (getCodeEntry tinyEnv (pmtOps (\<lambda>x. 1 # x) memStorer 10) [4, 7]
    (fst (SaveAccount tinyEnv (pmtOps (\<lambda>x. 1 # x) memStorer 10) 0 (tinyState [tinyAccount])))) = Inr (Some \<lparr>ceCode = [7], NumReferences = 1\<rparr>)"
  by code_simp

subsection \<open>Properties\<close>





text \<open>C33. Saving the dirty data of an account succeeds; afterwards every key reads as the value saved for it, and
  every other key as before, with plain and with hashed keys and through the migration from the first to the second;
  writing the returned old values back, last one first, restores the content of the trie.\<close>

theorem saved_data_reads_back:
  assumes "pmtHolds H S db m t" "env_ok E" "hash_ok E K" "content_ok E K m" "dirty_ok E K dd" "dd \<noteq> []"
  shows "\<exists>t' ch olds t''. SaveDirtyData E (pmtOps H S fuel) db mt ident dd (Some t) = (Some t', [], Inr (ch, olds)) \<and>
    (\<forall>k \<in> K. map_sum id fst (snd (RetrieveValue E (pmtOps H S fuel) db ident [] (Some t') k)) = (case map_of dd k of
       Some d \<Rightarrow> Inr (deValue d)
     | None \<Rightarrow> map_sum id fst (snd (RetrieveValue E (pmtOps H S fuel) db ident [] (Some t) k)))) \<and>
    revertUpdates (pmtOps H S fuel) db (rev olds) t' = (t'', None) \<and> pmtHolds H S db m t''"
  using assms by (rule pmt.SaveDirtyData_con)

theorem saved_data_reads_back_witness:
  "\<exists>t' ch olds. SaveDirtyData tinyTdtEnv (pmtOps (\<lambda>x. 1 # x) memStorer 10) memManager emptyTrie [2] (accDirty tinyAccount)
      (Some emptyTrie) = (Some t', [], Inr (ch, olds)) \<and>
    map_sum id fst (snd (RetrieveValue tinyTdtEnv (pmtOps (\<lambda>x. 1 # x) memStorer 10) memManager [2] [] (Some t') [5])) = Inr [6]"
proof -
  have t: "pmtHolds (\<lambda>x. 1 # x) memStorer memManager Map.empty emptyTrie"
    using tiny_inv by (simp add: adb_inv_def views_def tinyState_def)
  have h: "hash_ok tinyTdtEnv {[5]}" using tiny_hash_ok by (simp add: tinyEnv_def)
  have d: "content_ok tinyTdtEnv {[5]} Map.empty" "dirty_ok tinyTdtEnv {[5]} (accDirty tinyAccount)" "accDirty tinyAccount \<noteq> []"
    by (simp_all add: content_ok_def data_ok_def dirty_ok_def tinyAccount_def tinyTdtEnv_def)
  have "map_of (accDirty tinyAccount) [5] = Some \<lparr>deIndex = 0, deValue = [6], deVersion = AutoBalanceEnabled\<rparr>"
    by (simp add: tinyAccount_def)
  with saved_data_reads_back [OF t tinyTdtEnv_ok h d, of 10 emptyTrie "[2]"] show ?thesis by fastforce
qed

text \<open>Load an account, save a value in it, save it.\<close>

definition writeAccount :: "accEnv \<Rightarrow> ('db, 't) trieOps \<Rightarrow> bytes \<Rightarrow> bytes \<Rightarrow> bytes \<Rightarrow> ('db, 't) accountsDB \<Rightarrow>
    ('db, 't, unit) adb_result" where
  "writeAccount E T address key val adb = andThen (LoadAccount E T address adb) (\<lambda>adb r.
     case SaveKeyValue (tdtEnvOf E) key val (accDirty (objects adb ! r)) of
       Inl e \<Rightarrow> (adb, Inl e)
     | Inr dd \<Rightarrow> SaveAccount E T r (modObject r (\<lambda>a. a\<lparr>accDirty := dd\<rparr>) adb))"

definition tinyOps :: "((bytes \<rightharpoonup> bytes) tsm, patriciaMerkleTrie) trieOps" where
  "tinyOps = pmtOps (\<lambda>x. 1 # x) memStorer 10"

definition created :: "((bytes \<rightharpoonup> bytes) tsm, patriciaMerkleTrie, unit) adb_result" where
  "created = writeAccount tinyEnv tinyOps [2] [5] [6] (tinyState [])"

definition undone :: "((bytes \<rightharpoonup> bytes) tsm, patriciaMerkleTrie, unit) adb_result" where
  "undone = RevertToSnapshot tinyEnv tinyOps 1 (fst created)"

definition createdAgain :: "((bytes \<rightharpoonup> bytes) tsm, patriciaMerkleTrie, unit) adb_result" where
  "createdAgain = writeAccount tinyEnv tinyOps [2] [5] [6] (fst undone)"


end
