(* ===== verification/Staking_List.thy ===== *)
theory Staking_List
  imports Go_Prelude
begin

text \<open>
  The storage of the staking contract and its queue of waiting nodes: \<open>vm/systemSmartContracts/stakingSaveLoad.go\<close> and
  the list of \<open>stakingWaitingList.go\<close>. The queue is a doubly linked list kept in the contract's storage: an element
  under \<open>w_\<close> with the BLS key, and a head under \<open>waitingList\<close>. The storage is a map of byte strings, where a key that
  was deleted holds the empty string. Flags, block chain hook, marshaller and the storage of the validator contract
  are an environment. Loops that follow the links run at most as many times as the head's length says.
\<close>

text \<open>The errors of the contract; the last one stands for the panic of a division of big integers by zero.\<close>

datatype staking_error = ErrElementNotFound | ErrInvalidWaitingList | ErrMarshal | ErrUnmarshal | ErrExecution | DivisionByZero

datatype returnCode = Ok | UserError | OutOfGas | ExecutionFailed | Panic

record elementInList =
  BLSPublicKey :: bytes
  PreviousKey :: bytes
  NextKey :: bytes

record waitingList =
  FirstKey :: bytes
  LastKey :: bytes
  Length :: u32
  LastJailedKey :: bytes

record stakedData =
  RegisterNonce :: u64
  StakedNonce :: u64
  Staked :: bool
  UnStakedNonce :: u64
  UnStakedEpoch :: u32
  RewardAddress :: bytes
  StakeValue :: int
  JailedRound :: u64
  JailedNonce :: u64
  UnJailedNonce :: u64
  Jailed :: bool
  Waiting :: bool
  NumJailed :: u32
  SlashValue :: int
  OwnerAddress :: bytes

text \<open>The counters are \<open>int64\<close>: words, compared as signed numbers.\<close>

record stakingNodesConfig =
  MinNumNodes :: u64
  MaxNumNodes :: u64
  StakedNodes :: u64
  JailedNodes :: u64

record stakingState =
  contractStorage :: "bytes \<rightharpoonup> bytes"
  finished :: "bytes list"

record stakingEnv =
  CorrectFirstQueuedFlag :: bool
  CorrectLastUnJailedFlag :: bool
  CorrectJailedNotUnStakedEmptyQueueFlag :: bool
  StakeFlag :: bool
  StakingV2Flag :: bool
  StakingV4StartedFlag :: bool
  StakingV4Step1Flag :: bool
  ValidatorToDelegationFlag :: bool
  marshalElement :: "elementInList \<Rightarrow> staking_error + bytes"
  unmarshalElement :: "bytes \<Rightarrow> staking_error + elementInList"
  marshalHead :: "waitingList \<Rightarrow> staking_error + bytes"
  unmarshalHead :: "bytes \<Rightarrow> staking_error + waitingList"
  marshalStakedV1_0 :: "stakedData \<Rightarrow> staking_error + bytes"
  marshalStakedV1_1 :: "stakedData \<Rightarrow> staking_error + bytes"
  marshalStaked :: "stakedData \<Rightarrow> staking_error + bytes"
  unmarshalStaked :: "bytes \<Rightarrow> staking_error + stakedData"
  marshalConfig :: "stakingNodesConfig \<Rightarrow> staking_error + bytes"
  unmarshalConfig :: "bytes \<Rightarrow> staking_error + stakingNodesConfig"
  stakeAccessAddr :: bytes
  jailAccessAddr :: bytes
  endOfEpochAccessAddr :: bytes
  minNumNodes :: u64
  maxNumNodes :: u64
  stakeValue :: int
  minNodePrice :: int
  unBondPeriod :: u64
  walletAddressLen :: nat
  CurrentNonce :: u64
  CurrentRound :: u64
  CurrentEpoch :: u32
  CanUnJail :: "bytes \<Rightarrow> bool"
  IsBadRating :: "bytes \<Rightarrow> bool"
  IsValidator :: "bytes \<Rightarrow> bool"
  IsSmartContractAddress :: "bytes \<Rightarrow> bool"
  UseGasFails :: bool
  validatorStorage :: "bytes \<Rightarrow> bytes"
  unmarshalValidatorData :: "bytes \<Rightarrow> staking_error + bytes list \<times> int"
  isOnMetachain :: "bytes \<Rightarrow> bool"
  ExecuteOnDestContext :: "bytes \<Rightarrow> bytes \<Rightarrow> bytes \<Rightarrow> stakingState \<Rightarrow> stakingState \<times> (staking_error + returnCode)"

subsection \<open>Storage\<close>

definition ascii :: "string \<Rightarrow> bytes" where
  "ascii = map of_char"

definition GetStorage :: "bytes \<Rightarrow> stakingState \<Rightarrow> bytes" where
  "GetStorage key s = (case contractStorage s key of None \<Rightarrow> [] | Some v \<Rightarrow> v)"

definition SetStorage :: "bytes \<Rightarrow> bytes \<Rightarrow> stakingState \<Rightarrow> stakingState" where
  "SetStorage key val s = s\<lparr>contractStorage := (contractStorage s)(key \<mapsto> val)\<rparr>"

definition Finish :: "bytes \<Rightarrow> stakingState \<Rightarrow> stakingState" where
  "Finish v s = s\<lparr>finished := finished s @ [v]\<rparr>"

definition nodesConfigKey :: bytes where "nodesConfigKey = ascii ''nodesConfig''"
definition ownerKey :: bytes where "ownerKey = ascii ''owner''"
definition waitingListHeadKey :: bytes where "waitingListHeadKey = ascii ''waitingList''"
definition waitingElementPrefix :: bytes where "waitingElementPrefix = ascii ''w_''"
definition DefaultUnstakedEpoch :: u32 where "DefaultUnstakedEpoch = - 1"

definition baseConfig :: "stakingEnv \<Rightarrow> stakingNodesConfig" where
  "baseConfig E = \<lparr>MinNumNodes = minNumNodes E, MaxNumNodes = maxNumNodes E, StakedNodes = 0, JailedNodes = 0\<rparr>"

definition getConfig :: "stakingEnv \<Rightarrow> stakingState \<Rightarrow> stakingNodesConfig" where
  "getConfig E s = (let configData = GetStorage nodesConfigKey s in
     if length configData = 0 then baseConfig E
     else case unmarshalConfig E configData of Inl _ \<Rightarrow> baseConfig E | Inr c \<Rightarrow> c)"

definition setConfig :: "stakingEnv \<Rightarrow> stakingNodesConfig \<Rightarrow> stakingState \<Rightarrow> stakingState" where
  "setConfig E c s = (case marshalConfig E c of Inl _ \<Rightarrow> s | Inr b \<Rightarrow> SetStorage nodesConfigKey b s)"

definition newRegistration :: stakedData where
  "newRegistration = \<lparr>RegisterNonce = 0, StakedNonce = - 1, Staked = False, UnStakedNonce = 0,
     UnStakedEpoch = DefaultUnstakedEpoch, RewardAddress = [], StakeValue = 0, JailedRound = - 1, JailedNonce = 0,
     UnJailedNonce = 0, Jailed = False, Waiting = False, NumJailed = 0, SlashValue = 0, OwnerAddress = []\<rparr>"

definition getOrCreateRegisteredData :: "stakingEnv \<Rightarrow> bytes \<Rightarrow> stakingState \<Rightarrow> staking_error + stakedData" where
  "getOrCreateRegisteredData E key s = (let data = GetStorage key s in
     if length data > 0 then unmarshalStaked E data else Inr newRegistration)"

text \<open>The older messages lack the last fields.\<close>

definition saveAsStakingDataV1P0 :: "stakingEnv \<Rightarrow> bytes \<Rightarrow> stakedData \<Rightarrow> stakingState \<Rightarrow> stakingState \<times> (staking_error + unit)" where
  "saveAsStakingDataV1P0 E key d s = (case marshalStakedV1_0 E (d\<lparr>NumJailed := 0, SlashValue := 0, OwnerAddress := []\<rparr>) of
     Inl e \<Rightarrow> (s, Inl e) | Inr b \<Rightarrow> (SetStorage key b s, Inr ()))"

definition saveAsStakingDataV1P1 :: "stakingEnv \<Rightarrow> bytes \<Rightarrow> stakedData \<Rightarrow> stakingState \<Rightarrow> stakingState \<times> (staking_error + unit)" where
  "saveAsStakingDataV1P1 E key d s = (case marshalStakedV1_1 E (d\<lparr>OwnerAddress := []\<rparr>) of
     Inl e \<Rightarrow> (s, Inl e) | Inr b \<Rightarrow> (SetStorage key b s, Inr ()))"

definition saveStakingData :: "stakingEnv \<Rightarrow> bytes \<Rightarrow> stakedData \<Rightarrow> stakingState \<Rightarrow> stakingState \<times> (staking_error + unit)" where
  "saveStakingData E key d s =
     (if \<not> StakeFlag E then saveAsStakingDataV1P0 E key d s
      else if \<not> StakingV2Flag E then saveAsStakingDataV1P1 E key d s
      else (case marshalStaked E d of Inl e \<Rightarrow> (s, Inl e) | Inr b \<Rightarrow> (SetStorage key b s, Inr ())))"

subsection \<open>Elements and head\<close>

definition createWaitingListKey :: "bytes \<Rightarrow> bytes" where
  "createWaitingListKey blsKey = waitingElementPrefix @ blsKey"

definition getWaitingListElement :: "stakingEnv \<Rightarrow> bytes \<Rightarrow> stakingState \<Rightarrow> staking_error + elementInList" where
  "getWaitingListElement E key s = (let marshaledData = GetStorage key s in
     if length marshaledData = 0 then Inl ErrElementNotFound else unmarshalElement E marshaledData)"

definition saveWaitingListElement :: "stakingEnv \<Rightarrow> bytes \<Rightarrow> elementInList \<Rightarrow> stakingState \<Rightarrow>
    stakingState \<times> (staking_error + unit)" where
  "saveWaitingListElement E key e s = (case marshalElement E e of Inl er \<Rightarrow> (s, Inl er) | Inr b \<Rightarrow> (SetStorage key b s, Inr ()))"

definition getWaitingListHead :: "stakingEnv \<Rightarrow> stakingState \<Rightarrow> staking_error + waitingList" where
  "getWaitingListHead E s = (let marshaledData = GetStorage waitingListHeadKey s in
     if length marshaledData = 0 then Inr \<lparr>FirstKey = [], LastKey = [], Length = 0, LastJailedKey = []\<rparr>
     else unmarshalHead E marshaledData)"

definition saveWaitingListHead :: "stakingEnv \<Rightarrow> waitingList \<Rightarrow> stakingState \<Rightarrow> stakingState \<times> (staking_error + unit)" where
  "saveWaitingListHead E w s = (case marshalHead E w of Inl er \<Rightarrow> (s, Inl er) | Inr b \<Rightarrow> (SetStorage waitingListHeadKey b s, Inr ()))"

definition saveElementAndList :: "stakingEnv \<Rightarrow> bytes \<Rightarrow> elementInList \<Rightarrow> waitingList \<Rightarrow> stakingState \<Rightarrow>
    stakingState \<times> (staking_error + unit)" where
  "saveElementAndList E key e w s = andThen (saveWaitingListElement E key e s) (\<lambda>s _. saveWaitingListHead E w s)"

text \<open>\<open>copy(dst, src)\<close>\<close>

definition copyInto :: "bytes \<Rightarrow> bytes \<Rightarrow> bytes" where
  "copyInto dst src = take (length dst) src @ drop (length src) dst"

subsection \<open>Insertion\<close>

definition startWaitingList :: "stakingEnv \<Rightarrow> waitingList \<Rightarrow> bool \<Rightarrow> bytes \<Rightarrow> stakingState \<Rightarrow>
    stakingState \<times> (staking_error + unit)" where
  "startWaitingList E w addJailed blsKey s =
     (let k = createWaitingListKey blsKey; w1 = w\<lparr>FirstKey := k, LastKey := k\<rparr>;
          w2 = (if addJailed then w1\<lparr>LastJailedKey := k\<rparr> else w1)
      in saveElementAndList E k \<lparr>BLSPublicKey = blsKey, PreviousKey = LastKey w2, NextKey = []\<rparr> w2 s)"

definition addToEndOfTheList :: "stakingEnv \<Rightarrow> waitingList \<Rightarrow> bytes \<Rightarrow> stakingState \<Rightarrow> stakingState \<times> (staking_error + unit)" where
  "addToEndOfTheList E w blsKey s =
     (let k = createWaitingListKey blsKey; oldLastKey = LastKey w in
      case getWaitingListElement E (LastKey w) s of
        Inl e \<Rightarrow> (s, Inl e)
      | Inr lastElement \<Rightarrow>
          andThen (saveWaitingListElement E oldLastKey (lastElement\<lparr>NextKey := k\<rparr>) s) (\<lambda>s _.
            saveElementAndList E k \<lparr>BLSPublicKey = blsKey, PreviousKey = oldLastKey, NextKey = []\<rparr> (w\<lparr>LastKey := k\<rparr>) s))"

definition insertFirst :: "stakingEnv \<Rightarrow> waitingList \<Rightarrow> bytes \<Rightarrow> stakingState \<Rightarrow> stakingState \<times> (staking_error + unit)" where
  "insertFirst E w blsKey s =
     (let k = createWaitingListKey blsKey; previousFirstKey = FirstKey w; w1 = w\<lparr>FirstKey := k, LastJailedKey := k\<rparr>;
          elem = \<lparr>BLSPublicKey = blsKey, PreviousKey = k, NextKey = previousFirstKey\<rparr>
      in if CorrectFirstQueuedFlag E \<and> length previousFirstKey > 0 then
           (case getWaitingListElement E previousFirstKey s of
              Inl e \<Rightarrow> (s, Inl e)
            | Inr previousFirst \<Rightarrow>
                andThen (saveWaitingListElement E previousFirstKey (previousFirst\<lparr>PreviousKey := k\<rparr>) s) (\<lambda>s _.
                  saveElementAndList E k elem w1 s))
         else saveElementAndList E k elem w1 s)"

definition insertAfterLastJailed :: "stakingEnv \<Rightarrow> waitingList \<Rightarrow> bytes \<Rightarrow> stakingState \<Rightarrow> stakingState \<times> (staking_error + unit)" where
  "insertAfterLastJailed E w blsKey s =
     (let k = createWaitingListKey blsKey in
      if length (LastJailedKey w) = 0 then insertFirst E w blsKey s
      else case getWaitingListElement E (LastJailedKey w) s of
        Inl e \<Rightarrow> (s, Inl e)
      | Inr lastJailed \<Rightarrow>
          if LastKey w = LastJailedKey w then addToEndOfTheList E (w\<lparr>LastJailedKey := k\<rparr>) blsKey s
          else (case getWaitingListElement E (NextKey lastJailed) s of
            Inl e \<Rightarrow> (s, Inl e)
          | Inr firstNonJailed \<Rightarrow>
              (let elem = \<lparr>BLSPublicKey = blsKey, PreviousKey = copyInto (replicate (length k) 0) (LastJailedKey w),
                     NextKey = copyInto (replicate (length k) 0) (NextKey lastJailed)\<rparr>
               in andThen (saveWaitingListElement E (PreviousKey elem) (lastJailed\<lparr>NextKey := k\<rparr>) s) (\<lambda>s _.
                    andThen (saveWaitingListElement E (NextKey elem) (firstNonJailed\<lparr>PreviousKey := k\<rparr>) s) (\<lambda>s _.
                      andThen (saveWaitingListElement E k elem s) (\<lambda>s _.
                        saveWaitingListHead E (w\<lparr>LastJailedKey := k\<rparr>) s))))))"

definition addToWaitingList :: "stakingEnv \<Rightarrow> bytes \<Rightarrow> bool \<Rightarrow> stakingState \<Rightarrow> stakingState \<times> (staking_error + unit)" where
  "addToWaitingList E blsKey addJailed s =
     (if length (GetStorage (createWaitingListKey blsKey) s) \<noteq> 0 then (s, Inr ())
      else case getWaitingListHead E s of
        Inl e \<Rightarrow> (s, Inl e)
      | Inr w0 \<Rightarrow>
          (let w = w0\<lparr>Length := Length w0 + 1\<rparr> in
           if Length w = 1 then startWaitingList E w addJailed blsKey s
           else if addJailed then insertAfterLastJailed E w blsKey s
           else addToEndOfTheList E w blsKey s))"

subsection \<open>Removal\<close>

fun searchPreviousLoop :: "stakingEnv \<Rightarrow> stakingState \<Rightarrow> bytes \<Rightarrow> nat \<Rightarrow> bytes \<Rightarrow> staking_error + elementInList" where
  "searchPreviousLoop E s inKey 0 nextKey = Inl ErrElementNotFound"
| "searchPreviousLoop E s inKey (Suc n) nextKey =
     (if length nextKey = 0 then Inl ErrElementNotFound
      else case getWaitingListElement E nextKey s of
        Inl e \<Rightarrow> Inl e
      | Inr element \<Rightarrow>
          if inKey = NextKey element then Inr element
          else if length (NextKey element) = 0 then Inl ErrElementNotFound
          else searchPreviousLoop E s inKey n (NextKey element))"

text \<open>The previous element and its key, which the source writes into the element to remove.\<close>

definition searchPreviousFromHead :: "stakingEnv \<Rightarrow> waitingList \<Rightarrow> bytes \<Rightarrow> stakingState \<Rightarrow>
    staking_error + elementInList \<times> bytes" where
  "searchPreviousFromHead E w inKey s = (case searchPreviousLoop E s inKey (unat (Length w)) (FirstKey w) of
     Inl e \<Rightarrow> Inl e | Inr p \<Rightarrow> Inr (p, createWaitingListKey (BLSPublicKey p)))"

definition removeFirst :: "stakingEnv \<Rightarrow> waitingList \<Rightarrow> bytes \<Rightarrow> elementInList \<Rightarrow> stakingState \<Rightarrow>
    stakingState \<times> (staking_error + unit)" where
  "removeFirst E w k elem s =
     (let w1 = (if k = LastJailedKey w then w\<lparr>LastJailedKey := []\<rparr> else w) in
      case getWaitingListElement E (NextKey elem) s of
        Inl e \<Rightarrow> (s, Inl e)
      | Inr nextElement \<Rightarrow>
          saveElementAndList E (NextKey elem) (nextElement\<lparr>PreviousKey := NextKey elem\<rparr>) (w1\<lparr>FirstKey := NextKey elem\<rparr>) s)"

definition previousOf :: "stakingEnv \<Rightarrow> waitingList \<Rightarrow> bytes \<Rightarrow> elementInList \<Rightarrow> stakingState \<Rightarrow>
    staking_error + elementInList \<times> bytes" where
  "previousOf E w k elem s = (case getWaitingListElement E (PreviousKey elem) s of
     Inr p \<Rightarrow> Inr (p, PreviousKey elem)
   | Inl e \<Rightarrow> if CorrectFirstQueuedFlag E then searchPreviousFromHead E w k s else Inl e)"

definition removeOther :: "stakingEnv \<Rightarrow> waitingList \<Rightarrow> bytes \<Rightarrow> elementInList \<Rightarrow> stakingState \<Rightarrow>
    stakingState \<times> (staking_error + unit)" where
  "removeOther E w k elem s =
     (let w1 = (if \<not> CorrectLastUnJailedFlag E \<or> k = LastJailedKey w then w\<lparr>LastJailedKey := PreviousKey elem\<rparr> else w) in
      case previousOf E w1 k elem s of
        Inl e \<Rightarrow> (s, Inl e)
      | Inr (previousElement, previousKey) \<Rightarrow>
          if length (NextKey elem) = 0 then
            saveElementAndList E previousKey (previousElement\<lparr>NextKey := []\<rparr>) (w1\<lparr>LastKey := previousKey\<rparr>) s
          else (case getWaitingListElement E (NextKey elem) s of
            Inl e \<Rightarrow> (s, Inl e)
          | Inr nextElement \<Rightarrow>
              andThen (saveWaitingListElement E (NextKey elem) (nextElement\<lparr>PreviousKey := previousKey\<rparr>) s) (\<lambda>s _.
                saveElementAndList E previousKey (previousElement\<lparr>NextKey := NextKey elem\<rparr>) w1 s)))"

definition removeFromWaitingList :: "stakingEnv \<Rightarrow> bytes \<Rightarrow> stakingState \<Rightarrow> stakingState \<times> (staking_error + unit)" where
  "removeFromWaitingList E blsKey s0 =
     (let k = createWaitingListKey blsKey; marshaledData = GetStorage k s0 in
      if length marshaledData = 0 then (s0, Inr ())
      else let s = SetStorage k [] s0 in
        (case unmarshalElement E marshaledData of
           Inl e \<Rightarrow> (s, Inl e)
         | Inr elem \<Rightarrow> (case getWaitingListHead E s of
             Inl e \<Rightarrow> (s, Inl e)
           | Inr w0 \<Rightarrow>
               if Length w0 = 0 then (s, Inl ErrInvalidWaitingList)
               else let w = w0\<lparr>Length := Length w0 - 1\<rparr> in
                 if Length w = 0 then (SetStorage waitingListHeadKey [] s, Inr ())
                 else if \<not> CorrectFirstQueuedFlag E \<and> PreviousKey elem = k \<or> CorrectFirstQueuedFlag E \<and> FirstKey w = k
                   then removeFirst E w k elem s
                 else removeOther E w k elem s)))"

subsection \<open>Walking the list\<close>

record waitingListReturnData =
  wrKeys :: "bytes list"
  wrData :: "stakedData list"
  wrLastKey :: bytes
  afterLastJailed :: bool

fun firstElementsLoop :: "stakingEnv \<Rightarrow> stakingState \<Rightarrow> bytes \<Rightarrow> nat \<Rightarrow> bytes \<Rightarrow> waitingListReturnData \<Rightarrow>
    staking_error + waitingListReturnData" where
  "firstElementsLoop E s lastJailed 0 nextKey acc = Inr (acc\<lparr>wrLastKey := nextKey\<rparr>)"
| "firstElementsLoop E s lastJailed (Suc n) nextKey acc =
     (if length nextKey = 0 then Inr (acc\<lparr>wrLastKey := nextKey\<rparr>)
      else case getWaitingListElement E nextKey s of
        Inl e \<Rightarrow> Inl e
      | Inr element \<Rightarrow> (case getOrCreateRegisteredData E (BLSPublicKey element) s of
          Inl e \<Rightarrow> Inl e
        | Inr d \<Rightarrow>
            (let acc' = acc\<lparr>wrKeys := wrKeys acc @ [BLSPublicKey element], wrData := wrData acc @ [d],
                   afterLastJailed := (afterLastJailed acc \<or> nextKey = lastJailed)\<rparr>
             in if length (NextKey element) = 0 then Inr (acc'\<lparr>wrLastKey := nextKey\<rparr>)
                else firstElementsLoop E s lastJailed n (copyInto nextKey (NextKey element)) acc')))"

definition getFirstElementsFromWaitingList :: "stakingEnv \<Rightarrow> u32 \<Rightarrow> stakingState \<Rightarrow> staking_error + waitingListReturnData" where
  "getFirstElementsFromWaitingList E numNodes s =
     (let empty = \<lparr>wrKeys = [], wrData = [], wrLastKey = [], afterLastJailed = False\<rparr> in
      case getWaitingListHead E s of
        Inl e \<Rightarrow> Inl e
      | Inr w \<Rightarrow> if Length w = 0 then Inr empty
          else firstElementsLoop E s (LastJailedKey w) (unat (min (Length w) numNodes)) (FirstKey w) empty)"

end
