(* ===== verification/Queue_Interface.thy ===== *)
theory Queue_Interface
  imports Main
begin

text \<open>
  The queue the staking contract promises: a list of keys, of which the first \<open>j\<close> were put in front as unjailed
  ones. A locale states what a stored queue has to do; its lemma carries this over to sequences of operations.
\<close>

subsection \<open>The queue\<close>

fun enqueue :: "'k \<Rightarrow> bool \<Rightarrow> 'k list \<times> nat \<Rightarrow> 'k list \<times> nat" where
  "enqueue k addJailed (xs, j) =
     (if k \<in> set xs then (xs, j)
      else if addJailed then (take j xs @ k # drop j xs, Suc j) else (xs @ [k], j))"

fun dequeue :: "'k \<Rightarrow> 'k list \<times> nat \<Rightarrow> 'k list \<times> nat" where
  "dequeue k (xs, j) = (remove1 k xs, if k \<in> set (take j xs) then j - 1 else j)"

lemma set_enqueue: "set (fst (enqueue k b q)) = insert k (set (fst q))"
proof (cases q)
  case (Pair xs j)
  have "set xs = set (take j xs) \<union> set (drop j xs)" by (metis append_take_drop_id set_append)
  with Pair show ?thesis by auto
qed

lemma dequeue_split:
  assumes "distinct xs" "xs = ys @ k # zs"
  shows "dequeue k (xs, j) = (ys @ zs, if length ys < j then j - 1 else j)"
proof -
  have "k \<notin> set ys" using assms by simp
  then have "remove1 k xs = ys @ zs" using assms(2) by (simp add: remove1_append)
  moreover have "k \<in> set (take j xs) \<longleftrightarrow> length ys < j"
  proof
    assume "k \<in> set (take j xs)"
    then show "length ys < j" using assms(2) \<open>k \<notin> set ys\<close> by (cases "length ys < j") (auto dest: in_set_takeD)
  next
    assume "length ys < j"
    then have "take j xs = ys @ k # take (j - Suc (length ys)) zs" using assms(2) by (simp add: Suc_diff_Suc [symmetric])
    then show "k \<in> set (take j xs)" by simp
  qed
  ultimately show ?thesis by simp
qed

subsection \<open>Sequences of operations\<close>

datatype 'k queue_op = Add 'k bool | Remove 'k

fun op_key :: "'k queue_op \<Rightarrow> 'k" where
  "op_key (Add k _) = k"
| "op_key (Remove k) = k"

fun apply_op :: "'k queue_op \<Rightarrow> 'k list \<times> nat \<Rightarrow> 'k list \<times> nat" where
  "apply_op (Add k b) q = enqueue k b q"
| "apply_op (Remove k) q = dequeue k q"

fun perform :: "('k \<Rightarrow> bool \<Rightarrow> 's \<Rightarrow> 's \<times> ('e + unit)) \<Rightarrow> ('k \<Rightarrow> 's \<Rightarrow> 's \<times> ('e + unit)) \<Rightarrow> 'k queue_op list \<Rightarrow> 's \<Rightarrow> 's \<times> ('e + unit)" where
  "perform add remove [] s = (s, Inr ())"
| "perform add remove (p # ps) s =
     (case (case p of Add k b \<Rightarrow> add k b s | Remove k \<Rightarrow> remove k s) of
        (s1, Inl e) \<Rightarrow> (s1, Inl e) | (s1, Inr _) \<Rightarrow> perform add remove ps s1)"

locale waiting_queue =
  fixes holds :: "'c \<Rightarrow> 's \<Rightarrow> 'k list \<times> nat \<Rightarrow> bool"
    and keys :: "'c \<Rightarrow> 'k set"
    and add :: "'c \<Rightarrow> 'k \<Rightarrow> bool \<Rightarrow> 's \<Rightarrow> 's \<times> ('e + unit)"
    and remove :: "'c \<Rightarrow> 'k \<Rightarrow> 's \<Rightarrow> 's \<times> ('e + unit)"
    and items :: "'c \<Rightarrow> 's \<Rightarrow> 'e + 'k list"
  assumes add_holds: "holds c s q \<Longrightarrow> k \<in> keys c \<Longrightarrow> \<exists>s'. add c k b s = (s', Inr ()) \<and> holds c s' (enqueue k b q)"
    and remove_holds: "holds c s q \<Longrightarrow> k \<in> keys c \<Longrightarrow> \<exists>s'. remove c k s = (s', Inr ()) \<and> holds c s' (dequeue k q)"
    and items_holds: "holds c s q \<Longrightarrow> items c s = Inr (fst q)"
begin

lemma perform_holds:
  assumes "holds c s q" "op_key ` set ps \<subseteq> keys c"
  shows "\<exists>s'. perform (add c) (remove c) ps s = (s', Inr ()) \<and> holds c s' (fold apply_op ps q)"
  using assms
proof (induction ps arbitrary: s q)
  case (Cons p ps)
  have k: "op_key p \<in> keys c" "op_key ` set ps \<subseteq> keys c" using Cons.prems(2) by simp_all
  obtain s1 where s1: "(case p of Add k b \<Rightarrow> add c k b s | Remove k \<Rightarrow> remove c k s) = (s1, Inr ())" "holds c s1 (apply_op p q)"
    using add_holds [OF Cons.prems(1)] remove_holds [OF Cons.prems(1)] k(1) by (cases p) fastforce+
  from Cons.IH [OF s1(2) k(2)] s1(1) show ?case by simp
qed simp

lemma perform_items:
  assumes "holds c s q" "op_key ` set ps \<subseteq> keys c"
  shows "\<exists>s'. perform (add c) (remove c) ps s = (s', Inr ()) \<and> items c s' = Inr (fst (fold apply_op ps q))"
  using perform_holds [OF assms] items_holds by blast

end

end
