(* ===== verification/Staking_Queue.thy ===== *)
theory Staking_Queue
  imports Staking_List Queue_Interface
begin

text \<open>
  The linked list in the contract's storage implements a queue: a list of keys of which the first \<open>j\<close> were put
  in front as unjailed ones. \<open>queue_rep\<close> relates a storage to a queue; insertion and removal refine \<open>enqueue\<close> and
  \<open>dequeue\<close> and leave the rest of the storage alone, when the flags that correct the links are enabled.
\<close>

subsection \<open>Links\<close>

abbreviation wk :: "bytes \<Rightarrow> bytes" where
  "wk \<equiv> createWaitingListKey"

fun seg :: "(bytes \<rightharpoonup> elementInList) \<Rightarrow> bytes \<Rightarrow> bytes list \<Rightarrow> bytes \<Rightarrow> bool" where
  "seg f p [] n \<longleftrightarrow> True"
| "seg f p (k # ks) n \<longleftrightarrow>
     f k = Some \<lparr>BLSPublicKey = k, PreviousKey = p, NextKey = (if ks = [] then n else wk (hd ks))\<rparr> \<and> seg f (wk k) ks n"

lemma seg_append: "seg f p (ys @ zs) n \<longleftrightarrow>
    seg f p ys (if zs = [] then n else wk (hd zs)) \<and> seg f (if ys = [] then p else wk (last ys)) zs n"
  by (induction ys arbitrary: p) auto

lemma seg_cong: "(\<And>k. k \<in> set ks \<Longrightarrow> f k = g k) \<Longrightarrow> seg f p ks n = seg g p ks n"
  by (induction ks arbitrary: p) auto

lemma seg_upd [simp]: "k \<notin> set ks \<Longrightarrow> seg (f(k := x)) p ks n = seg f p ks n"
  by (rule seg_cong) auto

subsection \<open>Storage\<close>

definition list_env_ok :: "stakingEnv \<Rightarrow> bool" where
  "list_env_ok E \<longleftrightarrow> CorrectFirstQueuedFlag E \<and> CorrectLastUnJailedFlag E \<and>
     (\<forall>e. BLSPublicKey e \<noteq> [] \<longrightarrow> (\<exists>b. marshalElement E e = Inr b \<and> b \<noteq> [] \<and> unmarshalElement E b = Inr e)) \<and>
     (\<forall>w. Length w \<noteq> 0 \<longrightarrow> (\<exists>b. marshalHead E w = Inr b \<and> b \<noteq> [] \<and> unmarshalHead E b = Inr w))"

text \<open>The keys in use: byte strings of one positive length.\<close>

definition keys_ok :: "bytes set \<Rightarrow> bool" where
  "keys_ok K \<longleftrightarrow> [] \<notin> K \<and> (\<exists>n. \<forall>k \<in> K. length k = n)"

definition headOf :: "bytes list \<Rightarrow> nat \<Rightarrow> waitingList" where
  "headOf xs j = \<lparr>FirstKey = wk (hd xs), LastKey = wk (last xs), Length = of_nat (length xs),
     LastJailedKey = (if j = 0 then [] else wk (xs ! (j - 1)))\<rparr>"

definition linked :: "bytes set \<Rightarrow> bytes list \<times> nat \<Rightarrow> (bytes \<rightharpoonup> elementInList) \<Rightarrow> waitingList option \<Rightarrow> bool" where
  "linked K q f h \<longleftrightarrow> (let (xs, j) = q in distinct xs \<and> set xs \<subseteq> K \<and> j \<le> length xs \<and> length xs < 2 ^ 32 \<and>
     h = (if xs = [] then None else Some (headOf xs j)) \<and> seg f (wk (hd xs)) xs [] \<and> (\<forall>k \<in> K - set xs. f k = None))"

text \<open>A state seen through its elements and its head.\<close>

definition sees :: "stakingEnv \<Rightarrow> bytes set \<Rightarrow> stakingState \<Rightarrow> (bytes \<rightharpoonup> elementInList) \<Rightarrow> waitingList option \<Rightarrow> bool" where
  "sees E K s f h \<longleftrightarrow> (\<forall>k \<in> K. case f k of None \<Rightarrow> GetStorage (wk k) s = []
       | Some e \<Rightarrow> getWaitingListElement E (wk k) s = Inr e) \<and>
     (case h of None \<Rightarrow> GetStorage waitingListHeadKey s = []
       | Some w \<Rightarrow> getWaitingListHead E s = Inr w)"

definition queue_rep :: "stakingEnv \<Rightarrow> bytes set \<Rightarrow> stakingState \<Rightarrow> bytes list \<times> nat \<Rightarrow> bool" where
  "queue_rep E K s q \<longleftrightarrow> (\<exists>f h. sees E K s f h \<and> linked K q f h)"

text \<open>What the list operations leave alone.\<close>

definition rest_same :: "bytes set \<Rightarrow> stakingState \<Rightarrow> stakingState \<Rightarrow> bool" where
  "rest_same K s s' \<longleftrightarrow> finished s' = finished s \<and>
     (\<forall>x. x \<noteq> waitingListHeadKey \<and> x \<notin> wk ` K \<longrightarrow> contractStorage s' x = contractStorage s x)"

lemma wk_inj [simp]: "wk a = wk b \<longleftrightarrow> a = b"
  by (simp add: createWaitingListKey_def)

lemma wk_nonempty [simp]: "wk a \<noteq> []" "[] \<noteq> wk a"
  by (simp_all add: createWaitingListKey_def waitingElementPrefix_def ascii_def)

lemma wk_head [simp]: "wk a \<noteq> waitingListHeadKey" "waitingListHeadKey \<noteq> wk a"
  by (simp_all add: createWaitingListKey_def waitingElementPrefix_def waitingListHeadKey_def ascii_def of_char_def)

lemma GetStorage_SetStorage [simp]: "GetStorage x (SetStorage y v s) = (if x = y then v else GetStorage x s)"
  by (simp add: GetStorage_def SetStorage_def)

lemma finished_SetStorage [simp]: "finished (SetStorage y v s) = finished s"
  by (simp add: SetStorage_def)

lemma rest_same_refl [simp]: "rest_same K s s"
  by (simp add: rest_same_def)

lemma rest_same_trans: "rest_same K a b \<Longrightarrow> rest_same K b c \<Longrightarrow> rest_same K a c"
  by (simp add: rest_same_def)

lemma rest_same_set: "k \<in> K \<Longrightarrow> rest_same K s (SetStorage (wk k) v s)" "rest_same K s (SetStorage waitingListHeadKey v s)"
  by (auto simp: rest_same_def SetStorage_def)

lemma head_elem [simp]: "getWaitingListHead E (SetStorage (wk k) v s) = getWaitingListHead E s"
  by (simp add: getWaitingListHead_def)

lemma elem_set [simp]:
  "getWaitingListElement E (wk k) (SetStorage waitingListHeadKey v s) = getWaitingListElement E (wk k) s"
  "getWaitingListElement E (wk k) (SetStorage (wk k') v s) =
     (if k = k' then if v = [] then Inl ErrElementNotFound else unmarshalElement E v else getWaitingListElement E (wk k) s)"
  by (simp_all add: getWaitingListElement_def)

lemma sees_elem: "sees E K s f h \<Longrightarrow> k \<in> K \<Longrightarrow>
    getWaitingListElement E (wk k) s = (case f k of None \<Rightarrow> Inl ErrElementNotFound | Some e \<Rightarrow> Inr e)"
  by (fastforce simp: sees_def getWaitingListElement_def split: option.splits)

lemma sees_empty: "sees E K s f h \<Longrightarrow> k \<in> K \<Longrightarrow> GetStorage (wk k) s = [] \<longleftrightarrow> f k = None"
  by (fastforce simp: sees_def getWaitingListElement_def split: option.splits if_splits)

lemma sees_head: "sees E K s f h \<Longrightarrow> getWaitingListHead E s =
    Inr (case h of None \<Rightarrow> \<lparr>FirstKey = [], LastKey = [], Length = 0, LastJailedKey = []\<rparr> | Some w \<Rightarrow> w)"
  by (auto simp: sees_def getWaitingListHead_def split: option.splits)

text \<open>Steps on the storage, as steps on what is seen.\<close>

definition list_step :: "stakingEnv \<Rightarrow> bytes set \<Rightarrow> stakingState \<Rightarrow> stakingState \<times> (staking_error + unit) \<Rightarrow>
    (bytes \<rightharpoonup> elementInList) \<Rightarrow> waitingList option \<Rightarrow> bool" where
  "list_step E K s r f h \<longleftrightarrow> (\<exists>s'. r = (s', Inr ()) \<and> sees E K s' f h \<and> rest_same K s s')"

lemma step_bind:
  assumes "list_step E K s r f h" "\<And>s'. sees E K s' f h \<Longrightarrow> list_step E K s' (g s' ()) f' h'"
  shows "list_step E K s (andThen r g) f' h'"
proof -
  obtain s' where s': "r = (s', Inr ())" "sees E K s' f h" "rest_same K s s'" using assms(1) by (auto simp: list_step_def)
  from assms(2) [OF s'(2)] s' show ?thesis by (auto simp: list_step_def intro: rest_same_trans)
qed

lemma step_elem:
  assumes "sees E K s f h" "list_env_ok E" "BLSPublicKey e \<noteq> [] \<and> k \<in> K"
  shows "list_step E K s (saveWaitingListElement E (wk k) e s) (f(k \<mapsto> e)) h"
proof -
  obtain b where b: "marshalElement E e = Inr b" "b \<noteq> []" "unmarshalElement E b = Inr e"
    using assms(2,3) unfolding list_env_ok_def by blast
  have "sees E K (SetStorage (wk k) b s) (f(k \<mapsto> e)) h"
    using assms(1) b unfolding sees_def by (auto split: option.splits)
  with b show ?thesis by (auto simp: list_step_def saveWaitingListElement_def rest_same_set assms(3))
qed

lemma step_head:
  assumes "sees E K s f h" "list_env_ok E" "Length w \<noteq> 0"
  shows "list_step E K s (saveWaitingListHead E w s) f (Some w)"
proof -
  obtain b where b: "marshalHead E w = Inr b" "b \<noteq> []" "unmarshalHead E b = Inr w"
    using assms(2,3) unfolding list_env_ok_def by blast
  then have "sees E K (SetStorage waitingListHeadKey b s) f (Some w)"
    using assms(1) unfolding sees_def by (auto simp: getWaitingListHead_def split: option.splits)
  with b show ?thesis by (auto simp: list_step_def saveWaitingListHead_def rest_same_set)
qed

lemma step_both:
  assumes "sees E K s f h" "list_env_ok E" "BLSPublicKey e \<noteq> [] \<and> k \<in> K" "Length w \<noteq> 0"
  shows "list_step E K s (saveElementAndList E (wk k) e w s) (f(k \<mapsto> e)) (Some w)"
  unfolding saveElementAndList_def by (rule step_bind [OF step_elem [OF assms(1-3)]], rule step_head [OF _ assms(2,4)])

subsection \<open>Insertion\<close>

lemma seg_mem: "seg f p ks n \<Longrightarrow> k \<in> set ks \<Longrightarrow> \<exists>e. f k = Some e \<and> BLSPublicKey e = k"
  by (induction ks arbitrary: p) auto

lemma seg_at: "seg f p (ys @ a # zs) n \<Longrightarrow>
    f a = Some \<lparr>BLSPublicKey = a, PreviousKey = (if ys = [] then p else wk (last ys)), NextKey = (if zs = [] then n else wk (hd zs))\<rparr>"
  by (simp add: seg_append)

lemma link_end:
  assumes "seg f p (ys @ [a]) []" "distinct (ys @ [a, k])"
  shows "seg (f(a \<mapsto> (the (f a))\<lparr>NextKey := wk k\<rparr>, k \<mapsto> \<lparr>BLSPublicKey = k, PreviousKey = wk a, NextKey = []\<rparr>)) p (ys @ [a, k]) []"
  using assms by (auto simp: seg_append)

lemma link_front:
  assumes "seg f p (b # zs) n" "distinct (k # b # zs)"
  shows "seg (f(b \<mapsto> (the (f b))\<lparr>PreviousKey := wk k\<rparr>, k \<mapsto> \<lparr>BLSPublicKey = k, PreviousKey = wk k, NextKey = wk b\<rparr>)) (wk k) (k # b # zs) n"
  using assms by auto

lemma link_mid:
  assumes "seg f p (ys @ a # b # zs) n" "distinct (ys @ a # k # b # zs)"
  shows "seg (f(a \<mapsto> (the (f a))\<lparr>NextKey := wk k\<rparr>, b \<mapsto> (the (f b))\<lparr>PreviousKey := wk k\<rparr>,
    k \<mapsto> \<lparr>BLSPublicKey = k, PreviousKey = wk a, NextKey = wk b\<rparr>)) p (ys @ a # k # b # zs) n"
  using assms by (auto simp: seg_append)

lemma addToEnd_step:
  assumes "sees E K s f h" "list_env_ok E" "seg f p (ys @ [a]) []" "a \<in> K" "k \<noteq> [] \<and> k \<in> K" "a \<noteq> []" "LastKey w = wk a" "Length w \<noteq> 0"
  shows "list_step E K s (addToEndOfTheList E w k s)
    (f(a \<mapsto> (the (f a))\<lparr>NextKey := wk k\<rparr>, k \<mapsto> \<lparr>BLSPublicKey = k, PreviousKey = wk a, NextKey = []\<rparr>)) (Some (w\<lparr>LastKey := wk k\<rparr>))"
proof -
  obtain e where e: "f a = Some e" "BLSPublicKey e = a" using seg_mem [OF assms(3), of a] by auto
  have g: "getWaitingListElement E (wk a) s = Inr e" using sees_elem [OF assms(1,4)] e(1) by simp
  show ?thesis unfolding addToEndOfTheList_def Let_def g sum.case e(1) option.sel assms(7)
    by (rule step_bind [OF step_elem [OF assms(1,2)]], use assms(4,6) e(2) in simp, rule step_both [OF _ assms(2)])
      (use assms(5,8) in simp_all)
qed

lemma insertFirst_step:
  assumes "sees E K s f h" "list_env_ok E" "seg f p (b # zs) []" "b \<in> K" "k \<noteq> [] \<and> k \<in> K" "b \<noteq> []" "FirstKey w = wk b" "Length w \<noteq> 0"
  shows "list_step E K s (insertFirst E w k s)
    (f(b \<mapsto> (the (f b))\<lparr>PreviousKey := wk k\<rparr>, k \<mapsto> \<lparr>BLSPublicKey = k, PreviousKey = wk k, NextKey = wk b\<rparr>))
    (Some (w\<lparr>FirstKey := wk k, LastJailedKey := wk k\<rparr>))"
proof -
  obtain e where e: "f b = Some e" "BLSPublicKey e = b" using seg_mem [OF assms(3), of b] by auto
  have g: "getWaitingListElement E (FirstKey w) s = Inr e" using sees_elem [OF assms(1,4)] e(1) assms(7) by simp
  have fl: "CorrectFirstQueuedFlag E" using assms(2) by (simp add: list_env_ok_def)
  have "list_step E K s (andThen (saveWaitingListElement E (wk b) (e\<lparr>PreviousKey := wk k\<rparr>) s) (\<lambda>s _.
      saveElementAndList E (wk k) \<lparr>BLSPublicKey = k, PreviousKey = wk k, NextKey = wk b\<rparr> (w\<lparr>FirstKey := wk k, LastJailedKey := wk k\<rparr>) s))
    (f(b \<mapsto> e\<lparr>PreviousKey := wk k\<rparr>, k \<mapsto> \<lparr>BLSPublicKey = k, PreviousKey = wk k, NextKey = wk b\<rparr>))
    (Some (w\<lparr>FirstKey := wk k, LastJailedKey := wk k\<rparr>))"
    by (rule step_bind [OF step_elem [OF assms(1,2)]], use assms(4,6) e(2) in simp, rule step_both [OF _ assms(2)])
      (use assms(5,8) in simp_all)
  with g fl e(1) assms(7) show ?thesis by (simp add: insertFirst_def Let_def)
qed

lemma copy_same_length: "length a = length b \<Longrightarrow> copyInto (replicate (length a) x) b = b" "length a = length b \<Longrightarrow> copyInto a b = b"
  by (simp_all add: copyInto_def)

lemma insertMid_step:
  assumes "sees E K s f h" "list_env_ok E" "seg f p (ys @ a # b # zs) []" "distinct (ys @ a # k # b # zs)"
    and "a \<in> K" "b \<in> K" "k \<in> K" "keys_ok K" "LastJailedKey w = wk a" "LastKey w \<noteq> wk a" "Length w \<noteq> 0"
  shows "list_step E K s (insertAfterLastJailed E w k s)
    (f(a \<mapsto> (the (f a))\<lparr>NextKey := wk k\<rparr>, b \<mapsto> (the (f b))\<lparr>PreviousKey := wk k\<rparr>,
       k \<mapsto> \<lparr>BLSPublicKey = k, PreviousKey = wk a, NextKey = wk b\<rparr>)) (Some (w\<lparr>LastJailedKey := wk k\<rparr>))"
proof -
  have fa: "f a = Some \<lparr>BLSPublicKey = a, PreviousKey = (if ys = [] then p else wk (last ys)), NextKey = wk b\<rparr>"
    using seg_at [OF assms(3)] by simp
  obtain eb where fb: "f b = Some eb" "BLSPublicKey eb = b" using seg_mem [OF assms(3), of b] by auto
  have ne: "a \<noteq> []" "b \<noteq> []" "k \<noteq> []" using assms(5-8) by (auto simp: keys_ok_def)
  have len: "length (wk k) = length (wk a)" "length (wk k) = length (wk b)"
    using assms(5-8) unfolding keys_ok_def createWaitingListKey_def by force+
  have cp: "copyInto (replicate (length (wk k)) 0) (wk a) = wk a" "copyInto (replicate (length (wk k)) 0) (wk b) = wk b"
    by (rule copy_same_length [OF len(1)], rule copy_same_length [OF len(2)])
  have g: "getWaitingListElement E (wk a) s = Inr (the (f a))" "getWaitingListElement E (wk b) s = Inr eb"
    using sees_elem [OF assms(1)] assms(5,6) fa fb by simp_all
  have ab: "a \<noteq> b" using assms(4) by auto
  have nx: "NextKey (the (f a)) = wk b" using fa by simp
  have "list_step E K s (andThen (saveWaitingListElement E (wk a) ((the (f a))\<lparr>NextKey := wk k\<rparr>) s) (\<lambda>s _.
      andThen (saveWaitingListElement E (wk b) (eb\<lparr>PreviousKey := wk k\<rparr>) s) (\<lambda>s _.
        andThen (saveWaitingListElement E (wk k) \<lparr>BLSPublicKey = k, PreviousKey = wk a, NextKey = wk b\<rparr> s) (\<lambda>s _.
          saveWaitingListHead E (w\<lparr>LastJailedKey := wk k\<rparr>) s))))
    (f(a \<mapsto> (the (f a))\<lparr>NextKey := wk k\<rparr>, b \<mapsto> eb\<lparr>PreviousKey := wk k\<rparr>,
       k \<mapsto> \<lparr>BLSPublicKey = k, PreviousKey = wk a, NextKey = wk b\<rparr>)) (Some (w\<lparr>LastJailedKey := wk k\<rparr>))"
    by (rule step_bind [OF step_elem [OF assms(1,2)]], use fa ne assms(5) in simp,
        rule step_bind [OF step_elem [OF _ assms(2)]], assumption, use fb ne assms(6) in simp,
        rule step_bind [OF step_elem [OF _ assms(2)]], assumption, use ne assms(7) in simp,
        rule step_head [OF _ assms(2)], assumption, use assms(11) in simp)
  with g fb assms(9,10) nx show ?thesis by (simp add: insertAfterLastJailed_def Let_def cp)
qed

lemma linked_pair: "linked K (xs, j) f h \<longleftrightarrow> distinct xs \<and> set xs \<subseteq> K \<and> j \<le> length xs \<and> length xs < 2 ^ 32 \<and>
    h = (if xs = [] then None else Some (headOf xs j)) \<and> seg f (wk (hd xs)) xs [] \<and> (\<forall>k \<in> K - set xs. f k = None)"
  by (simp add: linked_def)

lemma length_word: "n < 2 ^ 32 \<Longrightarrow> unat (of_nat n :: u32) = n"
  by (simp add: unat_of_nat take_bit_nat_eq_self)

lemma length_inc:
  assumes "xs \<noteq> []" "length xs < 2 ^ 32 - 1"
  shows "(of_nat (length xs) + 1 :: u32) \<noteq> 1" "(of_nat (length xs) + 1 :: u32) \<noteq> 0"
    "(of_nat (length xs) + 1 :: u32) = of_nat (Suc (length xs))"
proof -
  have "unat (of_nat (Suc (length xs)) :: u32) = Suc (length xs)" using assms(2) by (intro length_word) simp
  moreover show "(of_nat (length xs) + 1 :: u32) = of_nat (Suc (length xs))" by simp
  ultimately have "unat (of_nat (length xs) + 1 :: u32) = Suc (length xs)" by metis
  then show "(of_nat (length xs) + 1 :: u32) \<noteq> 1" "(of_nat (length xs) + 1 :: u32) \<noteq> 0" using assms(1) by auto
qed

text \<open>The links of a queue with one more key, at the end, in front and in between.\<close>

lemma linked_end:
  assumes "linked K (ys @ [a], j) f h" "k \<in> K" "k \<notin> set (ys @ [a])" "length (ys @ [a]) < 2 ^ 32 - 1" "j' \<le> length ys + 2"
  shows "linked K (ys @ [a, k], j') (f(a \<mapsto> (the (f a))\<lparr>NextKey := wk k\<rparr>, k \<mapsto> \<lparr>BLSPublicKey = k, PreviousKey = wk a, NextKey = []\<rparr>))
    (Some (headOf (ys @ [a, k]) j'))"
proof -
  have "hd (ys @ [a, k]) = hd (ys @ [a])" by (cases ys) simp_all
  with assms link_end [of f "wk (hd (ys @ [a]))" ys a k] show ?thesis by (auto simp: linked_pair)
qed

lemma linked_front:
  assumes "linked K (c # zs, j) f h" "k \<in> K" "k \<notin> set (c # zs)" "length (c # zs) < 2 ^ 32 - 1"
  shows "linked K (k # c # zs, 1) (f(c \<mapsto> (the (f c))\<lparr>PreviousKey := wk k\<rparr>, k \<mapsto> \<lparr>BLSPublicKey = k, PreviousKey = wk k, NextKey = wk c\<rparr>))
    (Some (headOf (k # c # zs) 1))"
  using assms link_front [of f "wk c" c zs "[]" k] by (auto simp: linked_pair)

lemma linked_mid:
  assumes "linked K (ys @ a # c # zs, j) f h" "k \<in> K" "k \<notin> set (ys @ a # c # zs)" "length (ys @ a # c # zs) < 2 ^ 32 - 1"
    and "j' \<le> length (ys @ a # k # c # zs)"
  shows "linked K (ys @ a # k # c # zs, j') (f(a \<mapsto> (the (f a))\<lparr>NextKey := wk k\<rparr>, c \<mapsto> (the (f c))\<lparr>PreviousKey := wk k\<rparr>,
      k \<mapsto> \<lparr>BLSPublicKey = k, PreviousKey = wk a, NextKey = wk c\<rparr>)) (Some (headOf (ys @ a # k # c # zs) j'))"
proof -
  have "hd (ys @ a # k # c # zs) = hd (ys @ a # c # zs)" by (cases ys) simp_all
  with assms link_mid [of f "wk (hd (ys @ a # c # zs))" ys a c zs "[]" k] show ?thesis by (auto simp: linked_pair)
qed

text \<open>The operations on a non-empty queue, the head already counting the new key.\<close>

definition grown :: "bytes list \<Rightarrow> nat \<Rightarrow> waitingList" where
  "grown xs j = (headOf xs j)\<lparr>Length := of_nat (Suc (length xs))\<rparr>"

lemma grown_length: "xs \<noteq> [] \<Longrightarrow> length xs < 2 ^ 32 - 1 \<Longrightarrow> Length (grown xs j) \<noteq> 0"
  using length_inc by (metis grown_def waitingList.select_convs(3) waitingList.surjective waitingList.update_convs(3))

lemma end_step:
  assumes "sees E K s f h" "linked K (xs, j) f h" "list_env_ok E" "keys_ok K" "k \<in> K" "k \<notin> set xs" "length xs < 2 ^ 32 - 1" "xs \<noteq> []"
    and "w = grown xs j \<and> j' = j \<or> w = (grown xs j)\<lparr>LastJailedKey := wk k\<rparr> \<and> j' = Suc j \<and> j = length xs"
  shows "\<exists>f' h'. list_step E K s (addToEndOfTheList E w k s) f' h' \<and> linked K (xs @ [k], j') f' h'"
proof -
  obtain ys a where xs: "xs = ys @ [a]" using assms(8) by (metis rev_exhaust)
  note l = assms(2) [unfolded linked_pair]
  have K: "a \<in> K" "a \<noteq> []" "k \<noteq> [] \<and> k \<in> K" using l xs assms(4,5) by (auto simp: keys_ok_def)
  let ?f = "f(a \<mapsto> (the (f a))\<lparr>NextKey := wk k\<rparr>, k \<mapsto> \<lparr>BLSPublicKey = k, PreviousKey = wk a, NextKey = []\<rparr>)"
  have w: "LastKey w = wk a" "Length w \<noteq> 0" using assms(9) grown_length [OF assms(8,7)] xs by (auto simp: grown_def headOf_def)
  have "list_step E K s (addToEndOfTheList E w k s) ?f (Some (w\<lparr>LastKey := wk k\<rparr>))"
    using l xs by (intro addToEnd_step [OF assms(1,3) _ K(1,3,2) w, of "wk (hd xs)" ys]) simp
  moreover have "w\<lparr>LastKey := wk k\<rparr> = headOf (xs @ [k]) j'"
    using assms(9) l xs by (auto simp: grown_def headOf_def nth_append hd_append)
  moreover have "linked K (xs @ [k], j') ?f (Some (headOf (xs @ [k]) j'))"
    using linked_end [of K ys a j f h k j'] assms(2,5-7,9) xs l by auto
  ultimately show ?thesis by (intro exI [of _ ?f] exI [of _ "Some (headOf (xs @ [k]) j')"]) simp
qed

lemma jailed_step:
  assumes "sees E K s f h" "linked K (xs, j) f h" "list_env_ok E" "keys_ok K" "k \<in> K" "k \<notin> set xs" "length xs < 2 ^ 32 - 1" "xs \<noteq> []"
  shows "\<exists>f' h'. list_step E K s (insertAfterLastJailed E (grown xs j) k s) f' h' \<and> linked K (take j xs @ k # drop j xs, Suc j) f' h'"
proof -
  note l = assms(2) [unfolded linked_pair] and w = grown_length [OF assms(8,7), of j]
  have ne: "x \<noteq> []" if "x \<in> K" for x using assms(4) that by (auto simp: keys_ok_def)
  consider "j = 0" | "j = length xs" "j \<noteq> 0" | "j \<noteq> 0" "j < length xs" using l by fastforce
  then show ?thesis
  proof cases
    case 1
    obtain c zs where c: "xs = c # zs" using assms(8) by (cases xs) auto
    have "list_step E K s (insertFirst E (grown xs j) k s)
        (f(c \<mapsto> (the (f c))\<lparr>PreviousKey := wk k\<rparr>, k \<mapsto> \<lparr>BLSPublicKey = k, PreviousKey = wk k, NextKey = wk c\<rparr>))
        (Some ((grown xs j)\<lparr>FirstKey := wk k, LastJailedKey := wk k\<rparr>))"
      by (rule insertFirst_step [OF assms(1,3), of "wk (hd xs)" c zs]) (use l c ne assms(5) w in \<open>auto simp: grown_def headOf_def\<close>)
    moreover have "(grown xs j)\<lparr>FirstKey := wk k, LastJailedKey := wk k\<rparr> = headOf (k # c # zs) 1"
      using c by (simp add: grown_def headOf_def)
    moreover note linked_front [OF assms(2) [unfolded c] assms(5), folded c]
    ultimately show ?thesis using 1 c assms(6,7) by (fastforce simp: insertAfterLastJailed_def grown_def headOf_def)
  next
    case 2
    let ?w = "(grown xs j)\<lparr>LastJailedKey := wk k\<rparr>"
    have lj: "LastJailedKey (grown xs j) = wk (last xs)" "LastKey (grown xs j) = wk (last xs)"
      using 2 by (simp_all add: grown_def headOf_def last_conv_nth)
    have "last xs \<in> set xs" using assms(8) by simp
    then obtain ea where "getWaitingListElement E (wk (last xs)) s = Inr ea"
      using sees_elem [OF assms(1), of "last xs"] seg_mem [of f "wk (hd xs)" xs "[]" "last xs"] l by auto
    then have "insertAfterLastJailed E (grown xs j) k s = addToEndOfTheList E ?w k s"
      using lj by (simp add: insertAfterLastJailed_def Let_def)
    with end_step [OF assms, of ?w "Suc j"] 2 show ?thesis by simp
  next
    case 3
    define ys a c zs where d: "ys = take (j - 1) xs" "a = xs ! (j - 1)" "c = xs ! j" "zs = drop (Suc j) xs"
    have tk: "take j xs = ys @ [a]" using 3 take_Suc_conv_app_nth [of "j - 1" xs] by (simp add: d)
    have dr: "drop j xs = c # zs" using 3(2) by (simp add: d Cons_nth_drop_Suc)
    have sp: "xs = ys @ a # c # zs" using append_take_drop_id [of j xs] unfolding tk dr by simp
    have dis: "distinct (ys @ a # k # c # zs)" using l assms(6) sp by auto
    have K: "a \<in> K" "c \<in> K" using l sp by auto
    have last: "last xs \<noteq> a" using l sp by auto
    have sg: "seg f (wk (hd xs)) (ys @ a # c # zs) []" using l sp by simp
    have lj: "LastJailedKey (grown xs j) = wk a" "LastKey (grown xs j) \<noteq> wk a" using 3 last by (simp_all add: grown_def headOf_def d)
    have ln: "length ys = j - 1" using 3 by (simp add: d)
    note insertMid_step [OF assms(1,3) sg dis K assms(5,4) lj w]
    moreover have "(grown xs j)\<lparr>LastJailedKey := wk k\<rparr> = headOf (ys @ a # k # c # zs) (Suc j)"
      using 3 ln sp by (simp add: grown_def headOf_def nth_append hd_append) linarith
    moreover have "linked K (ys @ a # k # c # zs, Suc j) (f(a \<mapsto> (the (f a))\<lparr>NextKey := wk k\<rparr>, c \<mapsto> (the (f c))\<lparr>PreviousKey := wk k\<rparr>,
        k \<mapsto> \<lparr>BLSPublicKey = k, PreviousKey = wk a, NextKey = wk c\<rparr>)) (Some (headOf (ys @ a # k # c # zs) (Suc j)))"
      using linked_mid [of K ys a c zs j f h k "Suc j"] assms(2,5-7) sp ln 3 by simp
    ultimately show ?thesis unfolding tk dr by (auto intro!: exI)
  qed
qed

lemma add_step:
  assumes "sees E K s f h" "linked K (xs, j) f h" "list_env_ok E" "keys_ok K" "k \<in> K" "k \<notin> set xs" "length xs < 2 ^ 32 - 1"
  shows "\<exists>f' h'. list_step E K s (addToWaitingList E k b s) f' h' \<and> linked K (enqueue k b (xs, j)) f' h'"
proof -
  note l = assms(2) [unfolded linked_pair]
  have st: "GetStorage (wk k) s = []" using sees_empty [OF assms(1,5)] l assms(5,6) by simp
  note hd = sees_head [OF assms(1)]
  show ?thesis
  proof (cases "xs = []")
    case True
    let ?w = "\<lparr>FirstKey = wk k, LastKey = wk k, Length = 1, LastJailedKey = (if b then wk k else [])\<rparr>"
    let ?e = "\<lparr>BLSPublicKey = k, PreviousKey = wk k, NextKey = []\<rparr>"
    have "list_step E K s (saveElementAndList E (wk k) ?e ?w s) (f(k \<mapsto> ?e)) (Some ?w)"
      by (rule step_both [OF assms(1,3)]) (use assms(4,5) in \<open>auto simp: keys_ok_def\<close>)
    moreover have "addToWaitingList E k b s = saveElementAndList E (wk k) ?e ?w s"
      using True l st hd by (simp add: addToWaitingList_def startWaitingList_def Let_def)
    moreover have "linked K (enqueue k b (xs, j)) (f(k \<mapsto> ?e)) (Some ?w)"
      using True l assms(5) by (auto simp: linked_pair headOf_def)
    ultimately show ?thesis by metis
  next
    case False
    have w: "of_nat (length xs) + 1 \<noteq> (1 :: u32)" by (rule length_inc [OF False assms(7)])
    have g: "(headOf xs j)\<lparr>Length := Length (headOf xs j) + 1\<rparr> = grown xs j" "Length (grown xs j) \<noteq> 1"
      using w by (simp_all add: grown_def headOf_def add.commute)
    have "getWaitingListHead E s = Inr (headOf xs j)" using hd l False by simp
    with g have "addToWaitingList E k b s = (if b then insertAfterLastJailed E (grown xs j) k s else addToEndOfTheList E (grown xs j) k s)"
      using st by (simp add: addToWaitingList_def Let_def)
    then show ?thesis using jailed_step [OF assms False] end_step [OF assms False, of "grown xs j" j] assms(6) by (cases b) simp_all
  qed
qed

subsection \<open>Removal\<close>

lemma sees_clear: "sees E K s f h \<Longrightarrow> sees E K (SetStorage (wk k) [] s) (f(k := None)) h"
  unfolding sees_def by (auto split: option.splits)

lemma seg_clear: "k \<notin> set ks \<Longrightarrow> seg (f(k := None)) p ks n = seg f p ks n"
  by simp

text \<open>The links of a queue with one key less.\<close>

lemma linked_remove_first:
  assumes "linked K (k # c # zs, j) f h"
  shows "linked K (c # zs, j - 1) (f(k := None, c \<mapsto> (the (f c))\<lparr>PreviousKey := wk c\<rparr>)) (Some (headOf (c # zs) (j - 1)))"
  using assms by (auto simp: linked_pair)

lemma linked_remove_last:
  assumes "linked K (ys @ [a, k], j) f h" "j' \<le> length ys + 1"
  shows "linked K (ys @ [a], j') (f(k := None, a \<mapsto> (the (f a))\<lparr>NextKey := []\<rparr>)) (Some (headOf (ys @ [a]) j'))"
proof -
  have "hd (ys @ [a]) = hd (ys @ [a, k])" by (cases ys) simp_all
  with assms show ?thesis by (auto simp: linked_pair seg_append)
qed

lemma linked_remove_mid:
  assumes "linked K (ys @ a # k # c # zs, j) f h" "j' \<le> length (ys @ a # c # zs)"
  shows "linked K (ys @ a # c # zs, j') (f(k := None, c \<mapsto> (the (f c))\<lparr>PreviousKey := wk a\<rparr>, a \<mapsto> (the (f a))\<lparr>NextKey := wk c\<rparr>))
    (Some (headOf (ys @ a # c # zs) j'))"
proof -
  have "hd (ys @ a # c # zs) = hd (ys @ a # k # c # zs)" by (cases ys) simp_all
  with assms show ?thesis by (auto simp: linked_pair seg_append)
qed

definition shrunk :: "bytes list \<Rightarrow> nat \<Rightarrow> waitingList" where
  "shrunk xs j = (headOf xs j)\<lparr>Length := of_nat (length xs - 1)\<rparr>"

lemma shrunk_length: "1 < length xs \<Longrightarrow> length xs < 2 ^ 32 \<Longrightarrow> Length (shrunk xs j) \<noteq> 0"
proof -
  assume "1 < length xs" "length xs < 2 ^ 32"
  then have "unat (of_nat (length xs - 1) :: u32) \<noteq> 0" by (subst length_word) simp_all
  then show ?thesis by (auto simp: shrunk_def headOf_def)
qed

lemma remove_first_step:
  assumes "sees E K s (f(k := None)) h" "linked K (k # c # zs, j) f h" "list_env_ok E" "keys_ok K" "f k = Some elem"
  shows "\<exists>f' h'. list_step E K s (removeFirst E (shrunk (k # c # zs) j) (wk k) elem s) f' h' \<and> linked K (c # zs, j - 1) f' h'"
proof -
  note l = assms(2) [unfolded linked_pair]
  have cK: "c \<in> K" "c \<noteq> []" "c \<noteq> k" using l assms(4) by (auto simp: keys_ok_def)
  obtain ec where ec: "f c = Some ec" "BLSPublicKey ec = c" using l by auto
  have g: "getWaitingListElement E (wk c) s = Inr ec" using sees_elem [OF assms(1) cK(1)] ec(1) cK(3) by simp
  have nx: "NextKey elem = wk c" using l assms(5) by auto
  let ?w = "shrunk (k # c # zs) j"
  let ?w1 = "if wk k = LastJailedKey ?w then ?w\<lparr>LastJailedKey := []\<rparr> else ?w"
  have lj: "wk k = LastJailedKey ?w \<longleftrightarrow> j = 1"
  proof (cases "j \<le> 1")
    case False
    then have "(k # c # zs) ! (j - 1) = (c # zs) ! (j - 2)" by (simp add: nth_Cons' numeral_eq_Suc)
    moreover have "j - 2 < length (c # zs)" using False l by auto
    ultimately have "(k # c # zs) ! (j - 1) \<in> set (c # zs)" by (metis nth_mem)
    then have "k \<noteq> (k # c # zs) ! (j - 1)" using l by auto
    with False show ?thesis by (simp add: shrunk_def headOf_def)
  qed (auto simp: shrunk_def headOf_def)
  have hd: "?w1\<lparr>FirstKey := wk c\<rparr> = headOf (c # zs) (j - 1)"
    unfolding lj by (cases j; cases "j - 1") (auto simp: shrunk_def headOf_def)
  have len: "Length (?w1\<lparr>FirstKey := wk c\<rparr>) \<noteq> 0" using shrunk_length [of "k # c # zs" j] l by simp
  have "list_step E K s (saveElementAndList E (wk c) (ec\<lparr>PreviousKey := wk c\<rparr>) (?w1\<lparr>FirstKey := wk c\<rparr>) s)
      (f(k := None, c \<mapsto> ec\<lparr>PreviousKey := wk c\<rparr>)) (Some (?w1\<lparr>FirstKey := wk c\<rparr>))"
    by (rule step_both [OF assms(1,3) _ len]) (use ec cK in simp)
  moreover have "removeFirst E ?w (wk k) elem s = saveElementAndList E (wk c) (ec\<lparr>PreviousKey := wk c\<rparr>) (?w1\<lparr>FirstKey := wk c\<rparr>) s"
    using nx g by (simp add: removeFirst_def Let_def)
  ultimately show ?thesis using linked_remove_first [OF assms(2)] hd ec(1) by auto
qed

lemma shrunk_jailed:
  assumes "distinct (ys @ a # k # zs)" "j \<le> length (ys @ a # k # zs)"
  shows "wk k = LastJailedKey (shrunk (ys @ a # k # zs) j) \<longleftrightarrow> j = length ys + 2"
proof (cases "j = 0")
  case False
  have "(ys @ a # k # zs) ! (length ys + 1) = k" by (simp add: nth_append)
  then have "k = (ys @ a # k # zs) ! (j - 1) \<longleftrightarrow> j - 1 = length ys + 1"
    using nth_eq_iff_index_eq [OF assms(1), of "length ys + 1" "j - 1"] assms(2) False by auto
  with False show ?thesis by (auto simp: shrunk_def headOf_def)
qed (simp add: shrunk_def headOf_def)

lemma jailed_place:
  assumes "j \<le> length (ys @ a # k # zs)"
  shows "j \<le> Suc (length ys) \<or> j = length ys + 2 \<or> (\<exists>d. j = length ys + d + 3 \<and> d < length zs)"
proof (cases "j \<le> length ys + 2")
  case False
  then have "j = length ys + (j - length ys - 3) + 3" "j - length ys - 3 < length zs" using assms by auto
  then show ?thesis by blast
qed auto

lemma remove_other_step:
  assumes "sees E K s (f(k := None)) h" "linked K (ys @ a # k # zs, j) f h" "list_env_ok E" "keys_ok K" "f k = Some elem"
  shows "\<exists>f' h'. list_step E K s (removeOther E (shrunk (ys @ a # k # zs) j) (wk k) elem s) f' h' \<and>
    linked K (ys @ a # zs, if Suc (length ys) < j then j - 1 else j) f' h'"
proof -
  let ?xs = "ys @ a # k # zs" and ?j = "if Suc (length ys) < j then j - 1 else j"
  note l = assms(2) [unfolded linked_pair]
  have aK: "a \<in> K" "a \<noteq> []" "a \<noteq> k" using l assms(4) by (auto simp: keys_ok_def)
  have el: "PreviousKey elem = wk a" "NextKey elem = (if zs = [] then [] else wk (hd zs))"
    using seg_at [of f "wk (hd ?xs)" "ys @ [a]" k zs "[]"] l assms(5) by auto
  obtain ea where ea: "f a = Some ea" "BLSPublicKey ea = a" using seg_mem [of f "wk (hd ?xs)" ?xs "[]" a] l by auto
  have ga: "getWaitingListElement E (wk a) s = Inr ea" using sees_elem [OF assms(1) aK(1)] ea(1) aK(3) by simp
  define w1 where "w1 = (if \<not> CorrectLastUnJailedFlag E \<or> wk k = LastJailedKey (shrunk ?xs j)
    then (shrunk ?xs j)\<lparr>LastJailedKey := PreviousKey elem\<rparr> else shrunk ?xs j)"
  have w1: "w1 = (if j = length ys + 2 then (shrunk ?xs j)\<lparr>LastJailedKey := wk a\<rparr> else shrunk ?xs j)"
    using assms(3) shrunk_jailed [of ys a k zs j] l el(1) by (auto simp: w1_def list_env_ok_def)
  have lw: "Length w1 \<noteq> 0" using shrunk_length [of ?xs] l by (simp add: w1)
  have pv: "previousOf E w1 (wk k) elem s = Inr (ea, wk a)" using ga el(1) by (simp add: previousOf_def)
  have jk: "j \<noteq> 0 \<Longrightarrow> LastJailedKey w1 = wk ((ys @ a # zs) ! (?j - 1))"
  proof -
    assume "j \<noteq> 0"
    then consider "j \<le> Suc (length ys)" | "j = length ys + 2" | d where "j = length ys + d + 3" "d < length zs"
      using l by (metis (no_types, lifting) jailed_place)
    then show ?thesis using \<open>j \<noteq> 0\<close> by cases (auto simp: w1 shrunk_def headOf_def nth_append nth_Cons')
  qed
  have j0: "j = 0 \<Longrightarrow> LastJailedKey w1 = []" by (simp add: w1 shrunk_def headOf_def)
  have other: "FirstKey w1 = wk (hd (ys @ a # zs))" "Length w1 = of_nat (length (ys @ a # zs))" "LastKey w1 = wk (last ?xs)"
    by (simp_all add: w1 shrunk_def headOf_def hd_append)
  have hd: "w1\<lparr>LastKey := wk (last (ys @ a # zs))\<rparr> = headOf (ys @ a # zs) ?j"
    using jk j0 other by (cases "j = 0") (auto simp: headOf_def)
  show ?thesis
  proof (cases zs)
    case Nil
    let ?w = "w1\<lparr>LastKey := wk a\<rparr>"
    have "list_step E K s (saveElementAndList E (wk a) (ea\<lparr>NextKey := []\<rparr>) ?w s) (f(k := None, a \<mapsto> ea\<lparr>NextKey := []\<rparr>)) (Some ?w)"
      by (rule step_both [OF assms(1,3)]) (use ea aK lw in simp_all)
    moreover have "removeOther E (shrunk ?xs j) (wk k) elem s = saveElementAndList E (wk a) (ea\<lparr>NextKey := []\<rparr>) ?w s"
      using pv el Nil unfolding removeOther_def Let_def w1_def [symmetric] by simp
    moreover have "linked K (ys @ [a], ?j) (f(k := None, a \<mapsto> ea\<lparr>NextKey := []\<rparr>)) (Some (headOf (ys @ [a]) ?j))"
      using linked_remove_last [of K ys a k j f h ?j] assms(2) Nil l ea(1) by auto
    moreover have "?w = headOf (ys @ [a]) ?j" using hd Nil by simp
    ultimately show ?thesis using Nil by (intro exI [of _ "f(k := None, a \<mapsto> ea\<lparr>NextKey := []\<rparr>)"] exI [of _ "Some ?w"]) simp
  next
    case (Cons c zs')
    have cK: "c \<in> K" "c \<noteq> []" "c \<noteq> k" "c \<noteq> a" using l assms(4) Cons by (auto simp: keys_ok_def)
    obtain ec where ec: "f c = Some ec" "BLSPublicKey ec = c" using seg_mem [of f "wk (hd ?xs)" ?xs "[]" c] l Cons by auto
    have gc: "getWaitingListElement E (wk c) s = Inr ec" using sees_elem [OF assms(1) cK(1)] ec(1) cK(3) by simp
    have "list_step E K s (andThen (saveWaitingListElement E (wk c) (ec\<lparr>PreviousKey := wk a\<rparr>) s) (\<lambda>s _.
        saveElementAndList E (wk a) (ea\<lparr>NextKey := wk c\<rparr>) w1 s))
      (f(k := None, c \<mapsto> ec\<lparr>PreviousKey := wk a\<rparr>, a \<mapsto> ea\<lparr>NextKey := wk c\<rparr>)) (Some w1)"
      by (rule step_bind [OF step_elem [OF assms(1,3)]], use ec cK in simp, rule step_both [OF _ assms(3)])
        (use ea aK lw in simp_all)
    moreover have "removeOther E (shrunk ?xs j) (wk k) elem s = andThen (saveWaitingListElement E (wk c) (ec\<lparr>PreviousKey := wk a\<rparr>) s) (\<lambda>s _.
        saveElementAndList E (wk a) (ea\<lparr>NextKey := wk c\<rparr>) w1 s)"
      using pv el gc Cons unfolding removeOther_def Let_def w1_def [symmetric] by simp
    moreover have "linked K (ys @ a # zs, ?j) (f(k := None, c \<mapsto> ec\<lparr>PreviousKey := wk a\<rparr>, a \<mapsto> ea\<lparr>NextKey := wk c\<rparr>))
        (Some (headOf (ys @ a # zs) ?j))"
      using linked_remove_mid [of K ys a k c zs' j f h ?j] assms(2) Cons l ea(1) ec(1) by auto
    moreover have "w1 = headOf (ys @ a # zs) ?j"
    proof -
      have "w1\<lparr>LastKey := wk (last (ys @ a # zs))\<rparr> = w1" using other(3) Cons by simp
      with hd show ?thesis by metis
    qed
    ultimately show ?thesis by metis
  qed
qed

lemma remove_step:
  assumes "sees E K s f h" "linked K (xs, j) f h" "list_env_ok E" "keys_ok K" "k \<in> set xs"
  shows "\<exists>f' h'. list_step E K s (removeFromWaitingList E k s) f' h' \<and> linked K (dequeue k (xs, j)) f' h'"
proof -
  note l = assms(2) [unfolded linked_pair]
  have kK: "k \<in> K" using l assms(5) by auto
  obtain elem where fe: "f k = Some elem" using seg_mem [of f _ xs _ k] l assms(5) by blast
  let ?s = "SetStorage (wk k) [] s"
  have data: "GetStorage (wk k) s \<noteq> []" "unmarshalElement E (GetStorage (wk k) s) = Inr elem"
    using sees_elem [OF assms(1) kK] fe by (auto simp: getWaitingListElement_def Let_def split: if_splits)
  have sees': "sees E K ?s (f(k := None)) h" by (rule sees_clear [OF assms(1)])
  have ne: "xs \<noteq> []" using assms(5) by auto
  then have hd: "getWaitingListHead E ?s = Inr (headOf xs j)" using sees_head [OF sees'] l by simp
  have len: "Length (headOf xs j) \<noteq> 0" using length_word [of "length xs"] l ne by (auto simp: headOf_def)
  have sh: "(headOf xs j)\<lparr>Length := Length (headOf xs j) - 1\<rparr> = shrunk xs j" using ne by (simp add: shrunk_def headOf_def of_nat_diff Suc_leI)
  have lift: "\<exists>f' h'. list_step E K s (removeFromWaitingList E k s) f' h' \<and> linked K q f' h'"
    if "removeFromWaitingList E k s = r" "\<exists>f' h'. list_step E K ?s r f' h' \<and> linked K q f' h'" for r q
    using that rest_same_trans [OF rest_same_set(1) [OF kK]] unfolding list_step_def by blast
  obtain ys zs where xs: "xs = ys @ k # zs" using split_list [OF assms(5)] by blast
  have dq: "dequeue k (xs, j) = (ys @ zs, if length ys < j then j - 1 else j)" using dequeue_split [OF _ xs] l by blast
  show ?thesis
  proof (cases "ys @ zs = []")
    case True
    then have "Length (shrunk xs j) = 0" using xs by (simp add: shrunk_def)
    then have "removeFromWaitingList E k s = (SetStorage waitingListHeadKey [] ?s, Inr ())"
      using data hd len sh by (simp add: removeFromWaitingList_def Let_def)
    moreover have "sees E K (SetStorage waitingListHeadKey [] ?s) (f(k := None)) None"
      using sees' unfolding sees_def by (auto split: option.splits)
    moreover have "linked K (dequeue k (xs, j)) (f(k := None)) None" using l xs True unfolding dq linked_pair by auto
    ultimately show ?thesis
      by (intro lift [OF _ exI [of _ "f(k := None)"], OF _ exI [of _ None]]) (auto simp: list_step_def rest_same_set)
  next
    case False
    then have ln: "Length (shrunk xs j) \<noteq> 0" using shrunk_length [of xs j] l xs by (cases ys) (auto simp: Suc_lessI)
    have fl: "CorrectFirstQueuedFlag E" using assms(3) by (simp add: list_env_ok_def)
    have rm: "removeFromWaitingList E k s = (if hd xs = k then removeFirst E (shrunk xs j) (wk k) elem ?s
        else removeOther E (shrunk xs j) (wk k) elem ?s)"
      using data hd len sh ln fl by (simp add: removeFromWaitingList_def Let_def) (simp add: shrunk_def headOf_def)
    show ?thesis
    proof (cases ys rule: rev_cases)
      case Nil
      then obtain c zs' where "zs = c # zs'" using False by (cases zs) auto
      with Nil xs rm have eq: "removeFromWaitingList E k s = removeFirst E (shrunk (k # c # zs') j) (wk k) elem ?s"
        and q: "dequeue k (xs, j) = (c # zs', if 0 < j then j - 1 else j)" and lk: "linked K (k # c # zs', j) f h"
        using dq assms(2) by simp_all
      show ?thesis
        using remove_first_step [OF sees' lk assms(3,4) fe] unfolding q by (intro lift [OF eq]) (cases j, simp_all)
    next
      case (snoc ys' a)
      then have "hd xs \<noteq> k" using xs l by (cases ys') auto
      with snoc xs rm have eq: "removeFromWaitingList E k s = removeOther E (shrunk (ys' @ a # k # zs) j) (wk k) elem ?s"
        and q: "dequeue k (xs, j) = (ys' @ a # zs, if Suc (length ys') < j then j - 1 else j)"
        and lk: "linked K (ys' @ a # k # zs, j) f h"
        using dq assms(2) by simp_all
      show ?thesis
        using remove_other_step [OF sees' lk assms(3,4) fe] unfolding q by (intro lift [OF eq]) auto
    qed
  qed
qed

subsection \<open>Refinement\<close>

lemma queue_add:
  assumes "queue_rep E K s (xs, j)" "list_env_ok E" "keys_ok K" "k \<in> K" "length xs < 2 ^ 32 - 1"
  obtains s' where "addToWaitingList E k b s = (s', Inr ())" "queue_rep E K s' (enqueue k b (xs, j))" "rest_same K s s'"
proof (cases "k \<in> set xs")
  case True
  obtain f h where f: "sees E K s f h" "linked K (xs, j) f h" using assms(1) by (auto simp: queue_rep_def)
  then have "f k \<noteq> None" using seg_mem [of f "wk (hd xs)" xs "[]" k] True by (auto simp: linked_pair)
  then have "addToWaitingList E k b s = (s, Inr ())" using sees_empty [OF f(1) assms(4)] by (simp add: addToWaitingList_def)
  with True assms(1) show thesis by (intro that [of s]) simp_all
next
  case False
  obtain f h where f: "sees E K s f h" "linked K (xs, j) f h" using assms(1) by (auto simp: queue_rep_def)
  from add_step [OF f assms(2-4) False assms(5), of b] that show thesis by (auto simp: list_step_def queue_rep_def)
qed

lemma queue_remove:
  assumes "queue_rep E K s (xs, j)" "list_env_ok E" "keys_ok K" "k \<in> K"
  obtains s' where "removeFromWaitingList E k s = (s', Inr ())" "queue_rep E K s' (dequeue k (xs, j))" "rest_same K s s'"
proof (cases "k \<in> set xs")
  case True
  obtain f h where f: "sees E K s f h" "linked K (xs, j) f h" using assms(1) by (auto simp: queue_rep_def)
  from remove_step [OF f assms(2,3) True] that show thesis by (auto simp: list_step_def queue_rep_def)
next
  case False
  obtain f h where f: "sees E K s f h" "linked K (xs, j) f h" using assms(1) by (auto simp: queue_rep_def)
  then have "f k = None" using False assms(4) by (simp add: linked_pair)
  then have "removeFromWaitingList E k s = (s, Inr ())" using sees_empty [OF f(1) assms(4)] by (simp add: removeFromWaitingList_def)
  moreover have "k \<notin> set (take j xs)" using False by (auto dest: in_set_takeD)
  ultimately show thesis using False assms(1) by (intro that [of s]) (simp_all add: remove1_idem)
qed

end
