(* ===== verification/Big_Bytes.thy ===== *)
theory Big_Bytes
  imports Go_Prelude
begin

text \<open>
  The unsigned big-endian bytes of Go's \<open>big.Int\<close>: \<open>Bytes\<close>, which drops the sign, and \<open>SetBytes\<close>, with their round trip.
\<close>

function natBytes :: "int \<Rightarrow> bytes" where
  "natBytes n = (if n \<le> 0 then [] else natBytes (n div 256) @ [of_int n])"
  by auto
termination by (relation "measure nat") auto

declare natBytes.simps [simp del]

definition bigBytes :: "int \<Rightarrow> bytes" where
  "bigBytes z = natBytes \<bar>z\<bar>"

definition fromBytes :: "bytes \<Rightarrow> int" where
  "fromBytes = foldl (\<lambda>n b. n * 256 + uint b) 0"

lemma fromBytes_snoc: "fromBytes (bs @ [b]) = fromBytes bs * 256 + uint b"
  by (simp add: fromBytes_def)

lemma fromBytes_natBytes [simp]: "0 \<le> n \<Longrightarrow> fromBytes (natBytes n) = n"
proof (induction n rule: natBytes.induct)
  case (1 n)
  show ?case
  proof (cases "n = 0")
    case True
    then show ?thesis using natBytes.simps [of 0] by (simp add: fromBytes_def)
  next
    case False
    with 1 have "fromBytes (natBytes n) = n div 256 * 256 + uint (of_int n :: byte)"
      by (subst natBytes.simps) (simp add: fromBytes_snoc)
    then show ?thesis by (simp add: unsigned_of_int take_bit_eq_mod)
  qed
qed

end
