(* ===== verification/Staking_SC.thy ===== *)
theory Staking_SC
  imports Staking_List Big_Bytes
begin

text \<open>
  The functions of the staking contract: \<open>vm/systemSmartContracts/staking.go\<close> and the handlers of
  \<open>stakingWaitingList.go\<close>. A handler takes the call's input and the contract's state to a state and a return code;
  the return messages are left out. A panic is a return code of its own. The registration data that a Go function
  changes through its pointer is an argument and a result of the model's function.
\<close>

record contractCallInput =
  CallerAddr :: bytes
  CallValue :: int
  Arguments :: "bytes list"
  RecipientAddr :: bytes
  Function :: string
  ESDTTransfers :: nat

definition failWith :: "staking_error \<Rightarrow> returnCode" where
  "failWith e = (if e = DivisionByZero then Panic else UserError)"

definition onOk :: "staking_error + 'a \<Rightarrow> stakingState \<Rightarrow> ('a \<Rightarrow> stakingState \<times> returnCode) \<Rightarrow> stakingState \<times> returnCode" where
  "onOk r s f = (case r of Inl e \<Rightarrow> (s, failWith e) | Inr a \<Rightarrow> f a)"

definition thenOk :: "stakingState \<times> (staking_error + 'a) \<Rightarrow> (stakingState \<Rightarrow> 'a \<Rightarrow> stakingState \<times> returnCode) \<Rightarrow>
    stakingState \<times> returnCode" where
  "thenOk r f = (case r of (s, Inl e) \<Rightarrow> (s, failWith e) | (s, Inr a) \<Rightarrow> f s a)"

lemma onOk_simps [simp]: "onOk (Inl e) s f = (s, failWith e)" "onOk (Inr a) s f = f a"
  by (simp_all add: onOk_def)

lemma thenOk_simps [simp]: "thenOk (s, Inl e) f = (s, failWith e)" "thenOk (s, Inr a) f = f s a"
  by (simp_all add: thenOk_def)

lemma failWith_not_Ok [simp]: "failWith e \<noteq> Ok" "Ok \<noteq> failWith e"
  by (simp_all add: failWith_def)

subsection \<open>Numbers in return data\<close>

function decimal :: "int \<Rightarrow> bytes" where
  "decimal n = (if n < 10 then [of_int (48 + n)] else decimal (n div 10) @ [of_int (48 + n mod 10)])"
  by auto
termination by (relation "measure nat") auto

declare decimal.simps [simp del]

definition itoa :: "int \<Rightarrow> bytes" where
  "itoa z = (if z < 0 then 45 # decimal (- z) else decimal z)"

definition hexDigit :: "nat \<Rightarrow> byte" where
  "hexDigit n = (if n < 10 then of_nat (48 + n) else of_nat (87 + n))"

definition hexEncode :: "bytes \<Rightarrow> bytes" where
  "hexEncode bs = concat (map (\<lambda>b. [hexDigit (unat b div 16), hexDigit (unat b mod 16)]) bs)"

subsection \<open>Counters\<close>

definition addToStakedNodes :: "stakingEnv \<Rightarrow> u64 \<Rightarrow> stakingState \<Rightarrow> stakingState" where
  "addToStakedNodes E v s = (let c = getConfig E s in setConfig E (c\<lparr>StakedNodes := StakedNodes c + v\<rparr>) s)"

definition removeFromStakedNodes :: "stakingEnv \<Rightarrow> stakingState \<Rightarrow> stakingState" where
  "removeFromStakedNodes E s = (let c = getConfig E s in
     setConfig E (if sint (StakedNodes c) > 0 then c\<lparr>StakedNodes := StakedNodes c - 1\<rparr> else c) s)"

definition removeFromJailedNodes :: "stakingEnv \<Rightarrow> stakingState \<Rightarrow> stakingState" where
  "removeFromJailedNodes E s = (let c = getConfig E s in
     setConfig E (if sint (JailedNodes c) > 0 then c\<lparr>JailedNodes := JailedNodes c - 1\<rparr> else c) s)"

definition numSpareNodes :: "stakingEnv \<Rightarrow> stakingState \<Rightarrow> u64" where
  "numSpareNodes E s = (let c = getConfig E s in StakedNodes c - JailedNodes c - MinNumNodes c)"

definition canStake :: "stakingEnv \<Rightarrow> stakingState \<Rightarrow> bool" where
  "canStake E s = (if StakingV4StartedFlag E then True
     else let c = getConfig E s in sint (StakedNodes c) < sint (MaxNumNodes c))"

definition canStakeIfOneRemoved :: "stakingEnv \<Rightarrow> stakingState \<Rightarrow> bool" where
  "canStakeIfOneRemoved E s = (let c = getConfig E s in sint (StakedNodes c) \<le> sint (MaxNumNodes c))"

definition canUnStake :: "stakingEnv \<Rightarrow> stakingState \<Rightarrow> bool" where
  "canUnStake E s = (sint (numSpareNodes E s) > 0)"

definition canUnBond :: "stakingEnv \<Rightarrow> stakingState \<Rightarrow> bool" where
  "canUnBond E s = (sint (numSpareNodes E s) \<ge> 0)"

definition isNodeJailedOrWithBadRating :: "stakingEnv \<Rightarrow> stakedData \<Rightarrow> bytes \<Rightarrow> bool" where
  "isNodeJailedOrWithBadRating E d blsKey = (Jailed d \<or> CanUnJail E blsKey \<or> IsBadRating E blsKey)"

definition activeStakingFor :: "stakingEnv \<Rightarrow> stakedData \<Rightarrow> stakedData" where
  "activeStakingFor E d = d\<lparr>RegisterNonce := CurrentNonce E, Staked := True, StakedNonce := CurrentNonce E,
     UnStakedEpoch := DefaultUnstakedEpoch, UnStakedNonce := 0, Waiting := False\<rparr>"

definition removeAndSetUnstaked :: "stakingEnv \<Rightarrow> stakedData \<Rightarrow> stakingState \<Rightarrow> stakingState \<times> stakedData" where
  "removeAndSetUnstaked E d s = (removeFromStakedNodes E s,
     d\<lparr>Staked := False, UnStakedEpoch := CurrentEpoch E, UnStakedNonce := CurrentNonce E, StakedNonce := - 1\<rparr>)"

definition tryRemoveJailedNodeFromStaked :: "stakingEnv \<Rightarrow> stakedData \<Rightarrow> stakingState \<Rightarrow> stakingState \<times> stakedData" where
  "tryRemoveJailedNodeFromStaked E d s =
     (if \<not> CorrectJailedNotUnStakedEmptyQueueFlag E then removeAndSetUnstaked E d s
      else if canUnStake E s then removeAndSetUnstaked E d s
      else (s, d))"

subsection \<open>Staking a key\<close>

text \<open>The code of a node that was put into the queue.\<close>

definition waiting :: byte where "waiting = 3"

definition processStakeV1 :: "stakingEnv \<Rightarrow> bytes \<Rightarrow> stakedData \<Rightarrow> bool \<Rightarrow> stakingState \<Rightarrow>
    stakingState \<times> (staking_error + stakedData)" where
  "processStakeV1 E blsKey d0 addFirst s =
     (if Staked d0 then (s, Inr d0)
      else let d = d0\<lparr>RegisterNonce := CurrentNonce E\<rparr> in
        if \<not> canStake E s then
          andThen (addToWaitingList E blsKey addFirst s) (\<lambda>s _. (Finish [waiting] s, Inr (d\<lparr>Waiting := True\<rparr>)))
        else andThen (removeFromWaitingList E blsKey s) (\<lambda>s _. (addToStakedNodes E 1 s, Inr (activeStakingFor E d))))"

definition processStakeV2 :: "stakingEnv \<Rightarrow> stakedData \<Rightarrow> stakingState \<Rightarrow> stakingState \<times> (staking_error + stakedData)" where
  "processStakeV2 E d0 s = (if Staked d0 then (s, Inr d0)
     else (addToStakedNodes E 1 s, Inr (activeStakingFor E (d0\<lparr>RegisterNonce := CurrentNonce E\<rparr>))))"

definition processStake :: "stakingEnv \<Rightarrow> bytes \<Rightarrow> stakedData \<Rightarrow> bool \<Rightarrow> stakingState \<Rightarrow>
    stakingState \<times> (staking_error + stakedData)" where
  "processStake E blsKey d addFirst s =
     (if StakingV4StartedFlag E then processStakeV2 E d s else processStakeV1 E blsKey d addFirst s)"

definition stake :: "stakingEnv \<Rightarrow> contractCallInput \<Rightarrow> bool \<Rightarrow> stakingState \<Rightarrow> stakingState \<times> returnCode" where
  "stake E args onlyRegister s =
     (if CallerAddr args \<noteq> stakeAccessAddr E then (s, UserError)
      else if length (Arguments args) < 3 then (s, UserError)
      else let key = Arguments args ! 0 in
        onOk (getOrCreateRegisteredData E key s) s (\<lambda>d0.
          if isNodeJailedOrWithBadRating E d0 key then (s, UserError)
          else let d1 = d0\<lparr>RewardAddress := Arguments args ! 1, OwnerAddress := Arguments args ! 2, StakeValue := stakeValue E\<rparr> in
            thenOk (if onlyRegister then (s, Inr d1) else processStake E key d1 False s) (\<lambda>s d.
              thenOk (saveStakingData E key d s) (\<lambda>s _. (s, Ok)))))"

subsection \<open>Unstaking a key\<close>

definition checkUnStakeArgs :: "stakingEnv \<Rightarrow> contractCallInput \<Rightarrow> stakingState \<Rightarrow> returnCode + stakedData" where
  "checkUnStakeArgs E args s =
     (if CallerAddr args \<noteq> stakeAccessAddr E then Inl UserError
      else if length (Arguments args) < 2 then Inl UserError
      else let key = Arguments args ! 0 in
        (case getOrCreateRegisteredData E key s of
           Inl e \<Rightarrow> Inl UserError
         | Inr d \<Rightarrow>
             if length (RewardAddress d) = 0 then Inl UserError
             else if Arguments args ! 1 \<noteq> RewardAddress d then Inl UserError
             else if isNodeJailedOrWithBadRating E d key then Inl UserError
             else if \<not> Staked d \<and> \<not> Waiting d then Inl UserError
             else Inr d))"

definition doUnStake :: "stakingEnv \<Rightarrow> bytes \<Rightarrow> stakedData \<Rightarrow> stakingState \<Rightarrow> stakingState \<times> returnCode" where
  "doUnStake E key d s =
     thenOk (saveStakingData E key (d\<lparr>Staked := False, UnStakedEpoch := CurrentEpoch E,
       UnStakedNonce := CurrentNonce E, Waiting := False\<rparr>) s) (\<lambda>s _. (s, Ok))"

definition tryUnStake :: "stakingEnv \<Rightarrow> bytes \<Rightarrow> stakedData \<Rightarrow> stakingState \<Rightarrow> stakingState \<times> returnCode" where
  "tryUnStake E key d s =
     (if \<not> canUnStake E s then (s, UserError) else doUnStake E key d (removeFromStakedNodes E s))"

definition moveFirstFromWaitingToStaked :: "stakingEnv \<Rightarrow> stakingState \<Rightarrow> stakingState \<times> (staking_error + bool)" where
  "moveFirstFromWaitingToStaked E s =
     (case getWaitingListHead E s of
        Inl e \<Rightarrow> (s, Inl e)
      | Inr w \<Rightarrow>
          if Length w = 0 then (s, Inr False)
          else (case getWaitingListElement E (FirstKey w) s of
            Inl e \<Rightarrow> (s, Inl e)
          | Inr element \<Rightarrow>
              andThen (removeFromWaitingList E (BLSPublicKey element) s) (\<lambda>s _.
                case getOrCreateRegisteredData E (BLSPublicKey element) s of
                  Inl e \<Rightarrow> (s, Inl e)
                | Inr d \<Rightarrow>
                    if length (RewardAddress d) = 0 \<or> Staked d then (s, Inl ErrInvalidWaitingList)
                    else andThen (saveStakingData E (BLSPublicKey element)
                      (d\<lparr>Waiting := False, Staked := True, RegisterNonce := CurrentNonce E, StakedNonce := CurrentNonce E,
                         UnStakedNonce := 0, UnStakedEpoch := DefaultUnstakedEpoch\<rparr>) (addToStakedNodes E 1 s))
                      (\<lambda>s _. (s, Inr True)))))"

definition moveFirstFromWaitingToStakedIfNeeded :: "stakingEnv \<Rightarrow> bytes \<Rightarrow> stakingState \<Rightarrow>
    stakingState \<times> (staking_error + bool)" where
  "moveFirstFromWaitingToStakedIfNeeded E blsKey s =
     (case getWaitingListElement E (createWaitingListKey blsKey) s of
        Inr _ \<Rightarrow> andThen (removeFromWaitingList E blsKey s) (\<lambda>s _. (s, Inr False))
      | Inl _ \<Rightarrow> moveFirstFromWaitingToStaked E s)"

definition unStakeV1 :: "stakingEnv \<Rightarrow> contractCallInput \<Rightarrow> stakingState \<Rightarrow> stakingState \<times> returnCode" where
  "unStakeV1 E args s =
     (case checkUnStakeArgs E args s of
        Inl code \<Rightarrow> (s, code)
      | Inr d \<Rightarrow>
          let key = Arguments args ! 0 in
          if \<not> Staked d then
            thenOk (removeFromWaitingList E key s) (\<lambda>s _.
              thenOk (saveStakingData E key (d\<lparr>Waiting := False\<rparr>) s) (\<lambda>s _. (s, Ok)))
          else if \<not> CorrectLastUnJailedFlag E \<or> canStakeIfOneRemoved E s then
            thenOk (moveFirstFromWaitingToStaked E s) (\<lambda>s _. tryUnStake E key d s)
          else tryUnStake E key d s)"

definition unStakeV2 :: "stakingEnv \<Rightarrow> contractCallInput \<Rightarrow> stakingState \<Rightarrow> stakingState \<times> returnCode" where
  "unStakeV2 E args s =
     (case checkUnStakeArgs E args s of
        Inl code \<Rightarrow> (s, code)
      | Inr d \<Rightarrow> if \<not> Staked d then (s, ExecutionFailed) else tryUnStake E (Arguments args ! 0) d s)"

definition unStake :: "stakingEnv \<Rightarrow> contractCallInput \<Rightarrow> stakingState \<Rightarrow> stakingState \<times> returnCode" where
  "unStake E args s = (if StakingV4StartedFlag E then unStakeV2 E args s else unStakeV1 E args s)"

definition unStakeAtEndOfEpoch :: "stakingEnv \<Rightarrow> contractCallInput \<Rightarrow> stakingState \<Rightarrow> stakingState \<times> returnCode" where
  "unStakeAtEndOfEpoch E args s =
     (if CallerAddr args \<noteq> endOfEpochAccessAddr E then (s, UserError)
      else if length (Arguments args) \<noteq> 1 then (s, UserError)
      else let key = Arguments args ! 0 in
        onOk (getOrCreateRegisteredData E key s) s (\<lambda>d.
          if length (RewardAddress d) = 0 then (s, UserError)
          else if Jailed d \<and> \<not> Staked d then (s, Ok)
          else if \<not> Staked d \<and> \<not> Waiting d then (s, Ok)
          else let s1 = (if Staked d then removeFromStakedNodes E s else s) in
            thenOk (if Waiting d then removeFromWaitingList E key s1 else (s1, Inr ())) (\<lambda>s _.
              thenOk (saveStakingData E key (d\<lparr>Staked := False, UnStakedEpoch := CurrentEpoch E,
                  UnStakedNonce := CurrentNonce E, Waiting := False\<rparr>) s) (\<lambda>s _. (s, Ok)))))"

definition unBond :: "stakingEnv \<Rightarrow> contractCallInput \<Rightarrow> stakingState \<Rightarrow> stakingState \<times> returnCode" where
  "unBond E args s =
     (if CallerAddr args \<noteq> stakeAccessAddr E then (s, UserError)
      else if length (Arguments args) < 1 then (s, UserError)
      else let key = Arguments args ! 0 in
        onOk (getOrCreateRegisteredData E key s) s (\<lambda>d.
          if length (RewardAddress d) = 0 then (s, UserError)
          else if Staked d then (s, UserError)
          else if isNodeJailedOrWithBadRating E d key then (s, UserError)
          else if Waiting d then (s, UserError)
          else if UnStakedNonce d > 0 \<and> CurrentNonce E - UnStakedNonce d < unBondPeriod E then (s, UserError)
          else if \<not> canUnBond E s then (s, UserError)
          else if IsValidator E key then (s, UserError)
          else (SetStorage key [] s, Ok)))"

subsection \<open>Jail\<close>

fun unJailV1Loop :: "stakingEnv \<Rightarrow> bytes list \<Rightarrow> stakingState \<Rightarrow> stakingState \<times> returnCode" where
  "unJailV1Loop E [] s = (s, Ok)"
| "unJailV1Loop E (key # keys) s =
     onOk (getOrCreateRegisteredData E key s) s (\<lambda>d.
       if length (RewardAddress d) = 0 then (s, UserError)
       else let s1 = (if UnJailedNonce d \<le> JailedNonce d then removeFromJailedNodes E s else s) in
         thenOk (saveStakingData E key (d\<lparr>JailedRound := - 1, UnJailedNonce := CurrentNonce E\<rparr>) s1) (\<lambda>s _.
           unJailV1Loop E keys s))"

definition unJailV1 :: "stakingEnv \<Rightarrow> contractCallInput \<Rightarrow> stakingState \<Rightarrow> stakingState \<times> returnCode" where
  "unJailV1 E args s =
     (if CallerAddr args \<noteq> stakeAccessAddr E then (s, UserError) else unJailV1Loop E (Arguments args) s)"

definition unJail :: "stakingEnv \<Rightarrow> contractCallInput \<Rightarrow> stakingState \<Rightarrow> stakingState \<times> returnCode" where
  "unJail E args s =
     (if \<not> StakeFlag E then unJailV1 E args s
      else if CallerAddr args \<noteq> stakeAccessAddr E then (s, UserError)
      else if length (Arguments args) \<noteq> 1 then (s, UserError)
      else let key = Arguments args ! 0 in
        onOk (getOrCreateRegisteredData E key s) s (\<lambda>d.
          if length (RewardAddress d) = 0 then (s, UserError)
          else if \<not> Jailed d \<and> \<not> CanUnJail E key then (s, UserError)
          else let d1 = d\<lparr>JailedRound := - 1, UnJailedNonce := CurrentNonce E, Jailed := False\<rparr> in
            thenOk (processStake E key d1 (NumJailed d1 = 1) s) (\<lambda>s d.
              thenOk (saveStakingData E key d s) (\<lambda>s _. (s, Ok)))))"

fun jailLoop :: "stakingEnv \<Rightarrow> bytes list \<Rightarrow> stakingState \<Rightarrow> stakingState \<times> returnCode" where
  "jailLoop E [] s = (s, Ok)"
| "jailLoop E (key # keys) s =
     onOk (getOrCreateRegisteredData E key s) s (\<lambda>d.
       if length (RewardAddress d) = 0 then (s, UserError)
       else thenOk (saveStakingData E key (d\<lparr>JailedRound := CurrentRound E, JailedNonce := CurrentNonce E,
           Jailed := True, NumJailed := NumJailed d + 1\<rparr>) s) (\<lambda>s _. jailLoop E keys s))"

definition jail :: "stakingEnv \<Rightarrow> contractCallInput \<Rightarrow> stakingState \<Rightarrow> stakingState \<times> returnCode" where
  "jail E args s = (if CallerAddr args \<noteq> jailAccessAddr E then (s, UserError) else jailLoop E (Arguments args) s)"

definition markJailed :: "stakingEnv \<Rightarrow> bool \<Rightarrow> stakedData \<Rightarrow> stakingState \<Rightarrow> stakingState \<times> stakedData" where
  "markJailed E switched d s = (if \<not> switched \<and> \<not> CorrectJailedNotUnStakedEmptyQueueFlag E then (s, d)
     else tryRemoveJailedNodeFromStaked E d s)"

definition switchJailedWithWaiting :: "stakingEnv \<Rightarrow> contractCallInput \<Rightarrow> stakingState \<Rightarrow> stakingState \<times> returnCode" where
  "switchJailedWithWaiting E args s =
     (if StakingV4StartedFlag E \<and> \<not> StakingV4Step1Flag E then (s, UserError)
      else if CallerAddr args \<noteq> endOfEpochAccessAddr E then (s, UserError)
      else if length (Arguments args) \<noteq> 1 then (s, UserError)
      else let key = Arguments args ! 0 in
        onOk (getOrCreateRegisteredData E key s) s (\<lambda>d.
          if length (RewardAddress d) = 0 then (s, UserError)
          else if \<not> Staked d then (s, UserError)
          else if Jailed d then (s, UserError)
          else thenOk (moveFirstFromWaitingToStakedIfNeeded E key s) (\<lambda>s switched.
            case markJailed E switched (d\<lparr>NumJailed := NumJailed d + 1, Jailed := True, JailedNonce := CurrentNonce E\<rparr>) s of
              (s2, d2) \<Rightarrow> thenOk (saveStakingData E key d2 s2) (\<lambda>s _. (s, Ok)))))"

subsection \<open>Owners, reward addresses and configuration\<close>

fun changeRewardLoop :: "stakingEnv \<Rightarrow> bytes \<Rightarrow> bytes list \<Rightarrow> stakingState \<Rightarrow> stakingState \<times> returnCode" where
  "changeRewardLoop E addr [] s = (s, Ok)"
| "changeRewardLoop E addr (key # keys) s =
     onOk (getOrCreateRegisteredData E key s) s (\<lambda>d.
       if length (RewardAddress d) = 0 then changeRewardLoop E addr keys s
       else thenOk (saveStakingData E key (d\<lparr>RewardAddress := addr\<rparr>) s) (\<lambda>s _. changeRewardLoop E addr keys s))"

definition changeRewardAddress :: "stakingEnv \<Rightarrow> contractCallInput \<Rightarrow> stakingState \<Rightarrow> stakingState \<times> returnCode" where
  "changeRewardAddress E args s =
     (if CallerAddr args \<noteq> stakeAccessAddr E then (s, UserError)
      else if length (Arguments args) < 2 then (s, UserError)
      else if length (Arguments args ! 0) \<noteq> walletAddressLen E then (s, UserError)
      else changeRewardLoop E (Arguments args ! 0) (drop 1 (Arguments args)) s)"

definition changeValidatorKey :: "stakingEnv \<Rightarrow> contractCallInput \<Rightarrow> stakingState \<Rightarrow> stakingState \<times> returnCode" where
  "changeValidatorKey E args s = (if CallerAddr args \<noteq> stakeAccessAddr E then (s, UserError) else (s, UserError))"

fun setOwnersLoop :: "stakingEnv \<Rightarrow> bytes list \<Rightarrow> stakingState \<Rightarrow> stakingState \<times> returnCode" where
  "setOwnersLoop E (key # owner # rest) s =
     onOk (getOrCreateRegisteredData E key s) s (\<lambda>d.
       if length (RewardAddress d) = 0 then setOwnersLoop E rest s
       else thenOk (saveStakingData E key (d\<lparr>OwnerAddress := owner\<rparr>) s) (\<lambda>s _. setOwnersLoop E rest s))"
| "setOwnersLoop E _ s = (s, Ok)"

definition setOwnersOnAddresses :: "stakingEnv \<Rightarrow> contractCallInput \<Rightarrow> stakingState \<Rightarrow> stakingState \<times> returnCode" where
  "setOwnersOnAddresses E args s =
     (if \<not> StakingV2Flag E then (s, UserError)
      else if CallerAddr args \<noteq> endOfEpochAccessAddr E then (s, UserError)
      else if length (Arguments args) mod 2 \<noteq> 0 then (s, UserError)
      else setOwnersLoop E (Arguments args) s)"

fun changeOwnerLoop :: "stakingEnv \<Rightarrow> bytes \<Rightarrow> bytes list \<Rightarrow> stakingState \<Rightarrow> stakingState \<times> returnCode" where
  "changeOwnerLoop E addr [] s = (s, Ok)"
| "changeOwnerLoop E addr (key # keys) s =
     onOk (getOrCreateRegisteredData E key s) s (\<lambda>d.
       if length (RewardAddress d) = 0 then (s, UserError)
       else if Jailed d \<or> CanUnJail E key then (s, UserError)
       else thenOk (saveStakingData E key (d\<lparr>OwnerAddress := addr, RewardAddress := addr\<rparr>) s) (\<lambda>s _.
         changeOwnerLoop E addr keys s))"

definition changeOwnerAndRewardAddress :: "stakingEnv \<Rightarrow> contractCallInput \<Rightarrow> stakingState \<Rightarrow> stakingState \<times> returnCode" where
  "changeOwnerAndRewardAddress E args s =
     (if \<not> ValidatorToDelegationFlag E then (s, UserError)
      else if CallerAddr args \<noteq> stakeAccessAddr E then (s, UserError)
      else if CallValue args \<noteq> 0 then (s, UserError)
      else if length (Arguments args) < 2 then (s, UserError)
      else if \<not> IsSmartContractAddress E (Arguments args ! 0) then (s, UserError)
      else changeOwnerLoop E (Arguments args ! 0) (drop 1 (Arguments args)) s)"

definition updateConfigMinNodes :: "stakingEnv \<Rightarrow> contractCallInput \<Rightarrow> stakingState \<Rightarrow> stakingState \<times> returnCode" where
  "updateConfigMinNodes E args s =
     (if CallerAddr args \<noteq> endOfEpochAccessAddr E then (s, UserError)
      else let c = getConfig E s in
        if length (Arguments args) \<noteq> 1 then (s, UserError)
        else let newMinNodes = (of_int (fromBytes (Arguments args ! 0)) :: u64) in
          if sint newMinNodes \<le> 0 then (s, UserError)
          else if sint newMinNodes > sint (maxNumNodes E) then (s, UserError)
          else (setConfig E (c\<lparr>MinNumNodes := newMinNodes\<rparr>) s, Ok))"

definition updateConfigMaxNodes :: "stakingEnv \<Rightarrow> contractCallInput \<Rightarrow> stakingState \<Rightarrow> stakingState \<times> returnCode" where
  "updateConfigMaxNodes E args s =
     (if \<not> StakingV2Flag E then (s, UserError)
      else if CallerAddr args \<noteq> endOfEpochAccessAddr E then (s, UserError)
      else let c = getConfig E s in
        if length (Arguments args) \<noteq> 1 then (s, UserError)
        else let newMaxNodes = (of_int (fromBytes (Arguments args ! 0)) :: u64) in
          if sint newMaxNodes \<le> 0 then (s, UserError)
          else if sint newMaxNodes < sint (minNumNodes E) then (s, UserError)
          else (setConfig E (c\<lparr>MaxNumNodes := newMaxNodes\<rparr>) (Finish (bigBytes (sint (MaxNumNodes c))) s), Ok))"

text \<open>The deployment: \<open>epoch_\<close> with the epoch's number holds the price of a node.\<close>

definition init_staking :: "stakingEnv \<Rightarrow> contractCallInput \<Rightarrow> stakingState \<Rightarrow> stakingState \<times> returnCode" where
  "init_staking E args s =
     (if contractStorage s ownerKey \<noteq> None then (s, UserError)
      else let s1 = SetStorage (CallerAddr args) (bigBytes 0) (SetStorage ownerKey (CallerAddr args) s) in
        (SetStorage (ascii ''epoch_'' @ decimal (uint (CurrentEpoch E))) (bigBytes (stakeValue E))
          (setConfig E (baseConfig E) s1), Ok))"

subsection \<open>Views\<close>

definition get_staking :: "stakingEnv \<Rightarrow> contractCallInput \<Rightarrow> stakingState \<Rightarrow> stakingState \<times> returnCode" where
  "get_staking E args s =
     (if StakingV2Flag E then (s, UserError)
      else if length (Arguments args) < 1 then (s, UserError)
      else (Finish (GetStorage (Arguments args ! 0) s) s, Ok))"

definition slash :: "stakingState \<Rightarrow> stakingState \<times> returnCode" where
  "slash s = (s, UserError)"

definition isStaked :: "stakingEnv \<Rightarrow> contractCallInput \<Rightarrow> stakingState \<Rightarrow> stakingState \<times> returnCode" where
  "isStaked E args s =
     (if length (Arguments args) < 1 then (s, UserError)
      else if CallValue args \<noteq> 0 then (s, UserError)
      else onOk (getOrCreateRegisteredData E (Arguments args ! 0) s) s (\<lambda>d.
        if length (RewardAddress d) = 0 then (s, UserError) else if Staked d then (s, Ok) else (s, UserError)))"

definition getStakedDataIfExists :: "stakingEnv \<Rightarrow> contractCallInput \<Rightarrow> stakingState \<Rightarrow> returnCode + stakedData" where
  "getStakedDataIfExists E args s =
     (if UseGasFails E then Inl OutOfGas
      else if length (Arguments args) \<noteq> 1 then Inl UserError
      else (case getOrCreateRegisteredData E (Arguments args ! 0) s of
        Inl e \<Rightarrow> Inl UserError
      | Inr d \<Rightarrow> if length (RewardAddress d) = 0 then Inl UserError else Inr d))"

definition getRewardAddress :: "stakingEnv \<Rightarrow> contractCallInput \<Rightarrow> stakingState \<Rightarrow> stakingState \<times> returnCode" where
  "getRewardAddress E args s =
     (if CallValue args \<noteq> 0 then (s, UserError)
      else case getStakedDataIfExists E args s of
        Inl code \<Rightarrow> (s, code) | Inr d \<Rightarrow> (Finish (hexEncode (RewardAddress d)) s, Ok))"

definition getBLSKeyStatus :: "stakingEnv \<Rightarrow> contractCallInput \<Rightarrow> stakingState \<Rightarrow> stakingState \<times> returnCode" where
  "getBLSKeyStatus E args s =
     (if CallValue args \<noteq> 0 then (s, UserError)
      else case getStakedDataIfExists E args s of
        Inl code \<Rightarrow> (s, code)
      | Inr d \<Rightarrow> (Finish (ascii (if Jailed d \<or> CanUnJail E (Arguments args ! 0) then ''jailed''
          else if Waiting d then ''queued'' else if Staked d then ''staked'' else ''unStaked'')) s, Ok))"

definition getTotalNumberOfRegisteredNodes :: "stakingEnv \<Rightarrow> contractCallInput \<Rightarrow> stakingState \<Rightarrow> stakingState \<times> returnCode" where
  "getTotalNumberOfRegisteredNodes E args s =
     (if \<not> StakingV2Flag E then (s, UserError)
      else if CallValue args \<noteq> 0 then (s, UserError)
      else onOk (getWaitingListHead E s) s (\<lambda>w.
        let c = getConfig E s in (Finish (bigBytes (sint (StakedNodes c + JailedNodes c + ucast (Length w)))) s, Ok)))"

definition getRemainingUnbondPeriod :: "stakingEnv \<Rightarrow> contractCallInput \<Rightarrow> stakingState \<Rightarrow> stakingState \<times> returnCode" where
  "getRemainingUnbondPeriod E args s =
     (if CallValue args \<noteq> 0 then (s, UserError)
      else case getStakedDataIfExists E args s of
        Inl code \<Rightarrow> (s, code)
      | Inr d \<Rightarrow>
          if UnStakedNonce d = 0 then (s, UserError)
          else let passedNonce = CurrentNonce E - UnStakedNonce d in
            if passedNonce \<ge> unBondPeriod E then
              (Finish (if StakingV2Flag E then bigBytes 0 else ascii ''0'') s, Ok)
            else let remaining = unBondPeriod E - passedNonce in
              (Finish (if StakingV2Flag E then bigBytes (uint remaining) else itoa (sint remaining)) s, Ok))"

definition getOwner :: "stakingEnv \<Rightarrow> contractCallInput \<Rightarrow> stakingState \<Rightarrow> stakingState \<times> returnCode" where
  "getOwner E args s =
     (if \<not> StakingV2Flag E then (s, UserError)
      else if CallerAddr args \<noteq> stakeAccessAddr E then (s, UserError)
      else if length (Arguments args) < 1 then (s, UserError)
      else onOk (getOrCreateRegisteredData E (Arguments args ! 0) s) s (\<lambda>d.
        if length (OwnerAddress d) = 0 then (s, UserError) else (Finish (OwnerAddress d) s, Ok)))"

end
