(* ===== verification/Staking_Handlers.thy ===== *)
theory Staking_Handlers
  imports Staking_SC
begin

text \<open>
  The functions of the staking contract on its queue, from \<open>vm/systemSmartContracts/stakingWaitingList.go\<close>, the check
  of an owner's funds, the dispatcher \<open>Execute\<close>, and a call of the contract by \<open>vm/process/systemVM.go\<close>, which drops
  the changes of a call that fails.
\<close>

subsection \<open>Views of the queue\<close>

fun waitingIndexLoop :: "stakingEnv \<Rightarrow> stakingState \<Rightarrow> bytes \<Rightarrow> u32 \<Rightarrow> nat \<Rightarrow> bytes \<Rightarrow> u32 option" where
  "waitingIndexLoop E s key index 0 nextKey = None"
| "waitingIndexLoop E s key index (Suc n) nextKey =
     (if length nextKey = 0 then None
      else if nextKey = key then Some index
      else case getWaitingListElement E nextKey s of
        Inl e \<Rightarrow> None
      | Inr element \<Rightarrow> if length (NextKey element) = 0 then None
          else waitingIndexLoop E s key (index + 1) n (copyInto nextKey (NextKey element)))"

text \<open>
  The loop runs from index 2 to the length of the list; every way out of it but a hit is a user error.
\<close>

definition getWaitingListIndex :: "stakingEnv \<Rightarrow> contractCallInput \<Rightarrow> stakingState \<Rightarrow> stakingState \<times> returnCode" where
  "getWaitingListIndex E args s =
     (if StakingV4StartedFlag E then (s, UserError)
      else if CallerAddr args \<noteq> stakeAccessAddr E then (s, UserError)
      else if length (Arguments args) \<noteq> 1 then (s, UserError)
      else let key = createWaitingListKey (Arguments args ! 0) in
        onOk (getWaitingListElement E key s) s (\<lambda>_.
          onOk (getWaitingListHead E s) s (\<lambda>w.
            if key = FirstKey w then (Finish (itoa 1) s, Ok)
            else if key = LastKey w then (Finish (itoa (uint (Length w))) s, Ok)
            else onOk (getWaitingListElement E (FirstKey w) s) s (\<lambda>first.
              case waitingIndexLoop E s key 2 (unat (Length w) - 1) (copyInto (replicate (length key) 0) (NextKey first)) of
                None \<Rightarrow> (s, UserError)
              | Some index \<Rightarrow> (Finish (itoa (uint index)) s, Ok)))))"

definition getWaitingListSize :: "stakingEnv \<Rightarrow> contractCallInput \<Rightarrow> stakingState \<Rightarrow> stakingState \<times> returnCode" where
  "getWaitingListSize E args s =
     (if StakingV4StartedFlag E then (s, UserError)
      else if CallValue args \<noteq> 0 then (s, UserError)
      else if UseGasFails E then (s, OutOfGas)
      else onOk (getWaitingListHead E s) s (\<lambda>w. (Finish (itoa (uint (Length w))) s, Ok)))"

fun finishWaiting :: "(bytes \<times> stakedData) list \<Rightarrow> stakingState \<Rightarrow> stakingState" where
  "finishWaiting [] s = s"
| "finishWaiting ((key, d) # rest) s =
     finishWaiting rest (Finish (bigBytes (sint (RegisterNonce d))) (Finish (RewardAddress d) (Finish key s)))"

definition getWaitingListRegisterNonceAndRewardAddress :: "stakingEnv \<Rightarrow> contractCallInput \<Rightarrow> stakingState \<Rightarrow>
    stakingState \<times> returnCode" where
  "getWaitingListRegisterNonceAndRewardAddress E args s =
     (if CallerAddr args \<noteq> stakeAccessAddr E then (s, UserError)
      else if length (Arguments args) \<noteq> 0 then (s, UserError)
      else onOk (getFirstElementsFromWaitingList E (- 1) s) s (\<lambda>r.
        if length (wrData r) = 0 then (s, UserError) else (finishWaiting (zip (wrKeys r) (wrData r)) s, Ok)))"

subsection \<open>Funds of an owner\<close>

definition countRegistered :: "stakingEnv \<Rightarrow> stakingState \<Rightarrow> bytes list \<Rightarrow> staking_error + u64" where
  "countRegistered E s keys = foldl (\<lambda>r key. case r of Inl e \<Rightarrow> Inl e | Inr n \<Rightarrow>
     (case getOrCreateRegisteredData E key s of Inl e \<Rightarrow> Inl e
      | Inr d \<Rightarrow> Inr (if Staked d \<or> Waiting d \<or> Jailed d then n + 1 else n))) (Inr 0) keys"

text \<open>The number of nodes to unstake, and the map of the owners checked so far.\<close>

definition checkValidatorFunds :: "stakingEnv \<Rightarrow> (bytes \<rightharpoonup> u32) \<Rightarrow> bytes \<Rightarrow> int \<Rightarrow> stakingState \<Rightarrow>
    staking_error + u32 \<times> (bytes \<rightharpoonup> u32)" where
  "checkValidatorFunds E checked owner nodePrice s =
     (case checked owner of
        Some n \<Rightarrow> Inr (n, checked)
      | None \<Rightarrow>
          let marshaledData = validatorStorage E owner in
          if length marshaledData = 0 then Inr (- 1, checked(owner \<mapsto> - 1))
          else case unmarshalValidatorData E marshaledData of
            Inl e \<Rightarrow> Inl e
          | Inr (blsPubKeys, totalStakeValue) \<Rightarrow>
              if nodePrice = 0 then Inl DivisionByZero
              else let numRegisteredKeys = (of_nat (length blsPubKeys) :: u64);
                       numQualified = (of_int (totalStakeValue div nodePrice) :: u64)
                in if sint numQualified \<ge> sint numRegisteredKeys then Inr (0, checked(owner \<mapsto> 0))
                   else (case countRegistered E s blsPubKeys of
                     Inl e \<Rightarrow> Inl e
                   | Inr n \<Rightarrow>
                       let numToUnStake = (if sint n > sint numQualified then ucast (n - numQualified) else 0)
                       in Inr (numToUnStake, checked(owner \<mapsto> numToUnStake))))"

subsection \<open>Changing the queue at the end of an epoch\<close>

definition resetLastUnJailedFromQueue :: "stakingEnv \<Rightarrow> contractCallInput \<Rightarrow> stakingState \<Rightarrow> stakingState \<times> returnCode" where
  "resetLastUnJailedFromQueue E args s =
     (if \<not> CorrectLastUnJailedFlag E then (s, UserError)
      else if StakingV4StartedFlag E \<and> \<not> StakingV4Step1Flag E then (s, UserError)
      else if CallerAddr args \<noteq> endOfEpochAccessAddr E then (s, UserError)
      else if length (Arguments args) \<noteq> 0 then (s, UserError)
      else onOk (getWaitingListHead E s) s (\<lambda>w.
        if length (LastJailedKey w) = 0 then (s, Ok)
        else thenOk (saveWaitingListHead E (w\<lparr>LastJailedKey := []\<rparr>) s) (\<lambda>s _. (s, Ok))))"

text \<open>The keys of the queue are visited from the last one to the first.\<close>

fun cleanLoop :: "stakingEnv \<Rightarrow> (bytes \<times> stakedData) list \<Rightarrow> (bytes \<rightharpoonup> u32) \<Rightarrow> bytes list \<Rightarrow> (bytes \<Rightarrow> bytes list) \<Rightarrow>
    stakingState \<Rightarrow> stakingState \<times> (staking_error + bytes list \<times> (bytes \<Rightarrow> bytes list))" where
  "cleanLoop E [] checked owners unstaked s = (s, Inr (owners, unstaked))"
| "cleanLoop E ((key, d) # rest) checked owners unstaked s =
     (case checkValidatorFunds E checked (OwnerAddress d) (stakeValue E) s of
        Inl e \<Rightarrow> (s, Inl e)
      | Inr (n, checked') \<Rightarrow>
          if n = 0 then cleanLoop E rest checked' owners unstaked s
          else andThen (removeFromWaitingList E key s) (\<lambda>s _.
            case getOrCreateRegisteredData E key s of
              Inl e \<Rightarrow> (s, Inl e)
            | Inr r \<Rightarrow>
                andThen (saveStakingData E key (r\<lparr>Staked := False, UnStakedEpoch := CurrentEpoch E,
                    UnStakedNonce := CurrentNonce E, Waiting := False\<rparr>) s) (\<lambda>s _.
                  cleanLoop E rest (checked'(OwnerAddress d \<mapsto> n - 1))
                    (if OwnerAddress d \<in> set owners then owners else owners @ [OwnerAddress d])
                    (unstaked(OwnerAddress d := unstaked (OwnerAddress d) @ [key])) s)))"

definition cleanAdditionalQueueNotEnoughFunds :: "stakingEnv \<Rightarrow> waitingListReturnData \<Rightarrow> stakingState \<Rightarrow>
    stakingState \<times> (staking_error + bytes list \<times> (bytes \<Rightarrow> bytes list))" where
  "cleanAdditionalQueueNotEnoughFunds E r s = cleanLoop E (rev (zip (wrKeys r) (wrData r))) (\<lambda>_. None) [] (\<lambda>_. []) s"

definition finishAll :: "bytes list \<Rightarrow> stakingState \<Rightarrow> stakingState" where
  "finishAll vs s = foldl (\<lambda>s v. Finish v s) s vs"

definition cleanAdditionalQueue :: "stakingEnv \<Rightarrow> contractCallInput \<Rightarrow> stakingState \<Rightarrow> stakingState \<times> returnCode" where
  "cleanAdditionalQueue E args s =
     (if \<not> CorrectLastUnJailedFlag E then (s, UserError)
      else if StakingV4StartedFlag E \<and> \<not> StakingV4Step1Flag E then (s, UserError)
      else if CallerAddr args \<noteq> endOfEpochAccessAddr E then (s, UserError)
      else if length (Arguments args) \<noteq> 0 then (s, UserError)
      else onOk (getFirstElementsFromWaitingList E (- 1) s) s (\<lambda>r.
        if length (wrKeys r) = 0 then (s, Ok)
        else thenOk (cleanAdditionalQueueNotEnoughFunds E r s) (\<lambda>s (owners, unstaked).
          (foldl (\<lambda>s owner. finishAll (unstaked owner) (Finish owner s)) s owners, Ok))))"

fun stakeFromQueueLoop :: "stakingEnv \<Rightarrow> int \<Rightarrow> u64 \<Rightarrow> (bytes \<times> stakedData) list \<Rightarrow> (bytes \<rightharpoonup> u32) \<Rightarrow> u64 \<Rightarrow>
    stakingState \<Rightarrow> stakingState \<times> (staking_error + u64)" where
  "stakeFromQueueLoop E price num [] checked stakedNodes s = (s, Inr stakedNodes)"
| "stakeFromQueueLoop E price num ((key, d) # rest) checked stakedNodes s =
     (if stakedNodes \<ge> num then (s, Inr stakedNodes)
      else case checkValidatorFunds E checked (OwnerAddress d) price s of
        Inl e \<Rightarrow> (s, Inl e)
      | Inr (n, checked') \<Rightarrow>
          if n > 0 then stakeFromQueueLoop E price num rest checked' stakedNodes s
          else andThen (saveStakingData E key (activeStakingFor E d) s) (\<lambda>s _.
            andThen (removeFromWaitingList E key s) (\<lambda>s _.
              stakeFromQueueLoop E price num rest checked' (stakedNodes + 1) (Finish (RewardAddress d) (Finish key s)))))"

definition stakeNodesFromQueue :: "stakingEnv \<Rightarrow> contractCallInput \<Rightarrow> stakingState \<Rightarrow> stakingState \<times> returnCode" where
  "stakeNodesFromQueue E args s =
     (if \<not> StakingV2Flag E then (s, UserError)
      else if StakingV4StartedFlag E \<and> \<not> StakingV4Step1Flag E then (s, UserError)
      else if CallerAddr args \<noteq> endOfEpochAccessAddr E then (s, UserError)
      else if length (Arguments args) \<noteq> 1 then (s, UserError)
      else onOk (getFirstElementsFromWaitingList E (- 1) s) s (\<lambda>r.
        if length (wrKeys r) = 0 then (s, Ok)
        else let nodePriceToUse = (if CorrectLastUnJailedFlag E then stakeValue E else minNodePrice E) in
          thenOk (stakeFromQueueLoop E nodePriceToUse (of_int (fromBytes (Arguments args ! 0))) (zip (wrKeys r) (wrData r))
              (\<lambda>_. None) 0 s) (\<lambda>s stakedNodes. (addToStakedNodes E stakedNodes s, Ok))))"

text \<open>The keys of the queue by their owners, in the order in which the owners come first.\<close>

fun unStakeAllLoop :: "stakingEnv \<Rightarrow> (bytes \<times> stakedData) list \<Rightarrow> bytes list \<Rightarrow> (bytes \<Rightarrow> bytes list) \<Rightarrow> stakingState \<Rightarrow>
    stakingState \<times> (returnCode + bytes list \<times> (bytes \<Rightarrow> bytes list))" where
  "unStakeAllLoop E [] owners ownerKeys s = (s, Inr (owners, ownerKeys))"
| "unStakeAllLoop E ((key, d) # rest) owners ownerKeys s =
     (case doUnStake E key d s of (s1, result) \<Rightarrow>
        if result \<noteq> Ok then (s1, Inl result)
        else unStakeAllLoop E rest (if OwnerAddress d \<in> set owners then owners else owners @ [OwnerAddress d])
          (ownerKeys(OwnerAddress d := ownerKeys (OwnerAddress d) @ [key])) (SetStorage (createWaitingListKey key) [] s1))"

definition executeOnStakeAtEndOfEpoch :: "stakingEnv \<Rightarrow> bytes \<Rightarrow> bytes list \<Rightarrow> bytes \<Rightarrow> stakingState \<Rightarrow>
    stakingState \<times> returnCode" where
  "executeOnStakeAtEndOfEpoch E destination keys sender s =
     thenOk (ExecuteOnDestContext E destination sender
       (ascii ''unStakeAtEndOfEpoch'' @ concat (map (\<lambda>key. of_char CHR ''@'' # hexEncode key) keys)) s) (\<lambda>s code. (s, code))"

fun tellOwners :: "stakingEnv \<Rightarrow> bytes \<Rightarrow> bytes list \<Rightarrow> (bytes \<Rightarrow> bytes list) \<Rightarrow> stakingState \<Rightarrow> stakingState \<times> returnCode" where
  "tellOwners E sender [] ownerKeys s = (s, Ok)"
| "tellOwners E sender (owner # owners) ownerKeys s =
     (if \<not> isOnMetachain E owner then tellOwners E sender owners ownerKeys s
      else case executeOnStakeAtEndOfEpoch E owner (ownerKeys owner) sender s of (s1, code) \<Rightarrow>
        if code \<noteq> Ok then (s1, code) else tellOwners E sender owners ownerKeys s1)"

definition unStakeAllNodesFromQueue :: "stakingEnv \<Rightarrow> contractCallInput \<Rightarrow> stakingState \<Rightarrow> stakingState \<times> returnCode" where
  "unStakeAllNodesFromQueue E args s =
     (if \<not> StakingV4Step1Flag E then (s, UserError)
      else if CallerAddr args \<noteq> endOfEpochAccessAddr E then (s, UserError)
      else if length (Arguments args) \<noteq> 0 then (s, UserError)
      else onOk (getFirstElementsFromWaitingList E (- 1) s) s (\<lambda>r.
        if length (wrKeys r) = 0 then (s, Ok)
        else case unStakeAllLoop E (zip (wrKeys r) (wrData r)) [] (\<lambda>_. []) s of
          (s1, Inl code) \<Rightarrow> (s1, code)
        | (s1, Inr (owners, ownerKeys)) \<Rightarrow>
            tellOwners E (RecipientAddr args) owners ownerKeys (SetStorage waitingListHeadKey [] s1)))"

subsection \<open>Repairing the queue\<close>

text \<open>The index, the last key and whether the last unjailed key was found.\<close>

fun fixLoop :: "stakingEnv \<Rightarrow> stakingState \<Rightarrow> bytes \<Rightarrow> nat \<Rightarrow> u32 \<Rightarrow> bytes \<Rightarrow> bool \<Rightarrow> staking_error + u32 \<times> bytes \<times> bool" where
  "fixLoop E s lastJailed 0 index nextKey found = Inr (index, nextKey, found)"
| "fixLoop E s lastJailed (Suc n) index nextKey found =
     (if length nextKey = 0 then Inr (index, nextKey, found)
      else case getWaitingListElement E nextKey s of
        Inl e \<Rightarrow> Inl e
      | Inr element \<Rightarrow> (case getOrCreateRegisteredData E (BLSPublicKey element) s of
          Inl e \<Rightarrow> Inl e
        | Inr _ \<Rightarrow>
            let found' = (found \<or> lastJailed = nextKey) in
            if length (NextKey element) = 0 then Inr (index, nextKey, found')
            else fixLoop E s lastJailed n (index + 1) (copyInto nextKey (NextKey element)) found'))"

definition fixWaitingListQueueSize :: "stakingEnv \<Rightarrow> contractCallInput \<Rightarrow> stakingState \<Rightarrow> stakingState \<times> returnCode" where
  "fixWaitingListQueueSize E args s =
     (if \<not> CorrectFirstQueuedFlag E then (s, UserError)
      else if StakingV4StartedFlag E then (s, UserError)
      else if CallValue args \<noteq> 0 then (s, UserError)
      else if UseGasFails E then (s, OutOfGas)
      else onOk (getWaitingListHead E s) s (\<lambda>w.
        if Length w \<le> 1 then (s, Ok)
        else onOk (fixLoop E s (LastJailedKey w) (unat (Length w)) 1 (FirstKey w) (length (LastJailedKey w) = 0)) s
          (\<lambda>(index, lastKey, found).
            let w1 = w\<lparr>Length := index, LastKey := lastKey\<rparr>;
                w2 = (if \<not> found then w1\<lparr>LastJailedKey := []\<rparr> else w1)
            in thenOk (saveWaitingListHead E w2 s) (\<lambda>s _. (s, Ok)))))"

definition addMissingNodeToQueue :: "stakingEnv \<Rightarrow> contractCallInput \<Rightarrow> stakingState \<Rightarrow> stakingState \<times> returnCode" where
  "addMissingNodeToQueue E args s =
     (if \<not> CorrectFirstQueuedFlag E then (s, UserError)
      else if StakingV4StartedFlag E then (s, UserError)
      else if CallValue args \<noteq> 0 then (s, UserError)
      else if UseGasFails E then (s, OutOfGas)
      else if length (Arguments args) \<noteq> 1 then (s, UserError)
      else let blsKey = Arguments args ! 0 in
        onOk (getWaitingListElement E (createWaitingListKey blsKey) s) s (\<lambda>_.
          onOk (getFirstElementsFromWaitingList E (- 1) s) s (\<lambda>r.
            if blsKey \<in> set (wrKeys r) then (s, UserError)
            else onOk (getWaitingListHead E s) s (\<lambda>w0.
              let w = w0\<lparr>Length := Length w0 + 1\<rparr> in
              if Length w = 1 then thenOk (startWaitingList E w False blsKey s) (\<lambda>s _. (s, Ok))
              else thenOk (addToEndOfTheList E w blsKey s) (\<lambda>s _. (s, Ok))))))"

subsection \<open>Execution\<close>

definition dispatch :: "stakingEnv \<Rightarrow> contractCallInput \<Rightarrow> stakingState \<Rightarrow> stakingState \<times> returnCode" where
  "dispatch E args s = (let f = Function args in
     if f = ''_init'' then init_staking E args s
     else if f = ''stake'' then stake E args False s
     else if f = ''register'' then stake E args True s
     else if f = ''unStake'' then unStake E args s
     else if f = ''unBond'' then unBond E args s
     else if f = ''get'' then get_staking E args s
     else if f = ''isStaked'' then isStaked E args s
     else if f = ''slash'' then slash s
     else if f = ''jail'' then jail E args s
     else if f = ''unJail'' then unJail E args s
     else if f = ''changeRewardAddress'' then changeRewardAddress E args s
     else if f = ''changeValidatorKeys'' then changeValidatorKey E args s
     else if f = ''switchJailedWithWaiting'' then switchJailedWithWaiting E args s
     else if f = ''getQueueIndex'' then getWaitingListIndex E args s
     else if f = ''getQueueSize'' then getWaitingListSize E args s
     else if f = ''getRewardAddress'' then getRewardAddress E args s
     else if f = ''getBLSKeyStatus'' then getBLSKeyStatus E args s
     else if f = ''getRemainingUnBondPeriod'' then getRemainingUnbondPeriod E args s
     else if f = ''getQueueRegisterNonceAndRewardAddress'' then getWaitingListRegisterNonceAndRewardAddress E args s
     else if f = ''updateConfigMinNodes'' then updateConfigMinNodes E args s
     else if f = ''setOwnersOnAddresses'' then setOwnersOnAddresses E args s
     else if f = ''getOwner'' then getOwner E args s
     else if f = ''updateConfigMaxNodes'' then updateConfigMaxNodes E args s
     else if f = ''stakeNodesFromQueue'' then stakeNodesFromQueue E args s
     else if f = ''unStakeAtEndOfEpoch'' then unStakeAtEndOfEpoch E args s
     else if f = ''getTotalNumberOfRegisteredNodes'' then getTotalNumberOfRegisteredNodes E args s
     else if f = ''resetLastUnJailedFromQueue'' then resetLastUnJailedFromQueue E args s
     else if f = ''cleanAdditionalQueue'' then cleanAdditionalQueue E args s
     else if f = ''changeOwnerAndRewardAddress'' then changeOwnerAndRewardAddress E args s
     else if f = ''fixWaitingListQueueSize'' then fixWaitingListQueueSize E args s
     else if f = ''addMissingNodeToQueue'' then addMissingNodeToQueue E args s
     else if f = ''unStakeAllNodesFromQueue'' then unStakeAllNodesFromQueue E args s
     else (s, UserError))"

definition Execute :: "stakingEnv \<Rightarrow> contractCallInput \<Rightarrow> stakingState \<Rightarrow> stakingState \<times> returnCode" where
  "Execute E args s =
     (if Function args = [] then (s, UserError)
      else if ESDTTransfers args > 0 then (s, UserError)
      else dispatch E args s)"

text \<open>The system VM starts a call with no return data, refuses \<open>_init\<close>, and has an output only for a call that is \<open>Ok\<close>.\<close>

definition RunSmartContractCall :: "stakingEnv \<Rightarrow> contractCallInput \<Rightarrow> stakingState \<Rightarrow> stakingState \<times> returnCode" where
  "RunSmartContractCall E args s =
     (if Function args = ''_init'' then (s\<lparr>finished := []\<rparr>, UserError)
      else case Execute E args (s\<lparr>finished := []\<rparr>) of (s1, code) \<Rightarrow>
        if code = Ok then (s1, code) else (s\<lparr>finished := []\<rparr>, code))"

end
