(* ===== verification/Staking_View.thy ===== *)
theory Staking_View
  imports Staking_Queue Staking_Handlers
begin

text \<open>
  What the staking contract's storage says: the queue, the registration of every key and the number of staked
  nodes. The lemmas give the effect of every primitive of the contract on this view, and what a walk over the queue
  returns. \<open>Staking_Invariant\<close> rests on them.
\<close>

subsection \<open>The environment\<close>

definition emptyConfig :: stakingNodesConfig where
  "emptyConfig = \<lparr>MinNumNodes = 0, MaxNumNodes = 0, StakedNodes = 0, JailedNodes = 0\<rparr>"

text \<open>
  The marshaller round-trips; the encoding of a configuration with zeros only is empty, as a protobuf encoding is.
\<close>

definition staked_codec :: "stakingEnv \<Rightarrow> bool" where
  "staked_codec E \<longleftrightarrow>
     (\<forall>d. \<exists>b. marshalStaked E d = Inr b \<and> b \<noteq> [] \<and> unmarshalStaked E b = Inr d) \<and>
     (\<forall>d. OwnerAddress d = [] \<longrightarrow> (\<exists>b. marshalStakedV1_1 E d = Inr b \<and> b \<noteq> [] \<and> unmarshalStaked E b = Inr d)) \<and>
     (\<forall>d. OwnerAddress d = [] \<and> NumJailed d = 0 \<and> SlashValue d = 0 \<longrightarrow>
       (\<exists>b. marshalStakedV1_0 E d = Inr b \<and> b \<noteq> [] \<and> unmarshalStaked E b = Inr d)) \<and>
     (\<forall>c. \<exists>b. marshalConfig E c = Inr b \<and> (if c = emptyConfig then b = [] else b \<noteq> [] \<and> unmarshalConfig E b = Inr c))"

text \<open>The keys: of one length, few enough for the counters, and apart from the contract's own storage keys.\<close>

definition bls_keys :: "bytes set \<Rightarrow> bool" where
  "bls_keys K \<longleftrightarrow> keys_ok K \<and> finite K \<and> card K < 2 ^ 32 - 1 \<and> nodesConfigKey \<notin> K \<and> waitingListHeadKey \<notin> K"

definition staking_env_ok :: "stakingEnv \<Rightarrow> bytes set \<Rightarrow> bool" where
  "staking_env_ok E K \<longleftrightarrow> list_env_ok E \<and> staked_codec E \<and> bls_keys K"

definition view :: "stakingEnv \<Rightarrow> bytes set \<Rightarrow> stakingState \<Rightarrow> bytes list \<times> nat \<Rightarrow> (bytes \<Rightarrow> stakedData) \<Rightarrow> u64 \<Rightarrow> bool" where
  "view E K s q D n \<longleftrightarrow> queue_rep E K s q \<and> (\<forall>k \<in> K. getOrCreateRegisteredData E k s = Inr (D k)) \<and>
     StakedNodes (getConfig E s) = n"

lemma env_parts: "staking_env_ok E K \<Longrightarrow> list_env_ok E" "staking_env_ok E K \<Longrightarrow> keys_ok K" "staking_env_ok E K \<Longrightarrow> bls_keys K"
  "staking_env_ok E K \<Longrightarrow> staked_codec E"
  by (simp_all add: staking_env_ok_def bls_keys_def)

lemma view_data: "view E K s q D n \<Longrightarrow> k \<in> K \<Longrightarrow> getOrCreateRegisteredData E k s = Inr (D k)"
  by (simp add: view_def)

subsection \<open>Keys that do not meet\<close>

lemma wk_not_key:
  assumes "keys_ok K" "k \<in> K" "a \<in> K"
  shows "wk a \<noteq> k"
proof -
  have "length (wk a) \<noteq> length a" by (simp add: createWaitingListKey_def waitingElementPrefix_def ascii_def)
  moreover have "length k = length a" using assms unfolding keys_ok_def by metis
  ultimately show ?thesis by auto
qed

lemma config_key [simp]: "nodesConfigKey \<noteq> wk a" "wk a \<noteq> nodesConfigKey" "nodesConfigKey \<noteq> waitingListHeadKey" "waitingListHeadKey \<noteq> nodesConfigKey"
  by (simp_all add: nodesConfigKey_def createWaitingListKey_def waitingElementPrefix_def waitingListHeadKey_def ascii_def of_char_def)

lemma queue_set_other:
  assumes "queue_rep E K s q" "x \<noteq> waitingListHeadKey" "x \<notin> wk ` K"
  shows "queue_rep E K (SetStorage x v s) q"
proof -
  obtain f h where fh: "sees E K s f h" "linked K q f h" using assms(1) by (auto simp: queue_rep_def)
  have "GetStorage (wk k) (SetStorage x v s) = GetStorage (wk k) s" if "k \<in> K" for k using assms(3) that by auto
  then have "sees E K (SetStorage x v s) f h"
    using fh(1) assms(2) by (auto simp: sees_def getWaitingListElement_def getWaitingListHead_def split: option.splits)
  with fh show ?thesis by (auto simp: queue_rep_def)
qed

lemma GetStorage_Finish [simp]: "GetStorage x (Finish v s) = GetStorage x s"
  by (simp add: GetStorage_def Finish_def)

lemma queue_same_storage:
  assumes "queue_rep E K s q" "contractStorage s' = contractStorage s"
  shows "queue_rep E K s' q"
proof -
  have "GetStorage x s' = GetStorage x s" for x using assms(2) by (simp add: GetStorage_def)
  then have "sees E K s' = sees E K s"
    by (intro ext) (simp add: sees_def getWaitingListElement_def getWaitingListHead_def cong: option.case_cong)
  then show ?thesis using assms(1) by (simp add: queue_rep_def)
qed

lemma queue_length: "queue_rep E K s q \<Longrightarrow> bls_keys K \<Longrightarrow> length (fst q) < 2 ^ 32 - 1"
proof -
  assume q: "queue_rep E K s q" and K: "bls_keys K"
  then obtain f h where "linked K q f h" by (auto simp: queue_rep_def)
  then have "distinct (fst q)" "set (fst q) \<subseteq> K" by (cases q, simp add: linked_pair)+
  then have "length (fst q) \<le> card K" using K card_mono [of K "set (fst q)"] by (simp add: bls_keys_def distinct_card)
  with K show ?thesis by (simp add: bls_keys_def)
qed

lemma view_rest_same:
  assumes "view E K s q D n" "staking_env_ok E K" "rest_same K s s'" "queue_rep E K s' q'"
  shows "view E K s' q' D n"
proof -
  have g: "GetStorage x s' = GetStorage x s" if "x \<noteq> waitingListHeadKey" "x \<notin> wk ` K" for x
    using assms(3) that by (simp add: rest_same_def GetStorage_def)
  have "GetStorage k s' = GetStorage k s" if "k \<in> K" for k
    using that assms(2) wk_not_key [of K k] by (intro g) (auto simp: staking_env_ok_def bls_keys_def)
  moreover have "GetStorage nodesConfigKey s' = GetStorage nodesConfigKey s" by (rule g) auto
  ultimately show ?thesis using assms(1,4) by (simp add: view_def getOrCreateRegisteredData_def getConfig_def)
qed

subsection \<open>The primitives\<close>

lemma view_add:
  assumes "view E K s q D n" "staking_env_ok E K" "k \<in> K"
  obtains s' where "addToWaitingList E k b s = (s', Inr ())" "view E K s' (enqueue k b q) D n"
proof -
  have q: "queue_rep E K s (fst q, snd q)" using assms(1) by (simp add: view_def)
  have "length (fst q) < 2 ^ 32 - 1" using queue_length q env_parts(3) [OF assms(2)] by fastforce
  from queue_add [OF q env_parts(1,2) [OF assms(2)] assms(3) this, of b] obtain s' where
    "addToWaitingList E k b s = (s', Inr ())" "queue_rep E K s' (enqueue k b q)" "rest_same K s s'" by auto
  with view_rest_same [OF assms(1,2)] that show thesis by blast
qed

lemma view_remove:
  assumes "view E K s q D n" "staking_env_ok E K" "k \<in> K"
  obtains s' where "removeFromWaitingList E k s = (s', Inr ())" "view E K s' (dequeue k q) D n"
proof -
  have q: "queue_rep E K s (fst q, snd q)" using assms(1) by (simp add: view_def)
  from queue_remove [OF q env_parts(1,2) [OF assms(2)] assms(3)] obtain s' where
    "removeFromWaitingList E k s = (s', Inr ())" "queue_rep E K s' (dequeue k q)" "rest_same K s s'" by auto
  with view_rest_same [OF assms(1,2)] that show thesis by blast
qed

lemma view_set_key:
  assumes "view E K s q D n" "staking_env_ok E K" "k \<in> K"
    and "(if b = [] then Inr newRegistration else unmarshalStaked E b) = Inr d"
  shows "view E K (SetStorage k b s) q (D(k := d)) n"
proof -
  have k: "k \<noteq> waitingListHeadKey" "k \<notin> wk ` K" "k \<noteq> nodesConfigKey"
    using assms(2,3) wk_not_key [of K k] by (auto simp: staking_env_ok_def bls_keys_def)
  have "getConfig E (SetStorage k b s) = getConfig E s" using k(3) by (simp add: getConfig_def)
  moreover have "getOrCreateRegisteredData E k' (SetStorage k b s) = Inr ((D(k := d)) k')" if "k' \<in> K" for k'
    using assms(1,4) that by (auto simp: view_def getOrCreateRegisteredData_def split: if_splits)
  ultimately show ?thesis using assms(1) queue_set_other [OF _ k(1,2)] by (simp add: view_def)
qed

text \<open>What a saved registration keeps.\<close>

definition stored :: "stakingEnv \<Rightarrow> stakedData \<Rightarrow> stakedData" where
  "stored E d = (if \<not> StakeFlag E then d\<lparr>NumJailed := 0, SlashValue := 0, OwnerAddress := []\<rparr>
     else if \<not> StakingV2Flag E then d\<lparr>OwnerAddress := []\<rparr> else d)"

lemma stored_flags [simp]: "Staked (stored E d) = Staked d" "Waiting (stored E d) = Waiting d" "RewardAddress (stored E d) = RewardAddress d"
  by (simp_all add: stored_def)

lemmas save_simps = saveStakingData_def saveAsStakingDataV1P0_def saveAsStakingDataV1P1_def stored_def sum.case
  if_True if_False not_False_eq_True not_True_eq_False

lemma save_writes:
  assumes "staked_codec E"
  obtains b where "saveStakingData E k d s = (SetStorage k b s, Inr ())" "b \<noteq> []" "unmarshalStaked E b = Inr (stored E d)"
proof -
  let ?d0 = "d\<lparr>NumJailed := 0, SlashValue := 0, OwnerAddress := []\<rparr>" and ?d1 = "d\<lparr>OwnerAddress := []\<rparr>"
  note c = assms [unfolded staked_codec_def]
  obtain b0 where b0: "marshalStakedV1_0 E ?d0 = Inr b0" "b0 \<noteq> []" "unmarshalStaked E b0 = Inr ?d0"
    using c [THEN conjunct2, THEN conjunct2, THEN conjunct1, rule_format, of ?d0] by auto
  obtain b1 where b1: "marshalStakedV1_1 E ?d1 = Inr b1" "b1 \<noteq> []" "unmarshalStaked E b1 = Inr ?d1"
    using c [THEN conjunct2, THEN conjunct1, rule_format, of ?d1] by auto
  obtain b2 where b2: "marshalStaked E d = Inr b2" "b2 \<noteq> []" "unmarshalStaked E b2 = Inr d"
    using c [THEN conjunct1, rule_format, of d] by auto
  consider "\<not> StakeFlag E" | "StakeFlag E" "\<not> StakingV2Flag E" | "StakeFlag E" "StakingV2Flag E" by blast
  then show thesis
  proof cases
    case 1
    show thesis by (rule that [of b0]) (use 1 b0 in \<open>simp_all only: save_simps\<close>)
  next
    case 2
    show thesis by (rule that [of b1]) (use 2 b1 in \<open>simp_all only: save_simps\<close>)
  next
    case 3
    show thesis by (rule that [of b2]) (use 3 b2 in \<open>simp_all only: save_simps\<close>)
  qed
qed

lemma view_save:
  assumes "view E K s q D n" "staking_env_ok E K" "k \<in> K"
  obtains s' where "saveStakingData E k d s = (s', Inr ())" "view E K s' q (D(k := stored E d)) n"
  by (rule save_writes [OF env_parts(4) [OF assms(2)], of k d s]) (use view_set_key [OF assms] that in simp)

lemma view_setConfig:
  assumes "view E K s q D n" "staking_env_ok E K"
  shows "view E K (setConfig E c s) q D (StakedNodes c)"
proof -
  obtain b where b: "marshalConfig E c = Inr b" "if c = emptyConfig then b = [] else b \<noteq> [] \<and> unmarshalConfig E b = Inr c"
    using env_parts(4) [OF assms(2)] unfolding staked_codec_def by blast
  have q: "queue_rep E K (SetStorage nodesConfigKey b s) q"
    using assms(1) by (intro queue_set_other) (auto simp: view_def)
  have "nodesConfigKey \<notin> K" using assms(2) by (simp add: staking_env_ok_def bls_keys_def)
  then have "getOrCreateRegisteredData E k (SetStorage nodesConfigKey b s) = Inr (D k)" if "k \<in> K" for k
    using assms(1) that by (auto simp: view_def getOrCreateRegisteredData_def)
  moreover have "StakedNodes (getConfig E (SetStorage nodesConfigKey b s)) = StakedNodes c"
    using b(2) by (auto simp: getConfig_def baseConfig_def emptyConfig_def split: if_splits)
  ultimately show ?thesis using q b(1) by (simp add: view_def setConfig_def)
qed

lemma view_addToStakedNodes: "view E K s q D n \<Longrightarrow> staking_env_ok E K \<Longrightarrow> view E K (addToStakedNodes E v s) q D (n + v)"
  using view_setConfig [of E K s q D n "(getConfig E s)\<lparr>StakedNodes := StakedNodes (getConfig E s) + v\<rparr>"]
  by (simp add: addToStakedNodes_def view_def)

lemma view_removeFromStakedNodes: "view E K s q D n \<Longrightarrow> staking_env_ok E K \<Longrightarrow>
    view E K (removeFromStakedNodes E s) q D (if sint n > 0 then n - 1 else n)"
  using view_setConfig [of E K s q D n "if sint n > 0 then (getConfig E s)\<lparr>StakedNodes := StakedNodes (getConfig E s) - 1\<rparr> else getConfig E s"]
  by (simp add: removeFromStakedNodes_def view_def split: if_splits)

lemma view_removeFromJailedNodes: "view E K s q D n \<Longrightarrow> staking_env_ok E K \<Longrightarrow> view E K (removeFromJailedNodes E s) q D n"
  using view_setConfig [of E K s q D n "if sint (JailedNodes (getConfig E s)) > 0
    then (getConfig E s)\<lparr>JailedNodes := JailedNodes (getConfig E s) - 1\<rparr> else getConfig E s"]
  by (simp add: removeFromJailedNodes_def Let_def view_def split: if_splits)

lemma view_same_storage: "view E K s q D n \<Longrightarrow> contractStorage s' = contractStorage s \<Longrightarrow> view E K s' q D n"
  using queue_same_storage [of E K s q s']
  by (simp add: view_def getOrCreateRegisteredData_def getConfig_def GetStorage_def)

lemma view_Finish: "view E K s q D n \<Longrightarrow> view E K (Finish v s) q D n"
  by (rule view_same_storage) (simp_all add: Finish_def)

subsection \<open>The head and the walk\<close>

lemma unat_minus_one_word_u32: "unat (- 1 :: u32) = 2 ^ 32 - 1"
  by (simp add: unsigned_minus_1_eq_mask mask_eq_exp_minus_1)

lemma queue_head:
  assumes "queue_rep E K s (xs, j)"
  shows "getWaitingListHead E s = Inr (if xs = [] then \<lparr>FirstKey = [], LastKey = [], Length = 0, LastJailedKey = []\<rparr> else headOf xs j)"
    and "GetStorage waitingListHeadKey s = [] \<longleftrightarrow> xs = []" "unat (Length (headOf xs j)) = length xs"
proof -
  obtain f h where fh: "sees E K s f h" "linked K (xs, j) f h" using assms by (auto simp: queue_rep_def)
  show len: "unat (Length (headOf xs j)) = length xs" using fh(2) length_word [of "length xs"] by (simp add: linked_pair headOf_def)
  show hd: "getWaitingListHead E s = Inr (if xs = [] then \<lparr>FirstKey = [], LastKey = [], Length = 0, LastJailedKey = []\<rparr> else headOf xs j)"
    using sees_head [OF fh(1)] fh(2) by (simp add: linked_pair)
  show "GetStorage waitingListHeadKey s = [] \<longleftrightarrow> xs = []"
  proof
    assume "GetStorage waitingListHeadKey s = []"
    then have "xs = [] \<or> headOf xs j = \<lparr>FirstKey = [], LastKey = [], Length = 0, LastJailedKey = []\<rparr>"
      using hd by (auto simp: getWaitingListHead_def split: if_splits)
    then have "xs = [] \<or> Length (headOf xs j) = 0" by (metis waitingList.select_convs(3))
    then show "xs = []" using len by auto
  next
    assume "xs = []"
    with fh show "GetStorage waitingListHeadKey s = []" by (simp add: linked_pair sees_def)
  qed
qed

lemma queue_elem:
  assumes "queue_rep E K s (ys @ k # zs, j)"
  shows "\<exists>p. getWaitingListElement E (wk k) s = Inr \<lparr>BLSPublicKey = k, PreviousKey = p, NextKey = (if zs = [] then [] else wk (hd zs))\<rparr>"
proof -
  obtain f h where fh: "sees E K s f h" "linked K (ys @ k # zs, j) f h" using assms by (auto simp: queue_rep_def)
  then have "k \<in> K" by (simp add: linked_pair)
  then show ?thesis using sees_elem [OF fh(1), of k] seg_at [of f _ ys k zs "[]"] fh(2) by (auto simp: linked_pair)
qed

lemma queue_no_elem: "queue_rep E K s (xs, j) \<Longrightarrow> k \<in> K \<Longrightarrow> k \<notin> set xs \<Longrightarrow> getWaitingListElement E (wk k) s = Inl ErrElementNotFound"
  unfolding queue_rep_def using sees_elem by (fastforce simp: linked_pair)

lemma firstElements_walk:
  assumes "view E K s (ys @ zs, j) D n" "staking_env_ok E K" "zs \<noteq> []" "m \<ge> length zs"
  shows "\<exists>r. firstElementsLoop E s lj m (wk (hd zs)) acc = Inr r \<and> wrKeys r = wrKeys acc @ zs \<and> wrData r = wrData acc @ map D zs"
  using assms
proof (induction zs arbitrary: ys m acc)
  case (Cons k zs)
  obtain m' where m: "m = Suc m'" using Cons.prems(4) by (cases m) auto
  have q: "queue_rep E K s (ys @ k # zs, j)" using Cons.prems(1) by (simp add: view_def)
  then have K: "k \<in> K" "set zs \<subseteq> K" by (auto simp: queue_rep_def linked_pair)
  obtain p where e: "getWaitingListElement E (wk k) s = Inr \<lparr>BLSPublicKey = k, PreviousKey = p, NextKey = (if zs = [] then [] else wk (hd zs))\<rparr>"
    using queue_elem [OF q] by blast
  note d = view_data [OF Cons.prems(1) K(1)]
  let ?acc = "acc\<lparr>wrKeys := wrKeys acc @ [k], wrData := wrData acc @ [D k], afterLastJailed := (afterLastJailed acc \<or> wk k = lj)\<rparr>"
  show ?case
  proof (cases zs)
    case Nil
    with e d m show ?thesis by simp
  next
    case (Cons c zs')
    have "length (wk k) = length (wk c)"
      using K Cons env_parts(2) [OF \<open>staking_env_ok E K\<close>] by (force simp: keys_ok_def createWaitingListKey_def)
    then have cp: "copyInto (wk k) (wk c) = wk c" by (rule copy_same_length)
    have "\<exists>r. firstElementsLoop E s lj m' (wk (hd zs)) ?acc = Inr r \<and> wrKeys r = wrKeys ?acc @ zs \<and> wrData r = wrData ?acc @ map D zs"
      using Cons.prems Cons m by (intro Cons.IH [of "ys @ [k]"]) simp_all
    moreover have "firstElementsLoop E s lj m (wk k) acc = firstElementsLoop E s lj m' (wk (hd zs)) ?acc"
      using e d m Cons cp by simp
    ultimately show ?thesis by simp
  qed
qed simp

lemma view_walk:
  assumes "view E K s q D n" "staking_env_ok E K"
  obtains r where "getFirstElementsFromWaitingList E (- 1) s = Inr r" "wrKeys r = fst q" "wrData r = map D (fst q)"
proof (cases "fst q = []")
  case True
  have "queue_rep E K s (fst q, snd q)" using assms(1) by (simp add: view_def)
  from queue_head(1) [OF this] True show thesis
    by (intro that [of "\<lparr>wrKeys = [], wrData = [], wrLastKey = [], afterLastJailed = False\<rparr>"])
      (simp_all add: getFirstElementsFromWaitingList_def)
next
  case False
  have q: "queue_rep E K s (fst q, snd q)" using assms(1) by (simp add: view_def)
  note hd = queue_head(1,3) [OF q]
  have mx: "min (length (fst q)) (unat (- 1 :: u32)) = length (fst q)" using queue_length [OF q env_parts(3) [OF assms(2)]]
    by (simp add: unat_minus_one_word_u32)
  have ln: "Length (headOf (fst q) (snd q)) \<noteq> 0" using hd(2) False by auto
  have "getFirstElementsFromWaitingList E (- 1) s = firstElementsLoop E s (LastJailedKey (headOf (fst q) (snd q))) (length (fst q))
      (wk (hd (fst q))) \<lparr>wrKeys = [], wrData = [], wrLastKey = [], afterLastJailed = False\<rparr>"
    using hd ln False mx by (simp add: getFirstElementsFromWaitingList_def Let_def) (simp add: headOf_def)
  moreover obtain r where "firstElementsLoop E s (LastJailedKey (headOf (fst q) (snd q))) (length (fst q))
      (wk (hd (fst q))) \<lparr>wrKeys = [], wrData = [], wrLastKey = [], afterLastJailed = False\<rparr> = Inr r"
      "wrKeys r = fst q" "wrData r = map D (fst q)"
    using firstElements_walk [of E K s "[]" "fst q" "snd q" D n "length (fst q)" "LastJailedKey (headOf (fst q) (snd q))"
      "\<lparr>wrKeys = [], wrData = [], wrLastKey = [], afterLastJailed = False\<rparr>"] assms False by auto
  ultimately show thesis using that by simp
qed

text \<open>Saving the head of the same queue with another place of the last unjailed key.\<close>

lemma view_save_head:
  assumes "view E K s (xs, j) D n" "staking_env_ok E K" "xs \<noteq> []" "j' \<le> length xs"
  obtains s' where "saveWaitingListHead E (headOf xs j') s = (s', Inr ())" "view E K s' (xs, j') D n"
proof -
  obtain f h where fh: "sees E K s f h" "linked K (xs, j) f h" using assms(1) by (auto simp: view_def queue_rep_def)
  have "unat (Length (headOf xs j')) = length xs" using fh(2) length_word [of "length xs"] by (simp add: linked_pair headOf_def)
  then have "Length (headOf xs j') \<noteq> 0" using assms(3) by auto
  from step_head [OF fh(1) env_parts(1) [OF assms(2)] this] obtain s' where
    s': "saveWaitingListHead E (headOf xs j') s = (s', Inr ())" "sees E K s' f (Some (headOf xs j'))" "rest_same K s s'"
    by (auto simp: list_step_def)
  moreover have "linked K (xs, j') f (Some (headOf xs j'))" using fh(2) assms(3,4) by (simp add: linked_pair)
  ultimately have "queue_rep E K s' (xs, j')" by (auto simp: queue_rep_def)
  from view_rest_same [OF assms(1,2) s'(3) this] s'(1) that show thesis by blast
qed

lemma fixLoop_walk:
  assumes "view E K s (ys @ zs, j) D n" "staking_env_ok E K" "zs \<noteq> []" "m \<ge> length zs"
  shows "fixLoop E s lj m i (wk (hd zs)) fnd = Inr (i + of_nat (length zs - 1), wk (last zs), fnd \<or> (\<exists>z \<in> set zs. lj = wk z))"
  using assms
proof (induction zs arbitrary: ys m i fnd)
  case (Cons k zs)
  obtain m' where m: "m = Suc m'" using Cons.prems(4) by (cases m) auto
  have q: "queue_rep E K s (ys @ k # zs, j)" using Cons.prems(1) by (simp add: view_def)
  then have K: "k \<in> K" "set zs \<subseteq> K" by (auto simp: queue_rep_def linked_pair)
  obtain p where e: "getWaitingListElement E (wk k) s = Inr \<lparr>BLSPublicKey = k, PreviousKey = p, NextKey = (if zs = [] then [] else wk (hd zs))\<rparr>"
    using queue_elem [OF q] by blast
  note d = view_data [OF Cons.prems(1) K(1)]
  show ?case
  proof (cases zs)
    case Nil
    with e d m show ?thesis by simp
  next
    case (Cons c zs')
    have "length (wk k) = length (wk c)"
      using K Cons env_parts(2) [OF \<open>staking_env_ok E K\<close>] by (force simp: keys_ok_def createWaitingListKey_def)
    then have cp: "copyInto (wk k) (wk c) = wk c" by (rule copy_same_length)
    have "fixLoop E s lj m' (i + 1) (wk (hd zs)) (fnd \<or> lj = wk k) =
        Inr (i + 1 + of_nat (length zs - 1), wk (last zs), (fnd \<or> lj = wk k) \<or> (\<exists>z \<in> set zs. lj = wk z))"
      using Cons.prems Cons m by (intro Cons.IH [of "ys @ [k]"]) simp_all
    then show ?thesis using e d m Cons cp by (simp add: algebra_simps)
  qed
qed simp

end
