(* ===== verification/Staking_Invariant.thy ===== *)
theory Staking_Invariant
  imports Staking_View
begin

text \<open>
  The invariant of the staking contract: a key waits exactly when it is in the queue, no key is both staked and
  waiting, and the counter of staked nodes counts the staked keys. Every function of the contract that returns
  \<open>Ok\<close> keeps it.
\<close>

definition staking_inv :: "bytes set \<Rightarrow> bytes list \<times> nat \<Rightarrow> (bytes \<Rightarrow> stakedData) \<Rightarrow> u64 \<Rightarrow> bool" where
  "staking_inv K q D n \<longleftrightarrow> (\<forall>k \<in> K. Waiting (D k) \<longleftrightarrow> k \<in> set (fst q)) \<and> (\<forall>k \<in> K. \<not> (Staked (D k) \<and> Waiting (D k))) \<and>
     n = of_nat (card {k \<in> K. Staked (D k)})"

definition good :: "stakingEnv \<Rightarrow> bytes set \<Rightarrow> stakingState \<Rightarrow> bool" where
  "good E K s \<longleftrightarrow> (\<exists>q D n. view E K s q D n \<and> staking_inv K q D n)"

lemma goodI: "view E K s q D n \<Longrightarrow> staking_inv K q D n \<Longrightarrow> good E K s"
  unfolding good_def by blast

subsection \<open>Changes of one registration\<close>

lemma staked_insert: "k \<in> K \<Longrightarrow> Staked d \<Longrightarrow> {x \<in> K. Staked ((D(k := d)) x)} = insert k {x \<in> K. Staked (D x)}"
  by auto

lemma staked_remove: "\<not> Staked d \<Longrightarrow> {x \<in> K. Staked ((D(k := d)) x)} = {x \<in> K. Staked (D x)} - {k}"
  by auto

lemma inv_same:
  assumes "staking_inv K q D n" "Staked d = Staked (D k)" "Waiting d = Waiting (D k)"
  shows "staking_inv K q (D(k := d)) n"
proof -
  have "Staked ((D(k := d)) x) = Staked (D x)" "Waiting ((D(k := d)) x) = Waiting (D x)" for x using assms(2,3) by simp_all
  then show ?thesis using assms(1) unfolding staking_inv_def by presburger
qed

lemma set_dequeue: "distinct (fst q) \<Longrightarrow> set (fst (dequeue k q)) = set (fst q) - {k}"
  by (cases q) simp

lemma view_distinct: "view E K s q D n \<Longrightarrow> distinct (fst q)" "view E K s q D n \<Longrightarrow> set (fst q) \<subseteq> K"
  by (cases q, auto simp: view_def queue_rep_def linked_pair)+

lemma view_queue: "view E K s q D n \<Longrightarrow> queue_rep E K s (fst q, snd q)"
  by (simp add: view_def)

lemma inv_stake:
  assumes "staking_inv K q D n" "finite K" "k \<in> K" "distinct (fst q)" "\<not> Staked (D k)" "Staked d" "\<not> Waiting d"
  shows "staking_inv K (dequeue k q) (D(k := d)) (n + 1)"
proof -
  have "card {x \<in> K. Staked ((D(k := d)) x)} = Suc (card {x \<in> K. Staked (D x)})"
    unfolding staked_insert [OF assms(3,6)] using assms(2,5) by simp
  then show ?thesis using assms set_dequeue [OF assms(4), of k] by (auto simp: staking_inv_def)
qed

lemma inv_enqueue:
  assumes "staking_inv K q D n" "\<not> Staked (D k)" "\<not> Staked d" "Waiting d"
  shows "staking_inv K (enqueue k b q) (D(k := d)) n"
proof -
  have "{x \<in> K. Staked ((D(k := d)) x)} = {x \<in> K. Staked (D x)}" using assms(2,3) by auto
  then show ?thesis using assms by (auto simp: staking_inv_def set_enqueue)
qed

lemma inv_leave:
  assumes "staking_inv K q D n" "distinct (fst q)" "\<not> Staked (D k)" "\<not> Staked d" "\<not> Waiting d"
  shows "staking_inv K (dequeue k q) (D(k := d)) n"
proof -
  have "{x \<in> K. Staked ((D(k := d)) x)} = {x \<in> K. Staked (D x)}" using assms(3,4) by auto
  then show ?thesis using assms set_dequeue [OF assms(2), of k] by (auto simp: staking_inv_def)
qed

lemma sint_of_small: "c < 2 ^ 63 \<Longrightarrow> sint (of_nat c :: u64) = int c"
  by (simp add: signed_of_nat signed_take_bit_int_eq_self)

text \<open>The counter is positive while a key is staked, so it is counted down.\<close>

lemma counter_positive:
  assumes "staking_inv K q D n" "bls_keys K" "k \<in> K" "Staked (D k)"
  shows "sint n > 0" "n = of_nat (Suc (card ({x \<in> K. Staked (D x)} - {k})))"
proof -
  let ?c = "card {x \<in> K. Staked (D x)}"
  have fin: "finite {x \<in> K. Staked (D x)}" using assms(2) by (simp add: bls_keys_def)
  then have pos: "?c = Suc (card ({x \<in> K. Staked (D x)} - {k}))" using assms(3,4) by (intro card.remove) simp_all
  have "?c \<le> card K" using assms(2) by (auto simp: bls_keys_def intro: card_mono)
  then have "?c < 2 ^ 63" using assms(2) by (simp add: bls_keys_def)
  then have c: "sint (of_nat ?c :: u64) = int ?c" by (rule sint_of_small)
  have n: "n = of_nat ?c" using assms(1) by (simp add: staking_inv_def)
  show "sint n > 0" unfolding n c using pos by linarith
  show "n = of_nat (Suc (card ({x \<in> K. Staked (D x)} - {k})))" unfolding n using pos by metis
qed

lemma inv_unstake:
  assumes "staking_inv K q D n" "bls_keys K" "k \<in> K" "Staked (D k)" "\<not> Staked d" "\<not> Waiting d"
  shows "staking_inv K q (D(k := d)) (if sint n > 0 then n - 1 else n)"
proof -
  have "k \<notin> set (fst q)" using assms(1,3,4) by (auto simp: staking_inv_def)
  with counter_positive [OF assms(1-4)] assms(1,3-6) show ?thesis
    unfolding staking_inv_def staked_remove [OF assms(5)] by auto
qed

subsection \<open>Steps\<close>

definition held :: "stakingEnv \<Rightarrow> bytes set \<Rightarrow> stakingState \<Rightarrow> bytes list \<times> nat \<Rightarrow> (bytes \<Rightarrow> stakedData) \<Rightarrow> u64 \<Rightarrow> bool" where
  "held E K s q D n \<longleftrightarrow> staking_env_ok E K \<and> view E K s q D n \<and> staking_inv K q D n"

lemma held_parts: "held E K s q D n \<Longrightarrow> view E K s q D n" "held E K s q D n \<Longrightarrow> staking_env_ok E K" "held E K s q D n \<Longrightarrow> staking_inv K q D n"
  "held E K s q D n \<Longrightarrow> bls_keys K" "held E K s q D n \<Longrightarrow> finite K" "held E K s q D n \<Longrightarrow> distinct (fst q)"
  by (auto simp: held_def staking_env_ok_def bls_keys_def dest: view_distinct)

lemma held_good: "held E K s q D n \<Longrightarrow> good E K s"
  by (auto simp: held_def intro: goodI)

lemma good_held: "good E K s \<Longrightarrow> staking_env_ok E K \<Longrightarrow> \<exists>q D n. held E K s q D n"
  unfolding good_def held_def by blast

text \<open>Saving a registration after the change of the rest of the view that belongs to it.\<close>

lemma save_held:
  assumes "view E K s q D n" "staking_env_ok E K" "k \<in> K" "staking_inv K q (D(k := stored E d)) n"
  obtains s' where "saveStakingData E k d s = (s', Inr ())" "held E K s' q (D(k := stored E d)) n"
  using view_save [OF assms(1-3), of d] assms(2,4) that unfolding held_def by blast

lemma save_same:
  assumes "held E K s q D n" "k \<in> K" "Staked d = Staked (D k)" "Waiting d = Waiting (D k)"
  obtains s' where "saveStakingData E k d s = (s', Inr ())" "held E K s' q (D(k := stored E d)) n"
proof -
  have "staking_inv K q (D(k := stored E d)) n" using assms(3,4) by (intro inv_same [OF held_parts(3) [OF assms(1)]]) simp_all
  from save_held [OF held_parts(1,2) [OF assms(1)] assms(2) this] that show thesis by blast
qed

text \<open>No key waits once the queue is out of use.\<close>

definition quiet :: "stakingEnv \<Rightarrow> stakingState \<Rightarrow> bool" where
  "quiet E s \<longleftrightarrow> (StakingV4StartedFlag E \<longrightarrow> GetStorage waitingListHeadKey s = [])"

lemma quiet_empty: "view E K s q D n \<Longrightarrow> quiet E s \<Longrightarrow> StakingV4StartedFlag E \<Longrightarrow> fst q = []"
  using queue_head(2) [OF view_queue] by (simp add: quiet_def)

lemma dequeue_empty: "fst q = [] \<Longrightarrow> dequeue k q = q"
  by (cases q) simp

lemma stake_step:
  assumes "held E K s q D n" "k \<in> K" "\<not> Staked (D k)"
    and "view E K s1 (dequeue k q) D n" "Staked d" "\<not> Waiting d"
  obtains s' where "saveStakingData E k d (addToStakedNodes E 1 s1) = (s', Inr ())" "held E K s' (dequeue k q) (D(k := stored E d)) (n + 1)"
proof -
  note h = held_parts [OF assms(1)]
  have "staking_inv K (dequeue k q) (D(k := stored E d)) (n + 1)" by (rule inv_stake [OF h(3,5) assms(2) h(6) assms(3)]) (use assms(5,6) in simp_all)
  from save_held [OF view_addToStakedNodes [OF assms(4) h(2)] h(2) assms(2) this] that show thesis by blast
qed

lemma activeStakingFor_flags [simp]: "Staked (activeStakingFor E d)" "\<not> Waiting (activeStakingFor E d)"
  by (simp_all add: activeStakingFor_def)

lemma processStake_staked: "Staked d \<Longrightarrow> processStake E k d b s = (s, Inr d)"
  by (simp add: processStake_def processStakeV1_def processStakeV2_def)

lemma processStake_good:
  assumes "held E K s q D n" "quiet E s" "k \<in> K" "Staked d = Staked (D k)" "Waiting d = Waiting (D k)"
    and "processStake E k d b s = (s1, Inr d1)" "saveStakingData E k d1 s1 = (s', Inr ())"
  shows "good E K s'"
proof -
  note h = held_parts [OF assms(1)]
  consider "Staked d" | "\<not> Staked d" "StakingV4StartedFlag E" | "\<not> Staked d" "\<not> StakingV4StartedFlag E" "canStake E s"
    | "\<not> Staked d" "\<not> StakingV4StartedFlag E" "\<not> canStake E s" by blast
  then show ?thesis
  proof cases
    case 1
    then have e: "s1 = s" "d1 = d" using assms(6) by (simp_all add: processStake_staked)
    show ?thesis by (rule save_same [OF assms(1,3-5)]) (use e assms(7) in \<open>auto intro: held_good\<close>)
  next
    case 2
    have v: "view E K s (dequeue k q) D n" using h(1) quiet_empty [OF h(1) assms(2) 2(2)] by (simp add: dequeue_empty)
    have e: "s1 = addToStakedNodes E 1 s" "Staked d1" "\<not> Waiting d1" using assms(6) 2 by (auto simp: processStake_def processStakeV2_def)
    show ?thesis by (rule stake_step [OF assms(1,3) _ v e(2,3)]) (use e 2(1) assms(4,7) in \<open>auto intro: held_good\<close>)
  next
    case 3
    obtain s2 where s2: "removeFromWaitingList E k s = (s2, Inr ())" "view E K s2 (dequeue k q) D n" using view_remove [OF h(1,2) assms(3)] .
    then have e: "s1 = addToStakedNodes E 1 s2" "Staked d1" "\<not> Waiting d1"
      using assms(6) 3 by (auto simp: processStake_def processStakeV1_def Let_def)
    show ?thesis by (rule stake_step [OF assms(1,3) _ s2(2) e(2,3)]) (use e 3(1) assms(4,7) in \<open>auto intro: held_good\<close>)
  next
    case 4
    obtain s2 where s2: "addToWaitingList E k b s = (s2, Inr ())" "view E K s2 (enqueue k b q) D n" using view_add [OF h(1,2) assms(3)] .
    then have d1: "s1 = Finish [waiting] s2" "\<not> Staked d1" "Waiting d1" using assms(6) 4 by (auto simp: processStake_def processStakeV1_def Let_def)
    have i: "staking_inv K (enqueue k b q) (D(k := stored E d1)) n" using 4(1) assms(4) d1 by (intro inv_enqueue [OF h(3)]) simp_all
    show ?thesis by (rule save_held [OF view_Finish [OF s2(2), of "[waiting]"] h(2) assms(3) i]) (use assms(7) d1(1) in \<open>auto intro: held_good\<close>)
  qed
qed

lemma unstake_held:
  assumes "held E K s q D n" "k \<in> K" "Staked (D k)" "\<not> Staked d" "\<not> Waiting d"
  obtains s' n' where "saveStakingData E k d (removeFromStakedNodes E s) = (s', Inr ())" "held E K s' q (D(k := stored E d)) n'"
proof -
  note h = held_parts [OF assms(1)]
  have "staking_inv K q (D(k := stored E d)) (if sint n > 0 then n - 1 else n)"
    by (rule inv_unstake [OF h(3,4) assms(2,3)]) (use assms(4,5) in simp_all)
  from save_held [OF view_removeFromStakedNodes [OF h(1,2)] h(2) assms(2) this] that show thesis by blast
qed

lemma leave_held:
  assumes "held E K s q D n" "k \<in> K" "\<not> Staked (D k)" "removeFromWaitingList E k s = (s1, r)" "\<not> Staked d" "\<not> Waiting d"
  obtains s' where "r = Inr ()" "saveStakingData E k d s1 = (s', Inr ())" "held E K s' (dequeue k q) (D(k := stored E d)) n"
proof -
  note h = held_parts [OF assms(1)]
  obtain s2 where s2: "removeFromWaitingList E k s = (s2, Inr ())" "view E K s2 (dequeue k q) D n" using view_remove [OF h(1,2) assms(2)] .
  have "staking_inv K (dequeue k q) (D(k := stored E d)) n" by (rule inv_leave [OF h(3,6) assms(3)]) (use assms(5,6) in simp_all)
  from save_held [OF s2(2) h(2) assms(2) this] s2(1) assms(4) that show thesis by auto
qed

text \<open>The first key of the queue becomes a staked one; a key that was staked before keeps its registration.\<close>

lemma moveFirst_Cons:
  assumes "held E K s q D n" "fst q = k # xs"
  obtains s1 s2 d where "moveFirstFromWaitingToStaked E s = (if RewardAddress (D k) = [] then (s1, Inl ErrInvalidWaitingList) else (s2, Inr True))"
    "held E K s2 (dequeue k q) (D(k := d)) (n + 1)" "Staked d" "\<not> Staked (D k)"
proof -
  note h = held_parts [OF assms(1)]
  have q: "queue_rep E K s ([] @ k # xs, snd q)" using view_queue [OF h(1)] assms(2) by simp
  note hd = queue_head(1,3) [OF q]
  have K: "k \<in> K" using view_distinct(2) [OF h(1)] assms(2) by simp
  have ns: "\<not> Staked (D k)" using h(3) K assms(2) by (auto simp: staking_inv_def)
  obtain p where e: "getWaitingListElement E (wk k) s = Inr \<lparr>BLSPublicKey = k, PreviousKey = p, NextKey = (if xs = [] then [] else wk (hd xs))\<rparr>"
    using queue_elem [OF q] by blast
  obtain s1 where s1: "removeFromWaitingList E k s = (s1, Inr ())" "view E K s1 (dequeue k q) D n" using view_remove [OF h(1,2) K] .
  define d where "d = (D k)\<lparr>Waiting := False, Staked := True, RegisterNonce := CurrentNonce E, StakedNonce := CurrentNonce E,
    UnStakedNonce := 0, UnStakedEpoch := DefaultUnstakedEpoch\<rparr>"
  have d: "Staked d" "\<not> Waiting d" by (simp_all add: d_def)
  obtain s2 where s2: "saveStakingData E k d (addToStakedNodes E 1 s1) = (s2, Inr ())" "held E K s2 (dequeue k q) (D(k := stored E d)) (n + 1)"
    using stake_step [OF assms(1) K ns s1(2) d] .
  have ln: "Length (headOf (k # xs) (snd q)) \<noteq> 0" using hd(2) by auto
  have "moveFirstFromWaitingToStaked E s = (if RewardAddress (D k) = [] then (s1, Inl ErrInvalidWaitingList) else (s2, Inr True))"
    using hd(1) ln e s1(1) view_data [OF s1(2) K] ns s2(1) unfolding d_def
    by (simp add: moveFirstFromWaitingToStaked_def) (simp add: headOf_def)
  from that [OF this s2(2)] d(1) ns show thesis by simp
qed

lemma moveFirst_Nil: "held E K s q D n \<Longrightarrow> fst q = [] \<Longrightarrow> moveFirstFromWaitingToStaked E s = (s, Inr False)"
  using queue_head(1) [OF view_queue [OF held_parts(1)]] by (simp add: moveFirstFromWaitingToStaked_def)

lemma moveFirst_good:
  assumes "held E K s q D n" "moveFirstFromWaitingToStaked E s = (s', Inr b)"
  obtains q' D' n' where "held E K s' q' D' n'" "\<And>k. Staked (D k) \<Longrightarrow> D' k = D k"
proof (cases "fst q")
  case Nil
  with moveFirst_Nil assms have "s' = s" by simp
  with assms(1) that show thesis by blast
next
  case (Cons k xs)
  obtain s1 s2 d where m: "moveFirstFromWaitingToStaked E s = (if RewardAddress (D k) = [] then (s1, Inl ErrInvalidWaitingList) else (s2, Inr True))"
      "held E K s2 (dequeue k q) (D(k := d)) (n + 1)" "\<not> Staked (D k)" using moveFirst_Cons [OF assms(1) Cons] by metis
  then have "s' = s2" using assms(2) by (auto split: if_splits)
  with m(2,3) that [of "dequeue k q" "D(k := d)" "n + 1"] show thesis by (metis fun_upd_apply)
qed

end
