(* ===== verification/Staking_Runs.thy ===== *)
theory Staking_Runs
  imports Staking_Invariant
begin

text \<open>
  Every function of the staking contract keeps the invariant when it returns \<open>Ok\<close>, and so does every sequence of
  calls by the system VM, whatever they return.
\<close>

subsection \<open>Staking and unstaking\<close>

lemma onOk_Ok: "onOk r s f = (s', Ok) \<longleftrightarrow> (\<exists>a. r = Inr a \<and> f a = (s', Ok))"
  by (cases r) simp_all

lemma thenOk_Ok: "thenOk r f = (s', Ok) \<longleftrightarrow> (\<exists>s1 a. r = (s1, Inr a) \<and> f s1 a = (s', Ok))"
  by (cases r; cases "snd r") auto

lemma stake_good:
  assumes "held E K s q D n" "b \<or> quiet E s" "stake E args b s = (s', Ok)" "Arguments args ! 0 \<in> K"
  shows "good E K s'"
proof -
  let ?k = "Arguments args ! 0"
  let ?d = "(D ?k)\<lparr>RewardAddress := Arguments args ! 1, OwnerAddress := Arguments args ! 2, StakeValue := stakeValue E\<rparr>"
  have d: "Staked ?d = Staked (D ?k)" "Waiting ?d = Waiting (D ?k)" by simp_all
  have g: "getOrCreateRegisteredData E ?k s = Inr (D ?k)" using view_data [OF held_parts(1) [OF assms(1)] assms(4)] .
  obtain s1 d1 where r: "(if b then (s, Inr ?d) else processStake E ?k ?d False s) = (s1, Inr d1)" "saveStakingData E ?k d1 s1 = (s', Inr ())"
    using assms(3) g unfolding stake_def Let_def by (auto simp: thenOk_Ok onOk_Ok simp del: stakedData.simps split: if_splits)
  show ?thesis
  proof (cases b)
    case True
    with r have e: "s1 = s" "d1 = ?d" by simp_all
    show ?thesis by (rule save_same [OF assms(1,4) d]) (use r(2) e in \<open>auto intro: held_good\<close>)
  next
    case False
    with r have "processStake E ?k ?d False s = (s1, Inr d1)" by simp
    from processStake_good [OF assms(1) _ assms(4) d this r(2)] assms(2) False show ?thesis by simp
  qed
qed

lemma doUnStake_good:
  assumes "held E K s q D n" "k \<in> K" "Staked (D k)" "tryUnStake E k (D k) s = (s', Ok)"
  shows "good E K s'"
proof -
  let ?d = "(D k)\<lparr>Staked := False, UnStakedEpoch := CurrentEpoch E, UnStakedNonce := CurrentNonce E, Waiting := False\<rparr>"
  have e: "saveStakingData E k ?d (removeFromStakedNodes E s) = (s', Inr ())"
    using assms(4) by (auto simp: tryUnStake_def doUnStake_def thenOk_Ok split: if_splits)
  have d: "\<not> Staked ?d" "\<not> Waiting ?d" by simp_all
  show ?thesis by (rule unstake_held [OF assms(1-3) d]) (use e in \<open>auto intro: held_good\<close>)
qed

lemma checkUnStake_data:
  assumes "held E K s q D n" "Arguments args ! 0 \<in> K" "checkUnStakeArgs E args s = Inr d"
  shows "d = D (Arguments args ! 0)" "Staked d \<or> Waiting d"
  using assms(3) view_data [OF held_parts(1) [OF assms(1)] assms(2)]
  by (auto simp: checkUnStakeArgs_def Let_def split: if_splits)

lemma unStake_good:
  assumes "held E K s q D n" "unStake E args s = (s', Ok)" "Arguments args ! 0 \<in> K"
  shows "good E K s'"
proof (cases "checkUnStakeArgs E args s")
  case (Inl c)
  then have "c \<noteq> Ok" by (auto simp: checkUnStakeArgs_def Let_def split: if_splits sum.splits)
  with Inl assms(2) show ?thesis by (auto simp: unStake_def unStakeV1_def unStakeV2_def split: if_splits)
next
  case (Inr d)
  let ?k = "Arguments args ! 0"
  note d = checkUnStake_data [OF assms(1,3) Inr]
  consider "Staked d" "tryUnStake E ?k d s = (s', Ok)"
    | s1 b where "Staked d" "moveFirstFromWaitingToStaked E s = (s1, Inr b)" "tryUnStake E ?k d s1 = (s', Ok)"
    | s1 where "\<not> Staked d" "removeFromWaitingList E ?k s = (s1, Inr ())" "saveStakingData E ?k (d\<lparr>Waiting := False\<rparr>) s1 = (s', Inr ())"
    using assms(2) Inr by (auto simp: unStake_def unStakeV1_def unStakeV2_def Let_def thenOk_Ok split: if_splits)
  then show ?thesis
  proof cases
    case 1
    with d(1) show ?thesis using doUnStake_good [OF assms(1,3)] by simp
  next
    case 2
    obtain q' D' n' where m: "held E K s1 q' D' n'" "\<And>k. Staked (D k) \<Longrightarrow> D' k = D k" using moveFirst_good [OF assms(1) 2(2)] by blast
    then have "D' ?k = d" using 2(1) d(1) by simp
    with 2 show ?thesis using doUnStake_good [OF m(1) assms(3)] by simp
  next
    case 3
    have s: "\<not> Staked (D ?k)" "\<not> Staked (d\<lparr>Waiting := False\<rparr>)" "\<not> Waiting (d\<lparr>Waiting := False\<rparr>)" using 3(1) d(1) by simp_all
    show ?thesis by (rule leave_held [OF assms(1,3) s(1) 3(2) s(2,3)]) (use 3(3) in \<open>auto intro: held_good\<close>)
  qed
qed

lemma unStakeAtEndOfEpoch_good:
  assumes "held E K s q D n" "unStakeAtEndOfEpoch E args s = (s', Ok)" "Arguments args ! 0 \<in> K"
  shows "good E K s'"
proof -
  let ?k = "Arguments args ! 0"
  let ?d = "(D ?k)\<lparr>Staked := False, UnStakedEpoch := CurrentEpoch E, UnStakedNonce := CurrentNonce E, Waiting := False\<rparr>"
  note h = held_parts [OF assms(1)]
  have g: "getOrCreateRegisteredData E ?k s = Inr (D ?k)" using view_data [OF h(1) assms(3)] .
  have nw: "\<not> (Staked (D ?k) \<and> Waiting (D ?k))" using h(3) assms(3) by (auto simp: staking_inv_def)
  have d: "\<not> Staked ?d" "\<not> Waiting ?d" by simp_all
  consider "s' = s" | "Staked (D ?k)" "saveStakingData E ?k ?d (removeFromStakedNodes E s) = (s', Inr ())"
    | s1 where "\<not> Staked (D ?k)" "removeFromWaitingList E ?k s = (s1, Inr ())" "saveStakingData E ?k ?d s1 = (s', Inr ())"
    using assms(2) g nw by (auto simp: unStakeAtEndOfEpoch_def Let_def thenOk_Ok split: if_splits)
  then show ?thesis
  proof cases
    case 1
    with assms(1) show ?thesis by (auto intro: held_good)
  next
    case 2
    show ?thesis by (rule unstake_held [OF assms(1,3) 2(1) d]) (use 2(2) in \<open>auto intro: held_good\<close>)
  next
    case 3
    show ?thesis by (rule leave_held [OF assms(1,3) 3(1,2) d]) (use 3(3) in \<open>auto intro: held_good\<close>)
  qed
qed

lemma unBond_good:
  assumes "held E K s q D n" "unBond E args s = (s', Ok)" "Arguments args ! 0 \<in> K"
  shows "good E K s'"
proof -
  let ?k = "Arguments args ! 0"
  note h = held_parts [OF assms(1)]
  have e: "s' = SetStorage ?k [] s" "\<not> Staked (D ?k)" "\<not> Waiting (D ?k)"
    using assms(2) view_data [OF h(1) assms(3)] by (auto simp: unBond_def Let_def split: if_splits)
  have "view E K s' q (D(?k := newRegistration)) n" unfolding e(1) by (rule view_set_key [OF h(1,2) assms(3)]) simp
  moreover have "staking_inv K q (D(?k := newRegistration)) n" using e by (intro inv_same [OF h(3)]) (simp_all add: newRegistration_def)
  ultimately show ?thesis by (rule goodI)
qed

subsection \<open>Jail, owners and configuration\<close>

lemma same_storage_good: "good E K s \<Longrightarrow> contractStorage s' = contractStorage s \<Longrightarrow> good E K s'"
  unfolding good_def using view_same_storage by blast

text \<open>One registration is read and saved with the same flags.\<close>

lemma resave_held:
  assumes "held E K s q D n" "k \<in> K" "saveStakingData E k d s = (s', r)" "Staked d = Staked (D k)" "Waiting d = Waiting (D k)"
  obtains D' where "held E K s' q D' n" "r = Inr ()"
  by (rule save_same [OF assms(1,2,4,5)]) (use assms(3) that in auto)

lemma jailLoop_good: "held E K s q D n \<Longrightarrow> set ks \<subseteq> K \<Longrightarrow> jailLoop E ks s = (s', Ok) \<Longrightarrow> good E K s'"
proof (induction ks arbitrary: s D)
  case (Cons k ks)
  let ?d = "(D k)\<lparr>JailedRound := CurrentRound E, JailedNonce := CurrentNonce E, Jailed := True, NumJailed := NumJailed (D k) + 1\<rparr>"
  have k: "k \<in> K" "set ks \<subseteq> K" using Cons.prems(2) by simp_all
  obtain s1 where s1: "saveStakingData E k ?d s = (s1, Inr ())" "jailLoop E ks s1 = (s', Ok)"
    using Cons.prems(3) view_data [OF held_parts(1) [OF Cons.prems(1)] k(1)] by (auto simp: thenOk_Ok split: if_splits)
  obtain D' where "held E K s1 q D' n" using resave_held [OF Cons.prems(1) k(1) s1(1)] by auto
  from Cons.IH [OF this k(2) s1(2)] show ?case .
qed (auto intro: held_good)

lemma unJailV1Loop_good: "held E K s q D n \<Longrightarrow> set ks \<subseteq> K \<Longrightarrow> unJailV1Loop E ks s = (s', Ok) \<Longrightarrow> good E K s'"
proof (induction ks arbitrary: s D)
  case (Cons k ks)
  let ?d = "(D k)\<lparr>JailedRound := - 1, UnJailedNonce := CurrentNonce E\<rparr>"
  let ?s = "if UnJailedNonce (D k) \<le> JailedNonce (D k) then removeFromJailedNodes E s else s"
  note h = held_parts [OF Cons.prems(1)]
  have k: "k \<in> K" "set ks \<subseteq> K" using Cons.prems(2) by simp_all
  have hs: "held E K ?s q D n" using view_removeFromJailedNodes [OF h(1,2)] h(1,2,3) by (simp add: held_def)
  obtain s1 where s1: "saveStakingData E k ?d ?s = (s1, Inr ())" "unJailV1Loop E ks s1 = (s', Ok)"
    using Cons.prems(3) view_data [OF h(1) k(1)] by (auto simp: thenOk_Ok Let_def split: if_splits)
  obtain D' where "held E K s1 q D' n" using resave_held [OF hs k(1) s1(1)] by auto
  from Cons.IH [OF this k(2) s1(2)] show ?case .
qed (auto intro: held_good)

lemma unJail_good:
  assumes "held E K s q D n" "quiet E s" "unJail E args s = (s', Ok)" "set (Arguments args) \<subseteq> K"
  shows "good E K s'"
proof (cases "StakeFlag E")
  case True
  let ?k = "Arguments args ! 0"
  let ?d = "(D ?k)\<lparr>JailedRound := - 1, UnJailedNonce := CurrentNonce E, Jailed := False\<rparr>"
  have d: "Staked ?d = Staked (D ?k)" "Waiting ?d = Waiting (D ?k)" by simp_all
  have "length (Arguments args) = 1" using assms(3) True by (auto simp: unJail_def split: if_splits)
  then have k: "?k \<in> K" using assms(4) by (auto simp: length_Suc_conv)
  obtain s1 d1 where "processStake E ?k ?d (NumJailed ?d = 1) s = (s1, Inr d1)" "saveStakingData E ?k d1 s1 = (s', Inr ())"
    using assms(3) True view_data [OF held_parts(1) [OF assms(1)] k] unfolding unJail_def Let_def
    by (auto simp: thenOk_Ok split: if_splits)
  from processStake_good [OF assms(1,2) k d this] show ?thesis .
next
  case False
  then have "unJailV1Loop E (Arguments args) s = (s', Ok)" using assms(3) by (auto simp: unJail_def unJailV1_def split: if_splits)
  from unJailV1Loop_good [OF assms(1,4) this] show ?thesis .
qed

lemma changeRewardLoop_good: "held E K s q D n \<Longrightarrow> set ks \<subseteq> K \<Longrightarrow> changeRewardLoop E a ks s = (s', Ok) \<Longrightarrow> good E K s'"
proof (induction ks arbitrary: s D)
  case (Cons k ks)
  have k: "k \<in> K" "set ks \<subseteq> K" using Cons.prems(2) by simp_all
  note g = view_data [OF held_parts(1) [OF Cons.prems(1)] k(1)]
  show ?case
  proof (cases "RewardAddress (D k) = []")
    case True
    then have "changeRewardLoop E a ks s = (s', Ok)" using Cons.prems(3) g by simp
    from Cons.IH [OF Cons.prems(1) k(2) this] show ?thesis .
  next
    case False
    obtain s1 where s1: "saveStakingData E k ((D k)\<lparr>RewardAddress := a\<rparr>) s = (s1, Inr ())" "changeRewardLoop E a ks s1 = (s', Ok)"
      using Cons.prems(3) g False by (auto simp: thenOk_Ok)
    obtain D' where "held E K s1 q D' n" using resave_held [OF Cons.prems(1) k(1) s1(1)] by auto
    from Cons.IH [OF this k(2) s1(2)] show ?thesis .
  qed
qed (auto intro: held_good)

text \<open>The keys of a list of keys and owners.\<close>

fun evens :: "'a list \<Rightarrow> 'a list" where
  "evens (x # _ # xs) = x # evens xs"
| "evens xs = []"

lemma setOwnersLoop_good: "held E K s q D n \<Longrightarrow> set (evens ks) \<subseteq> K \<Longrightarrow> setOwnersLoop E ks s = (s', Ok) \<Longrightarrow> good E K s'"
proof (induction ks arbitrary: s D rule: evens.induct)
  case (1 k a ks)
  have k: "k \<in> K" "set (evens ks) \<subseteq> K" using 1(3) by simp_all
  note g = view_data [OF held_parts(1) [OF 1(2)] k(1)]
  show ?case
  proof (cases "RewardAddress (D k) = []")
    case True
    then have "setOwnersLoop E ks s = (s', Ok)" using 1(4) g by simp
    from 1(1) [OF 1(2) k(2) this] show ?thesis .
  next
    case False
    obtain s1 where s1: "saveStakingData E k ((D k)\<lparr>OwnerAddress := a\<rparr>) s = (s1, Inr ())" "setOwnersLoop E ks s1 = (s', Ok)"
      using 1(4) g False by (auto simp: thenOk_Ok)
    obtain D' where "held E K s1 q D' n" using resave_held [OF 1(2) k(1) s1(1)] by auto
    from 1(1) [OF this k(2) s1(2)] show ?thesis .
  qed
qed (auto intro: held_good)

lemma changeOwnerLoop_good: "held E K s q D n \<Longrightarrow> set ks \<subseteq> K \<Longrightarrow> changeOwnerLoop E a ks s = (s', Ok) \<Longrightarrow> good E K s'"
proof (induction ks arbitrary: s D)
  case (Cons k ks)
  have k: "k \<in> K" "set ks \<subseteq> K" using Cons.prems(2) by simp_all
  obtain s1 where s1: "saveStakingData E k ((D k)\<lparr>OwnerAddress := a, RewardAddress := a\<rparr>) s = (s1, Inr ())" "changeOwnerLoop E a ks s1 = (s', Ok)"
    using Cons.prems(3) view_data [OF held_parts(1) [OF Cons.prems(1)] k(1)] by (auto simp: thenOk_Ok split: if_splits)
  obtain D' where "held E K s1 q D' n" using resave_held [OF Cons.prems(1) k(1) s1(1)] by auto
  from Cons.IH [OF this k(2) s1(2)] show ?case .
qed (auto intro: held_good)

lemma config_good:
  assumes "held E K s q D n" "StakedNodes c = StakedNodes (getConfig E s)"
  shows "good E K (setConfig E c s)"
proof -
  note h = held_parts [OF assms(1)]
  have "view E K (setConfig E c s) q D n" using view_setConfig [OF h(1,2), of c] assms(2) h(1) by (simp add: view_def)
  then show ?thesis using h(3) by (rule goodI)
qed

lemma updateConfig_good:
  assumes "held E K s q D n"
  shows "updateConfigMinNodes E args s = (s', Ok) \<Longrightarrow> good E K s'" "updateConfigMaxNodes E args s = (s', Ok) \<Longrightarrow> good E K s'"
proof -
  assume "updateConfigMinNodes E args s = (s', Ok)"
  then show "good E K s'" using config_good [OF assms] by (auto simp: updateConfigMinNodes_def Let_def split: if_splits)
next
  have f: "held E K (Finish v s) q D n" for v using assms view_Finish by (auto simp: held_def)
  assume "updateConfigMaxNodes E args s = (s', Ok)"
  then show "good E K s'" using config_good [OF f]
    by (auto simp: updateConfigMaxNodes_def Let_def getConfig_def split: if_splits)
qed

text \<open>A key that was chosen to be jailed and is replaced by the first one of the queue, if there is one.\<close>

lemma switchJailed_good:
  assumes "held E K s q D n" "switchJailedWithWaiting E args s = (s', Ok)" "Arguments args ! 0 \<in> K"
  shows "good E K s'"
proof -
  let ?k = "Arguments args ! 0"
  let ?d = "(D ?k)\<lparr>NumJailed := NumJailed (D ?k) + 1, Jailed := True, JailedNonce := CurrentNonce E\<rparr>"
  let ?u = "?d\<lparr>Staked := False, UnStakedEpoch := CurrentEpoch E, UnStakedNonce := CurrentNonce E, StakedNonce := - 1\<rparr>"
  note h = held_parts [OF assms(1)]
  note g = view_data [OF h(1) assms(3)]
  have st: "Staked (D ?k)" using assms(2) g by (auto simp: switchJailedWithWaiting_def Let_def split: if_splits)
  then have nq: "?k \<notin> set (fst q)" "\<not> Waiting (D ?k)" using h(3) assms(3) by (auto simp: staking_inv_def)
  have ne: "getWaitingListElement E (wk ?k) s = Inl ErrElementNotFound" by (rule queue_no_elem [OF view_queue [OF h(1)] assms(3) nq(1)])
  obtain s1 sw where mv: "moveFirstFromWaitingToStaked E s = (s1, Inr sw)"
      "thenOk (saveStakingData E ?k (snd (markJailed E sw ?d s1)) (fst (markJailed E sw ?d s1))) (\<lambda>s _. (s, Ok)) = (s', Ok)"
    using assms(2) g ne unfolding switchJailedWithWaiting_def moveFirstFromWaitingToStakedIfNeeded_def Let_def case_prod_unfold
    by (auto simp: thenOk_Ok simp del: stakedData.simps split: if_splits)
  then obtain s2 d2 where r: "moveFirstFromWaitingToStaked E s = (s1, Inr sw)" "markJailed E sw ?d s1 = (s2, d2)"
      "saveStakingData E ?k d2 s2 = (s', Inr ())"
    by (cases "markJailed E sw ?d s1") (auto simp: thenOk_Ok simp del: stakedData.simps)
  obtain q' D' n' where m: "held E K s1 q' D' n'" "\<And>k. Staked (D k) \<Longrightarrow> D' k = D k" using moveFirst_good [OF assms(1) r(1)] by blast
  then have D': "D' ?k = D ?k" using st by simp
  have cases: "s2 = s1 \<and> d2 = ?d \<or> s2 = removeFromStakedNodes E s1 \<and> d2 = ?u"
    using r(2) by (auto simp: markJailed_def tryRemoveJailedNodeFromStaked_def removeAndSetUnstaked_def simp del: stakedData.simps split: if_splits)
  then show ?thesis
  proof
    assume e: "s2 = s1 \<and> d2 = ?d"
    then have f: "Staked d2 = Staked (D' ?k)" "Waiting d2 = Waiting (D' ?k)" unfolding D' by simp_all
    show ?thesis by (rule save_same [OF m(1) assms(3) f]) (use r(3) e in \<open>auto intro: held_good simp del: stakedData.simps\<close>)
  next
    assume e: "s2 = removeFromStakedNodes E s1 \<and> d2 = ?u"
    then have f: "Staked (D' ?k)" "\<not> Staked d2" "\<not> Waiting d2" unfolding D' using st nq(2) by simp_all
    show ?thesis by (rule unstake_held [OF m(1) assms(3) f]) (use r(3) e in \<open>auto intro: held_good simp del: stakedData.simps\<close>)
  qed
qed

end
