(* ===== verification/Staking_Calls.thy ===== *)
theory Staking_Calls
  imports Staking_Runs
begin

text \<open>
  The functions of the staking contract on the whole queue keep the invariant, its views change nothing, and so every
  call by the system VM keeps it.
\<close>

subsection \<open>The queue at the end of an epoch\<close>

lemma resetLastUnJailed_good:
  assumes "held E K s q D n" "resetLastUnJailedFromQueue E args s = (s', Ok)"
  shows "good E K s'"
proof -
  obtain xs j where q: "q = (xs, j)" by (cases q)
  note h = held_parts [OF assms(1)]
  note hd = queue_head(1) [OF view_queue [OF h(1)]]
  show ?thesis
  proof (cases "xs = [] \<or> j = 0")
    case True
    then have "s' = s" using assms(2) hd q by (auto simp: resetLastUnJailedFromQueue_def headOf_def thenOk_Ok split: if_splits)
    with assms(1) show ?thesis by (auto intro: held_good)
  next
    case False
    have "(headOf xs j)\<lparr>LastJailedKey := []\<rparr> = headOf xs 0" by (simp add: headOf_def)
    then have e: "saveWaitingListHead E (headOf xs 0) s = (s', Inr ())"
      using assms(2) hd q False by (auto simp: resetLastUnJailedFromQueue_def thenOk_Ok split: if_splits) (simp_all add: headOf_def)
    have "staking_inv K (xs, 0) D n" using h(3) unfolding q staking_inv_def fst_conv .
    then show ?thesis using view_save_head [OF h(1) [unfolded q] h(2), of 0] False e by (auto intro: goodI)
  qed
qed

lemma fixWaitingListQueueSize_good:
  assumes "held E K s q D n" "fixWaitingListQueueSize E args s = (s', Ok)"
  shows "good E K s'"
proof -
  obtain xs j where q: "q = (xs, j)" by (cases q)
  note h = held_parts [OF assms(1)]
  note hd = queue_head(1,3) [OF view_queue [OF h(1)]]
  show ?thesis
  proof (cases "s' = s")
    case True
    with assms(1) show ?thesis by (auto intro: held_good)
  next
    case False
    then have ne: "xs \<noteq> []" using assms(2) hd q by (auto simp: fixWaitingListQueueSize_def split: if_splits)
    have j: "j \<le> length xs" using h(1) q by (auto simp: view_def queue_rep_def linked_pair)
    have fnd: "length (LastJailedKey (headOf xs j)) = 0 \<or> (\<exists>z \<in> set xs. LastJailedKey (headOf xs j) = wk z)"
      using j ne by (auto simp: headOf_def)
    have lw: "1 + of_nat (length xs - 1) = (of_nat (length xs) :: u32)" using ne by (cases xs) simp_all
    have "fixLoop E s (LastJailedKey (headOf xs j)) (length xs) 1 (wk (hd xs)) (length (LastJailedKey (headOf xs j)) = 0)
        = Inr (of_nat (length xs), wk (last xs), True)"
      using fixLoop_walk [of E K s "[]" xs j D n "length xs"] h(1,2) q ne fnd lw by simp
    moreover have "(headOf xs j)\<lparr>Length := of_nat (length xs), LastKey := wk (last xs)\<rparr> = headOf xs j" by (simp add: headOf_def)
    moreover have "FirstKey (headOf xs j) = wk (hd xs)" by (simp add: headOf_def)
    ultimately have e: "saveWaitingListHead E (headOf xs j) s = (s', Inr ())"
      using assms(2) hd q ne False by (auto simp: fixWaitingListQueueSize_def thenOk_Ok Let_def split: if_splits)
    show ?thesis using view_save_head [OF h(1) [unfolded q] h(2) ne j] h(3) q e by (auto intro: goodI)
  qed
qed

lemma addMissing_not_Ok:
  assumes "held E K s q D n" "Arguments args ! 0 \<in> K"
  shows "addMissingNodeToQueue E args s \<noteq> (s', Ok)"
proof -
  note h = held_parts [OF assms(1)]
  obtain r where r: "getFirstElementsFromWaitingList E (- 1) s = Inr r" "wrKeys r = fst q" using view_walk [OF h(1,2)] by blast
  show ?thesis
  proof (cases "Arguments args ! 0 \<in> set (fst q)")
    case True
    with r show ?thesis by (auto simp: addMissingNodeToQueue_def Let_def onOk_Ok)
  next
    case False
    have "getWaitingListElement E (wk (Arguments args ! 0)) s = Inl ErrElementNotFound"
      using queue_no_elem [OF view_queue [OF h(1)] assms(2) False] .
    then show ?thesis by (auto simp: addMissingNodeToQueue_def Let_def)
  qed
qed

lemma cleanLoop_good:
  assumes "held E K s q D n" "\<And>k d. (k, d) \<in> set ks \<Longrightarrow> k \<in> K \<and> \<not> Staked (D k)" "cleanLoop E ks c os us s = (s', Inr r)"
  shows "\<exists>q' D'. held E K s' q' D' n"
  using assms
proof (induction ks arbitrary: s q D c os us)
  case Nil
  then show ?case by (cases q) auto
next
  case (Cons kd ks)
  obtain k d where kd: "kd = (k, d)" by (cases kd)
  have k: "k \<in> K" "\<not> Staked (D k)" using Cons.prems(2) kd by auto
  obtain m c' where c: "checkValidatorFunds E c (OwnerAddress d) (stakeValue E) s = Inr (m, c')"
    using Cons.prems(3) kd by (auto split: sum.splits prod.splits)
  show ?case
  proof (cases "m = 0")
    case True
    then show ?thesis using Cons.IH [OF Cons.prems(1)] Cons.prems(2,3) kd c by fastforce
  next
    case False
    obtain s1 where s1: "removeFromWaitingList E k s = (s1, Inr ())" "view E K s1 (dequeue k q) D n"
      using view_remove [OF held_parts(1,2) [OF Cons.prems(1)] k(1)] .
    let ?d = "(D k)\<lparr>Staked := False, UnStakedEpoch := CurrentEpoch E, UnStakedNonce := CurrentNonce E, Waiting := False\<rparr>"
    have d: "\<not> Staked ?d" "\<not> Waiting ?d" by simp_all
    obtain s2 where s2: "saveStakingData E k ?d s1 = (s2, Inr ())" "held E K s2 (dequeue k q) (D(k := stored E ?d)) n"
      using leave_held [OF Cons.prems(1) k s1(1) d] by auto
    have rest: "cleanLoop E ks (c'(OwnerAddress d \<mapsto> m - 1)) (if OwnerAddress d \<in> set os then os else os @ [OwnerAddress d])
        (us(OwnerAddress d := us (OwnerAddress d) @ [k])) s2 = (s', Inr r)"
      using Cons.prems(3) kd c False s1(1) view_data [OF s1(2) k(1)] s2(1) by simp
    have "k' \<in> K \<and> \<not> Staked ((D(k := stored E ?d)) k')" if "(k', d') \<in> set ks" for k' d'
      using Cons.prems(2) that by auto
    with Cons.IH [OF s2(2) _ rest] show ?thesis by blast
  qed
qed

lemma zip_queue:
  assumes "held E K s q D n" "(k, d) \<in> set (zip (fst q) (map D (fst q)))"
  shows "k \<in> K" "\<not> Staked (D k)" "d = D k" "k \<in> set (fst q)"
proof -
  note h = held_parts [OF assms(1)]
  show k: "k \<in> set (fst q)" using assms(2) by (rule set_zip_leftD)
  then show K: "k \<in> K" using view_distinct(2) [OF h(1)] by blast
  then show "\<not> Staked (D k)" using h(3) k by (auto simp: staking_inv_def)
  show "d = D k" using assms(2) by (auto simp: zip_map2 zip_same_conv_map)
qed

lemma finishAll_storage [simp]: "contractStorage (finishAll vs s) = contractStorage s"
  unfolding finishAll_def by (induction vs arbitrary: s) (simp_all add: Finish_def)

lemma finishOwners_storage [simp]:
  "contractStorage (foldl (\<lambda>s owner. finishAll (us owner) (Finish owner s)) s os) = contractStorage s"
  by (induction os arbitrary: s) (simp_all add: Finish_def)

lemma cleanAdditionalQueue_good:
  assumes "held E K s q D n" "cleanAdditionalQueue E args s = (s', Ok)"
  shows "good E K s'"
proof -
  note h = held_parts [OF assms(1)]
  obtain r where r: "getFirstElementsFromWaitingList E (- 1) s = Inr r" "wrKeys r = fst q" "wrData r = map D (fst q)"
    using view_walk [OF h(1,2)] .
  show ?thesis
  proof (cases "fst q = []")
    case True
    then have "s' = s" using assms(2) r by (auto simp: cleanAdditionalQueue_def split: if_splits)
    with assms(1) show ?thesis by (auto intro: held_good)
  next
    case False
    then obtain s1 os us where l: "cleanLoop E (rev (zip (fst q) (map D (fst q)))) (\<lambda>_. None) [] (\<lambda>_. []) s = (s1, Inr (os, us))"
        "s' = foldl (\<lambda>s owner. finishAll (us owner) (Finish owner s)) s1 os"
      using assms(2) r by (auto simp: cleanAdditionalQueue_def cleanAdditionalQueueNotEnoughFunds_def thenOk_Ok split: if_splits)
    obtain q' D' where "held E K s1 q' D' n" using cleanLoop_good [OF assms(1) _ l(1)] zip_queue(1,2) [OF assms(1)] by auto
    with l(2) show ?thesis by (auto intro: same_storage_good [OF held_good])
  qed
qed

text \<open>While nodes are staked from the queue, the counter lags behind by the number of nodes staked so far.\<close>

lemma stakeFromQueueLoop_good:
  assumes "view E K s q D n" "staking_env_ok E K" "staking_inv K q D (n + v)" "distinct (map fst ks)"
    and "\<And>k d. (k, d) \<in> set ks \<Longrightarrow> k \<in> K \<and> \<not> Staked (D k)" "stakeFromQueueLoop E p m ks c v s = (s', Inr v')"
  shows "\<exists>q' D'. view E K s' q' D' n \<and> staking_inv K q' D' (n + v')"
  using assms
proof (induction ks arbitrary: s q D c v)
  case Nil
  then show ?case by (cases q) auto
next
  case (Cons kd ks)
  obtain k d where kd: "kd = (k, d)" by (cases kd)
  have k: "k \<in> K" "\<not> Staked (D k)" using Cons.prems(5) kd by auto
  show ?case
  proof (cases "v \<ge> m")
    case True
    then show ?thesis using Cons.prems kd by (cases q) auto
  next
    case v: False
    then obtain w c' where c: "checkValidatorFunds E c (OwnerAddress d) p s = Inr (w, c')"
      using Cons.prems(6) kd by (auto split: sum.splits prod.splits)
    show ?thesis
    proof (cases "w > 0")
      case True
      then show ?thesis using Cons.IH [OF Cons.prems(1-3)] Cons.prems(4-6) kd c v by fastforce
    next
      case False
      let ?D = "D(k := stored E (activeStakingFor E d))"
      obtain s1 where s1: "saveStakingData E k (activeStakingFor E d) s = (s1, Inr ())" "view E K s1 q ?D n"
        using view_save [OF Cons.prems(1,2) k(1)] .
      obtain s2 where s2: "removeFromWaitingList E k s1 = (s2, Inr ())" "view E K s2 (dequeue k q) ?D n"
        using view_remove [OF s1(2) Cons.prems(2) k(1)] .
      have "staking_inv K (dequeue k q) ?D (n + v + 1)"
        using k Cons.prems(2,3) view_distinct(1) [OF Cons.prems(1)]
        by (intro inv_stake) (auto simp: staking_env_ok_def bls_keys_def)
      then have inv: "staking_inv K (dequeue k q) ?D (n + (v + 1))" by (simp only: add.assoc)
      have rest: "stakeFromQueueLoop E p m ks c' (v + 1) (Finish (RewardAddress d) (Finish k s2)) = (s', Inr v')"
        using Cons.prems(6) kd c v False s1(1) s2(1) by simp
      have "k' \<in> K \<and> \<not> Staked (?D k')" if "(k', d') \<in> set ks" for k' d'
      proof -
        have "k' \<noteq> k" using Cons.prems(4) kd that by (force simp: image_iff)
        then show ?thesis using Cons.prems(5) that by auto
      qed
      from Cons.IH [OF view_Finish [OF view_Finish [OF s2(2)]] Cons.prems(2) inv _ this rest] Cons.prems(4) show ?thesis by simp
    qed
  qed
qed

lemma stakeNodesFromQueue_good:
  assumes "held E K s q D n" "stakeNodesFromQueue E args s = (s', Ok)"
  shows "good E K s'"
proof -
  note h = held_parts [OF assms(1)]
  obtain r where r: "getFirstElementsFromWaitingList E (- 1) s = Inr r" "wrKeys r = fst q" "wrData r = map D (fst q)"
    using view_walk [OF h(1,2)] .
  show ?thesis
  proof (cases "fst q = []")
    case True
    then have "s' = s" using assms(2) r by (auto simp: stakeNodesFromQueue_def split: if_splits)
    with assms(1) show ?thesis by (auto intro: held_good)
  next
    case False
    then obtain p m s1 v where l: "stakeFromQueueLoop E p m (zip (fst q) (map D (fst q))) (\<lambda>_. None) 0 s = (s1, Inr v)"
        "s' = addToStakedNodes E v s1"
      using assms(2) r by (auto simp: stakeNodesFromQueue_def Let_def thenOk_Ok split: if_splits)
    have "distinct (map fst (zip (fst q) (map D (fst q))))" using h(6) by simp
    then obtain q' D' where "view E K s1 q' D' n" "staking_inv K q' D' (n + v)"
      using stakeFromQueueLoop_good [OF h(1,2) _ _ _ l(1)] h(3) zip_queue(1,2) [OF assms(1)] by auto
    then show ?thesis unfolding l(2) by (intro goodI [OF view_addToStakedNodes [OF _ h(2)]])
  qed
qed

subsection \<open>The end of the queue\<close>

text \<open>A storage whose elements are being deleted: only the keys in \<open>A\<close> may still have one.\<close>

definition loose :: "stakingEnv \<Rightarrow> bytes set \<Rightarrow> bytes set \<Rightarrow> stakingState \<Rightarrow> (bytes \<Rightarrow> stakedData) \<Rightarrow> u64 \<Rightarrow> bool" where
  "loose E K A s D n \<longleftrightarrow> (\<forall>k \<in> K - A. GetStorage (wk k) s = []) \<and>
     (\<forall>k \<in> K. getOrCreateRegisteredData E k s = Inr (D k)) \<and> StakedNodes (getConfig E s) = n"

lemma loose_view:
  assumes "view E K s q D n"
  shows "loose E K (set (fst q)) s D n"
proof -
  obtain xs j where q: "q = (xs, j)" by (cases q)
  obtain f h where "sees E K s f h" "linked K (xs, j) f h" using assms q by (auto simp: view_def queue_rep_def)
  then have "GetStorage (wk k) s = []" if "k \<in> K - set (fst q)" for k
    using that q sees_empty [of E K s f h k] by (simp add: linked_pair)
  with assms show ?thesis by (simp add: loose_def view_def)
qed

lemma view_loose:
  assumes "loose E K {} s D n" "staking_env_ok E K"
  shows "view E K (SetStorage waitingListHeadKey [] s) ([], 0) D n"
proof -
  let ?s = "SetStorage waitingListHeadKey [] s"
  have "queue_rep E K ?s ([], 0)"
    unfolding queue_rep_def using assms(1)
    by (intro exI [of _ "\<lambda>_. None"] exI [of _ None]) (simp add: sees_def linked_pair loose_def)
  moreover have "waitingListHeadKey \<notin> K" using assms(2) by (simp add: staking_env_ok_def bls_keys_def)
  then have "getOrCreateRegisteredData E k ?s = getOrCreateRegisteredData E k s" if "k \<in> K" for k
    using that by (auto simp: getOrCreateRegisteredData_def)
  moreover have "getConfig E ?s = getConfig E s" by (simp add: getConfig_def)
  ultimately show ?thesis using assms(1) by (simp add: view_def loose_def)
qed

lemma loose_step:
  assumes "loose E K A s D n" "staking_env_ok E K" "k \<in> K" "doUnStake E k d s = (s1, c)"
  shows "c = Ok" "\<exists>d'. \<not> Staked d' \<and> \<not> Waiting d' \<and> loose E K (A - {k}) (SetStorage (wk k) [] s1) (D(k := d')) n"
proof -
  let ?d = "d\<lparr>Staked := False, UnStakedEpoch := CurrentEpoch E, UnStakedNonce := CurrentNonce E, Waiting := False\<rparr>"
  obtain b where b: "saveStakingData E k ?d s = (SetStorage k b s, Inr ())" "b \<noteq> []" "unmarshalStaked E b = Inr (stored E ?d)"
    using save_writes [OF env_parts(4) [OF assms(2)]] .
  then have s1: "s1 = SetStorage k b s" "c = Ok" using assms(4) by (simp_all add: doUnStake_def)
  then show "c = Ok" by simp
  have k: "k \<noteq> nodesConfigKey" using assms(2,3) by (auto simp: staking_env_ok_def bls_keys_def)
  have wk: "wk a \<noteq> k'" if "a \<in> K" "k' \<in> K" for a k' using wk_not_key [OF env_parts(2) [OF assms(2)]] that by blast
  have "getOrCreateRegisteredData E k' (SetStorage (wk k) [] s1) = Inr ((D(k := stored E ?d)) k')" if "k' \<in> K" for k'
    using that assms(1,3) b(2,3) wk [of k k'] unfolding s1 by (auto simp: getOrCreateRegisteredData_def loose_def)
  moreover have "GetStorage (wk k') (SetStorage (wk k) [] s1) = []" if "k' \<in> K - (A - {k})" for k'
    using that assms(1,3) wk [of k' k] unfolding s1 by (auto simp: loose_def)
  moreover have "getConfig E (SetStorage (wk k) [] s1) = getConfig E s" using k unfolding s1 by (simp add: getConfig_def)
  ultimately have "loose E K (A - {k}) (SetStorage (wk k) [] s1) (D(k := stored E ?d)) n" using assms(1) unfolding loose_def by simp
  then show "\<exists>d'. \<not> Staked d' \<and> \<not> Waiting d' \<and> loose E K (A - {k}) (SetStorage (wk k) [] s1) (D(k := d')) n"
    by (intro exI [of _ "stored E ?d"]) simp
qed

lemma unStakeAllLoop_loose:
  assumes "loose E K A s D n" "staking_env_ok E K" "fst ` set ks \<subseteq> K"
  shows "\<exists>s' r D'. unStakeAllLoop E ks os ok s = (s', Inr r) \<and> loose E K (A - fst ` set ks) s' D' n \<and>
    (\<forall>k. if k \<in> fst ` set ks then \<not> Staked (D' k) \<and> \<not> Waiting (D' k) else D' k = D k)"
  using assms
proof (induction ks arbitrary: A s D os ok)
  case Nil
  then show ?case by auto
next
  case (Cons kd ks)
  obtain k d where kd: "kd = (k, d)" by (cases kd)
  have k: "k \<in> K" "fst ` set ks \<subseteq> K" using Cons.prems(3) kd by auto
  obtain s1 c where dn: "doUnStake E k d s = (s1, c)" by fastforce
  obtain d' where c: "c = Ok" "\<not> Staked d'" "\<not> Waiting d'" "loose E K (A - {k}) (SetStorage (wk k) [] s1) (D(k := d')) n"
    using loose_step [OF Cons.prems(1,2) k(1) dn] by blast
  have A: "A - {k} - fst ` set ks = A - fst ` set (kd # ks)" using kd by auto
  obtain s' r D' where i: "unStakeAllLoop E ks (if OwnerAddress d \<in> set os then os else os @ [OwnerAddress d])
      (ok(OwnerAddress d := ok (OwnerAddress d) @ [k])) (SetStorage (wk k) [] s1) = (s', Inr r)"
      "loose E K (A - fst ` set (kd # ks)) s' D' n"
      "\<forall>x. if x \<in> fst ` set ks then \<not> Staked (D' x) \<and> \<not> Waiting (D' x) else D' x = (D(k := d')) x"
    using Cons.IH [OF c(4) Cons.prems(2) k(2)] unfolding A by blast
  have l: "unStakeAllLoop E (kd # ks) os ok s = (s', Inr r)" using i(1) kd dn c(1) by simp
  have "if x \<in> fst ` set (kd # ks) then \<not> Staked (D' x) \<and> \<not> Waiting (D' x) else D' x = D x" for x
    using i(3) [rule_format, of x] c(2,3) kd by (cases "x \<in> fst ` set ks"; cases "x = k") simp_all
  with l i(2) show ?case by blast
qed

definition dest_keeps_storage :: "stakingEnv \<Rightarrow> bool" where
  "dest_keeps_storage E \<longleftrightarrow> (\<forall>dst snd input s. contractStorage (fst (ExecuteOnDestContext E dst snd input s)) = contractStorage s)"

lemma tellOwners_storage: "dest_keeps_storage E \<Longrightarrow> contractStorage (fst (tellOwners E a os ok s)) = contractStorage s"
proof (induction os arbitrary: s)
  case (Cons o' os)
  have "contractStorage (fst (executeOnStakeAtEndOfEpoch E o' ks a s)) = contractStorage s" for ks s
    using Cons.prems unfolding dest_keeps_storage_def executeOnStakeAtEndOfEpoch_def thenOk_def
    by (auto simp: case_prod_unfold split: sum.splits)
  with Cons show ?case by (auto simp: case_prod_unfold)
qed simp

lemma unStakeAllNodesFromQueue_good:
  assumes "held E K s q D n" "unStakeAllNodesFromQueue E args s = (s', Ok)" "dest_keeps_storage E"
  shows "good E K s'"
proof -
  note h = held_parts [OF assms(1)]
  obtain r where r: "getFirstElementsFromWaitingList E (- 1) s = Inr r" "wrKeys r = fst q" "wrData r = map D (fst q)"
    using view_walk [OF h(1,2)] .
  let ?ks = "zip (fst q) (map D (fst q))"
  have ks: "fst ` set ?ks = set (fst q)" by (metis length_map list.set_map map_fst_zip)
  obtain s1 os ok D' where l: "unStakeAllLoop E ?ks [] (\<lambda>_. []) s = (s1, Inr (os, ok))" "loose E K {} s1 D' n"
      "\<forall>k. if k \<in> set (fst q) then \<not> Staked (D' k) \<and> \<not> Waiting (D' k) else D' k = D k"
    using unStakeAllLoop_loose [OF loose_view [OF h(1)] h(2), of ?ks "[]" "\<lambda>_. []"] view_distinct(2) [OF h(1)] unfolding ks by auto
  have "{k \<in> K. Staked (D' k)} = {k \<in> K. Staked (D k)}"
    using l(3) h(3) by (auto simp: staking_inv_def split: if_splits)
  then have inv: "staking_inv K ([], 0) D' n" using l(3) h(3) by (fastforce simp: staking_inv_def split: if_splits)
  have "s' = s \<or> contractStorage s' = contractStorage (SetStorage waitingListHeadKey [] s1)"
    using assms(2) r l(1) tellOwners_storage [OF assms(3), of "RecipientAddr args" os ok "SetStorage waitingListHeadKey [] s1"]
    by (auto simp: unStakeAllNodesFromQueue_def split: if_splits)
  then show ?thesis
    using held_good [OF assms(1)] same_storage_good [OF goodI [OF view_loose [OF l(2) h(2)] inv]] by blast
qed

subsection \<open>Views\<close>

lemma finishWaiting_storage [simp]: "contractStorage (finishWaiting ks s) = contractStorage s"
  by (induction ks s rule: finishWaiting.induct) (simp_all add: Finish_def)

lemma onOk_storage:
  assumes "\<And>a. contractStorage (fst (f a)) = contractStorage s"
  shows "contractStorage (fst (onOk r s f)) = contractStorage s"
  using assms by (cases r) simp_all

lemma view_storage:
  "contractStorage (fst (get_staking E args s)) = contractStorage s"
  "contractStorage (fst (isStaked E args s)) = contractStorage s"
  "contractStorage (fst (slash s)) = contractStorage s"
  "contractStorage (fst (getRewardAddress E args s)) = contractStorage s"
  "contractStorage (fst (getBLSKeyStatus E args s)) = contractStorage s"
  "contractStorage (fst (getTotalNumberOfRegisteredNodes E args s)) = contractStorage s"
  "contractStorage (fst (getRemainingUnbondPeriod E args s)) = contractStorage s"
  "contractStorage (fst (getOwner E args s)) = contractStorage s"
  "contractStorage (fst (getWaitingListIndex E args s)) = contractStorage s"
  "contractStorage (fst (getWaitingListSize E args s)) = contractStorage s"
  "contractStorage (fst (getWaitingListRegisterNonceAndRewardAddress E args s)) = contractStorage s"
  "contractStorage (fst (changeValidatorKey E args s)) = contractStorage s"
  by (simp_all add: get_staking_def isStaked_def slash_def getRewardAddress_def getBLSKeyStatus_def getTotalNumberOfRegisteredNodes_def
    getRemainingUnbondPeriod_def getOwner_def getWaitingListIndex_def getWaitingListSize_def changeValidatorKey_def
    getWaitingListRegisterNonceAndRewardAddress_def onOk_storage Let_def Finish_def split: sum.split option.split)

subsection \<open>Calls\<close>

text \<open>The keys a call is about.\<close>

definition oneKeyFunctions :: "string list" where
  "oneKeyFunctions = [''stake'', ''register'', ''unStake'', ''unBond'', ''switchJailedWithWaiting'', ''unStakeAtEndOfEpoch'',
     ''addMissingNodeToQueue'']"

definition callKeys :: "contractCallInput \<Rightarrow> bytes list" where
  "callKeys args = (let f = Function args in
     if f \<in> set oneKeyFunctions then take 1 (Arguments args)
     else if f = ''jail'' \<or> f = ''unJail'' then Arguments args
     else if f = ''changeRewardAddress'' \<or> f = ''changeOwnerAndRewardAddress'' then drop 1 (Arguments args)
     else if f = ''setOwnersOnAddresses'' then evens (Arguments args)
     else [])"

text \<open>
  What is asked of a call: its keys are in \<open>K\<close>, and no key is staked the new way, without the queue, while keys wait.
\<close>

definition call_ok :: "stakingEnv \<Rightarrow> bytes set \<Rightarrow> contractCallInput \<Rightarrow> stakingState \<Rightarrow> bool" where
  "call_ok E K args s \<longleftrightarrow> staking_env_ok E K \<and> dest_keeps_storage E \<and> set (callKeys args) \<subseteq> K \<and>
     (Function args = ''stake'' \<or> Function args = ''unJail'' \<longrightarrow> quiet E s)"

lemma callKeys_simps:
  "Function args = ''jail'' \<Longrightarrow> callKeys args = Arguments args"
  "Function args = ''unJail'' \<Longrightarrow> callKeys args = Arguments args"
  "Function args = ''changeRewardAddress'' \<Longrightarrow> callKeys args = drop 1 (Arguments args)"
  "Function args = ''changeOwnerAndRewardAddress'' \<Longrightarrow> callKeys args = drop 1 (Arguments args)"
  "Function args = ''setOwnersOnAddresses'' \<Longrightarrow> callKeys args = evens (Arguments args)"
  by (simp_all add: callKeys_def oneKeyFunctions_def)

definition ok_good :: "stakingEnv \<Rightarrow> bytes set \<Rightarrow> stakingState \<times> returnCode \<Rightarrow> bool" where
  "ok_good E K r \<longleftrightarrow> (snd r = Ok \<longrightarrow> good E K (fst r))"

lemma ok_goodI: "(\<And>s'. r = (s', Ok) \<Longrightarrow> good E K s') \<Longrightarrow> ok_good E K r"
  by (cases r) (simp add: ok_good_def)

lemma ok_good_if: "(c \<Longrightarrow> ok_good E K a) \<Longrightarrow> (\<not> c \<Longrightarrow> ok_good E K b) \<Longrightarrow> ok_good E K (if c then a else b)"
  by simp

lemma ok_good_same: "good E K s \<Longrightarrow> contractStorage (fst r) = contractStorage s \<Longrightarrow> ok_good E K r"
  using same_storage_good by (auto simp: ok_good_def)

lemma first_key:
  assumes "call_ok E K args s" "Function args \<in> set oneKeyFunctions" "Arguments args \<noteq> []"
  shows "Arguments args ! 0 \<in> K"
proof -
  have "set (take 1 (Arguments args)) \<subseteq> K" using assms(1,2) by (simp add: call_ok_def callKeys_def)
  then show ?thesis using assms(3) by (cases "Arguments args") simp_all
qed

lemma needs_argument:
  "stake E args b s = (s', Ok) \<Longrightarrow> Arguments args \<noteq> []" "unStake E args s = (s', Ok) \<Longrightarrow> Arguments args \<noteq> []"
  "unBond E args s = (s', Ok) \<Longrightarrow> Arguments args \<noteq> []" "switchJailedWithWaiting E args s = (s', Ok) \<Longrightarrow> Arguments args \<noteq> []"
  "unStakeAtEndOfEpoch E args s = (s', Ok) \<Longrightarrow> Arguments args \<noteq> []" "addMissingNodeToQueue E args s = (s', Ok) \<Longrightarrow> Arguments args \<noteq> []"
  by (auto simp: stake_def unStake_def unStakeV1_def unStakeV2_def checkUnStakeArgs_def unBond_def switchJailedWithWaiting_def
    unStakeAtEndOfEpoch_def addMissingNodeToQueue_def split: if_splits)

lemma one_key_good:
  assumes "held E K s q D n" "call_ok E K args s" "Function args \<in> set oneKeyFunctions"
  shows "b \<or> quiet E s \<Longrightarrow> ok_good E K (stake E args b s)" "ok_good E K (unStake E args s)" "ok_good E K (unBond E args s)"
    "ok_good E K (switchJailedWithWaiting E args s)" "ok_good E K (unStakeAtEndOfEpoch E args s)" "ok_good E K (addMissingNodeToQueue E args s)"
proof -
  note k = first_key [OF assms(2,3)]
  show "ok_good E K (stake E args b s)" if "b \<or> quiet E s"
    by (rule ok_goodI, rule stake_good [OF assms(1) that], assumption, rule k, rule needs_argument(1))
  show "ok_good E K (unStake E args s)" by (rule ok_goodI, rule unStake_good [OF assms(1)], assumption, rule k, rule needs_argument(2))
  show "ok_good E K (unBond E args s)" by (rule ok_goodI, rule unBond_good [OF assms(1)], assumption, rule k, rule needs_argument(3))
  show "ok_good E K (switchJailedWithWaiting E args s)" by (rule ok_goodI, rule switchJailed_good [OF assms(1)], assumption, rule k, rule needs_argument(4))
  show "ok_good E K (unStakeAtEndOfEpoch E args s)" by (rule ok_goodI, rule unStakeAtEndOfEpoch_good [OF assms(1)], assumption, rule k, rule needs_argument(5))
  show "ok_good E K (addMissingNodeToQueue E args s)"
    by (intro ok_goodI) (use addMissing_not_Ok [OF assms(1) k [OF needs_argument(6)]] in blast)
qed

lemma many_keys_good:
  assumes "held E K s q D n" "call_ok E K args s"
  shows "Function args = ''jail'' \<Longrightarrow> ok_good E K (jail E args s)"
    and "Function args = ''unJail'' \<Longrightarrow> ok_good E K (unJail E args s)"
    and "Function args = ''changeRewardAddress'' \<Longrightarrow> ok_good E K (changeRewardAddress E args s)"
    and "Function args = ''setOwnersOnAddresses'' \<Longrightarrow> ok_good E K (setOwnersOnAddresses E args s)"
    and "Function args = ''changeOwnerAndRewardAddress'' \<Longrightarrow> ok_good E K (changeOwnerAndRewardAddress E args s)"
proof -
  have keys: "set (callKeys args) \<subseteq> K" and q: "Function args = ''unJail'' \<Longrightarrow> quiet E s"
    using assms(2) unfolding call_ok_def by blast+
  show "ok_good E K (jail E args s)" if f: "Function args = ''jail''"
    by (rule ok_goodI, rule jailLoop_good [OF assms(1)])
      (use keys callKeys_simps(1) [OF f] in \<open>auto simp: jail_def split: if_splits\<close>)
  show "ok_good E K (unJail E args s)" if f: "Function args = ''unJail''"
    using keys callKeys_simps(2) [OF f] by (intro ok_goodI unJail_good [OF assms(1) q [OF f]]) simp_all
  show "ok_good E K (changeRewardAddress E args s)" if f: "Function args = ''changeRewardAddress''"
    by (rule ok_goodI, rule changeRewardLoop_good [OF assms(1)])
      (use keys callKeys_simps(3) [OF f] in \<open>auto simp: changeRewardAddress_def split: if_splits\<close>)
  show "ok_good E K (setOwnersOnAddresses E args s)" if f: "Function args = ''setOwnersOnAddresses''"
    by (rule ok_goodI, rule setOwnersLoop_good [OF assms(1)])
      (use keys callKeys_simps(5) [OF f] in \<open>auto simp: setOwnersOnAddresses_def split: if_splits\<close>)
  show "ok_good E K (changeOwnerAndRewardAddress E args s)" if f: "Function args = ''changeOwnerAndRewardAddress''"
    by (rule ok_goodI, rule changeOwnerLoop_good [OF assms(1)])
      (use keys callKeys_simps(4) [OF f] in \<open>auto simp: changeOwnerAndRewardAddress_def split: if_splits\<close>)
qed

lemma queue_handlers_good:
  assumes "held E K s q D n" "dest_keeps_storage E"
  shows "ok_good E K (updateConfigMinNodes E args s)" "ok_good E K (updateConfigMaxNodes E args s)"
    "ok_good E K (stakeNodesFromQueue E args s)" "ok_good E K (resetLastUnJailedFromQueue E args s)"
    "ok_good E K (cleanAdditionalQueue E args s)" "ok_good E K (fixWaitingListQueueSize E args s)"
    "ok_good E K (unStakeAllNodesFromQueue E args s)"
  using assms by (auto intro!: ok_goodI intro: updateConfig_good stakeNodesFromQueue_good resetLastUnJailed_good cleanAdditionalQueue_good
    fixWaitingListQueueSize_good unStakeAllNodesFromQueue_good)

lemma oneKey_members [simp]: "''stake'' \<in> set oneKeyFunctions" "''register'' \<in> set oneKeyFunctions" "''unStake'' \<in> set oneKeyFunctions"
  "''unBond'' \<in> set oneKeyFunctions" "''switchJailedWithWaiting'' \<in> set oneKeyFunctions" "''unStakeAtEndOfEpoch'' \<in> set oneKeyFunctions"
  "''addMissingNodeToQueue'' \<in> set oneKeyFunctions"
  by (simp_all add: oneKeyFunctions_def)

lemma dispatch_good:
  assumes "held E K s q D n" "call_ok E K args s" "Function args \<noteq> ''_init''"
  shows "ok_good E K (dispatch E args s)"
proof -
  have d: "dest_keeps_storage E" and q: "Function args = ''stake'' \<Longrightarrow> quiet E s" using assms(2) by (simp_all add: call_ok_def)
  note h = many_keys_good [OF assms(1,2)] queue_handlers_good [OF assms(1) d] one_key_good(2-6) [OF assms(1,2)]
    one_key_good(1) [OF assms(1,2)]
  show ?thesis unfolding dispatch_def Let_def
    apply (intro ok_good_if)
    subgoal using assms(3) by contradiction
    subgoal by (rule h(18)) (simp_all add: q)
    subgoal by (rule h(18)) simp_all
    by ((rule h, assumption) | (rule h, simp; fail) | (rule h; fail) | (rule ok_good_same [OF held_good [OF assms(1)] view_storage(1)])
      | (rule ok_good_same [OF held_good [OF assms(1)]], simp only: view_storage; fail) | (simp add: ok_good_def; fail))+
qed

end
