(* ===== verification/Staking_Codec.thy ===== *)
theory Staking_Codec
  imports Staking_Calls
begin

text \<open>
  A concrete environment for the staking contract. The source's marshaller is not part of the repository; this codec
  puts every field into a frame of its own and meets what the theorems ask of a marshaller.
\<close>

subsection \<open>Frames\<close>

definition putField :: "bytes \<Rightarrow> bytes" where
  "putField s = replicate (length s) 1 @ 0 # s"

definition takeField :: "bytes \<Rightarrow> bytes \<times> bytes" where
  "takeField bs = (let n = length (takeWhile (\<lambda>b. b = 1) bs); rest = drop (Suc n) bs in (take n rest, drop n rest))"

fun takeFields :: "nat \<Rightarrow> bytes \<Rightarrow> bytes list" where
  "takeFields 0 bs = []"
| "takeFields (Suc n) bs = (case takeField bs of (x, rest) \<Rightarrow> x # takeFields n rest)"

lemma takeField_putField: "takeField (putField s @ t) = (s, t)"
proof -
  have "takeWhile (\<lambda>b. b = 1) (replicate (length s) 1 @ (0 :: byte) # s @ t) = replicate (length s) 1"
    by (subst takeWhile_append2) simp_all
  then show ?thesis by (simp add: takeField_def putField_def Let_def)
qed

lemma takeFields_putField: "n = length xs \<Longrightarrow> takeFields n (concat (map putField xs)) = xs"
  by (induction xs arbitrary: n) (auto simp: takeField_putField)

lemma putField_nonempty [simp]: "putField s \<noteq> []"
  by (simp add: putField_def)

subsection \<open>Numbers\<close>

definition wordField :: "'a::len word \<Rightarrow> bytes" where
  "wordField w = natBytes (uint w)"

definition wordOf :: "bytes \<Rightarrow> 'a::len word" where
  "wordOf bs = of_int (fromBytes bs)"

definition boolField :: "bool \<Rightarrow> bytes" where
  "boolField b = (if b then [1] else [])"

lemma wordOf_wordField [simp]: "wordOf (wordField w) = w"
  by (simp add: wordOf_def wordField_def)

lemma boolField_empty [simp]: "boolField b \<noteq> [] \<longleftrightarrow> b" "boolField b = [] \<longleftrightarrow> \<not> b"
  by (simp_all add: boolField_def)

subsection \<open>The messages\<close>

definition elementFields :: "elementInList \<Rightarrow> bytes list" where
  "elementFields e = [BLSPublicKey e, PreviousKey e, NextKey e]"

definition headFields :: "waitingList \<Rightarrow> bytes list" where
  "headFields w = [FirstKey w, LastKey w, wordField (Length w), LastJailedKey w]"

definition configFields :: "stakingNodesConfig \<Rightarrow> bytes list" where
  "configFields c = [wordField (MinNumNodes c), wordField (MaxNumNodes c), wordField (StakedNodes c), wordField (JailedNodes c)]"

text \<open>A big integer is a frame for its sign and one for its absolute value.\<close>

definition stakedFields :: "stakedData \<Rightarrow> bytes list" where
  "stakedFields d = [wordField (RegisterNonce d), wordField (StakedNonce d), boolField (Staked d), wordField (UnStakedNonce d),
     wordField (UnStakedEpoch d), RewardAddress d, boolField (StakeValue d < 0), natBytes \<bar>StakeValue d\<bar>, wordField (JailedRound d),
     wordField (JailedNonce d), wordField (UnJailedNonce d), boolField (Jailed d), boolField (Waiting d), wordField (NumJailed d),
     boolField (SlashValue d < 0), natBytes \<bar>SlashValue d\<bar>, OwnerAddress d]"

definition intOf :: "bytes \<Rightarrow> bytes \<Rightarrow> int" where
  "intOf sign bs = (if sign \<noteq> [] then - fromBytes bs else fromBytes bs)"

lemma intOf_fields [simp]: "intOf (boolField (z < 0)) (natBytes \<bar>z\<bar>) = z"
  by (simp add: intOf_def)

definition putFields :: "bytes list \<Rightarrow> bytes" where
  "putFields xs = concat (map putField xs)"

definition elementOf :: "bytes \<Rightarrow> staking_error + elementInList" where
  "elementOf bs = (let x = takeFields 3 bs in Inr \<lparr>BLSPublicKey = x ! 0, PreviousKey = x ! 1, NextKey = x ! 2\<rparr>)"

definition headOfBytes :: "bytes \<Rightarrow> staking_error + waitingList" where
  "headOfBytes bs = (let x = takeFields 4 bs in Inr \<lparr>FirstKey = x ! 0, LastKey = x ! 1, Length = wordOf (x ! 2), LastJailedKey = x ! 3\<rparr>)"

definition configOf :: "bytes \<Rightarrow> staking_error + stakingNodesConfig" where
  "configOf bs = (let x = takeFields 4 bs in
     Inr \<lparr>MinNumNodes = wordOf (x ! 0), MaxNumNodes = wordOf (x ! 1), StakedNodes = wordOf (x ! 2), JailedNodes = wordOf (x ! 3)\<rparr>)"

definition stakedOf :: "bytes \<Rightarrow> staking_error + stakedData" where
  "stakedOf bs = (let x = takeFields 17 bs in
     Inr \<lparr>RegisterNonce = wordOf (x ! 0), StakedNonce = wordOf (x ! 1), Staked = (x ! 2 \<noteq> []), UnStakedNonce = wordOf (x ! 3),
       UnStakedEpoch = wordOf (x ! 4), RewardAddress = x ! 5, StakeValue = intOf (x ! 6) (x ! 7), JailedRound = wordOf (x ! 8),
       JailedNonce = wordOf (x ! 9), UnJailedNonce = wordOf (x ! 10), Jailed = (x ! 11 \<noteq> []), Waiting = (x ! 12 \<noteq> []),
       NumJailed = wordOf (x ! 13), SlashValue = intOf (x ! 14) (x ! 15), OwnerAddress = x ! 16\<rparr>)"

lemma takeFields_put:
  "takeFields 3 (putFields (elementFields e)) = elementFields e" "takeFields 4 (putFields (headFields w)) = headFields w"
  "takeFields 4 (putFields (configFields c)) = configFields c" "takeFields 17 (putFields (stakedFields d)) = stakedFields d"
  unfolding putFields_def
  by (rule takeFields_putField, simp add: elementFields_def headFields_def configFields_def stakedFields_def)+

lemma codec_roundtrips:
  "elementOf (putFields (elementFields e)) = Inr e" "headOfBytes (putFields (headFields w)) = Inr w"
  "configOf (putFields (configFields c)) = Inr c" "stakedOf (putFields (stakedFields d)) = Inr d"
  unfolding elementOf_def headOfBytes_def configOf_def stakedOf_def Let_def takeFields_put
  by (simp_all add: elementFields_def headFields_def configFields_def stakedFields_def)

lemma fields_nonempty: "putFields (elementFields e) \<noteq> []" "putFields (headFields w) \<noteq> []" "putFields (configFields c) \<noteq> []"
  "putFields (stakedFields d) \<noteq> []"
  by (simp_all add: putFields_def elementFields_def headFields_def configFields_def stakedFields_def)

subsection \<open>The environment\<close>

text \<open>At most one node is staked; the others wait.\<close>

definition sampleEnv :: stakingEnv where
  "sampleEnv = \<lparr>CorrectFirstQueuedFlag = True, CorrectLastUnJailedFlag = True, CorrectJailedNotUnStakedEmptyQueueFlag = True,
     StakeFlag = True, StakingV2Flag = True, StakingV4StartedFlag = False, StakingV4Step1Flag = False, ValidatorToDelegationFlag = True,
     marshalElement = (\<lambda>e. Inr (putFields (elementFields e))), unmarshalElement = elementOf,
     marshalHead = (\<lambda>w. Inr (putFields (headFields w))), unmarshalHead = headOfBytes,
     marshalStakedV1_0 = (\<lambda>d. Inr (putFields (stakedFields d))), marshalStakedV1_1 = (\<lambda>d. Inr (putFields (stakedFields d))),
     marshalStaked = (\<lambda>d. Inr (putFields (stakedFields d))), unmarshalStaked = stakedOf,
     marshalConfig = (\<lambda>c. Inr (if c = emptyConfig then [] else putFields (configFields c))), unmarshalConfig = configOf,
     stakeAccessAddr = [1], jailAccessAddr = [2], endOfEpochAccessAddr = [3], minNumNodes = 0, maxNumNodes = 1, stakeValue = 10,
     minNodePrice = 10, unBondPeriod = 5, walletAddressLen = 1, CurrentNonce = 7, CurrentRound = 7, CurrentEpoch = 1,
     CanUnJail = (\<lambda>_. False), IsBadRating = (\<lambda>_. False), IsValidator = (\<lambda>_. False), IsSmartContractAddress = (\<lambda>_. True),
     UseGasFails = False, validatorStorage = (\<lambda>_. []), unmarshalValidatorData = (\<lambda>_. Inl ErrUnmarshal), isOnMetachain = (\<lambda>_. False),
     ExecuteOnDestContext = (\<lambda>_ _ _ s. (s, Inl ErrExecution))\<rparr>"

lemma sample_codec: "list_env_ok sampleEnv" "staked_codec sampleEnv" "dest_keeps_storage sampleEnv"
proof -
  show "list_env_ok sampleEnv"
    unfolding list_env_ok_def by (simp add: sampleEnv_def codec_roundtrips fields_nonempty)
  show "staked_codec sampleEnv"
    unfolding staked_codec_def by (simp add: sampleEnv_def codec_roundtrips fields_nonempty)
  show "dest_keeps_storage sampleEnv" by (simp add: dest_keeps_storage_def sampleEnv_def)
qed

end
