(* ===== verification/Staking_Properties.thy ===== *)
theory Staking_Properties
  imports Staking_Codec
begin

text \<open>
  The properties of the staking contract: its waiting list is a queue, its invariant holds after every sequence of
  calls from the deployment on, and a node that waits is staked after as many moves as its place in the queue.
\<close>

subsection \<open>The waiting list as a queue\<close>

definition queue_holds :: "stakingEnv \<times> bytes set \<Rightarrow> stakingState \<Rightarrow> bytes list \<times> nat \<Rightarrow> bool" where
  "queue_holds c s q \<longleftrightarrow> staking_env_ok (fst c) (snd c) \<and> (\<exists>D n. view (fst c) (snd c) s q D n)"

definition queue_items :: "stakingEnv \<times> bytes set \<Rightarrow> stakingState \<Rightarrow> staking_error + bytes list" where
  "queue_items c s = (case getFirstElementsFromWaitingList (fst c) (- 1) s of Inl e \<Rightarrow> Inl e | Inr r \<Rightarrow> Inr (wrKeys r))"

interpretation wl: waiting_queue queue_holds snd "\<lambda>c. addToWaitingList (fst c)" "\<lambda>c. removeFromWaitingList (fst c)" queue_items
proof
  fix c :: "stakingEnv \<times> bytes set" and s q and k :: bytes and b
  assume h: "queue_holds c s q"
  then obtain D n where v: "view (fst c) (snd c) s q D n" and e: "staking_env_ok (fst c) (snd c)" by (auto simp: queue_holds_def)
  show "queue_items c s = Inr (fst q)" using view_walk [OF v e] by (metis queue_items_def sum.case(2))
  assume k: "k \<in> snd c"
  show "\<exists>s'. addToWaitingList (fst c) k b s = (s', Inr ()) \<and> queue_holds c s' (enqueue k b q)"
    using view_add [OF v e k, of b] e unfolding queue_holds_def by metis
  show "\<exists>s'. removeFromWaitingList (fst c) k s = (s', Inr ()) \<and> queue_holds c s' (dequeue k q)"
    using view_remove [OF v e k] e unfolding queue_holds_def by metis
qed

subsection \<open>Deployment and runs\<close>

text \<open>Calls may differ in everything but the way the contract's data is read.\<close>

definition sameCodec :: "stakingEnv \<Rightarrow> stakingEnv \<Rightarrow> bool" where
  "sameCodec E E' \<longleftrightarrow> unmarshalElement E' = unmarshalElement E \<and> unmarshalHead E' = unmarshalHead E \<and>
     unmarshalStaked E' = unmarshalStaked E \<and> unmarshalConfig E' = unmarshalConfig E"

lemma view_sameCodec:
  assumes "sameCodec E E'"
  shows "view E' K s q D n = view E K s q D n"
proof -
  have "getWaitingListElement E' = getWaitingListElement E" "getWaitingListHead E' = getWaitingListHead E"
    using assms by (intro ext; simp add: sameCodec_def Let_def getWaitingListElement_def getWaitingListHead_def)+
  then have "sees E' K s = sees E K s" by (intro ext) (simp add: sees_def cong: option.case_cong)
  moreover have "getOrCreateRegisteredData E' = getOrCreateRegisteredData E"
    using assms by (intro ext) (simp add: sameCodec_def Let_def getOrCreateRegisteredData_def)
  moreover have "StakedNodes (getConfig E' s) = StakedNodes (getConfig E s)"
    using assms by (auto simp: sameCodec_def getConfig_def Let_def baseConfig_def split: sum.split)
  ultimately show ?thesis by (simp add: view_def queue_rep_def)
qed

inductive staking_run :: "stakingEnv \<Rightarrow> bytes set \<Rightarrow> stakingState \<Rightarrow> stakingState \<Rightarrow> bool" for E0 K s0 where
  start: "staking_run E0 K s0 s0"
| call: "staking_run E0 K s0 s \<Longrightarrow> sameCodec E0 E \<Longrightarrow> call_ok E K args s \<Longrightarrow> RunSmartContractCall E args s = (s', code) \<Longrightarrow>
    staking_run E0 K s0 s'"

lemma call_good:
  assumes "good E K s" "call_ok E K args s" "RunSmartContractCall E args s = (s', code)"
  shows "good E K s'"
proof -
  let ?s = "s\<lparr>finished := []\<rparr>"
  have g: "good E K ?s" by (rule same_storage_good [OF assms(1)]) simp
  have ok: "call_ok E K args ?s" using assms(2) by (simp add: call_ok_def quiet_def GetStorage_def)
  obtain q D n where h: "held E K ?s q D n" using good_held [OF g] assms(2) unfolding call_ok_def by blast
  have "ok_good E K (dispatch E args ?s)" if "Function args \<noteq> ''_init''" by (rule dispatch_good [OF h ok that])
  then show ?thesis using assms(3) g
    by (auto simp: RunSmartContractCall_def Execute_def ok_good_def split: if_splits prod.splits)
qed

lemma run_good: "staking_run E0 K s0 s \<Longrightarrow> good E0 K s0 \<Longrightarrow> good E0 K s"
proof (induction rule: staking_run.induct)
  case (call s E args s' code)
  have "good E K s" using call view_sameCodec [OF call.hyps(2)] unfolding good_def by simp
  from call_good [OF this call.hyps(3,4)] show ?case using view_sameCodec [OF call.hyps(2)] unfolding good_def by simp
qed

lemma decimal_length: "n < 10 ^ m \<Longrightarrow> 0 < m \<Longrightarrow> length (decimal n) \<le> m"
proof (induction n arbitrary: m rule: decimal.induct)
  case (1 n)
  show ?case
  proof (cases "n < 10")
    case True
    then show ?thesis using 1 by (subst decimal.simps) simp
  next
    case False
    then obtain m' where m: "m = Suc m'" "0 < m'" using 1(2,3) by (cases m; cases "m - 1") auto
    then have "n div 10 < 10 ^ m'" using 1(2) by simp
    then show ?thesis using 1(1) [OF False _ m(2)] False m by (subst decimal.simps) simp
  qed
qed

text \<open>The storage after the deployment, for BLS keys of 96 bytes and an owner's address of 32.\<close>

definition emptyState :: stakingState where
  "emptyState = \<lparr>contractStorage = Map.empty, finished = []\<rparr>"

lemma deployed_view:
  assumes "init_staking E args emptyState = (s0, c)" "length (CallerAddr args) = 32" "\<forall>k \<in> K. length k = 96" "staking_env_ok E K"
  shows "view E K s0 ([], 0) (\<lambda>_. newRegistration) 0"
proof -
  let ?e = "ascii ''epoch_'' @ decimal (uint (CurrentEpoch E))"
  have "uint (CurrentEpoch E) < 2 ^ LENGTH(32)" by (rule unsigned_less)
  then have "uint (CurrentEpoch E) < 10 ^ 10" by simp
  then have el: "length ?e < 32" using decimal_length [of "uint (CurrentEpoch E)" 10] by (simp add: ascii_def)
  have eh: "hd ?e = of_char CHR ''e''" by (simp add: ascii_def)
  have ne: "?e \<noteq> waitingListHeadKey" "?e \<noteq> nodesConfigKey" "?e \<noteq> wk k" for k
    using eh by (auto simp: waitingListHeadKey_def nodesConfigKey_def createWaitingListKey_def waitingElementPrefix_def ascii_def of_char_def)
  obtain b where b: "marshalConfig E (baseConfig E) = Inr b"
      "if baseConfig E = emptyConfig then b = [] else b \<noteq> [] \<and> unmarshalConfig E b = Inr (baseConfig E)"
    using env_parts(4) [OF assms(4)] unfolding staked_codec_def by blast
  have s0: "s0 = SetStorage ?e (bigBytes (stakeValue E)) (SetStorage nodesConfigKey b (SetStorage (CallerAddr args) (bigBytes 0)
      (SetStorage ownerKey (CallerAddr args) emptyState)))"
    using assms(1) b(1) by (simp add: init_staking_def Let_def setConfig_def emptyState_def)
  have len: "length ownerKey = 5" "length nodesConfigKey = 11" "length waitingListHeadKey = 11" "length (wk k) = 2 + length k" for k
    by (simp_all add: ownerKey_def nodesConfigKey_def waitingListHeadKey_def createWaitingListKey_def waitingElementPrefix_def ascii_def)
  have none: "GetStorage x s0 = []" if "length x = 96 \<or> length x = 98 \<or> x = waitingListHeadKey" for x
  proof -
    have "x \<noteq> ?e" "x \<noteq> nodesConfigKey" "x \<noteq> CallerAddr args" "x \<noteq> ownerKey" using that len el ne(1) assms(2) by auto
    moreover have "GetStorage x emptyState = []" by (simp add: GetStorage_def emptyState_def)
    ultimately show ?thesis unfolding s0 by simp
  qed
  have "queue_rep E K s0 ([], 0)"
    unfolding queue_rep_def using none assms(3) len(4)
    by (intro exI [of _ "\<lambda>_. None"] exI [of _ None]) (simp add: sees_def linked_pair)
  moreover have "getOrCreateRegisteredData E k s0 = Inr newRegistration" if "k \<in> K" for k
    using none [of k] assms(3) that by (simp add: getOrCreateRegisteredData_def)
  moreover have "GetStorage nodesConfigKey s0 = b" using ne(2) unfolding s0 by simp
  then have "StakedNodes (getConfig E s0) = 0" using b(2) by (auto simp: getConfig_def baseConfig_def split: if_splits)
  ultimately show ?thesis by (simp add: view_def)
qed

lemma deployed_good:
  assumes "init_staking E args emptyState = (s0, c)" "length (CallerAddr args) = 32" "\<forall>k \<in> K. length k = 96" "staking_env_ok E K"
  shows "good E K s0"
  using deployed_view [OF assms] by (rule goodI) (simp add: staking_inv_def newRegistration_def)

subsection \<open>Moves\<close>

fun moveMany :: "stakingEnv \<Rightarrow> nat \<Rightarrow> stakingState \<Rightarrow> stakingState \<times> (staking_error + unit)" where
  "moveMany E 0 s = (s, Inr ())"
| "moveMany E (Suc n) s = andThen (moveFirstFromWaitingToStaked E s) (\<lambda>s _. moveMany E n s)"

lemma fst_dequeue_hd: "fst q = k # xs \<Longrightarrow> fst (dequeue k q) = xs"
  by (cases q) simp

lemma move_stakes:
  assumes "held E K s q D n" "fst q = k # xs" "RewardAddress (D k) \<noteq> []"
  obtains s1 q1 d where "moveFirstFromWaitingToStaked E s = (s1, Inr True)" "held E K s1 q1 (D(k := d)) (n + 1)" "fst q1 = xs" "Staked d"
  by (rule moveFirst_Cons [OF assms(1,2)]) (use that fst_dequeue_hd [OF assms(2)] assms(3) in simp)

lemma moveMany_stakes:
  assumes "held E K s q D n" "\<forall>x \<in> set (fst q). RewardAddress (D x) \<noteq> []" "i \<le> length (fst q)"
  shows "\<exists>s' q' D' n'. moveMany E i s = (s', Inr ()) \<and> held E K s' q' D' n' \<and> fst q' = drop i (fst q) \<and>
    (\<forall>x. Staked (D x) \<or> x \<in> set (take i (fst q)) \<longrightarrow> Staked (D' x))"
  using assms
proof (induction i arbitrary: s q D n)
  case 0
  then show ?case by (intro exI [of _ s] exI [of _ q] exI [of _ D] exI [of _ n]) simp
next
  case (Suc i)
  then obtain k xs where q: "fst q = k # xs" by (cases "fst q") auto
  then have rk: "RewardAddress (D k) \<noteq> []" using Suc.prems(2) by simp
  obtain s1 q1 d where m: "moveFirstFromWaitingToStaked E s = (s1, Inr True)" "held E K s1 q1 (D(k := d)) (n + 1)" "fst q1 = xs" "Staked d"
    using move_stakes [OF Suc.prems(1) q rk] .
  have dist: "k \<notin> set xs" using held_parts(6) [OF Suc.prems(1)] q by simp
  have "\<forall>x \<in> set (fst q1). RewardAddress ((D(k := d)) x) \<noteq> []" using Suc.prems(2) q m(3) dist by auto
  then obtain s' q' D' n' where i: "moveMany E i s1 = (s', Inr ())" "held E K s' q' D' n'" "fst q' = drop i xs"
      "\<forall>x. Staked ((D(k := d)) x) \<or> x \<in> set (take i xs) \<longrightarrow> Staked (D' x)"
    using Suc.IH [OF m(2)] Suc.prems(3) q m(3) by auto
  have "Staked (D' x)" if "Staked (D x) \<or> x \<in> set (take (Suc i) (fst q))" for x
    using that i(4) [rule_format, of x] m(4) q by (cases "x = k") auto
  with i(1-3) m(1) q show ?case by (intro exI [of _ s'] exI [of _ q'] exI [of _ D'] exI [of _ n']) simp
qed

subsection \<open>The properties\<close>

text \<open>
  The state after the deployment and after two registrations: there is room for one node, the second one waits.
\<close>

definition deployInput :: contractCallInput where
  "deployInput = \<lparr>CallerAddr = replicate 32 9, CallValue = 0, Arguments = [], RecipientAddr = [], Function = ''_init'', ESDTTransfers = 0\<rparr>"

definition stakeInput :: "bytes \<Rightarrow> contractCallInput" where
  "stakeInput k = \<lparr>CallerAddr = [1], CallValue = 0, Arguments = [k, [5], [6]], RecipientAddr = [], Function = ''stake'', ESDTTransfers = 0\<rparr>"

definition keyA :: bytes where "keyA = replicate 96 1"
definition keyB :: bytes where "keyB = replicate 96 2"

definition sampleDeployed :: stakingState where
  "sampleDeployed = fst (init_staking sampleEnv deployInput emptyState)"

definition sampleState :: stakingState where
  "sampleState = fst (RunSmartContractCall sampleEnv (stakeInput keyB) (fst (RunSmartContractCall sampleEnv (stakeInput keyA) sampleDeployed)))"

lemma sample_keys: "\<forall>k \<in> {keyA, keyB}. length k = 96" "keyA \<noteq> keyB"
  by (simp_all add: keyA_def keyB_def)

lemma sample_env_ok: "staking_env_ok sampleEnv {keyA, keyB}"
proof -
  have "length nodesConfigKey = 11" "length waitingListHeadKey = 11" by (simp_all add: nodesConfigKey_def waitingListHeadKey_def ascii_def)
  then have "nodesConfigKey \<notin> {keyA, keyB}" "waitingListHeadKey \<notin> {keyA, keyB}" using sample_keys(1) by auto
  moreover have "card {keyA, keyB} \<le> 2" by (simp add: card_insert_if)
  moreover have "keys_ok {keyA, keyB}" unfolding keys_ok_def using sample_keys(1) by (auto simp: keyA_def keyB_def)
  ultimately show ?thesis using sample_codec by (simp add: staking_env_ok_def bls_keys_def)
qed

lemma sample_call_ok: "k \<in> {keyA, keyB} \<Longrightarrow> call_ok sampleEnv {keyA, keyB} (stakeInput k) s"
  using sample_env_ok sample_codec(3)
  by (simp add: call_ok_def quiet_def stakeInput_def callKeys_def) (simp add: sampleEnv_def)

lemma sample_deployed: "init_staking sampleEnv deployInput emptyState = (sampleDeployed, Ok)" "length (CallerAddr deployInput) = 32"
  by (simp_all add: sampleDeployed_def init_staking_def emptyState_def Let_def deployInput_def)

lemma sample_run: "staking_run sampleEnv {keyA, keyB} sampleDeployed sampleState"
proof -
  let ?s1 = "fst (RunSmartContractCall sampleEnv (stakeInput keyA) sampleDeployed)"
  have c: "sameCodec sampleEnv sampleEnv" by (simp add: sameCodec_def)
  have "staking_run sampleEnv {keyA, keyB} sampleDeployed ?s1"
    by (rule staking_run.call [OF staking_run.start c sample_call_ok prod.collapse [symmetric]]) simp
  from staking_run.call [OF this c sample_call_ok prod.collapse [symmetric], of keyB] show ?thesis
    unfolding sampleState_def by simp
qed

lemma sample_good: "good sampleEnv {keyA, keyB} sampleState"
  by (rule run_good [OF sample_run deployed_good [OF sample_deployed sample_keys(1) sample_env_ok]])






text \<open>A node that waits behind nobody, registered with a reward address.\<close>

definition waitingData :: stakedData where
  "waitingData = newRegistration\<lparr>RewardAddress := [5], Waiting := True\<rparr>"

definition waitingState :: stakingState where
  "waitingState = fst (addToWaitingList sampleEnv keyA False (fst (saveStakingData sampleEnv keyA waitingData sampleDeployed)))"

lemma waitingState_view: "view sampleEnv {keyA, keyB} waitingState ([keyA], 0) ((\<lambda>_. newRegistration)(keyA := waitingData)) 0"
proof -
  let ?K = "{keyA, keyB}" and ?D = "(\<lambda>_. newRegistration)(keyA := waitingData)"
  have st: "stored sampleEnv waitingData = waitingData" by (simp add: stored_def sampleEnv_def)
  obtain s1 where s1: "saveStakingData sampleEnv keyA waitingData sampleDeployed = (s1, Inr ())" "view sampleEnv ?K s1 ([], 0) ?D 0"
    by (rule view_save [OF deployed_view [OF sample_deployed sample_keys(1) sample_env_ok] sample_env_ok, of keyA waitingData])
      (simp_all add: st)
  obtain s2 where "addToWaitingList sampleEnv keyA False s1 = (s2, Inr ())" "view sampleEnv ?K s2 (enqueue keyA False ([], 0)) ?D 0"
    by (rule view_add [OF s1(2) sample_env_ok, of keyA False]) simp_all
  then show ?thesis using s1(1) by (simp add: waitingState_def)
qed


end
