(* ===== verification/Vm_Context.thy ===== *)
theory Vm_Context
  imports Big_Bytes "HOL-Library.AList"
begin

text \<open>
  The environment in which system smart contracts run: \<open>vm/systemSmartContracts/eei.go\<close> and the calls of
  \<open>vm/process/systemVM.go\<close>. The context collects storage updates, output accounts, return data and logs. A nested call
  runs the other contract on the same context and merges what the caller had collected afterwards. The Go code keeps
  the storage updates in a map that the copy of the context shares, so the map is an object on a heap here and contexts
  hold references to it. A contract is a process that uses the methods of the context, one constructor per method.
  A nil dereference is a panic, which no function of these files recovers from: it is an outcome of a run. \<open>ProcessBuiltInFunction\<close>, which no system contract calls, and the methods that only read validator accounts
  are left out.
\<close>

subsection \<open>State\<close>

record outputTransfer =
  otIndex :: u32
  otValue :: int
  otGasLimit :: u64
  otData :: bytes
  otSender :: bytes

text \<open>A nil pointer or slice is \<open>None\<close> where the code tells it from an empty value.\<close>

record outputAccount =
  oaAddress :: bytes
  oaBalance :: "int option"
  oaBalanceDelta :: int
  oaStorageUpdates :: "(bytes \<times> bytes) list"
  oaCode :: bytes
  oaCodeMetadata :: bytes
  oaNonce :: u64
  oaCodeDeployer :: "bytes option"
  oaGasUsed :: u64
  oaBytesAdded :: u64
  oaBytesDeleted :: u64
  oaTransfers :: "outputTransfer list"

record logEntry =
  logIdentifier :: bytes
  logAddress :: bytes
  logTopics :: "bytes list"
  logData :: "bytes list"

type_synonym storageUpdates = "(bytes \<times> (bytes \<times> bytes) list) list"

record vmContext =
  scAddress :: bytes
  storageUpdate :: nat
  storageHeap :: "nat \<Rightarrow> storageUpdates"
  storageNext :: nat
  outputAccounts :: "(bytes \<times> outputAccount) list"
  gasRemaining :: u64
  returnMessage :: string
  hostOutput :: "bytes list"
  logs :: "logEntry list"
  crtTransferIndex :: u32

datatype vm_error = ErrUnknownSystemSmartContract | ErrParse | ErrNotEnoughGas | ErrNewOwner

datatype vm_code = VmOk | VmUserError | VmExecutionFailed | VmOutOfGas

record vmOutput =
  outAccounts :: "(bytes \<times> outputAccount) list"
  outGasRemaining :: u64
  outReturnMessage :: string
  outLogs :: "logEntry list"
  outReturnData :: "bytes list"
  outReturnCode :: vm_code

record vmInput =
  viCaller :: bytes
  viArguments :: "bytes list"
  viValue :: int
  viRecipient :: bytes
  viFunction :: string
  viGasProvided :: u64

text \<open>What the context asks of the rest of the node.\<close>

record vmEnv =
  MultiClaimOnDelegationFlag :: bool
  SetSenderInEeiOutputTransferFlag :: bool
  AlwaysMergeContextsInEEIFlag :: bool
  hookStorage :: "bytes \<Rightarrow> bytes \<Rightarrow> bytes"
  hookNonce :: u64
  hookBalance :: "bytes \<Rightarrow> int"
  hookCode :: "bytes \<Rightarrow> bytes option"
  numberOfShards :: u32
  systemAccountAddress :: bytes
  parseData :: "bytes \<Rightarrow> (string \<times> bytes list) option"
  logDataForCall :: "string \<Rightarrow> string \<Rightarrow> bytes list \<Rightarrow> bytes list"
  mergeOutputAccounts :: "outputAccount \<Rightarrow> outputAccount \<Rightarrow> outputAccount"
  deployMetadata :: bytes
  isContract :: "bytes \<Rightarrow> bool"
  canUseContract :: "bytes \<Rightarrow> bool"

definition nilAccount :: outputAccount where
  "nilAccount = \<lparr>oaAddress = [], oaBalance = None, oaBalanceDelta = 0, oaStorageUpdates = [], oaCode = [], oaCodeMetadata = [],
     oaNonce = 0, oaCodeDeployer = None, oaGasUsed = 0, oaBytesAdded = 0, oaBytesDeleted = 0, oaTransfers = []\<rparr>"

definition newAccount :: "bytes \<Rightarrow> outputAccount" where
  "newAccount a = nilAccount\<lparr>oaAddress := a, oaBalance := Some 0\<rparr>"

subsection \<open>Storage\<close>

definition currentStorage :: "vmContext \<Rightarrow> storageUpdates" where
  "currentStorage h = storageHeap h (storageUpdate h)"

definition GetStorageFromAddress :: "vmEnv \<Rightarrow> bytes \<Rightarrow> bytes \<Rightarrow> vmContext \<Rightarrow> bytes" where
  "GetStorageFromAddress V addr key h = (case map_of (currentStorage h) addr of
     Some m \<Rightarrow> (case map_of m key of Some v \<Rightarrow> v | None \<Rightarrow> hookStorage V addr key)
   | None \<Rightarrow> hookStorage V addr key)"

definition vmGetStorage :: "vmEnv \<Rightarrow> bytes \<Rightarrow> vmContext \<Rightarrow> bytes" where
  "vmGetStorage V key h = GetStorageFromAddress V (scAddress h) key h"

definition SetStorageForAddress :: "bytes \<Rightarrow> bytes \<Rightarrow> bytes \<Rightarrow> vmContext \<Rightarrow> vmContext" where
  "SetStorageForAddress addr key val h =
     (let m = (case map_of (currentStorage h) addr of None \<Rightarrow> [] | Some m \<Rightarrow> m) in
      h\<lparr>storageHeap := (storageHeap h)(storageUpdate h := AList.update addr (AList.update key val m) (currentStorage h))\<rparr>)"

definition vmSetStorage :: "bytes \<Rightarrow> bytes \<Rightarrow> vmContext \<Rightarrow> vmContext" where
  "vmSetStorage key val h = SetStorageForAddress (scAddress h) key val h"

definition freshStorage :: "vmContext \<Rightarrow> vmContext" where
  "freshStorage h = h\<lparr>storageUpdate := storageNext h, storageNext := Suc (storageNext h),
     storageHeap := (storageHeap h)(storageNext h := [])\<rparr>"

definition CleanStorageUpdates :: "vmContext \<Rightarrow> vmContext" where
  "CleanStorageUpdates h = freshStorage h"

definition CleanCache :: "vmContext \<Rightarrow> vmContext" where
  "CleanCache h = (freshStorage h)\<lparr>outputAccounts := [], hostOutput := [], returnMessage := [], gasRemaining := 0, logs := [],
     crtTransferIndex := 1\<rparr>"

definition softCleanCache :: "vmContext \<Rightarrow> vmContext" where
  "softCleanCache h = h\<lparr>outputAccounts := [], hostOutput := [], returnMessage := []\<rparr>"

subsection \<open>Accounts and value\<close>

definition getOutputAccount :: "bytes \<Rightarrow> vmContext \<Rightarrow> outputAccount" where
  "getOutputAccount a h = (case map_of (outputAccounts h) a of None \<Rightarrow> newAccount a | Some acc \<Rightarrow> acc)"

definition putOutputAccount :: "bytes \<Rightarrow> outputAccount \<Rightarrow> vmContext \<Rightarrow> vmContext" where
  "putOutputAccount a acc h = h\<lparr>outputAccounts := AList.update a acc (outputAccounts h)\<rparr>"

definition getSenderDestination :: "bytes \<Rightarrow> bytes \<Rightarrow> vmContext \<Rightarrow> vmContext" where
  "getSenderDestination sender destination h =
     (let h1 = putOutputAccount sender (getOutputAccount sender h) h
      in putOutputAccount destination (getOutputAccount destination h1) h1)"

definition addDelta :: "bytes \<Rightarrow> int \<Rightarrow> vmContext \<Rightarrow> vmContext" where
  "addDelta a v h = (let acc = getOutputAccount a h in putOutputAccount a (acc\<lparr>oaBalanceDelta := oaBalanceDelta acc + v\<rparr>) h)"

definition transferValueOnly :: "bytes \<Rightarrow> bytes \<Rightarrow> int \<Rightarrow> vmContext \<Rightarrow> vmContext" where
  "transferValueOnly destination sender val h =
     addDelta destination val (addDelta sender (- val) (getSenderDestination sender destination h))"

definition NextOutputTransferIndex :: "vmContext \<Rightarrow> u32 \<times> vmContext" where
  "NextOutputTransferIndex h = (crtTransferIndex h, h\<lparr>crtTransferIndex := crtTransferIndex h + 1\<rparr>)"

definition addTransfer :: "bytes \<Rightarrow> outputTransfer \<Rightarrow> vmContext \<Rightarrow> vmContext" where
  "addTransfer a t h = (let acc = getOutputAccount a h in putOutputAccount a (acc\<lparr>oaTransfers := oaTransfers acc @ [t]\<rparr>) h)"

definition Transfer :: "vmEnv \<Rightarrow> bytes \<Rightarrow> bytes \<Rightarrow> int \<Rightarrow> bytes \<Rightarrow> u64 \<Rightarrow> vmContext \<Rightarrow> vmContext" where
  "Transfer V destination sender val input gasLimit h =
     (let h1 = getSenderDestination sender destination (transferValueOnly destination sender val h);
          (index, h2) = NextOutputTransferIndex h1
      in addTransfer destination \<lparr>otIndex = index, otValue = val, otGasLimit = gasLimit, otData = input,
           otSender = (if SetSenderInEeiOutputTransferFlag V then oaAddress (getOutputAccount sender h2) else [])\<rparr> h2)"

fun sendGlobalLoop :: "vmEnv \<Rightarrow> bytes \<Rightarrow> nat \<Rightarrow> byte \<Rightarrow> vmContext \<Rightarrow> vmContext" where
  "sendGlobalLoop V input 0 i h = h"
| "sendGlobalLoop V input (Suc n) i h =
     (let systemAddress = butlast (systemAccountAddress V) @ [i]; (index, h1) = NextOutputTransferIndex h
      in sendGlobalLoop V input n (i + 1)
        (addTransfer systemAddress \<lparr>otIndex = index, otValue = 0, otGasLimit = 0, otData = input, otSender = []\<rparr> h1))"

definition SendGlobalSettingToAll :: "vmEnv \<Rightarrow> bytes \<Rightarrow> vmContext \<Rightarrow> vmContext" where
  "SendGlobalSettingToAll V input h = sendGlobalLoop V input (unat (ucast (numberOfShards V) :: byte)) 0 h"

text \<open>An account without a balance makes the addition dereference nil.\<close>

definition GetBalance :: "vmEnv \<Rightarrow> bytes \<Rightarrow> vmContext \<Rightarrow> int option" where
  "GetBalance V a h = (case map_of (outputAccounts h) a of
     Some acc \<Rightarrow> map_option (\<lambda>b. b + oaBalanceDelta acc) (oaBalance acc)
   | None \<Rightarrow> Some (hookBalance V a))"

definition GetTotalSentToUser :: "bytes \<Rightarrow> vmContext \<Rightarrow> int" where
  "GetTotalSentToUser a h = (case map_of (outputAccounts h) a of None \<Rightarrow> 0 | Some acc \<Rightarrow> oaBalanceDelta acc)"

definition AddTxValueToSmartContract :: "int \<Rightarrow> bytes \<Rightarrow> vmContext \<Rightarrow> vmContext" where
  "AddTxValueToSmartContract val a h =
     (let acc = (case map_of (outputAccounts h) a of None \<Rightarrow> nilAccount\<lparr>oaAddress := a\<rparr> | Some acc \<Rightarrow> acc)
      in putOutputAccount a (acc\<lparr>oaBalanceDelta := oaBalanceDelta acc + val\<rparr>) h)"

definition AddCode :: "bytes \<Rightarrow> bytes \<Rightarrow> vmContext \<Rightarrow> vmContext" where
  "AddCode a code h = (case map_of (outputAccounts h) a of
     None \<Rightarrow> putOutputAccount a (nilAccount\<lparr>oaAddress := a, oaCode := code\<rparr>) h
   | Some acc \<Rightarrow> putOutputAccount a (acc\<lparr>oaCode := code\<rparr>) h)"

definition UpdateCodeDeployerAddress :: "bytes \<Rightarrow> bytes \<Rightarrow> vmContext \<Rightarrow> vmContext \<times> (vm_error + unit)" where
  "UpdateCodeDeployerAddress a newOwner h = (case map_of (outputAccounts h) a of
     None \<Rightarrow> (h, Inl ErrNewOwner)
   | Some acc \<Rightarrow> (putOutputAccount a (acc\<lparr>oaCodeDeployer := Some newOwner\<rparr>) h, Inr ()))"

subsection \<open>Messages, gas and logs\<close>

definition vmFinish :: "bytes \<Rightarrow> vmContext \<Rightarrow> vmContext" where
  "vmFinish v h = h\<lparr>hostOutput := hostOutput h @ [v]\<rparr>"

definition AddReturnMessage :: "string \<Rightarrow> vmContext \<Rightarrow> vmContext" where
  "AddReturnMessage message h =
     (if message = [] then h
      else if returnMessage h = [] then h\<lparr>returnMessage := message\<rparr>
      else h\<lparr>returnMessage := returnMessage h @ ''@'' @ message\<rparr>)"

definition AddLogEntry :: "logEntry \<Rightarrow> vmContext \<Rightarrow> vmContext" where
  "AddLogEntry e h = h\<lparr>logs := logs h @ [e]\<rparr>"

definition UseGas :: "u64 \<Rightarrow> vmContext \<Rightarrow> vmContext \<times> (vm_error + unit)" where
  "UseGas gas h = (if gasRemaining h < gas then (h, Inl ErrNotEnoughGas) else (h\<lparr>gasRemaining := gasRemaining h - gas\<rparr>, Inr ()))"

subsection \<open>Merging contexts\<close>

text \<open>The copy of the context shares the reference to the storage updates.\<close>

record contextCopy =
  ccStorage :: nat
  ccAccounts :: "(bytes \<times> outputAccount) list"
  ccOutput :: "bytes list"
  ccAddress :: bytes

definition copyToNewContext :: "vmContext \<Rightarrow> contextCopy" where
  "copyToNewContext h = \<lparr>ccStorage = storageUpdate h, ccAccounts = outputAccounts h, ccOutput = hostOutput h, ccAddress = scAddress h\<rparr>"

definition mergeStorage :: "storageUpdates \<Rightarrow> storageUpdates \<Rightarrow> storageUpdates" where
  "mergeStorage parent host = foldl (\<lambda>acc (key, m). case map_of acc key of
     None \<Rightarrow> AList.update key m acc
   | Some m0 \<Rightarrow> AList.update key (foldl (\<lambda>m' (k, v). AList.update k v m') m0 m) acc) host parent"

definition addOutputAccounts :: "outputAccount \<Rightarrow> outputAccount \<Rightarrow> outputAccount" where
  "addOutputAccounts d r = d\<lparr>
     oaAddress := (if oaAddress r \<noteq> [] then oaAddress r else oaAddress d),
     oaBalance := (if oaBalance r \<noteq> None then oaBalance r else oaBalance d),
     oaBalanceDelta := oaBalanceDelta d + oaBalanceDelta r,
     oaCode := (if oaCode r \<noteq> [] then oaCode r else oaCode d),
     oaCodeMetadata := (if oaCodeMetadata r \<noteq> [] then oaCodeMetadata r else oaCodeMetadata d),
     oaNonce := (if oaNonce r > oaNonce d then oaNonce r else oaNonce d),
     oaGasUsed := oaGasUsed d + oaGasUsed r,
     oaCodeDeployer := (if oaCodeDeployer r \<noteq> None then oaCodeDeployer r else oaCodeDeployer d),
     oaBytesAdded := oaBytesAdded d + oaBytesAdded r,
     oaBytesDeleted := oaBytesDeleted d + oaBytesDeleted r,
     oaTransfers := oaTransfers d @ oaTransfers r\<rparr>"

definition mergeContext :: "vmEnv \<Rightarrow> contextCopy \<Rightarrow> vmContext \<Rightarrow> vmContext" where
  "mergeContext V c h0 =
     (let h = h0\<lparr>hostOutput := hostOutput h0 @ ccOutput c\<rparr>;
          h1 = h\<lparr>storageHeap := (storageHeap h)(storageUpdate h := mergeStorage (storageHeap h (ccStorage c)) (currentStorage h))\<rparr>;
          h2 = foldl (\<lambda>h (_, r). putOutputAccount (oaAddress r) (mergeOutputAccounts V
            (case map_of (outputAccounts h) (oaAddress r) of None \<Rightarrow> nilAccount | Some l \<Rightarrow> l) r) h) h1 (ccAccounts c)
      in h2\<lparr>scAddress := ccAddress c\<rparr>)"

definition properMergeContexts :: "vmEnv \<Rightarrow> contextCopy \<Rightarrow> vm_code \<Rightarrow> vmContext \<Rightarrow> vmContext" where
  "properMergeContexts V c code h0 =
     (if \<not> MultiClaimOnDelegationFlag V then mergeContext V c h0
      else let h = h0\<lparr>scAddress := ccAddress c\<rparr> in
        if \<not> (code = VmOk \<or> AlwaysMergeContextsInEEIFlag V) then h
        else foldl (\<lambda>h (_, r). putOutputAccount (oaAddress r) (addOutputAccounts (getOutputAccount (oaAddress r) h) r) h)
          (h\<lparr>hostOutput := hostOutput h @ ccOutput c\<rparr>) (ccAccounts c))"

subsection \<open>Output\<close>

definition storageAccounts :: "storageUpdates \<Rightarrow> (bytes \<times> outputAccount) list" where
  "storageAccounts s = map (\<lambda>(a, m). (a, nilAccount\<lparr>oaAddress := a, oaStorageUpdates := m\<rparr>)) s"

definition outputOf :: "vmEnv \<Rightarrow> outputAccount \<Rightarrow> outputAccount \<Rightarrow> outputAccount" where
  "outputOf V acc o' = o'\<lparr>oaAddress := oaAddress acc, oaBalanceDelta := oaBalanceDelta acc,
     oaCode := (if oaCode acc \<noteq> [] then oaCode acc else oaCode o'),
     oaNonce := (if oaNonce acc > 0 then oaNonce acc else oaNonce o'),
     oaCodeDeployer := (if hookNonce V > 0 \<and> oaCodeDeployer acc \<noteq> None \<and> oaCodeDeployer acc \<noteq> Some [] then oaCodeDeployer acc else oaCodeDeployer o'),
     oaCodeMetadata := (if hookNonce V > 0 \<and> oaCodeMetadata acc \<noteq> [] then oaCodeMetadata acc else oaCodeMetadata o'),
     oaTransfers := oaTransfers acc\<rparr>"

definition CreateVMOutput :: "vmEnv \<Rightarrow> vmContext \<Rightarrow> vmOutput" where
  "CreateVMOutput V h = \<lparr>
     outAccounts = foldl (\<lambda>acc (a, oa). AList.update a (outputOf V oa (case map_of acc a of None \<Rightarrow> nilAccount | Some x \<Rightarrow> x)) acc)
       (storageAccounts (currentStorage h)) (outputAccounts h),
     outGasRemaining = gasRemaining h, outReturnMessage = returnMessage h, outLogs = logs h, outReturnData = hostOutput h,
     outReturnCode = VmOk\<rparr>"

subsection \<open>Contracts and calls\<close>

text \<open>
  What a nested call hands to its caller. The Go code returns the whole output, whose balances are shared with the
  context and change when the contexts are merged; the contracts read these three fields only.
\<close>

record callAnswer =
  caCode :: vm_code
  caData :: "bytes list"
  caMessage :: string

text \<open>
  How a run ends: with a result, in a panic, or not within the depth of nested calls that the model was given.
\<close>

datatype 'a outcome = Ret 'a | Panic | TooDeep

primrec bindOutcome :: "'a outcome \<Rightarrow> ('a \<Rightarrow> 'b outcome) \<Rightarrow> 'b outcome" where
  "bindOutcome (Ret x) f = f x"
| "bindOutcome Panic f = Panic"
| "bindOutcome TooDeep f = TooDeep"

text \<open>A contract as a process over the methods of the context.\<close>

datatype process =
    Return vm_code
  | PGetOwn bytes "bytes \<Rightarrow> process"
  | PGetStorage bytes bytes "bytes \<Rightarrow> process"
  | PSetStorage bytes bytes process
  | PSetStorageFor bytes bytes bytes process
  | PGetBalance bytes "int \<Rightarrow> process"
  | PSentToUser bytes "int \<Rightarrow> process"
  | PTransfer bytes bytes int bytes u64 process
  | PSendGlobal bytes process
  | PFinish bytes process
  | PMessage string process
  | PLog logEntry process
  | PUseGas u64 "bool \<Rightarrow> process"
  | PDeployer bytes bytes "bool \<Rightarrow> process"
  | PDeploy bytes bytes bytes string int "bytes list" "vm_error + vm_code \<Rightarrow> process"
  | PCall bytes bytes int bytes "vm_error + callAnswer \<Rightarrow> process"

type_synonym contracts = "bytes \<Rightarrow> vmInput \<Rightarrow> process"

definition createDirectCallInput :: "bytes \<Rightarrow> bytes \<Rightarrow> int \<Rightarrow> string \<Rightarrow> bytes list \<Rightarrow> vmInput" where
  "createDirectCallInput destination sender val f arguments = \<lparr>viCaller = sender, viArguments = arguments, viValue = val,
     viRecipient = destination, viFunction = f, viGasProvided = 0\<rparr>"

definition createContractCallInput :: "vmEnv \<Rightarrow> bytes \<Rightarrow> bytes \<Rightarrow> int \<Rightarrow> bytes \<Rightarrow> vm_error + vmInput" where
  "createContractCallInput V destination sender val data = (case parseData V data of
     None \<Rightarrow> Inl ErrParse | Some (f, arguments) \<Rightarrow> Inr (createDirectCallInput destination sender val f arguments))"

definition transferBeforeInternalExec :: "vmEnv \<Rightarrow> vmInput \<Rightarrow> bytes \<Rightarrow> string \<Rightarrow> vmContext \<Rightarrow> vmContext" where
  "transferBeforeInternalExec V i sender callType h =
     (if \<not> MultiClaimOnDelegationFlag V then Transfer V (viRecipient i) sender (viValue i) [] 0 h
      else AddLogEntry \<lparr>logIdentifier = map of_char ''transferValueOnly'', logAddress = sender,
          logTopics = [bigBytes (viValue i), viRecipient i], logData = logDataForCall V callType (viFunction i) (viArguments i)\<rparr>
        (transferValueOnly (viRecipient i) sender (viValue i) h))"

definition getCodeFromAddress :: "vmEnv \<Rightarrow> bytes \<Rightarrow> bytes" where
  "getCodeFromAddress V a = (case hookCode V a of None \<Rightarrow> a | Some code \<Rightarrow> if code = [] then a else code)"

definition GetContract :: "vmEnv \<Rightarrow> bytes \<Rightarrow> vm_error + bytes" where
  "GetContract V a = (let code = getCodeFromAddress V a in
     if \<not> isContract V code then Inl ErrUnknownSystemSmartContract
     else if \<not> canUseContract V code then Inl ErrUnknownSystemSmartContract else Inr code)"

definition addContractDeployToOutput :: "vmEnv \<Rightarrow> bytes \<Rightarrow> bytes \<Rightarrow> bytes \<Rightarrow> vmContext \<Rightarrow> vmContext" where
  "addContractDeployToOutput V a owner code h = putOutputAccount a ((getOutputAccount a h)\<lparr>oaCodeMetadata := deployMetadata V,
     oaCode := code, oaCodeDeployer := Some owner\<rparr>) h"

text \<open>The other contract, run by its code.\<close>

type_synonym runner = "bytes \<Rightarrow> vmInput \<Rightarrow> vmContext \<Rightarrow> (vmContext \<times> vm_code) outcome"

text \<open>The deferred function of \<open>ExecuteOnDestContext\<close>.\<close>

definition leaveNested :: "vmEnv \<Rightarrow> contextCopy \<Rightarrow> vm_code \<Rightarrow> vmContext \<Rightarrow> vmContext" where
  "leaveNested V c code h = properMergeContexts V c code (h\<lparr>hostOutput := []\<rparr>)"

text \<open>What follows \<open>contract.Execute\<close> in \<open>ExecuteOnDestContext\<close>.\<close>

definition afterNested :: "vmEnv \<Rightarrow> contextCopy \<Rightarrow> vmContext \<times> vm_code \<Rightarrow> vmContext \<times> (vm_error + callAnswer)" where
  "afterNested V c r = (case r of (h, returnCode) \<Rightarrow>
     if returnCode = VmOk
     then (leaveNested V c returnCode h,
       Inr \<lparr>caCode = returnCode, caData = outReturnData (CreateVMOutput V h), caMessage = returnMessage h\<rparr>)
     else (leaveNested V c returnCode (h\<lparr>outputAccounts := [], storageUpdate := ccStorage c\<rparr>),
       Inr \<lparr>caCode = returnCode, caData = [], caMessage = returnMessage h\<rparr>))"

definition vmExecuteOnDestContext :: "vmEnv \<Rightarrow> runner \<Rightarrow> bytes \<Rightarrow> bytes \<Rightarrow> int \<Rightarrow> bytes \<Rightarrow> vmContext \<Rightarrow>
    (vmContext \<times> (vm_error + callAnswer)) outcome" where
  "vmExecuteOnDestContext V run destination sender val input h =
     (case createContractCallInput V destination sender val input of
        Inl e \<Rightarrow> Ret (h, Inl e)
      | Inr i \<Rightarrow>
          let h1 = transferBeforeInternalExec V i sender ''ExecuteOnDestContext'' h;
              c = copyToNewContext h1;
              h2 = (softCleanCache h1)\<lparr>scAddress := viRecipient i\<rparr>
          in (case GetContract V (viRecipient i) of
               Inl e \<Rightarrow> Ret (leaveNested V c VmUserError h2, Inl e)
             | Inr code \<Rightarrow>
                 if viFunction i = ''_init'' then
                   Ret (leaveNested V c VmUserError h2,
                     Inr \<lparr>caCode = VmUserError, caData = [], caMessage = ''cannot call smart contract init function''\<rparr>)
                 else map_outcome (afterNested V c) (run code i h2)))"

definition DeploySystemSC :: "vmEnv \<Rightarrow> runner \<Rightarrow> bytes \<Rightarrow> bytes \<Rightarrow> bytes \<Rightarrow> string \<Rightarrow> int \<Rightarrow> bytes list \<Rightarrow> vmContext \<Rightarrow>
    (vmContext \<times> (vm_error + vm_code)) outcome" where
  "DeploySystemSC V run baseContract newAddress owner initFunction val input h =
     (let i = createDirectCallInput newAddress owner val initFunction input;
          h1 = transferBeforeInternalExec V i (scAddress h) ''DeploySmartContract'' h
      in if \<not> isContract V baseContract then Ret (h1, Inl ErrUnknownSystemSmartContract)
         else map_outcome (\<lambda>(h2, returnCode).
           (addContractDeployToOutput V newAddress owner baseContract (h2\<lparr>scAddress := scAddress h1\<rparr>), Inr returnCode))
           (run baseContract i (h1\<lparr>scAddress := viRecipient i\<rparr>)))"

primrec runProcess :: "vmEnv \<Rightarrow> runner \<Rightarrow> process \<Rightarrow> vmContext \<Rightarrow> (vmContext \<times> vm_code) outcome" where
  "runProcess V run (Return code) h = Ret (h, code)"
| "runProcess V run (PGetOwn key p) h = runProcess V run (p (vmGetStorage V key h)) h"
| "runProcess V run (PGetStorage a key p) h = runProcess V run (p (GetStorageFromAddress V a key h)) h"
| "runProcess V run (PSetStorage key val p) h = runProcess V run p (vmSetStorage key val h)"
| "runProcess V run (PSetStorageFor a key val p) h = runProcess V run p (SetStorageForAddress a key val h)"
| "runProcess V run (PGetBalance a p) h = (case GetBalance V a h of None \<Rightarrow> Panic | Some b \<Rightarrow> runProcess V run (p b) h)"
| "runProcess V run (PSentToUser a p) h = runProcess V run (p (GetTotalSentToUser a h)) h"
| "runProcess V run (PTransfer dst snd' val data gas p) h = runProcess V run p (Transfer V dst snd' val data gas h)"
| "runProcess V run (PSendGlobal data p) h = runProcess V run p (SendGlobalSettingToAll V data h)"
| "runProcess V run (PFinish v p) h = runProcess V run p (vmFinish v h)"
| "runProcess V run (PMessage m p) h = runProcess V run p (AddReturnMessage m h)"
| "runProcess V run (PLog e p) h = runProcess V run p (AddLogEntry e h)"
| "runProcess V run (PUseGas gas p) h = (case UseGas gas h of (h1, r) \<Rightarrow> runProcess V run (p (r = Inr ())) h1)"
| "runProcess V run (PDeployer a owner p) h = (case UpdateCodeDeployerAddress a owner h of (h1, r) \<Rightarrow> runProcess V run (p (r = Inr ())) h1)"
| "runProcess V run (PDeploy base a owner f val args p) h =
     bindOutcome (DeploySystemSC V run base a owner f val args h) (\<lambda>(h1, r). runProcess V run (p r) h1)"
| "runProcess V run (PCall dst snd' val data p) h =
     bindOutcome (vmExecuteOnDestContext V run dst snd' val data h) (\<lambda>(h1, r). runProcess V run (p r) h1)"

text \<open>
  Contracts call each other to any depth. The first argument bounds the depth; where it is too small the outcome is
  \<open>TooDeep\<close>, and any other outcome stays the same for every larger bound (\<open>runContract_mono\<close>).
\<close>

fun runContract :: "nat \<Rightarrow> vmEnv \<Rightarrow> contracts \<Rightarrow> runner" where
  "runContract 0 V C code i h = TooDeep"
| "runContract (Suc n) V C code i h = runProcess V (runContract n V C) (C code i) h"

definition failedOutput :: "vm_code \<Rightarrow> string \<Rightarrow> vmOutput" where
  "failedOutput code message = \<lparr>outAccounts = [], outGasRemaining = 0, outReturnMessage = message, outLogs = [], outReturnData = [],
     outReturnCode = code\<rparr>"

definition vmRunSmartContractCall :: "vmEnv \<Rightarrow> runner \<Rightarrow> vmInput \<Rightarrow> vmContext \<Rightarrow> (vmContext \<times> (vm_error + vmOutput)) outcome" where
  "vmRunSmartContractCall V run i h =
     (let h1 = (AddTxValueToSmartContract (viValue i) (viRecipient i) ((CleanCache h)\<lparr>scAddress := viRecipient i\<rparr>))
            \<lparr>gasRemaining := viGasProvided i\<rparr>
      in case GetContract V (viRecipient i) of
           Inl e \<Rightarrow> Ret (h1, Inl ErrUnknownSystemSmartContract)
         | Inr code \<Rightarrow>
             if viFunction i = ''_init'' then Ret (h1, Inr (failedOutput VmUserError ''cannot call smart contract init function''))
             else map_outcome (\<lambda>(h2, returnCode).
               if returnCode = VmOk then (h2, Inr (CreateVMOutput V h2))
               else (h2, Inr (failedOutput returnCode (returnMessage h2)))) (run code i h1))"

definition RunSmartContractCreate :: "vmEnv \<Rightarrow> runner \<Rightarrow> bytes \<Rightarrow> vmInput \<Rightarrow> vmContext \<Rightarrow>
    (vmContext \<times> (vm_error + vmOutput)) outcome" where
  "RunSmartContractCreate V run contractCode i h =
     (let h1 = (CleanCache h)\<lparr>scAddress := viCaller i\<rparr> in
      if \<not> isContract V (viCaller i) then Ret (h1, Inl ErrUnknownSystemSmartContract)
      else map_outcome (\<lambda>(h2, returnCode). let h3 = AddCode (viCaller i) contractCode h2
        in (h3, Inr ((CreateVMOutput V h3)\<lparr>outReturnCode := returnCode\<rparr>)))
        (run (viCaller i) (i\<lparr>viRecipient := viCaller i, viFunction := ''_init''\<rparr>) h1))"

end
