(* ===== verification/Vm_Laws.thy ===== *)
theory Vm_Laws
  imports Vm_Context
begin

text \<open>
  What every run of a system contract keeps of the context. The locale states which steps a relation between contexts
  has to allow; a run then respects the relation, to any depth of nested calls. It is used for the conservation of
  value, for the reference to the storage updates and for the gas.
\<close>

subsection \<open>Outcomes\<close>

lemma map_outcome_eq_simps [simp]:
  "map_outcome f x = Ret y \<longleftrightarrow> (\<exists>z. x = Ret z \<and> f z = y)"
  "map_outcome f x = TooDeep \<longleftrightarrow> x = TooDeep"
  by (cases x; auto)+

lemma bindOutcome_eq_Ret [simp]: "bindOutcome x f = Ret y \<longleftrightarrow> (\<exists>z. x = Ret z \<and> f z = Ret y)"
  by (cases x) auto

lemma bindOutcome_mono:
  assumes "bindOutcome x f \<noteq> TooDeep" and "x \<noteq> TooDeep \<Longrightarrow> x' = x" and "\<And>z. f z \<noteq> TooDeep \<Longrightarrow> f' z = f z"
  shows "bindOutcome x' f' = bindOutcome x f"
  using assms by (cases x) auto

text \<open>A larger bound on the depth changes no outcome that a smaller one had reached.\<close>

definition runExtends :: "runner \<Rightarrow> runner \<Rightarrow> bool" where
  "runExtends run run' \<longleftrightarrow> (\<forall>code i h. run code i h \<noteq> TooDeep \<longrightarrow> run' code i h = run code i h)"

lemma vmExecuteOnDestContext_mono:
  "runExtends run run' \<Longrightarrow> vmExecuteOnDestContext V run dst s v d h \<noteq> TooDeep \<Longrightarrow>
    vmExecuteOnDestContext V run' dst s v d h = vmExecuteOnDestContext V run dst s v d h"
  by (auto simp: vmExecuteOnDestContext_def Let_def runExtends_def split: sum.splits if_splits)

lemma DeploySystemSC_mono:
  "runExtends run run' \<Longrightarrow> DeploySystemSC V run b a owner f v args h \<noteq> TooDeep \<Longrightarrow>
    DeploySystemSC V run' b a owner f v args h = DeploySystemSC V run b a owner f v args h"
  by (auto simp: DeploySystemSC_def Let_def runExtends_def split: if_splits)

lemma runProcess_mono:
  assumes "runExtends run run'"
  shows "runProcess V run p h \<noteq> TooDeep \<Longrightarrow> runProcess V run' p h = runProcess V run p h"
proof (induction p arbitrary: h)
  case (PDeploy base a owner f v args p)
  then show ?case
    by (simp only: runProcess.simps) (rule bindOutcome_mono, assumption, erule DeploySystemSC_mono [OF assms], auto)
next
  case (PCall dst s v d p)
  then show ?case
    by (simp only: runProcess.simps) (rule bindOutcome_mono, assumption, erule vmExecuteOnDestContext_mono [OF assms], auto)
qed (auto split: option.splits prod.splits)

lemma runContract_Suc: "runExtends (runContract n V C) (runContract (Suc n) V C)"
proof (induction n)
  case 0
  then show ?case by (simp add: runExtends_def)
next
  case (Suc n)
  then show ?case unfolding runExtends_def by (simp add: runProcess_mono [OF Suc])
qed

lemma runContract_mono:
  assumes "runContract n V C code i h \<noteq> TooDeep"
  shows "runContract (n + k) V C code i h = runContract n V C code i h"
proof (induction k)
  case (Suc k)
  then show ?case using assms runContract_Suc [of "n + k" V C] by (auto simp: runExtends_def simp del: runContract.simps)
qed simp

subsection \<open>Relations that every run respects\<close>

definition runRespects :: "(vmContext \<Rightarrow> vmContext \<Rightarrow> bool) \<Rightarrow> runner \<Rightarrow> bool" where
  "runRespects R run \<longleftrightarrow> (\<forall>code i h h' rc. run code i h = Ret (h', rc) \<longrightarrow> R h h')"

lemma runRespectsD: "runRespects R run \<Longrightarrow> run code i h = Ret (h', rc) \<Longrightarrow> R h h'"
  unfolding runRespects_def by blast

lemma runRespectsI: "(\<And>code i h h' rc. run code i h = Ret (h', rc) \<Longrightarrow> R h h') \<Longrightarrow> runRespects R run"
  unfolding runRespects_def by blast

locale context_relation =
  fixes V :: vmEnv and R :: "vmContext \<Rightarrow> vmContext \<Rightarrow> bool"
  assumes R_refl: "R h h"
    and R_trans: "R h h' \<Longrightarrow> R h' h'' \<Longrightarrow> R h h''"
    and R_storage: "R h (SetStorageForAddress a k v h)"
    and R_transfer: "R h (Transfer V dst sender val data gas h)"
    and R_global: "R h (SendGlobalSettingToAll V data h)"
    and R_finish: "R h (vmFinish v h)"
    and R_message: "R h (AddReturnMessage m h)"
    and R_log: "R h (AddLogEntry e h)"
    and R_gas: "R h (fst (UseGas gas h))"
    and R_deployer: "R h (fst (UpdateCodeDeployerAddress a owner h))"
    and R_before: "R h (transferBeforeInternalExec V i sender t h)"
    and R_address: "R h (h\<lparr>scAddress := a\<rparr>)"
    and R_deployed: "R h (addContractDeployToOutput V a owner code h)"
    and R_refused: "R h (leaveNested V (copyToNewContext h) rc ((softCleanCache h)\<lparr>scAddress := a\<rparr>))"
    and R_nested: "R ((softCleanCache h)\<lparr>scAddress := a\<rparr>) h' \<Longrightarrow> R h (fst (afterNested V (copyToNewContext h) (h', rc)))"
begin

lemma R_call:
  assumes "runRespects R run" and ex: "vmExecuteOnDestContext V run dst sender val data h = Ret (h', r)"
  shows "R h h'"
proof (cases "createContractCallInput V dst sender val data")
  case (Inl e)
  then show ?thesis using ex by (simp add: vmExecuteOnDestContext_def R_refl)
next
  case (Inr i)
  define h1 where "h1 = transferBeforeInternalExec V i sender ''ExecuteOnDestContext'' h"
  note b = R_before [of h i sender "''ExecuteOnDestContext''", folded h1_def]
  have "R h1 h'"
  proof (cases "GetContract V (viRecipient i)")
    case (Inl e)
    with ex Inr show ?thesis by (auto simp: vmExecuteOnDestContext_def Let_def h1_def intro!: R_refused)
  next
    case code: (Inr code)
    show ?thesis
    proof (cases "viFunction i = ''_init''")
      case True
      with ex Inr code show ?thesis by (auto simp: vmExecuteOnDestContext_def Let_def h1_def intro!: R_refused)
    next
      case False
      with ex Inr code obtain h3 rc
        where run: "run code i ((softCleanCache h1)\<lparr>scAddress := viRecipient i\<rparr>) = Ret (h3, rc)"
          and h': "h' = fst (afterNested V (copyToNewContext h1) (h3, rc))"
        by (auto simp: vmExecuteOnDestContext_def Let_def h1_def)
      show ?thesis unfolding h' by (rule R_nested [OF runRespectsD [OF assms(1) run]])
    qed
  qed
  with b show ?thesis by (rule R_trans)
qed

lemma R_deploy:
  assumes "runRespects R run" and ex: "DeploySystemSC V run base a owner f val args h = Ret (h', r)"
  shows "R h h'"
proof -
  define i where "i = createDirectCallInput a owner val f args"
  define h1 where "h1 = transferBeforeInternalExec V i (scAddress h) ''DeploySmartContract'' h"
  note b = R_before [of h i "scAddress h" "''DeploySmartContract''", folded h1_def]
  have "R h1 h'"
  proof (cases "isContract V base")
    case False
    with ex show ?thesis by (simp add: DeploySystemSC_def Let_def h1_def i_def R_refl)
  next
    case True
    with ex obtain h2 rc where run: "run base i (h1\<lparr>scAddress := viRecipient i\<rparr>) = Ret (h2, rc)"
      and h': "h' = addContractDeployToOutput V a owner base (h2\<lparr>scAddress := scAddress h1\<rparr>)"
      by (auto simp: DeploySystemSC_def Let_def h1_def i_def)
    show ?thesis unfolding h'
      by (rule R_trans [OF R_trans [OF R_trans [OF R_address runRespectsD [OF assms(1) run]] R_address] R_deployed])
  qed
  with b show ?thesis by (rule R_trans)
qed

lemma runProcess_respects:
  assumes "runRespects R run"
  shows "runProcess V run p h = Ret (h', rc) \<Longrightarrow> R h h'"
proof (induction p arbitrary: h)
  case (Return code)
  then show ?case by (simp add: R_refl)
next
  case (PSetStorage k v p)
  then show ?case by (auto simp: vmSetStorage_def intro: R_trans [OF R_storage])
next
  case (PSetStorageFor a k v p)
  then show ?case by (auto intro: R_trans [OF R_storage])
next
  case (PTransfer a b v d g p)
  then show ?case by (auto intro: R_trans [OF R_transfer])
next
  case (PSendGlobal d p)
  then show ?case by (auto intro: R_trans [OF R_global])
next
  case (PFinish v p)
  then show ?case by (auto intro: R_trans [OF R_finish])
next
  case (PMessage m p)
  then show ?case by (auto intro: R_trans [OF R_message])
next
  case (PLog e p)
  then show ?case by (auto intro: R_trans [OF R_log])
next
  case (PUseGas g p)
  then have "R (fst (UseGas g h)) h'" by (auto simp: case_prod_beta)
  then show ?case by (rule R_trans [OF R_gas])
next
  case (PDeployer a owner p)
  then have "R (fst (UpdateCodeDeployerAddress a owner h)) h'" by (auto simp: case_prod_beta)
  then show ?case by (rule R_trans [OF R_deployer])
next
  case (PDeploy base a owner f v args p)
  then obtain h1 r where 1: "DeploySystemSC V run base a owner f v args h = Ret (h1, r)" and 2: "runProcess V run (p r) h1 = Ret (h', rc)"
    by auto
  show ?case by (rule R_trans [OF R_deploy [OF assms 1] PDeploy.IH [OF rangeI 2]])
next
  case (PCall dst s v d p)
  then obtain h1 r where 1: "vmExecuteOnDestContext V run dst s v d h = Ret (h1, r)" and 2: "runProcess V run (p r) h1 = Ret (h', rc)"
    by auto
  show ?case by (rule R_trans [OF R_call [OF assms 1] PCall.IH [OF rangeI 2]])
qed (auto split: option.splits)

lemma runContract_respects: "runRespects R (runContract n V C)"
proof (induction n)
  case 0
  then show ?case by (simp add: runRespects_def)
next
  case (Suc n)
  show ?case by (rule runRespectsI) (use Suc.IH in \<open>auto intro: runProcess_respects\<close>)
qed

lemma runContract_R: "runContract n V C code i h = Ret (h', rc) \<Longrightarrow> R h h'"
  using runContract_respects by (rule runRespectsD)

end

end
