(* ===== verification/Vm_Value.thy ===== *)
theory Vm_Value
  imports Vm_Laws
begin

text \<open>
  The sum of the balance deltas of the output accounts, step by step, and the three relations that every run respects:
  value is conserved, the reference to the storage updates stays the same, and gas is only used up.
\<close>

subsection \<open>The sum of the deltas\<close>

definition totalDelta :: "(bytes \<times> outputAccount) list \<Rightarrow> int" where
  "totalDelta accs = (\<Sum>(a, acc)\<leftarrow>accs. oaBalanceDelta acc)"

definition deltaOf :: "(bytes \<times> outputAccount) list \<Rightarrow> bytes \<Rightarrow> int" where
  "deltaOf accs a = (case map_of accs a of None \<Rightarrow> 0 | Some acc \<Rightarrow> oaBalanceDelta acc)"

definition accountsWf :: "(bytes \<times> outputAccount) list \<Rightarrow> bool" where
  "accountsWf accs \<longleftrightarrow> distinct (map fst accs) \<and> (\<forall>(a, acc) \<in> set accs. oaAddress acc = a)"

lemma totalDelta_simps [simp]:
  "totalDelta [] = 0"
  "totalDelta (p # ps) = oaBalanceDelta (snd p) + totalDelta ps"
  by (simp_all add: totalDelta_def case_prod_beta)

lemma totalDelta_append [simp]: "totalDelta (xs @ ys) = totalDelta xs + totalDelta ys"
  by (induction xs) simp_all

lemma accountsWf_Nil [simp]: "accountsWf []"
  by (simp add: accountsWf_def)

lemma totalDelta_update:
  "distinct (map fst accs) \<Longrightarrow> totalDelta (AList.update a acc accs) = totalDelta accs - deltaOf accs a + oaBalanceDelta acc"
  by (induction accs) (auto simp: deltaOf_def map_of_eq_None_iff split: option.splits)

lemma accountsWf_update:
  assumes "accountsWf accs" and "oaAddress acc = a"
  shows "accountsWf (AList.update a acc accs)"
  using assms distinct_update [of accs a acc]
  by (induction accs) (auto simp: accountsWf_def)

lemma accountsWf_address: "accountsWf accs \<Longrightarrow> map_of accs a = Some acc \<Longrightarrow> oaAddress acc = a"
  by (auto simp: accountsWf_def dest: map_of_SomeD)

lemma accountsWf_distinct: "accountsWf accs \<Longrightarrow> distinct (map fst accs)"
  by (simp add: accountsWf_def)

subsection \<open>One account written\<close>

text \<open>What a context has collected, and what writing one account does to it.\<close>

definition settled :: "int \<Rightarrow> vmContext \<Rightarrow> vmContext \<Rightarrow> bool" where
  "settled d h h' \<longleftrightarrow> (accountsWf (outputAccounts h) \<longrightarrow>
     accountsWf (outputAccounts h') \<and> totalDelta (outputAccounts h') = totalDelta (outputAccounts h) + d)"

lemma settled_trans: "settled d h h' \<Longrightarrow> settled e h' h'' \<Longrightarrow> settled (d + e) h h''"
  by (auto simp: settled_def)

lemma settled_trans0: "settled 0 h h' \<Longrightarrow> settled e h' h'' \<Longrightarrow> settled e h h''"
  using settled_trans [of 0] by simp

lemma settled_same: "outputAccounts h' = outputAccounts h \<Longrightarrow> settled 0 h h'"
  by (simp add: settled_def)

lemma getOutputAccount_address [simp]: "accountsWf (outputAccounts h) \<Longrightarrow> oaAddress (getOutputAccount a h) = a"
  by (auto simp: getOutputAccount_def newAccount_def nilAccount_def accountsWf_address split: option.splits)

lemma getOutputAccount_delta [simp]: "oaBalanceDelta (getOutputAccount a h) = deltaOf (outputAccounts h) a"
  by (auto simp: getOutputAccount_def newAccount_def nilAccount_def deltaOf_def split: option.splits)

lemma put_settled:
  assumes "accountsWf (outputAccounts h) \<Longrightarrow> oaAddress acc = a" and "oaBalanceDelta acc = deltaOf (outputAccounts h) a + d"
  shows "settled d h (putOutputAccount a acc h)"
  using assms by (auto simp: settled_def putOutputAccount_def totalDelta_update accountsWf_update accountsWf_distinct)

lemma addDelta_settled: "settled v h (addDelta a v h)"
  by (simp add: addDelta_def Let_def put_settled)

lemma addTransfer_settled: "settled 0 h (addTransfer a t h)"
  by (simp add: addTransfer_def Let_def put_settled)

lemma getSenderDestination_settled: "settled 0 h (getSenderDestination s d h)"
  unfolding getSenderDestination_def Let_def
  by (rule settled_trans0 [OF put_settled put_settled]) simp_all

lemma transferValueOnly_settled: "settled 0 h (transferValueOnly d s v h)"
proof -
  define h1 where "h1 = getSenderDestination s d h"
  have "settled (- v + v) h1 (addDelta d v (addDelta s (- v) h1))"
    by (rule settled_trans [OF addDelta_settled addDelta_settled])
  then show ?thesis
    using getSenderDestination_settled [of h s d] by (auto simp: transferValueOnly_def h1_def intro: settled_trans0)
qed

lemma Transfer_settled: "settled 0 h (Transfer V d s v i g h)"
proof -
  define h1 where "h1 = getSenderDestination s d (transferValueOnly d s v h)"
  have "settled 0 h h1"
    unfolding h1_def by (rule settled_trans0 [OF transferValueOnly_settled getSenderDestination_settled])
  moreover have "settled 0 h1 (snd (NextOutputTransferIndex h1))"
    by (rule settled_same) (simp add: NextOutputTransferIndex_def)
  ultimately show ?thesis
    unfolding Transfer_def Let_def h1_def [symmetric] by (auto simp: case_prod_beta intro: settled_trans0 addTransfer_settled)
qed

lemma sendGlobalLoop_settled: "settled 0 h (sendGlobalLoop V d n i h)"
proof (induction n arbitrary: i h)
  case 0
  then show ?case by (simp add: settled_same)
next
  case (Suc n)
  have "settled 0 h (snd (NextOutputTransferIndex h))"
    by (rule settled_same) (simp add: NextOutputTransferIndex_def)
  then show ?case using Suc.IH
    by (auto simp: Let_def case_prod_beta intro: settled_trans0 [OF settled_trans0 [OF _ addTransfer_settled]])
qed

lemma UpdateCodeDeployer_settled: "settled 0 h (fst (UpdateCodeDeployerAddress a owner h))"
proof (cases "map_of (outputAccounts h) a")
  case None
  then show ?thesis by (simp add: UpdateCodeDeployerAddress_def settled_same)
next
  case (Some acc)
  then show ?thesis by (simp add: UpdateCodeDeployerAddress_def put_settled deltaOf_def accountsWf_address)
qed

lemma before_settled: "settled 0 h (transferBeforeInternalExec V i s t h)"
proof -
  have "settled 0 (transferValueOnly d s v h) (AddLogEntry e (transferValueOnly d s v h))" for d v e
    by (rule settled_same) (simp add: AddLogEntry_def)
  then show ?thesis
    by (auto simp: transferBeforeInternalExec_def intro: Transfer_settled settled_trans0 [OF transferValueOnly_settled])
qed

lemma deployed_settled: "settled 0 h (addContractDeployToOutput V a owner code h)"
  by (simp add: addContractDeployToOutput_def put_settled)

subsection \<open>Merging what the caller had collected\<close>

lemma addOutputAccounts_address: "oaAddress (addOutputAccounts l r) = (if oaAddress r \<noteq> [] then oaAddress r else oaAddress l)"
  by (simp add: addOutputAccounts_def)

lemma addOutputAccounts_delta: "oaBalanceDelta (addOutputAccounts l r) = oaBalanceDelta l + oaBalanceDelta r"
  by (simp add: addOutputAccounts_def)

lemma merge_settled:
  "settled (totalDelta accs) h
     (foldl (\<lambda>h (_, r). putOutputAccount (oaAddress r) (addOutputAccounts (getOutputAccount (oaAddress r) h) r) h) h accs)"
proof (induction accs arbitrary: h)
  case Nil
  then show ?case by (simp add: settled_same)
next
  case (Cons p accs)
  obtain k r where p: "p = (k, r)" by (cases p)
  have "settled (oaBalanceDelta r) h
      (putOutputAccount (oaAddress r) (addOutputAccounts (getOutputAccount (oaAddress r) h) r) h)"
    by (rule put_settled) (simp_all add: addOutputAccounts_address addOutputAccounts_delta)
  from settled_trans [OF this Cons.IH] show ?case by (simp add: p)
qed

definition mergesContexts :: "vmEnv \<Rightarrow> bool" where
  "mergesContexts V \<longleftrightarrow> MultiClaimOnDelegationFlag V \<and> AlwaysMergeContextsInEEIFlag V"

lemma leaveNested_settled:
  assumes "mergesContexts V"
  shows "settled (totalDelta (ccAccounts c)) h (leaveNested V c code h)"
proof -
  have "settled 0 h (h\<lparr>scAddress := ccAddress c, hostOutput := ccOutput c\<rparr>)"
    by (rule settled_same) simp
  then show ?thesis
    using assms by (auto simp: leaveNested_def properMergeContexts_def mergesContexts_def Let_def intro: settled_trans0 merge_settled)
qed

subsection \<open>Value is conserved\<close>

definition valueKept :: "vmEnv \<Rightarrow> vmContext \<Rightarrow> vmContext \<Rightarrow> bool" where
  "valueKept V h h' \<longleftrightarrow> (mergesContexts V \<longrightarrow> settled 0 h h')"

lemma valueKept_I: "settled 0 h h' \<Longrightarrow> valueKept V h h'"
  by (simp add: valueKept_def)

lemma settled_from_empty:
  "settled d h h' \<Longrightarrow> outputAccounts h = [] \<Longrightarrow> accountsWf (outputAccounts h') \<and> totalDelta (outputAccounts h') = d"
  by (simp add: settled_def)

lemma nested_settled:
  assumes "mergesContexts V" and "accountsWf (outputAccounts h')" and "totalDelta (outputAccounts h') = 0"
  shows "settled 0 h (leaveNested V (copyToNewContext h) code h')"
  using leaveNested_settled [OF assms(1), of "copyToNewContext h" h' code] assms(2,3)
  by (simp add: settled_def copyToNewContext_def)

interpretation val: context_relation V "valueKept V" for V
proof (unfold_locales, goal_cases)
  case (2 h h' h'')
  then show ?case by (auto simp: valueKept_def intro: settled_trans0)
next
  case 14
  then show ?case by (auto simp: valueKept_def softCleanCache_def intro!: nested_settled)
next
  case (15 a h h' rc)
  then show ?case
    by (auto simp: valueKept_def afterNested_def softCleanCache_def intro!: nested_settled dest!: settled_from_empty)
qed (auto intro!: valueKept_I settled_same Transfer_settled sendGlobalLoop_settled UpdateCodeDeployer_settled before_settled deployed_settled
    simp: SetStorageForAddress_def SendGlobalSettingToAll_def vmFinish_def AddReturnMessage_def AddLogEntry_def UseGas_def)

subsection \<open>The storage updates stay one object\<close>

definition storageKept :: "vmContext \<Rightarrow> vmContext \<Rightarrow> bool" where
  "storageKept h h' \<longleftrightarrow> storageUpdate h' = storageUpdate h \<and>
     (distinct (map fst (currentStorage h)) \<longrightarrow> distinct (map fst (currentStorage h')))"

lemma storageKept_same:
  "storageUpdate h' = storageUpdate h \<Longrightarrow> storageHeap h' = storageHeap h \<Longrightarrow> storageKept h h'"
  by (simp add: storageKept_def currentStorage_def)

lemma storageKept_trans: "storageKept h h' \<Longrightarrow> storageKept h' h'' \<Longrightarrow> storageKept h h''"
  by (simp add: storageKept_def)

lemma put_storage [simp]:
  "storageUpdate (putOutputAccount a acc h) = storageUpdate h"
  "storageHeap (putOutputAccount a acc h) = storageHeap h"
  by (simp_all add: putOutputAccount_def)

lemma accounts_storage [simp]:
  "storageUpdate (addDelta a v h) = storageUpdate h" "storageHeap (addDelta a v h) = storageHeap h"
  "storageUpdate (addTransfer a t h) = storageUpdate h" "storageHeap (addTransfer a t h) = storageHeap h"
  "storageUpdate (getSenderDestination s d h) = storageUpdate h" "storageHeap (getSenderDestination s d h) = storageHeap h"
  by (simp_all add: addDelta_def addTransfer_def getSenderDestination_def Let_def)

lemma transfer_storage [simp]:
  "storageUpdate (transferValueOnly d s v h) = storageUpdate h" "storageHeap (transferValueOnly d s v h) = storageHeap h"
  "storageUpdate (Transfer V d s v i g h) = storageUpdate h" "storageHeap (Transfer V d s v i g h) = storageHeap h"
  by (simp_all add: transferValueOnly_def Transfer_def Let_def NextOutputTransferIndex_def)

lemma sendGlobal_storage [simp]:
  "storageUpdate (sendGlobalLoop V d n i h) = storageUpdate h" "storageHeap (sendGlobalLoop V d n i h) = storageHeap h"
  by (induction n arbitrary: i h) (simp_all add: Let_def NextOutputTransferIndex_def)

lemma foldl_put_storage:
  assumes "\<And>h p. storageUpdate (f h p) = storageUpdate h" and "\<And>h p. storageHeap (f h p) = storageHeap h"
  shows "storageUpdate (foldl f h ps) = storageUpdate h" and "storageHeap (foldl f h ps) = storageHeap h"
  using assms by (induction ps arbitrary: h) simp_all

lemma mergeStorage_distinct: "distinct (map fst host) \<Longrightarrow> distinct (map fst (mergeStorage parent host))"
  unfolding mergeStorage_def by (induction parent arbitrary: host) (auto simp: distinct_update split: option.splits)

lemma ccStorage_copy [simp]: "ccStorage (copyToNewContext h) = storageUpdate h"
  by (simp add: copyToNewContext_def)

lemma leaveNested_storage:
  assumes "storageUpdate h' = storageUpdate h"
  shows "storageKept h' (leaveNested V (copyToNewContext h) code h')"
  using assms
  by (auto simp: leaveNested_def properMergeContexts_def mergeContext_def Let_def storageKept_def currentStorage_def
      foldl_put_storage case_prod_beta copyToNewContext_def mergeStorage_distinct)

lemma leaveNested_storage_exact:
  "MultiClaimOnDelegationFlag V \<Longrightarrow> storageUpdate (leaveNested V c code h) = storageUpdate h \<and>
    storageHeap (leaveNested V c code h) = storageHeap h"
  by (auto simp: leaveNested_def properMergeContexts_def Let_def foldl_put_storage case_prod_beta)

lemma afterNested_storage:
  assumes "storageKept h h'"
  shows "storageKept h (fst (afterNested V (copyToNewContext h) (h', rc)))"
proof (cases "rc = VmOk")
  case True
  have "storageKept h' (leaveNested V (copyToNewContext h) rc h')"
    using assms by (intro leaveNested_storage) (simp add: storageKept_def)
  with True assms show ?thesis by (auto simp: afterNested_def intro: storageKept_trans)
next
  case False
  define k where "k = h'\<lparr>outputAccounts := [], storageUpdate := storageUpdate h\<rparr>"
  have "storageKept h' k"
    using assms by (intro storageKept_same) (simp_all add: k_def storageKept_def)
  moreover have "storageKept k (leaveNested V (copyToNewContext h) rc k)"
    by (rule leaveNested_storage) (simp add: k_def)
  ultimately show ?thesis
    using False assms by (auto simp: afterNested_def k_def intro: storageKept_trans)
qed

interpretation store: context_relation V storageKept for V
proof (unfold_locales, goal_cases)
  case (2 h h' h'')
  then show ?case by (rule storageKept_trans)
next
  case (3 h a k v)
  then show ?case by (simp add: storageKept_def currentStorage_def SetStorageForAddress_def Let_def distinct_update)
next
  case 14
  then show ?case
    by (rule storageKept_trans [OF storageKept_same leaveNested_storage]) (simp_all add: softCleanCache_def)
next
  case (15 a h h' rc)
  then have "storageKept h h'" by (auto simp: storageKept_def softCleanCache_def currentStorage_def)
  then show ?case by (rule afterNested_storage)
qed (auto intro!: storageKept_same simp: SendGlobalSettingToAll_def vmFinish_def AddReturnMessage_def AddLogEntry_def UseGas_def
    UpdateCodeDeployerAddress_def transferBeforeInternalExec_def addContractDeployToOutput_def split: option.splits)

subsection \<open>The output\<close>

lemma storageAccounts_facts:
  "map fst (storageAccounts s) = map fst s" "totalDelta (storageAccounts s) = 0" "deltaOf (storageAccounts s) a = 0"
proof -
  show "map fst (storageAccounts s) = map fst s"
    by (simp add: storageAccounts_def case_prod_beta comp_def)
  show "totalDelta (storageAccounts s) = 0"
    by (induction s) (auto simp: storageAccounts_def nilAccount_def)
  show "deltaOf (storageAccounts s) a = 0"
    by (induction s) (auto simp: storageAccounts_def nilAccount_def deltaOf_def)
qed

lemma output_step_total:
  assumes "distinct (map fst accs)" and "distinct (map fst outs)" and "\<forall>a \<in> fst ` set accs. deltaOf outs a = 0"
  shows "totalDelta (foldl (\<lambda>acc (a, oa). AList.update a
      (outputOf V oa (case map_of acc a of None \<Rightarrow> nilAccount | Some x \<Rightarrow> x)) acc) outs accs) = totalDelta outs + totalDelta accs"
  using assms
proof (induction accs arbitrary: outs)
  case (Cons p accs)
  obtain a oa where p: "p = (a, oa)" by (cases p)
  let ?o = "outputOf V oa (case map_of outs a of None \<Rightarrow> nilAccount | Some x \<Rightarrow> x)"
  have d: "oaBalanceDelta ?o = oaBalanceDelta oa" by (simp add: outputOf_def)
  have "\<forall>b \<in> fst ` set accs. deltaOf (AList.update a ?o outs) b = 0"
    using Cons.prems by (auto simp: p deltaOf_def update_conv image_iff)
  then show ?case
    using Cons.IH [of "AList.update a ?o outs"] Cons.prems d
    by (simp add: p distinct_update totalDelta_update)
qed simp

lemma CreateVMOutput_total:
  assumes "accountsWf (outputAccounts h)" and "distinct (map fst (currentStorage h))"
  shows "totalDelta (outAccounts (CreateVMOutput V h)) = totalDelta (outputAccounts h)"
  using output_step_total [of "outputAccounts h" "storageAccounts (currentStorage h)" V] assms
  by (simp add: CreateVMOutput_def storageAccounts_facts accountsWf_distinct)

subsection \<open>Gas\<close>

definition gasKept :: "vmContext \<Rightarrow> vmContext \<Rightarrow> bool" where
  "gasKept h h' \<longleftrightarrow> gasRemaining h' \<le> gasRemaining h"

lemma put_gas [simp]: "gasRemaining (putOutputAccount a acc h) = gasRemaining h"
  by (simp add: putOutputAccount_def)

lemma accounts_gas [simp]:
  "gasRemaining (addDelta a v h) = gasRemaining h"
  "gasRemaining (addTransfer a t h) = gasRemaining h"
  "gasRemaining (getSenderDestination s d h) = gasRemaining h"
  by (simp_all add: addDelta_def addTransfer_def getSenderDestination_def Let_def)

lemma transfer_gas [simp]:
  "gasRemaining (transferValueOnly d s v h) = gasRemaining h"
  "gasRemaining (Transfer V d s v i g h) = gasRemaining h"
  by (simp_all add: transferValueOnly_def Transfer_def Let_def NextOutputTransferIndex_def)

lemma sendGlobal_gas [simp]: "gasRemaining (sendGlobalLoop V d n i h) = gasRemaining h"
  by (induction n arbitrary: i h) (simp_all add: Let_def NextOutputTransferIndex_def)

lemma foldl_put_gas: "(\<And>h p. gasRemaining (f h p) = gasRemaining h) \<Longrightarrow> gasRemaining (foldl f h ps) = gasRemaining h"
  by (induction ps arbitrary: h) simp_all

lemma leaveNested_gas [simp]: "gasRemaining (leaveNested V c code h) = gasRemaining h"
  by (auto simp: leaveNested_def properMergeContexts_def mergeContext_def Let_def foldl_put_gas case_prod_beta)

interpretation gas: context_relation V gasKept for V
  by unfold_locales
    (auto simp: gasKept_def SetStorageForAddress_def SendGlobalSettingToAll_def vmFinish_def AddReturnMessage_def AddLogEntry_def
      UseGas_def word_sub_le UpdateCodeDeployerAddress_def transferBeforeInternalExec_def addContractDeployToOutput_def
      softCleanCache_def afterNested_def Let_def split: option.splits)

end
