(* ===== verification/Esdt_Config.thy ===== *)
theory Esdt_Config
  imports Vm_Context
begin

text \<open>
  The handlers of \<open>vm/systemSmartContracts/esdt.go\<close> around the configuration of the token contract, as processes over
  the methods of the context: \<open>init\<close>, \<open>configChange\<close>, \<open>getContractConfig\<close> and \<open>claim\<close>, with which the owner withdraws
  the balance of the contract. The marshaller is a parameter.
\<close>

record ESDTConfig =
  cfgOwnerAddress :: bytes
  cfgBaseIssuingCost :: int
  cfgMinTokenNameLength :: u32
  cfgMaxTokenNameLength :: u32

record esdtEnv =
  esdtOwner :: bytes
  esdtBaseIssuingCost :: int
  esdtEndOfEpoch :: bytes
  ESDTOperations :: u64
  marshalConfig :: "ESDTConfig \<Rightarrow> string + bytes"
  unmarshalConfig :: "ESDTConfig \<Rightarrow> bytes \<Rightarrow> string + ESDTConfig"

definition configKeyPrefix :: bytes where
  "configKeyPrefix = map of_char ''esdtConfig''"

definition esdtDefaultConfig :: "esdtEnv \<Rightarrow> ESDTConfig" where
  "esdtDefaultConfig E = \<lparr>cfgOwnerAddress = esdtOwner E, cfgBaseIssuingCost = esdtBaseIssuingCost E, cfgMinTokenNameLength = 10,
     cfgMaxTokenNameLength = 20\<rparr>"

text \<open>A function that uses the context takes what follows it as an argument.\<close>

definition saveESDTConfig :: "esdtEnv \<Rightarrow> ESDTConfig \<Rightarrow> (string + unit \<Rightarrow> process) \<Rightarrow> process" where
  "saveESDTConfig E c p = (case marshalConfig E c of
     Inl e \<Rightarrow> p (Inl e) | Inr d \<Rightarrow> PSetStorage configKeyPrefix d (p (Inr ())))"

definition esdtInit :: "esdtEnv \<Rightarrow> vmInput \<Rightarrow> process" where
  "esdtInit E i = saveESDTConfig E (esdtDefaultConfig E) (\<lambda>r. Return (if r = Inr () then VmOk else VmUserError))"

definition storedConfig :: "esdtEnv \<Rightarrow> bytes \<Rightarrow> string + ESDTConfig" where
  "storedConfig E d = (if d = [] then Inr (esdtDefaultConfig E) else unmarshalConfig E (esdtDefaultConfig E) d)"

definition getESDTConfig :: "esdtEnv \<Rightarrow> (string + ESDTConfig \<Rightarrow> process) \<Rightarrow> process" where
  "getESDTConfig E p = PGetOwn configKeyPrefix (\<lambda>d. p (storedConfig E d))"

definition getEsdtOwner :: "esdtEnv \<Rightarrow> (string + bytes \<Rightarrow> process) \<Rightarrow> process" where
  "getEsdtOwner E p = getESDTConfig E (\<lambda>r. case r of Inl e \<Rightarrow> p (Inl e) | Inr c \<Rightarrow> p (Inr (cfgOwnerAddress c)))"

definition failMessage :: "string \<Rightarrow> vm_code \<Rightarrow> process" where
  "failMessage m code = PMessage m (Return code)"

definition newConfigOf :: "bytes list \<Rightarrow> ESDTConfig" where
  "newConfigOf args = \<lparr>cfgOwnerAddress = args ! 0, cfgBaseIssuingCost = fromBytes (args ! 1),
     cfgMinTokenNameLength = ucast (of_int (fromBytes (args ! 2)) :: u64),
     cfgMaxTokenNameLength = ucast (of_int (fromBytes (args ! 3)) :: u64)\<rparr>"

definition configChange :: "esdtEnv \<Rightarrow> vmInput \<Rightarrow> process" where
  "configChange E i = getEsdtOwner E (\<lambda>r. case r of
     Inl e \<Rightarrow> failMessage (''could not get stored owner, error: '' @ e) VmUserError
   | Inr owner \<Rightarrow>
       if \<not> (viCaller i = owner \<or> viCaller i = esdtEndOfEpoch E)
       then failMessage ''configChange can be called by whitelisted address only'' VmUserError
       else if viValue i \<noteq> 0 then failMessage ''callValue must be 0'' VmUserError
       else PUseGas (ESDTOperations E) (\<lambda>ok.
         if \<not> ok then failMessage ''not enough gas'' VmOutOfGas
         else if length (viArguments i) \<noteq> 4 then failMessage ''invalid number of arguments'' VmUserError
         else let newConfig = newConfigOf (viArguments i) in
           if length (cfgOwnerAddress newConfig) \<noteq> length (viRecipient i)
           then failMessage ''invalid arguments, first argument must be a valid address'' VmUserError
           else if cfgBaseIssuingCost newConfig < 0 then failMessage ''invalid new base issueing cost'' VmUserError
           else if cfgMinTokenNameLength newConfig > cfgMaxTokenNameLength newConfig
           then failMessage ''invalid min and max token name lengths'' VmUserError
           else saveESDTConfig E newConfig (\<lambda>r. case r of Inl e \<Rightarrow> failMessage e VmUserError | Inr _ \<Rightarrow> Return VmOk)))"

definition esdtClaim :: "esdtEnv \<Rightarrow> vmInput \<Rightarrow> process" where
  "esdtClaim E i = getEsdtOwner E (\<lambda>r. case r of
     Inl e \<Rightarrow> failMessage (''could not get stored owner, error: '' @ e) VmUserError
   | Inr owner \<Rightarrow>
       if viCaller i \<noteq> owner then failMessage ''claim can be called by whitelisted address only'' VmUserError
       else if viValue i \<noteq> 0 then failMessage ''callValue must be 0'' VmUserError
       else PUseGas (ESDTOperations E) (\<lambda>ok.
         if \<not> ok then failMessage ''not enough gas'' VmOutOfGas
         else if viArguments i \<noteq> [] then failMessage ''invalid number of arguments'' VmUserError
         else PGetBalance (viRecipient i) (\<lambda>scBalance.
           PTransfer (viCaller i) (viRecipient i) scBalance [] 0 (Return VmOk))))"

definition checkArgumentsForGeneralViewFunc :: "esdtEnv \<Rightarrow> vmInput \<Rightarrow> process \<Rightarrow> process" where
  "checkArgumentsForGeneralViewFunc E i p =
     (if viValue i \<noteq> 0 then failMessage ''call value must be zero'' VmUserError
      else PUseGas (ESDTOperations E) (\<lambda>ok.
        if \<not> ok then failMessage ''not enough gas'' VmOutOfGas
        else if viArguments i \<noteq> [] then failMessage ''invalid number of arguments'' VmUserError
        else p))"

definition getContractConfig :: "esdtEnv \<Rightarrow> vmInput \<Rightarrow> process" where
  "getContractConfig E i = checkArgumentsForGeneralViewFunc E i (getESDTConfig E (\<lambda>r. case r of
     Inl e \<Rightarrow> failMessage e VmUserError
   | Inr c \<Rightarrow> PFinish (cfgOwnerAddress c) (PFinish (bigBytes (cfgBaseIssuingCost c))
       (PFinish (bigBytes (uint (cfgMinTokenNameLength c))) (PFinish (bigBytes (uint (cfgMaxTokenNameLength c))) (Return VmOk))))))"

end
