(* ===== verification/Vm_Theorems.thy ===== *)
theory Vm_Theorems
  imports Vm_Value Esdt_Config
begin

text \<open>
  Properties of the calls of the system VM: what a whole call conserves, what a failed nested call leaves behind, and
  the token contract's \<open>claim\<close>.
\<close>

subsection \<open>Samples\<close>

definition sampleVm :: vmEnv where
  "sampleVm = \<lparr>MultiClaimOnDelegationFlag = True, SetSenderInEeiOutputTransferFlag = True, AlwaysMergeContextsInEEIFlag = True,
     hookStorage = (\<lambda>a k. []), hookNonce = 1, hookBalance = (\<lambda>a. 100), hookCode = (\<lambda>a. None), numberOfShards = 3,
     systemAccountAddress = [255, 255], parseData = (\<lambda>d. Some (''f'', [d])),
     logDataForCall = (\<lambda>t f args. args), mergeOutputAccounts = addOutputAccounts, deployMetadata = [4],
     isContract = (\<lambda>a. a \<in> {[1], [2]}), canUseContract = (\<lambda>a. True)\<rparr>"

definition sampleContext :: vmContext where
  "sampleContext = \<lparr>scAddress = [], storageUpdate = 0, storageHeap = (\<lambda>r. []), storageNext = 1, outputAccounts = [], gasRemaining = 0,
     returnMessage = [], hostOutput = [], logs = [], crtTransferIndex = 1\<rparr>"

text \<open>The contract at \<open>[1]\<close> pays, calls the one at \<open>[2]\<close> with value and goes on whatever that answers; the contract at \<open>[2]\<close> pays, writes and fails.\<close>

definition sampleContracts :: contracts where
  "sampleContracts code i = (if code = [1]
     then PUseGas 10 (\<lambda>ok. PTransfer [9] [1] 3 [] 0 (PCall [2] [1] 4 [7] (\<lambda>r. Return VmOk)))
     else PTransfer [9] [2] 1 [] 0 (PSetStorage [5] [6] (Return VmUserError)))"

definition sampleCall :: vmInput where
  "sampleCall = \<lparr>viCaller = [8], viArguments = [], viValue = 20, viRecipient = [1], viFunction = ''f'', viGasProvided = 50\<rparr>"

subsection \<open>Whole calls\<close>

lemma call_start:
  "storageUpdate (AddTxValueToSmartContract v a (CleanCache h\<lparr>scAddress := a\<rparr>)) = storageNext h"
  "currentStorage (AddTxValueToSmartContract v a (CleanCache h\<lparr>scAddress := a\<rparr>)) = []"
  "outputAccounts (AddTxValueToSmartContract v a (CleanCache h\<lparr>scAddress := a\<rparr>)) =
     [(a, nilAccount\<lparr>oaAddress := a, oaBalanceDelta := v\<rparr>)]"
  by (simp_all add: AddTxValueToSmartContract_def CleanCache_def freshStorage_def currentStorage_def Let_def putOutputAccount_def
      nilAccount_def)

lemma CreateVMOutput_simps [simp]:
  "outReturnCode (CreateVMOutput V h) = VmOk"
  "outGasRemaining (CreateVMOutput V h) = gasRemaining h"
  by (simp_all add: CreateVMOutput_def)

lemma failedOutput_simps [simp]:
  "outReturnCode (failedOutput code m) = code" "outGasRemaining (failedOutput code m) = 0" "outAccounts (failedOutput code m) = []"
  by (simp_all add: failedOutput_def)

text \<open>C38. Value is conserved by the calls of the system VM. With the contexts always merged, a call that returns \<open>Ok\<close> has
  balance deltas that add up to the value sent with the call, whatever the contracts do and however deep they call each
  other, failing nested calls included; a call that returns another code changes no account. The gas that remains is at
  most the gas provided.
\<close>

theorem system_call_conserves_value:
  assumes "MultiClaimOnDelegationFlag V" and "AlwaysMergeContextsInEEIFlag V"
    and call: "vmRunSmartContractCall V (runContract n V C) i h = Ret (h', Inr out)"
  shows "(if outReturnCode out = VmOk then totalDelta (outAccounts out) = viValue i else outAccounts out = []) \<and>
    outGasRemaining out \<le> viGasProvided i"
proof -
  define h1 where "h1 = (AddTxValueToSmartContract (viValue i) (viRecipient i) ((CleanCache h)\<lparr>scAddress := viRecipient i\<rparr>))
    \<lparr>gasRemaining := viGasProvided i\<rparr>"
  have start: "accountsWf (outputAccounts h1)" "totalDelta (outputAccounts h1) = viValue i"
    "distinct (map fst (currentStorage h1))" "gasRemaining h1 = viGasProvided i"
    using call_start [of "viValue i" "viRecipient i" h]
    by (simp_all add: h1_def accountsWf_def currentStorage_def nilAccount_def)
  consider "out = failedOutput VmUserError ''cannot call smart contract init function''"
    | code h2 rc where "runContract n V C code i h1 = Ret (h2, rc)"
        "out = (if rc = VmOk then CreateVMOutput V h2 else failedOutput rc (returnMessage h2))"
    using call unfolding vmRunSmartContractCall_def Let_def h1_def [symmetric] by (auto split: sum.splits if_splits)
  then show ?thesis
  proof cases
    case 2
    have "settled 0 h1 h2" "storageKept h1 h2" "gasKept h1 h2"
      using val.runContract_R [OF 2(1)] store.runContract_R [OF 2(1)] gas.runContract_R [OF 2(1)] assms(1,2)
      by (simp_all add: valueKept_def mergesContexts_def)
    with start 2(2) show ?thesis
      by (auto simp: settled_def storageKept_def gasKept_def CreateVMOutput_total)
  qed simp
qed

lemma sample_call_returns:
  "\<exists>h' out. vmRunSmartContractCall sampleVm (runContract 2 sampleVm sampleContracts) sampleCall sampleContext = Ret (h', Inr out) \<and>
     outReturnCode out = VmOk"
proof -
  have "(case vmRunSmartContractCall sampleVm (runContract 2 sampleVm sampleContracts) sampleCall sampleContext of
      Ret (h', Inr out) \<Rightarrow> outReturnCode out = VmOk | _ \<Rightarrow> False)"
    by code_simp
  then show ?thesis by (auto split: outcome.split_asm sum.splits) (metis sum.exhaust)
qed

theorem system_call_conserves_value_witness:
  "\<exists>h' out. vmRunSmartContractCall sampleVm (runContract 2 sampleVm sampleContracts) sampleCall sampleContext = Ret (h', Inr out) \<and>
     totalDelta (outAccounts out) = 20"
proof -
  obtain h' out where call: "vmRunSmartContractCall sampleVm (runContract 2 sampleVm sampleContracts) sampleCall sampleContext =
      Ret (h', Inr out)" and ok: "outReturnCode out = VmOk"
    using sample_call_returns by blast
  have "totalDelta (outAccounts out) = 20"
    using system_call_conserves_value [OF _ _ call] ok by (simp add: sampleVm_def sampleCall_def)
  with call show ?thesis by blast
qed

subsection \<open>Failed nested calls\<close>

text \<open>The context in which the other contract runs.\<close>

definition nestedStart :: "vmEnv \<Rightarrow> vmInput \<Rightarrow> bytes \<Rightarrow> vmContext \<Rightarrow> vmContext" where
  "nestedStart V i sender h =
     (softCleanCache (transferBeforeInternalExec V i sender ''ExecuteOnDestContext'' h))\<lparr>scAddress := viRecipient i\<rparr>"

text \<open>C39. A nested call that fails keeps its storage writes: although the context is put back to the caller's storage
  updates (\<open>all changes must be deleted\<close>), that is the same map the other contract wrote to, so afterwards every key
  of every address reads as the failed contract left it.
\<close>

theorem failed_nested_call_keeps_storage:
  assumes "MultiClaimOnDelegationFlag V"
    and "createContractCallInput V dst sender val data = Inr i" and "GetContract V (viRecipient i) = Inr code"
    and "viFunction i \<noteq> ''_init''"
    and run: "runContract n V C code i (nestedStart V i sender h) = Ret (h3, rc)" and "rc \<noteq> VmOk"
  shows "\<exists>h' ans. vmExecuteOnDestContext V (runContract n V C) dst sender val data h = Ret (h', Inr ans) \<and> caCode ans = rc \<and>
    (\<forall>a key. GetStorageFromAddress V a key h' = GetStorageFromAddress V a key h3)"
proof -
  define h1 where "h1 = transferBeforeInternalExec V i sender ''ExecuteOnDestContext'' h"
  define k where "k = h3\<lparr>outputAccounts := [], storageUpdate := storageUpdate h1\<rparr>"
  define h' where "h' = leaveNested V (copyToNewContext h1) rc k"
  have same: "storageUpdate h3 = storageUpdate h1"
    using store.runContract_R [OF run] by (simp add: storageKept_def nestedStart_def h1_def softCleanCache_def)
  have "currentStorage h' = currentStorage h3"
    using leaveNested_storage_exact [OF assms(1), of "copyToNewContext h1" rc k] same
    by (simp add: h'_def k_def currentStorage_def)
  moreover have "vmExecuteOnDestContext V (runContract n V C) dst sender val data h =
      Ret (h', Inr \<lparr>caCode = rc, caData = [], caMessage = returnMessage h3\<rparr>)"
    using assms by (simp add: vmExecuteOnDestContext_def Let_def nestedStart_def afterNested_def h'_def k_def h1_def)
  ultimately show ?thesis by (auto simp: GetStorageFromAddress_def)
qed

definition sampleNested :: vmInput where
  "sampleNested = \<lparr>viCaller = [1], viArguments = [[7]], viValue = 4, viRecipient = [2], viFunction = ''f'', viGasProvided = 0\<rparr>"

definition failedCallee :: vmContext where
  "failedCallee = vmSetStorage [5] [6] (Transfer sampleVm [9] [2] 1 [] 0 (nestedStart sampleVm sampleNested [1] sampleContext))"

lemma sample_callee: "runContract 1 sampleVm sampleContracts [2] sampleNested h = Ret (vmSetStorage [5] [6] (Transfer sampleVm [9] [2] 1 [] 0 h), VmUserError)"
  by (simp add: sampleContracts_def)

lemma sample_setup:
  "MultiClaimOnDelegationFlag sampleVm" "createContractCallInput sampleVm [2] [1] 4 [7] = Inr sampleNested"
  "GetContract sampleVm [2] = Inr [2]" "viRecipient sampleNested = [2]" "viFunction sampleNested = ''f''"
  by (simp_all add: sampleNested_def sampleVm_def createContractCallInput_def createDirectCallInput_def GetContract_def
      getCodeFromAddress_def)

theorem failed_nested_call_keeps_storage_witness:
  "\<exists>h' ans. vmExecuteOnDestContext sampleVm (runContract 1 sampleVm sampleContracts) [2] [1] 4 [7] sampleContext = Ret (h', Inr ans) \<and>
     caCode ans = VmUserError \<and> GetStorageFromAddress sampleVm [2] [5] sampleContext = [] \<and> GetStorageFromAddress sampleVm [2] [5] h' = [6]"
proof -
  have "\<exists>h' ans. vmExecuteOnDestContext sampleVm (runContract 1 sampleVm sampleContracts) [2] [1] 4 [7] sampleContext = Ret (h', Inr ans) \<and>
      caCode ans = VmUserError \<and>
      (\<forall>a key. GetStorageFromAddress sampleVm a key h' = GetStorageFromAddress sampleVm a key failedCallee)"
    by (rule failed_nested_call_keeps_storage [where i = sampleNested and code = "[2]" and h = sampleContext])
      (simp_all add: sample_callee failedCallee_def sample_setup del: runContract.simps One_nat_def)
  moreover have "GetStorageFromAddress sampleVm [2] [5] failedCallee = [6]" "GetStorageFromAddress sampleVm [2] [5] sampleContext = []"
    by code_simp+
  ultimately show ?thesis by auto
qed

subsection \<open>The owner's claim\<close>

text \<open>C40. The \<open>claim\<close> of the token contract panics: for the owner, with no value, no arguments and enough gas, the call
  reaches \<open>GetBalance\<close> of the contract's own address, whose output account was created without a balance when the value
  of the transaction was added, and the addition dereferences nil.
\<close>

theorem esdt_claim_panics:
  assumes "GetContract V (viRecipient i) = Inr code" and "C code i = esdtClaim E i" and "viFunction i = ''claim''"
    and "storedConfig E (hookStorage V (viRecipient i) configKeyPrefix) = Inr c" and "viCaller i = cfgOwnerAddress c"
    and "viValue i = 0" and "viArguments i = []" and "ESDTOperations E \<le> viGasProvided i"
  shows "vmRunSmartContractCall V (runContract (Suc n) V C) i h = Panic"
proof -
  define h1 where "h1 = (AddTxValueToSmartContract 0 (viRecipient i) ((CleanCache h)\<lparr>scAddress := viRecipient i\<rparr>))
    \<lparr>gasRemaining := viGasProvided i\<rparr>"
  have start: "vmGetStorage V configKeyPrefix h1 = hookStorage V (viRecipient i) configKeyPrefix" "gasRemaining h1 = viGasProvided i" "scAddress h1 = viRecipient i"
    "GetBalance V (viRecipient i) (h1\<lparr>gasRemaining := g\<rparr>) = None" for g
    using call_start [of 0 "viRecipient i" h]
    by (auto simp: h1_def vmGetStorage_def GetStorageFromAddress_def currentStorage_def GetBalance_def nilAccount_def
        AddTxValueToSmartContract_def CleanCache_def freshStorage_def Let_def putOutputAccount_def)
  have "runProcess V (runContract n V C) (esdtClaim E i) h1 = Panic"
    using assms(4-8) start by (simp add: esdtClaim_def getEsdtOwner_def getESDTConfig_def UseGas_def leD)
  then show ?thesis
    using assms by (simp add: vmRunSmartContractCall_def Let_def h1_def)
qed

definition sampleEsdt :: esdtEnv where
  "sampleEsdt = \<lparr>esdtOwner = [8], esdtBaseIssuingCost = 5, esdtEndOfEpoch = [3], ESDTOperations = 10,
     marshalConfig = (\<lambda>c. Inr [1]), unmarshalConfig = (\<lambda>c d. Inr c)\<rparr>"

theorem esdt_claim_panics_witness:
  "vmRunSmartContractCall sampleVm (runContract 1 sampleVm (\<lambda>code. esdtClaim sampleEsdt))
     (sampleCall\<lparr>viValue := 0, viFunction := ''claim''\<rparr>) sampleContext = Panic"
  using esdt_claim_panics [where n = 0 and V = sampleVm and E = sampleEsdt and C = "\<lambda>code. esdtClaim sampleEsdt"
      and i = "sampleCall\<lparr>viValue := 0, viFunction := ''claim''\<rparr>" and code = "[1]" and h = sampleContext and c = "esdtDefaultConfig sampleEsdt"]
  by (simp add: sampleVm_def sampleCall_def sampleEsdt_def GetContract_def getCodeFromAddress_def storedConfig_def esdtDefaultConfig_def)

subsection \<open>The configuration reads back\<close>

lemma config_change_stores:
  assumes "runProcess V run (configChange E i) h = Ret (h1, VmOk)"
  shows "\<exists>d. marshalConfig E (newConfigOf (viArguments i)) = Inr d \<and>
    h1 = vmSetStorage configKeyPrefix d (h\<lparr>gasRemaining := gasRemaining h - ESDTOperations E\<rparr>)"
  using assms
  by (auto simp: configChange_def getEsdtOwner_def getESDTConfig_def failMessage_def saveESDTConfig_def Let_def UseGas_def
      split: if_splits sum.splits)

lemma vmGetStorage_set: "vmGetStorage V key (vmSetStorage key v h) = v"
  by (simp add: vmGetStorage_def vmSetStorage_def GetStorageFromAddress_def SetStorageForAddress_def currentStorage_def Let_def
      update_conv)

lemma config_reads_back:
  assumes "runProcess V run (configChange E i) h = Ret (h1, VmOk)"
    and "runProcess V run (getContractConfig E j) h1 = Ret (h2, VmOk)"
    and "\<And>c d. marshalConfig E c = Inr d \<Longrightarrow> storedConfig E d = Inr c"
  shows "hostOutput h2 = hostOutput h @ [viArguments i ! 0, bigBytes (fromBytes (viArguments i ! 1)),
    bigBytes (uint (cfgMinTokenNameLength (newConfigOf (viArguments i)))),
    bigBytes (uint (cfgMaxTokenNameLength (newConfigOf (viArguments i))))]"
proof -
  obtain d where d: "marshalConfig E (newConfigOf (viArguments i)) = Inr d"
    and h1: "h1 = vmSetStorage configKeyPrefix d (h\<lparr>gasRemaining := gasRemaining h - ESDTOperations E\<rparr>)"
    using config_change_stores [OF assms(1)] by blast
  have c: "storedConfig E (vmGetStorage V configKeyPrefix (h1\<lparr>gasRemaining := g\<rparr>)) = Inr (newConfigOf (viArguments i))" for g
    using assms(3) [OF d] vmGetStorage_set [of V configKeyPrefix d "h\<lparr>gasRemaining := g\<rparr>"]
    by (simp add: h1 vmGetStorage_def vmSetStorage_def GetStorageFromAddress_def SetStorageForAddress_def currentStorage_def Let_def)
  from assms(2) c show ?thesis
    by (auto simp: getContractConfig_def checkArgumentsForGeneralViewFunc_def failMessage_def getESDTConfig_def UseGas_def vmFinish_def
        h1 vmSetStorage_def SetStorageForAddress_def Let_def newConfigOf_def split: if_splits)
qed

end
