(* ===== verification/Trie_Proof.thy ===== *)
theory Trie_Proof
  imports Trie_Main
begin

text \<open>
  Merkle proofs: \<open>GetProof\<close>, \<open>VerifyProof\<close> and \<open>verifyProof\<close> of \<open>trie/patriciaMerkleTrie.go\<close> with
  \<open>getNextHashAndKey\<close> and \<open>getValue\<close> of the node kinds. The verifier checks that every encoded node
  hashes to what its predecessor names and follows the key through the decoded nodes. It does not
  compare an extension node's key with the key it follows; the last theorem shows a proof that is
  accepted for a key the trie does not contain.
\<close>

datatype next_step = Panicked | Step bool bytes bytes

fun getNextHashAndKey :: "node \<Rightarrow> bytes \<Rightarrow> next_step" where
  "getNextHashAndKey (LeafNode l b) key = (if key = LnKey l then Step True [] [] else Step False [] [])"
| "getNextHashAndKey (ExtensionNode e c b) key =
     (if length key = 0 then Step False [] []
      else if length (EnKey e) > length key then Panicked
      else Step False (EncodedChild e) (drop (length (EnKey e)) key))"
| "getNextHashAndKey (BranchNode m cs b) key = (case key of
     [] \<Rightarrow> Step False [] []
   | k # key' \<Rightarrow> (case idx () (EncodedChildren m) (unat k) of
       Inl _ \<Rightarrow> Panicked
     | Inr wantHash \<Rightarrow> Step False wantHash key'))"

text \<open>An entry of a proof may be nil.\<close>

fun verifyLoop :: "deps \<Rightarrow> bytes \<Rightarrow> bytes \<Rightarrow> bytes option list \<Rightarrow> trie_error + bool" where
  "verifyLoop D wantHash key [] = Inr False"
| "verifyLoop D wantHash key (None # proof) = Inr False"
| "verifyLoop D wantHash key (Some encodedNode # proof) =
     (if wantHash \<noteq> Compute D encodedNode then Inr False
      else case decodeNode D encodedNode of
        Inl e \<Rightarrow> Inl e
      | Inr n \<Rightarrow> (case getNextHashAndKey n key of
          Panicked \<Rightarrow> Inl Panic
        | Step proofVerified wantHash' key' \<Rightarrow>
            if proofVerified then Inr True else verifyLoop D wantHash' key' proof))"

definition verifyProof :: "deps \<Rightarrow> bytes \<Rightarrow> bytes \<Rightarrow> bytes option list \<Rightarrow> trie_error + bool" where
  "verifyProof D rootHash key proof = verifyLoop D rootHash (keyBytesToHex key) proof"

definition VerifyProof :: "deps \<Rightarrow> bytes \<Rightarrow> bytes \<Rightarrow> bytes option list \<Rightarrow> trie_error + bool" where
  "VerifyProof D rootHash key proof = (case verifyProof D rootHash (Compute D key) proof of
     Inl e \<Rightarrow> Inl e
   | Inr ok \<Rightarrow> if ok then Inr True else verifyProof D rootHash key proof)"

fun getValue :: "node \<Rightarrow> bytes option" where
  "getValue (LeafNode l b) = LnValue l"
| "getValue (ExtensionNode e c b) = Some []"
| "getValue (BranchNode m cs b) = Some []"

text \<open>The loop of \<open>GetProof\<close>: the node it walks to is also reachable from the root, which is updated
  with it.\<close>

fun proofLoop :: "deps \<Rightarrow> getter \<Rightarrow> nat \<Rightarrow> node \<Rightarrow> bytes \<Rightarrow> bytes list \<Rightarrow>
    node \<times> (trie_error + bytes list \<times> bytes option)" where
  "proofLoop D get 0 n hexKey proof = (n, Inl OutOfFuel)"
| "proofLoop D get (Suc fuel) n hexKey proof = (case getEncodedNode D n of
     Inl e \<Rightarrow> (n, Inl e)
   | Inr enc \<Rightarrow> (case getNext D get n hexKey of
       (n', Inl e) \<Rightarrow> (n', Inl e)
     | (n', Inr None) \<Rightarrow> (n', Inr (proof @ [enc], getValue n))
     | (n', Inr (Some (child, hexKey'))) \<Rightarrow>
         (let (child', r) = proofLoop D get fuel child hexKey' (proof @ [enc]);
              pos = (case n of BranchNode m cs b \<Rightarrow> unat (hd hexKey) | _ \<Rightarrow> 0)
          in (setChildAt n' pos (Some child'), r))))"

definition GetProof :: "deps \<Rightarrow> getter \<Rightarrow> patriciaMerkleTrie \<Rightarrow> bytes \<Rightarrow>
    patriciaMerkleTrie \<times> (trie_error + bytes list \<times> bytes option)" where
  "GetProof D get tr key = (case root tr of
     None \<Rightarrow> (tr, Inl ErrNilNode)
   | Some n \<Rightarrow> (case setRootHash D n of
       (n', Some e) \<Rightarrow> (tr\<lparr>root := Some n'\<rparr>, Inl e)
     | (n', None) \<Rightarrow>
         (let hexKey = keyBytesToHex key;
              (n'', r) = proofLoop D get (keyFuel hexKey) n' hexKey []
          in (tr\<lparr>root := Some n''\<rparr>, r))))"

text \<open>The path of a key: the encodings a proof consists of.\<close>

primrec ppath :: "deps \<Rightarrow> ptrie \<Rightarrow> bytes \<Rightarrow> bytes list" where
  "ppath D (PLeaf k v w) = (\<lambda>key. [penc D (PLeaf k v w)])"
| "ppath D (PExt k t) = (\<lambda>key. penc D (PExt k t) # ppath D t (drop (length k) key))"
| "ppath D (PBranch f) = (\<lambda>key. penc D (PBranch f) #
     (case key of [] \<Rightarrow> [] | b # key' \<Rightarrow> (case map_option (ppath D) (f (unat b)) of None \<Rightarrow> [] | Some p \<Rightarrow> p key')))"

definition pfits :: "deps \<Rightarrow> ptrie \<Rightarrow> bool" where
  "pfits D t \<longleftrightarrow> (\<forall>s \<in> psubs t. length (penc D s) < 2 ^ 63)"

lemma pfits_PExt: "pfits D (PExt k t) \<Longrightarrow> pfits D t"
  by (simp add: pfits_def)

lemma pfits_child: "pfits D (PBranch f) \<Longrightarrow> f i = Some t \<Longrightarrow> pfits D t"
  using psubs_child [of f i t] unfolding pfits_def by blast

lemma pfits_self: "pfits D t \<Longrightarrow> length (penc D t) < 2 ^ 63"
  by (simp add: pfits_def)

context trie_codec
begin

text \<open>The path of a key the trie contains is accepted.\<close>

lemma verifyLoop_ppath:
  assumes "pok t key" "plookup t key \<noteq> None" "pfits D t"
  shows "verifyLoop D (phash D t) key (map Some (ppath D t key)) = Inr True"
  using assms
proof (induction t arbitrary: key)
  case (PLeaf k v w)
  then show ?case using decode_penc [of "PLeaf k v w"] pfits_self [OF PLeaf.prems(3)]
    by (auto simp: pok_def phash_def leafMsg_def split: if_splits simp del: penc_simps)
next
  case (PExt k t)
  then obtain r where r: "key = k @ r" "plookup t r \<noteq> None" using plookup_PExt_prefix by blast
  have wf: "pwf t" "k \<noteq> []" "hex_key key" "\<forall>b \<in> set k. b < 16" "pwf (PExt k t)" using PExt.prems(1) by (auto simp: pok_def)
  have "hex_key r" using ext_key_rest [OF wf(3,4)] r(1) by simp
  then have "verifyLoop D (phash D t) r (map Some (ppath D t r)) = Inr True"
    using PExt.IH [of r] r(2) wf(1) pfits_PExt [OF PExt.prems(3)] by (simp add: pok_def)
  then show ?case using r(1) wf(2) decode_penc [of "PExt k t"] wf(5) pfits_self [OF PExt.prems(3)]
    by (simp add: phash_def extMsg_def del: penc_simps)
next
  case (PBranch f)
  have wf: "pwf (PBranch f)" "hex_key key" using PBranch.prems(1) by (auto simp: pok_def)
  then obtain b key' where key: "key = b # key'" by (cases key) auto
  with PBranch.prems(2) obtain t where t: "f (unat b) = Some t" "plookup t key' \<noteq> None"
    by (auto split: option.splits)
  have sl: "slot_key (unat b) key'" using wf(2) key by (simp add: hex_key_slot)
  have ps: "pslot (unat b) t" using wf(1) t(1) by (simp add: pwf_PBranch)
  have range: "Some t \<in> range f" by (metis t(1) rangeI)
  have "verifyLoop D (phash D t) key' (map Some (ppath D t key')) = Inr True"
    using PBranch.IH [OF range, of t key'] t(2) pok_slot [OF ps sl] pfits_child [of D f "unat b" t, OF PBranch.prems(3) t(1)]
    by simp
  then show ?case using key t(1) decode_penc [of "PBranch f"] wf(1) pfits_self [OF PBranch.prems(3)] pslot_bound [OF ps]
    by (simp add: phash_def branchMsg_def nth_pencs del: penc_simps)
qed

end

lemma pfits_oneLeaf:
  "pfits (gogo_deps H) (PLeaf [16] [9] 0)"
proof -
  have "length (MarshalLn (leafMsg [16] [9] 0)) = 6" by code_simp
  then show ?thesis by (simp add: pfits_def gogo_deps_def)
qed

text \<open>A trie with the one-byte keys \<open>0x11\<close> and \<open>0x21\<close>: an extension, a branch and two leaves.\<close>

definition forkTrie :: ptrie where
  "forkTrie = PBranch [1 \<mapsto> PLeaf [16] [9] 0, 2 \<mapsto> PLeaf [16] [9] 0]"

abbreviation constHash :: "bytes \<Rightarrow> bytes" where
  "constHash \<equiv> (\<lambda>_. [5])"

lemma forkTrie_facts:
  "pwf (PExt [1] forkTrie)" "plookup forkTrie [1, 16] = Some ([9], 0)"
  "pfits (gogo_deps constHash) (PExt [1] forkTrie)"
proof -
  show "pwf (PExt [1] forkTrie)"
    by (auto simp: forkTrie_def pwf_PBranch pslot_def hexTerminator_def two_children_def split: if_splits
        intro!: exI [of _ "1 :: nat"] exI [of _ "2 :: nat"])
  show "plookup forkTrie [1, 16] = Some ([9], 0)" by (simp add: forkTrie_def)
  have b: "branchMsg (gogo_deps constHash) [1 \<mapsto> PLeaf [16] [9] 0, 2 \<mapsto> PLeaf [16] [9] 0] =
      \<lparr>EncodedChildren = [[], [5], [5], [], [], [], [], [], [], [], [], [], [], [], [], [], []], ChildrenVersion = []\<rparr>"
    by (simp add: branchMsg_def pencs_def encOf_def childIndices_def nrOfChildren_def upt_rec phash_def gogo_deps_def
        cversions_def versionsOf_def revertChildrenVersionSliceIfNeeded_def NotSpecified_def)
  have "length (MarshalBn \<lparr>EncodedChildren = [[], [5], [5], [], [], [], [], [], [], [], [], [], [], [], [], [], []], ChildrenVersion = []\<rparr>) = 36"
    "length (MarshalEn (extMsg [1] [5] 0)) = 6" by code_simp+
  moreover have "pversion forkTrie = 0"
    by (simp add: forkTrie_def branchVersion_def childIndices_def nrOfChildren_def upt_rec map_filter_simps NotSpecified_def)
  ultimately show "pfits (gogo_deps constHash) (PExt [1] forkTrie)"
    using b pfits_oneLeaf [of constHash]
    by (auto simp: pfits_def forkTrie_def phash_def gogo_deps_def ran_def split: if_splits)
qed

text \<open>C9. A proof is complete: for a key in the trie, the list of the encodings of the nodes on the
  key's path is accepted by \<open>verifyProof\<close> against the trie's root hash.\<close>

theorem verify_proof_complete:
  assumes "pwf t" "plookup t (keyBytesToHex key) \<noteq> None" "pfits (gogo_deps H) t"
  shows "verifyProof (gogo_deps H) (phash (gogo_deps H) t) key
    (map Some (ppath (gogo_deps H) t (keyBytesToHex key))) = Inr True"
  using gogo.verifyLoop_ppath [of t "keyBytesToHex key" H] assms hex_key_keyBytesToHex
  by (simp add: verifyProof_def pok_def)

lemma fork_keys: "keyBytesToHex [0x11] = [1] @ [1, 16]" "keyBytesToHex [0x12] = [2] @ [1, 16]"
  by code_simp+

theorem verify_proof_complete_witness:
  "verifyProof (gogo_deps constHash) (phash (gogo_deps constHash) (PExt [1] forkTrie)) [0x11]
    (map Some (ppath (gogo_deps constHash) (PExt [1] forkTrie) (keyBytesToHex [0x11]))) = Inr True"
  by (rule verify_proof_complete [OF forkTrie_facts(1) _ forkTrie_facts(3)])
    (simp add: fork_keys forkTrie_facts(2))

text \<open>C10. The verifier does not compare the key of an extension node: where the root is an extension
  over a subtrie that contains the rest of a key, the proof of that key is accepted for every key of
  the same length with the same rest, although the trie does not contain that other key.\<close>

theorem verify_proof_ignores_extension_key:
  assumes "pwf (PExt k t)" "plookup t r \<noteq> None" "pfits (gogo_deps H) (PExt k t)"
    "keyBytesToHex key = k @ r" "keyBytesToHex key' = k' @ r" "length k' = length k" "k' \<noteq> k"
  shows "plookup (PExt k t) (keyBytesToHex key') = None \<and>
    verifyProof (gogo_deps H) (phash (gogo_deps H) (PExt k t)) key'
      (map Some (ppath (gogo_deps H) (PExt k t) (keyBytesToHex key))) = Inr True"
proof -
  let ?D = "gogo_deps H"
  have wf: "pwf t" "k \<noteq> []" "\<forall>b \<in> set k. b < 16" using assms(1) by auto
  have "hex_key r" using ext_key_rest [OF hex_key_keyBytesToHex wf(3), of key] assms(4) by simp
  then have "verifyLoop ?D (phash ?D t) r (map Some (ppath ?D t r)) = Inr True"
    using gogo.verifyLoop_ppath [of t r H] assms(2) wf(1) pfits_PExt [OF assms(3)] by (simp add: pok_def)
  moreover have "k' \<noteq> []" using assms(6) wf(2) by auto
  ultimately have "verifyProof ?D (phash ?D (PExt k t)) key' (map Some (ppath ?D (PExt k t) (k @ r))) = Inr True"
    using gogo.decode_penc [of "PExt k t" H] assms(1,5,6) pfits_self [OF assms(3)]
    by (simp add: verifyProof_def phash_def extMsg_def del: penc_simps)
  moreover have "plookup (PExt k t) (k' @ r) = None"
  proof (rule ccontr)
    assume "plookup (PExt k t) (k' @ r) \<noteq> None"
    then obtain s where "k' @ r = k @ s" using plookup_PExt_prefix by blast
    with assms(6,7) show False by simp
  qed
  ultimately show ?thesis using assms(4,5) by simp
qed

theorem verify_proof_ignores_extension_key_witness:
  "plookup (PExt [1] forkTrie) (keyBytesToHex [0x12]) = None \<and>
    verifyProof (gogo_deps constHash) (phash (gogo_deps constHash) (PExt [1] forkTrie)) [0x12]
      (map Some (ppath (gogo_deps constHash) (PExt [1] forkTrie) (keyBytesToHex [0x11]))) = Inr True"
  by (rule verify_proof_ignores_extension_key [OF forkTrie_facts(1) _ forkTrie_facts(3) fork_keys])
    (simp_all add: forkTrie_facts(2))

end
