(* ===== verification/Validator_Shuffler.thy ===== *)
theory Validator_Shuffler
  imports Go_Prelude "HOL-Library.AList" "HOL-Library.Multiset" "HOL-Library.List_Lexorder"
begin

text \<open>
  The validator shuffler of \<open>sharding/nodesCoordinator/hashValidatorShuffler.go\<close> with the two
  distributors of \<open>validatorDistributor.go\<close>: at an epoch change it removes leaving validators, shuffles
  eligible validators out, fills the eligible lists from the waiting lists and distributes new,
  selected and shuffled-out validators over the waiting lists. A Go map from shard ids to lists is an
  association list with distinct keys; loops over \<open>range\<close> of a map treat each key on its own.
  \<open>int\<close> values are unbounded integers (they count list elements), \<open>uint32\<close> values are words. SHA-256
  is the parameter \<open>sha\<close>.
\<close>

record validator =
  pubKey :: bytes
  chances :: u32
  index :: u32

type_synonym shard_map = "(u32 \<times> validator list) list"
type_synonym counters = "(u32 \<times> int) list"

datatype shuffler_error =
    ErrSmallShardEligibleListSize
  | ErrNilOrEmptyDestinationForDistribute
  | ErrReceivedNewListNodeInStakingV4
  | SlicePanic
  | DivisionPanic

definition MetachainShardId :: u32 where
  "MetachainShardId = 0xFFFFFFFF"

text \<open>Map reads give the zero value for an absent key.\<close>

definition shardList :: "shard_map \<Rightarrow> u32 \<Rightarrow> validator list" where
  "shardList mp s = (case map_of mp s of None \<Rightarrow> [] | Some vs \<Rightarrow> vs)"

definition counter :: "counters \<Rightarrow> u32 \<Rightarrow> int" where
  "counter c s = (case map_of c s of None \<Rightarrow> 0 | Some n \<Rightarrow> n)"

definition sortKeys :: "(u32 \<times> 'a) list \<Rightarrow> u32 list" where
  "sortKeys mp = sort (map fst mp)"

definition copyValidatorMap :: "shard_map \<Rightarrow> shard_map" where
  "copyValidatorMap mp = map (\<lambda>(s, vs). (s, [] @ vs)) mp"

subsection \<open>Removing validators from lists\<close>

definition removeValidatorFromList :: "validator list \<Rightarrow> int \<Rightarrow> validator list" where
  "removeValidatorFromList vs i =
     (if i > int (length vs) - 1 \<or> i < 0 then vs else butlast (vs[nat i := last vs]))"

text \<open>The inner loop of \<open>removeValidatorsFromList\<close>: the last position with the key, searched downwards.\<close>

fun lastIndexOf :: "validator list \<Rightarrow> bytes \<Rightarrow> nat \<Rightarrow> nat option" where
  "lastIndexOf vs pk 0 = None"
| "lastIndexOf vs pk (Suc i) = (if pubKey (vs ! i) = pk then Some i else lastIndexOf vs pk i)"

fun removeLoop :: "validator list \<Rightarrow> validator list \<Rightarrow> validator list \<Rightarrow> int \<Rightarrow> validator list \<times> validator list" where
  "removeLoop resulted removed [] maxToRemove = (resulted, removed)"
| "removeLoop resulted removed (v # vs) maxToRemove =
     (if int (length removed) = maxToRemove then (resulted, removed)
      else case lastIndexOf resulted (pubKey v) (length resulted) of
        None \<Rightarrow> removeLoop resulted removed vs maxToRemove
      | Some i \<Rightarrow>
          removeLoop (removeValidatorFromList resulted (int i)) (removed @ [resulted ! i]) vs maxToRemove)"

definition removeValidatorsFromList :: "validator list \<Rightarrow> validator list \<Rightarrow> int \<Rightarrow> validator list \<times> validator list" where
  "removeValidatorsFromList validatorList validatorsToRemove maxToRemove =
     removeLoop validatorList [] validatorsToRemove maxToRemove"

fun removeDuplicatesInner :: "bytes \<Rightarrow> validator list \<Rightarrow> nat \<Rightarrow> validator list" where
  "removeDuplicatesInner pk vs 0 = vs"
| "removeDuplicatesInner pk vs (Suc i) =
     removeDuplicatesInner pk (if i < length vs \<and> pk = pubKey (vs ! i) then removeValidatorFromList vs (int i) else vs) i"

definition removeDuplicates :: "validator list \<Rightarrow> validator list \<Rightarrow> validator list" where
  "removeDuplicates unstake additionalLeaving =
     foldl (\<lambda>vs u. removeDuplicatesInner (pubKey u) vs (length vs)) additionalLeaving unstake"

definition removeNodesFromShard :: "shard_map \<Rightarrow> validator list \<Rightarrow> u32 \<Rightarrow> int \<Rightarrow> shard_map \<times> validator list \<times> int" where
  "removeNodesFromShard existingNodes leavingNodes shard nbToRemove =
     (let nb = (if int (length leavingNodes) < nbToRemove then int (length leavingNodes) else nbToRemove);
          (vList, removedNodes) = removeValidatorsFromList (shardList existingNodes shard) leavingNodes nb;
          (leavingNodes', _) = removeValidatorsFromList leavingNodes removedNodes (int (length removedNodes))
      in (AList.update shard vList existingNodes, leavingNodes', int (length removedNodes)))"

fun removeNodesLoop :: "shard_map \<Rightarrow> validator list \<Rightarrow> counters \<Rightarrow> u32 list \<Rightarrow> shard_map \<times> validator list \<times> counters" where
  "removeNodesLoop existing leaving numToRemove [] = (existing, leaving, numToRemove)"
| "removeNodesLoop existing leaving numToRemove (s # ss) =
     (let (existing', leaving', numRemoved) = removeNodesFromShard existing leaving s (counter numToRemove s)
      in removeNodesLoop existing' leaving' (AList.update s (counter numToRemove s - numRemoved) numToRemove) ss)"

definition removeNodesFromMap :: "shard_map \<Rightarrow> validator list \<Rightarrow> counters \<Rightarrow> shard_map \<times> validator list \<times> counters" where
  "removeNodesFromMap existing leaving numToRemove = removeNodesLoop existing leaving numToRemove (sortKeys existing)"

definition removeLeavingNodesFromValidatorMaps :: "shard_map \<Rightarrow> shard_map \<Rightarrow> counters \<Rightarrow> validator list \<Rightarrow>
    shard_map \<times> shard_map \<times> validator list \<times> counters" where
  "removeLeavingNodesFromValidatorMaps eligible waiting numToRemove leaving =
     (let (newWaiting, still, n1) = removeNodesFromMap waiting leaving numToRemove;
          (newEligible, still', n2) = removeNodesFromMap eligible still n1
      in (newEligible, newWaiting, still', n2))"

definition searchInMap :: "shard_map \<Rightarrow> bytes \<Rightarrow> bool" where
  "searchInMap mp pk = list_ex (\<lambda>(s, vs). list_ex (\<lambda>v. pubKey v = pk) vs) mp"

definition removeLeavingNodesNotExistingInEligibleOrWaiting :: "validator list \<Rightarrow> shard_map \<Rightarrow> shard_map \<Rightarrow>
    validator list \<times> validator list" where
  "removeLeavingNodesNotExistingInEligibleOrWaiting leaving waiting eligible =
     (let notFound = filter (\<lambda>v. \<not> searchInMap waiting (pubKey v) \<and> \<not> searchInMap eligible (pubKey v)) leaving
      in removeValidatorsFromList leaving notFound (int (length notFound)))"

subsection \<open>How many to remove\<close>

definition ensureShard :: "shard_map \<Rightarrow> u32 \<Rightarrow> shard_map" where
  "ensureShard mp s = (if map_of mp s = None then AList.update s [] mp else mp)"

definition createListsForAllShards :: "shard_map \<Rightarrow> nat \<Rightarrow> shard_map" where
  "createListsForAllShards mp shards =
     ensureShard (foldl ensureShard mp (map of_nat [0..<shards])) MetachainShardId"

definition computeNumToRemovePerShard :: "int \<Rightarrow> int \<Rightarrow> int \<Rightarrow> shuffler_error + int" where
  "computeNumToRemovePerShard numEligible numWaiting nodesPerShard =
     (if numEligible + numWaiting < nodesPerShard then Inl ErrSmallShardEligibleListSize
      else Inr (numEligible + numWaiting - nodesPerShard))"

record shuffleNodesArg =
  eligible :: shard_map
  waiting :: shard_map
  unstakeLeaving :: "validator list"
  additionalLeaving :: "validator list"
  newNodes :: "validator list"
  auction :: "validator list"
  randomness :: bytes
  shuffleBetweenShards :: bool
  nodesMeta :: u32
  nodesPerShard :: u32
  nbShards :: u32
  maxNodesToSwapPerShard :: u32
  maxNumNodes :: u32
  flagBalanceWaitingLists :: bool
  flagStakingV4Step2 :: bool
  flagStakingV4Step3 :: bool
  flagCleanupAuctionOnLowWaitingList :: bool

text \<open>The number of nodes a shard must keep.\<close>

definition shardTarget :: "shuffleNodesArg \<Rightarrow> u32 \<Rightarrow> u32" where
  "shardTarget arg s = (if s = MetachainShardId then nodesMeta arg else nodesPerShard arg)"

fun computeNumToRemoveLoop :: "shuffleNodesArg \<Rightarrow> u32 list \<Rightarrow> counters \<Rightarrow> shuffler_error + counters" where
  "computeNumToRemoveLoop arg [] c = Inr c"
| "computeNumToRemoveLoop arg (s # ss) c = (case computeNumToRemovePerShard
       (int (length (shardList (eligible arg) s))) (int (length (shardList (waiting arg) s)))
       (int (unat (shardTarget arg s))) of
     Inl e \<Rightarrow> Inl e
   | Inr n \<Rightarrow> computeNumToRemoveLoop arg ss (AList.update s n c))"

definition allShards :: "shuffleNodesArg \<Rightarrow> u32 list" where
  "allShards arg = map of_nat [0..<unat (nbShards arg)] @ [MetachainShardId]"

definition computeNumToRemove :: "shuffleNodesArg \<Rightarrow> shuffler_error + counters" where
  "computeNumToRemove arg = (if nbShards arg = 0 then Inr [] else computeNumToRemoveLoop arg (allShards arg) [])"

definition capNumToRemove :: "u32 \<Rightarrow> counters \<Rightarrow> counters" where
  "capNumToRemove maxSwap c = map (\<lambda>(s, n). (s, if n > int (unat maxSwap) then int (unat maxSwap) else n)) c"

subsection \<open>Shuffling\<close>

definition shuffleList :: "(bytes \<Rightarrow> bytes) \<Rightarrow> validator list \<Rightarrow> bytes \<Rightarrow> validator list" where
  "shuffleList sha vs rand =
     (let keyed = map (\<lambda>v. (sha (pubKey v @ rand), v)) vs;
          mapValidators = map_of (rev keyed)
      in map (\<lambda>k. case mapValidators k of Some v \<Rightarrow> v | None \<Rightarrow> hd vs) (sort (map fst keyed)))"

definition shuffleOutShard :: "(bytes \<Rightarrow> bytes) \<Rightarrow> validator list \<Rightarrow> int \<Rightarrow> bytes \<Rightarrow>
    shuffler_error + validator list \<times> validator list" where
  "shuffleOutShard sha vs validatorsToSelect rand =
     (let n = (if int (length vs) < validatorsToSelect then int (length vs) else validatorsToSelect);
          shuffled = shuffleList sha vs rand
      in if n < 0 then Inl SlicePanic else Inr (take (nat n) shuffled, drop (nat n) shuffled))"

fun shuffleOutLoop :: "(bytes \<Rightarrow> bytes) \<Rightarrow> shard_map \<Rightarrow> counters \<Rightarrow> bytes \<Rightarrow> u32 list \<Rightarrow> shard_map \<times> shard_map \<Rightarrow>
    shuffler_error + shard_map \<times> shard_map" where
  "shuffleOutLoop sha elig numToShuffle rand [] acc = Inr acc"
| "shuffleOutLoop sha elig numToShuffle rand (s # ss) acc =
     (case shuffleOutShard sha (shardList elig s) (counter numToShuffle s) rand of
        Inl e \<Rightarrow> Inl e
      | Inr (out, validators) \<Rightarrow>
          shuffleOutLoop sha elig numToShuffle rand ss
            (AList.update s out (fst acc),
             AList.update s (fst (removeValidatorsFromList validators out (int (length out)))) (snd acc)))"

definition shuffleOutNodes :: "(bytes \<Rightarrow> bytes) \<Rightarrow> shard_map \<Rightarrow> counters \<Rightarrow> bytes \<Rightarrow>
    shuffler_error + shard_map \<times> shard_map" where
  "shuffleOutNodes sha elig numToShuffle rand =
     shuffleOutLoop sha elig numToShuffle rand (sortKeys elig) ([], [])"

subsection \<open>Filling and distributing\<close>

definition computeNeededNodes :: "validator list \<Rightarrow> validator list \<Rightarrow> u32 \<Rightarrow> u32" where
  "computeNeededNodes destination source maxNum =
     (let numCurrentNodes = of_nat (length destination); numSourceNodes = of_nat (length source);
          numNeededNodes = (if maxNum > numCurrentNodes then maxNum - numCurrentNodes else 0)
      in if numSourceNodes < numNeededNodes then numSourceNodes else numNeededNodes)"

definition moveShard :: "u32 \<Rightarrow> u32 \<Rightarrow> shard_map \<times> shard_map \<Rightarrow> u32 \<Rightarrow> shard_map \<times> shard_map" where
  "moveShard numMeta numShard ds s =
     (let maxNodes = (if s = MetachainShardId then numMeta else numShard);
          n = unat (computeNeededNodes (shardList (fst ds) s) (shardList (snd ds) s) maxNodes)
      in (AList.update s (shardList (fst ds) s @ take n (shardList (snd ds) s)) (fst ds),
          AList.update s (drop n (shardList (snd ds) s)) (snd ds)))"

definition moveMaxNumNodesToMap :: "shard_map \<Rightarrow> shard_map \<Rightarrow> u32 \<Rightarrow> u32 \<Rightarrow> shard_map \<times> shard_map" where
  "moveMaxNumNodesToMap destination source numMeta numShard =
     foldl (moveShard numMeta numShard) (destination, source) (map fst source)"

definition moveNodesToMap :: "shard_map \<Rightarrow> shard_map \<Rightarrow> shard_map \<times> shard_map" where
  "moveNodesToMap destination source =
     foldl (\<lambda>(d, src) s. (AList.update s (shardList d s @ shardList src s) d, AList.update s [] src))
       (destination, source) (map fst source)"

definition getNumPubKeys :: "shard_map \<Rightarrow> u32" where
  "getNumPubKeys mp = foldl (\<lambda>n (s, vs). n + of_nat (length vs)) 0 mp"

definition getMaxListSize :: "shard_map \<Rightarrow> nat" where
  "getMaxListSize mp = foldl (\<lambda>n (s, vs). if n < length vs then length vs else n) 0 mp"

fun equalizeLoop :: "shard_map \<Rightarrow> validator list \<Rightarrow> nat \<Rightarrow> u32 list \<Rightarrow> shard_map \<times> validator list" where
  "equalizeLoop dest validators maxListSize [] = (dest, validators)"
| "equalizeLoop dest validators maxListSize (s # ss) =
     (if length (shardList dest s) < maxListSize then
        let toMove = min (maxListSize - length (shardList dest s)) (length validators) in
        equalizeLoop (AList.update s (shardList dest s @ take toMove validators) dest) (drop toMove validators) maxListSize ss
      else equalizeLoop dest validators maxListSize ss)"

definition equalizeValidatorsLists :: "shard_map \<Rightarrow> validator list \<Rightarrow> shard_map \<times> validator list" where
  "equalizeValidatorsLists dest validators = equalizeLoop dest validators (getMaxListSize dest) (sortKeys dest)"

fun roundRobin :: "shard_map \<Rightarrow> u32 list \<Rightarrow> nat \<Rightarrow> validator list \<Rightarrow> shard_map" where
  "roundRobin dest ids i [] = dest"
| "roundRobin dest ids i (v # vs) =
     (let s = ids ! (unat (of_nat i :: u32) mod length ids)
      in roundRobin (AList.update s (shardList dest s @ [v]) dest) ids (Suc i) vs)"

definition distributeValidators :: "(bytes \<Rightarrow> bytes) \<Rightarrow> shard_map \<Rightarrow> validator list \<Rightarrow> bytes \<Rightarrow> bool \<Rightarrow> shuffler_error + shard_map" where
  "distributeValidators sha dest validators rand balanced =
     (if dest = [] then Inl ErrNilOrEmptyDestinationForDistribute
      else
        let shuffled = shuffleList sha validators rand;
            (dest', rest) = (if balanced then equalizeValidatorsLists dest shuffled else (dest, shuffled))
        in Inr (roundRobin dest' (sortKeys dest) 0 rest))"

definition checkAndDistributeNewNodes :: "(bytes \<Rightarrow> bytes) \<Rightarrow> shard_map \<Rightarrow> validator list \<Rightarrow> bytes \<Rightarrow> bool \<Rightarrow> shuffler_error + shard_map" where
  "checkAndDistributeNewNodes sha dest new rand flagV4Step3 =
     (if \<not> flagV4Step3 then distributeValidators sha dest new rand False
      else if length new > 0 then Inl ErrReceivedNewListNodeInStakingV4
      else Inr dest)"

text \<open>The distributors: across shards, and inside each shard. The source map is returned too.\<close>

definition distributeShuffledOut :: "(bytes \<Rightarrow> bytes) \<Rightarrow> bool \<Rightarrow> shard_map \<Rightarrow> shard_map \<Rightarrow> bytes \<Rightarrow> bool \<Rightarrow>
    shuffler_error + shard_map \<times> shard_map" where
  "distributeShuffledOut sha acrossShards dest source rand balanced =
     (if acrossShards then
        (case distributeValidators sha dest (concat (map snd source)) rand balanced of
           Inl e \<Rightarrow> Inl e | Inr dest' \<Rightarrow> Inr (dest', source))
      else Inr (moveNodesToMap dest source))"

definition shouldDistributeShuffledToWaitingInStakingV4 ::
    "u32 \<Rightarrow> u32 \<Rightarrow> u32 \<Rightarrow> u32 \<Rightarrow> u32 \<Rightarrow> bool \<Rightarrow> bool" where
  "shouldDistributeShuffledToWaitingInStakingV4 numShuffled numNewEligible numNewWaiting numSelectedAuction maxNum flagV4Step2 =
     (if \<not> flagV4Step2 then False
      else numNewWaiting + numSelectedAuction + numNewEligible + numShuffled \<le> maxNum)"

record resUpdateNodes =
  resEligible :: shard_map
  resWaiting :: shard_map
  resShuffledOut :: shard_map
  resLeaving :: "validator list"
  resStillRemaining :: "validator list"
  resLowWaitingList :: bool

subsection \<open>The shuffle\<close>

text \<open>The first half of \<open>shuffleNodes\<close>: leaving and shuffled-out nodes are removed and the eligible
  lists filled. It returns the eligible, waiting and shuffled-out maps and the nodes that asked to leave
  and could not.\<close>

definition shuffleRemove :: "(bytes \<Rightarrow> bytes) \<Rightarrow> shuffleNodesArg \<Rightarrow>
    shuffler_error + shard_map \<times> shard_map \<times> shard_map \<times> validator list" where
  "shuffleRemove sha arg =
     (let waitingCopy = createListsForAllShards (copyValidatorMap (waiting arg)) (unat (nbShards arg));
          eligibleCopy = copyValidatorMap (eligible arg)
      in case computeNumToRemove arg of
        Inl e \<Rightarrow> Inl e
      | Inr c \<Rightarrow>
          (let numToRemove = capNumToRemove (maxNodesToSwapPerShard arg) c;
               (remUnstake, _) = removeLeavingNodesNotExistingInEligibleOrWaiting (unstakeLeaving arg) waitingCopy eligibleCopy;
               (remAdditional, _) = removeLeavingNodesNotExistingInEligibleOrWaiting (additionalLeaving arg) waitingCopy eligibleCopy;
               (e1, w1, still1, n1) = removeLeavingNodesFromValidatorMaps eligibleCopy waitingCopy numToRemove remUnstake;
               (e2, w2, still2, n2) = removeLeavingNodesFromValidatorMaps e1 w1 n1 remAdditional
           in case shuffleOutNodes sha e2 n2 (randomness arg) of
             Inl e \<Rightarrow> Inl e
           | Inr (out, e3) \<Rightarrow>
               (let (e4, w3) = moveMaxNumNodesToMap e3 w2 (nodesMeta arg) (nodesPerShard arg)
                in Inr (e4, w3, out, still1 @ still2))))"

definition shuffleNodes :: "(bytes \<Rightarrow> bytes) \<Rightarrow> shuffleNodesArg \<Rightarrow> shuffler_error + resUpdateNodes" where
  "shuffleNodes sha arg = (case shuffleRemove sha arg of
     Inl e \<Rightarrow> Inl e
   | Inr (newEligible, newWaiting, out, still) \<Rightarrow>
       (case checkAndDistributeNewNodes sha newWaiting (newNodes arg) (randomness arg) (flagStakingV4Step3 arg) of
          Inl e \<Rightarrow> Inl e
        | Inr w1 \<Rightarrow>
            (let lowWaitingList = shouldDistributeShuffledToWaitingInStakingV4 (getNumPubKeys out)
                   (getNumPubKeys newEligible) (getNumPubKeys w1) (of_nat (length (auction arg)))
                   (maxNumNodes arg) (flagStakingV4Step2 arg)
             in case (if flagStakingV4Step3 arg \<or> lowWaitingList
                      then distributeValidators sha w1 (auction arg) (randomness arg) (flagBalanceWaitingLists arg)
                      else Inr w1) of
               Inl e \<Rightarrow> Inl e
             | Inr w2 \<Rightarrow>
                 (case (if \<not> flagStakingV4Step2 arg \<or> lowWaitingList
                        then distributeShuffledOut sha (shuffleBetweenShards arg) w2 out (randomness arg) (flagBalanceWaitingLists arg)
                        else Inr (w2, out)) of
                   Inl e \<Rightarrow> Inl e
                 | Inr (w3, out') \<Rightarrow>
                     Inr \<lparr>resEligible = newEligible, resWaiting = w3, resShuffledOut = out',
                       resLeaving = fst (removeValidatorsFromList (unstakeLeaving arg @ additionalLeaving arg) still (int (length still))),
                       resStillRemaining = still,
                       resLowWaitingList = (flagCleanupAuctionOnLowWaitingList arg \<and> lowWaitingList)\<rparr>))))"

subsection \<open>The shuffler object\<close>

record maxNodesChangeConfig =
  epochEnable :: u32
  cfgMaxNumNodes :: u32
  nodesToShufflePerShard :: u32

text \<open>The four chain parameters the shuffler reads. \<open>metaHyst\<close> and \<open>shardHyst\<close> are the values of
  \<open>metaHysteresis\<close> and \<open>shardHysteresis\<close>, which multiply the minimum sizes by a \<open>float32\<close>.\<close>

record chainParameters =
  shardMinNumNodes :: u32
  metachainMinNumNodes :: u32
  metaHyst :: u32
  shardHyst :: u32
  adaptivity :: bool

record randHashShuffler =
  rhsBetweenShards :: bool
  activeNodesConfig :: maxNodesChangeConfig
  availableNodesConfigs :: "maxNodesChangeConfig list"
  stakingV4Step2EnableEpoch :: u32
  rhsStakingV4Step2 :: bool
  stakingV4Step3EnableEpoch :: u32
  rhsStakingV4Step3 :: bool

definition sortConfigs :: "randHashShuffler \<Rightarrow> randHashShuffler" where
  "sortConfigs rhs = rhs\<lparr>availableNodesConfigs := sort_key epochEnable (availableNodesConfigs rhs)\<rparr>"

definition NewHashValidatorsShuffler :: "bool \<Rightarrow> maxNodesChangeConfig list \<Rightarrow> u32 \<Rightarrow> u32 \<Rightarrow> randHashShuffler" where
  "NewHashValidatorsShuffler between configs step2 step3 = sortConfigs
     \<lparr>rhsBetweenShards = between,
      activeNodesConfig = \<lparr>epochEnable = 0, cfgMaxNumNodes = 0, nodesToShufflePerShard = 0\<rparr>,
      availableNodesConfigs = configs, stakingV4Step2EnableEpoch = step2, rhsStakingV4Step2 = False,
      stakingV4Step3EnableEpoch = step3, rhsStakingV4Step3 = False\<rparr>"

definition UpdateShufflerConfig :: "u32 \<Rightarrow> chainParameters \<Rightarrow> randHashShuffler \<Rightarrow> randHashShuffler" where
  "UpdateShufflerConfig epoch params rhs =
     (let start = (activeNodesConfig rhs)\<lparr>nodesToShufflePerShard := shardMinNumNodes params\<rparr>
      in rhs\<lparr>activeNodesConfig := foldl (\<lambda>active c. if epoch \<ge> epochEnable c then c else active) start
               (availableNodesConfigs rhs),
             rhsStakingV4Step3 := (epoch \<ge> stakingV4Step3EnableEpoch rhs),
             rhsStakingV4Step2 := (epoch \<ge> stakingV4Step2EnableEpoch rhs)\<rparr>)"

text \<open>An integer division by zero panics.\<close>

definition computeNewShards :: "chainParameters \<Rightarrow> shard_map \<Rightarrow> shard_map \<Rightarrow> nat \<Rightarrow> nat \<Rightarrow> u32 \<Rightarrow> shuffler_error + u32" where
  "computeNewShards params el wa numNewNodes numLeavingNodes shards =
     (let nbEligible = foldl (\<lambda>n (s, vs). n + int (length vs)) 0 el;
          nbWaiting = foldl (\<lambda>n (s, vs). n + int (length (shardList wa s))) 0 el;
          nodesNewEpoch = word_of_int (nbEligible + nbWaiting + int numNewNodes - int numLeavingNodes);
          maxNodesMeta = metachainMinNumNodes params + metaHyst params;
          maxNodesShard = shardMinNumNodes params + shardHyst params;
          nodesForSplit = (shards + 1) * maxNodesShard + maxNodesMeta;
          nodesForMerge = shards * shardMinNumNodes params + metachainMinNumNodes params
      in if nodesNewEpoch > nodesForSplit then
           (if maxNodesShard = 0 then Inl DivisionPanic else Inr ((nodesNewEpoch - maxNodesMeta) div maxNodesShard))
         else if nodesNewEpoch < nodesForMerge then Inr (shards - 1)
         else Inr shards)"

definition splitShards :: "shard_map \<Rightarrow> shard_map \<Rightarrow> u32 \<Rightarrow> shard_map \<times> shard_map" where
  "splitShards el wa n = (copyValidatorMap el, copyValidatorMap wa)"

definition mergeShards :: "shard_map \<Rightarrow> shard_map \<Rightarrow> u32 \<Rightarrow> shard_map \<times> shard_map" where
  "mergeShards el wa n = (copyValidatorMap el, copyValidatorMap wa)"

record argsUpdateNodes =
  chainParams :: chainParameters
  Eligible :: shard_map
  Waiting :: shard_map
  NewNodes :: "validator list"
  UnStakeLeaving :: "validator list"
  AdditionalLeaving :: "validator list"
  Auction :: "validator list"
  Rand :: bytes
  NbShards :: u32
  Epoch :: u32

text \<open>\<open>balanceFlag\<close> and \<open>cleanupFlag\<close> are the answers of the enable-epochs handler for an epoch.\<close>

definition UpdateNodeLists :: "(bytes \<Rightarrow> bytes) \<Rightarrow> (u32 \<Rightarrow> bool) \<Rightarrow> (u32 \<Rightarrow> bool) \<Rightarrow> argsUpdateNodes \<Rightarrow>
    randHashShuffler \<Rightarrow> randHashShuffler \<times> (shuffler_error + resUpdateNodes)" where
  "UpdateNodeLists sha balanceFlag cleanupFlag args rhs0 =
     (let params = chainParams args;
          rhs = UpdateShufflerConfig (Epoch args) params rhs0;
          additional = removeDuplicates (UnStakeLeaving args) (AdditionalLeaving args)
      in (rhs, case computeNewShards params (Eligible args) (Waiting args) (length (NewNodes args))
                      (length additional + length (UnStakeLeaving args)) (NbShards args) of
        Inl e \<Rightarrow> Inl e
      | Inr newNbShards \<Rightarrow>
          (let start = (copyValidatorMap (Eligible args), copyValidatorMap (Waiting args));
               afterSplit = (if adaptivity params \<and> newNbShards > NbShards args
                             then splitShards (Eligible args) (Waiting args) newNbShards else start);
               (el, wa) = (if adaptivity params \<and> newNbShards < NbShards args
                           then mergeShards (Eligible args) (Waiting args) newNbShards else afterSplit)
           in shuffleNodes sha
                \<lparr>eligible = el, waiting = wa, unstakeLeaving = UnStakeLeaving args,
                 additionalLeaving = additional, newNodes = NewNodes args, auction = Auction args,
                 randomness = Rand args, shuffleBetweenShards = rhsBetweenShards rhs,
                 nodesMeta = metachainMinNumNodes params, nodesPerShard = shardMinNumNodes params,
                 nbShards = NbShards args,
                 maxNodesToSwapPerShard = nodesToShufflePerShard (activeNodesConfig rhs),
                 maxNumNodes = cfgMaxNumNodes (activeNodesConfig rhs),
                 flagBalanceWaitingLists = balanceFlag (Epoch args),
                 flagStakingV4Step2 = rhsStakingV4Step2 rhs, flagStakingV4Step3 = rhsStakingV4Step3 rhs,
                 flagCleanupAuctionOnLowWaitingList = cleanupFlag (Epoch args)\<rparr>)))"

end
