(* ===== verification/Validator_Theorems.thy ===== *)
theory Validator_Theorems
  imports Validator_Shuffler
begin

text \<open>
  What a shuffle does to the validators. \<open>allOf\<close> collects the validators of a shard map into a
  multiset; the helper lemmas follow each step of \<open>shuffleNodes\<close> with two quantities, the multiset of
  all validators and the length of each shard's list. The results: the shuffle is a permutation that
  does not depend on the order of its input, no validator is lost or duplicated, and every shard keeps
  its minimum number of eligible validators.
\<close>

subsection \<open>Shard maps as multisets\<close>

definition allOf :: "shard_map \<Rightarrow> validator multiset" where
  "allOf mp = mset (concat (map snd mp))"

lemma allOf_simps [simp]: "allOf [] = {#}" "allOf (p # mp) = mset (snd p) + allOf mp" "allOf (xs @ ys) = allOf xs + allOf ys"
  by (simp_all add: allOf_def)

lemma shardList_update [simp]: "shardList (AList.update s v mp) t = (if t = s then v else shardList mp t)"
  by (simp add: shardList_def update_conv')

lemma counter_update [simp]: "counter (AList.update s v c) t = (if t = s then v else counter c t)"
  by (simp add: counter_def update_conv')

lemma shardList_Nil [simp]: "shardList [] s = []"
  by (simp add: shardList_def)

lemma shardList_absent: "s \<notin> fst ` set mp \<Longrightarrow> shardList mp s = []"
  by (simp add: shardList_def map_of_eq_None_iff [THEN iffD2])

lemma shardList_Cons: "shardList (p # mp) s = (if fst p = s then snd p else shardList mp s)"
  by (cases p) (simp add: shardList_def)

lemma allOf_update:
  "distinct (map fst mp) \<Longrightarrow> allOf (AList.update s v mp) + mset (shardList mp s) = allOf mp + mset v"
proof (induction mp)
  case (Cons p mp)
  then show ?case
    by (cases p) (auto simp: shardList_Cons shardList_absent ac_simps)
qed simp

lemma shardList_subset_allOf: "mset (shardList mp s) \<subseteq># allOf mp"
  by (induction mp) (auto simp: shardList_Cons intro: subset_mset.order_trans)

lemma update_keys [simp]: "fst ` set (AList.update s v mp) = insert s (fst ` set mp)"
  by (simp add: dom_update)

lemma update_absent: "s \<notin> fst ` set mp \<Longrightarrow> AList.update s v mp = mp @ [(s, v)]"
  by (induction mp) auto

lemma copyValidatorMap_id [simp]: "copyValidatorMap mp = mp"
  by (simp add: copyValidatorMap_def)

lemma set_sortKeys [simp]: "set (sortKeys mp) = fst ` set mp"
  by (simp add: sortKeys_def)

lemma distinct_sortKeys [simp]: "distinct (sortKeys mp) = distinct (map fst mp)"
  by (simp add: sortKeys_def)

lemma allOf_by_keys:
  "distinct (map fst mp) \<Longrightarrow> allOf mp = (\<Sum>s\<in>fst ` set mp. mset (shardList mp s))"
proof (induction mp)
  case (Cons p mp)
  then have "(\<Sum>s\<in>fst ` set mp. mset (shardList (p # mp) s)) = (\<Sum>s\<in>fst ` set mp. mset (shardList mp s))"
    by (intro sum.cong) (auto simp: shardList_Cons)
  with Cons show ?case by (simp add: shardList_Cons)
qed simp

lemma allOf_of_keys: "allOf (map (\<lambda>s. (s, f s)) ks) = sum_list (map (\<lambda>s. mset (f s)) ks)"
  by (induction ks) auto

lemma shardList_of_keys [simp]: "shardList (map (\<lambda>s. (s, f s)) ks) t = (if t \<in> set ks then f t else [])"
  by (induction ks) (auto simp: shardList_Cons)

subsection \<open>Removing validators\<close>

lemma lastIndexOf_Some: "lastIndexOf vs pk n = Some i \<Longrightarrow> i < n \<and> pubKey (vs ! i) = pk"
  by (induction n) (auto split: if_splits)

lemma lastIndexOf_None: "lastIndexOf vs pk n = None \<longleftrightarrow> (\<forall>i < n. pubKey (vs ! i) \<noteq> pk)"
  by (induction n) (auto simp: less_Suc_eq)

lemma mset_removeValidatorFromList:
  assumes "i < length vs"
  shows "add_mset (vs ! i) (mset (removeValidatorFromList vs (int i))) = mset vs"
proof -
  have "vs[i := last vs] \<noteq> []" using assms by auto
  then have "add_mset (last (vs[i := last vs])) (mset (butlast (vs[i := last vs]))) = mset (vs[i := last vs])"
    by (metis append_butlast_last_id mset.simps add_mset_add_single mset_append)
  moreover have "last (vs[i := last vs]) = last vs"
    using assms by (cases "vs = []") (auto simp: last_list_update)
  moreover have "mset (vs[i := last vs]) = add_mset (last vs) (mset vs - {#vs ! i#})"
    using assms by (simp add: mset_update)
  ultimately have "mset (butlast (vs[i := last vs])) = mset vs - {#vs ! i#}" by simp
  then show ?thesis
    using assms by (simp add: removeValidatorFromList_def)
qed

lemma removeLoop_mset:
  assumes "removeLoop resulted removed vs m = (resulted', removed')"
  shows "mset resulted' + mset removed' = mset resulted + mset removed \<and>
     pubKey ` set removed' \<subseteq> pubKey ` set removed \<union> pubKey ` set vs \<and>
     (int (length removed) \<le> m \<longrightarrow> int (length removed') \<le> m)"
  using assms
proof (induction resulted removed vs m rule: removeLoop.induct)
  case (2 resulted removed v vs m)
  show ?case
  proof (cases "lastIndexOf resulted (pubKey v) (length resulted)")
    case None
    with 2 show ?thesis
      by (auto split: if_splits)
  next
    case (Some i)
    then have i: "i < length resulted" "pubKey (resulted ! i) = pubKey v"
      by (auto dest: lastIndexOf_Some)
    note mset_removeValidatorFromList [OF i(1), simp]
    from 2 Some i show ?thesis
      by (auto split: if_splits)
  qed
qed auto

lemma removeValidatorsFromList_mset:
  assumes "removeValidatorsFromList vs rs m = (vs', removed)"
  shows "mset vs' + mset removed = mset vs" "pubKey ` set removed \<subseteq> pubKey ` set rs"
    "0 \<le> m \<Longrightarrow> int (length removed) \<le> m"
  using removeLoop_mset assms by (fastforce simp: removeValidatorsFromList_def)+

lemma removeLoop_disjoint:
  "pubKey ` set resulted \<inter> pubKey ` set vs = {} \<Longrightarrow> removeLoop resulted removed vs m = (resulted, removed)"
proof (induction vs)
  case (Cons v vs)
  then have "lastIndexOf resulted (pubKey v) (length resulted) = None"
    by (auto simp: lastIndexOf_None disjoint_iff)
  with Cons show ?case by auto
qed simp

lemma removeValidatorsFromList_subset:
  "set (fst (removeValidatorsFromList vs rs m)) \<subseteq> set vs"
  by (metis removeValidatorsFromList_mset(1) mset_subset_eq_add_left prod.collapse set_mset_mono set_mset_mset)

text \<open>One pass that removes validators from a shard map and counts the removals down.\<close>

definition removes :: "shard_map \<Rightarrow> counters \<Rightarrow> bytes set \<Rightarrow> shard_map \<Rightarrow> counters \<Rightarrow> validator multiset \<Rightarrow> bool" where
  "removes ex c K ex' c' R \<longleftrightarrow>
     distinct (map fst ex') \<and> fst ` set ex' = fst ` set ex \<and> allOf ex = allOf ex' + R \<and> pubKey ` set_mset R \<subseteq> K \<and>
     (\<forall>s. 0 \<le> counter c' s \<and>
        int (length (shardList ex s)) - int (length (shardList ex' s)) = counter c s - counter c' s)"

lemma removes_refl: "distinct (map fst ex) \<Longrightarrow> \<forall>s. 0 \<le> counter c s \<Longrightarrow> removes ex c K ex c {#}"
  by (simp add: removes_def)

lemma removes_trans:
  "removes a c K b c1 R \<Longrightarrow> removes b c1 K d c2 Q \<Longrightarrow> removes a c K d c2 (Q + R)"
  by (simp add: removes_def image_Un ac_simps)
    (metis (no_types, opaque_lifting) add_diff_eq diff_add_cancel diff_diff_eq2)

lemma removes_mono: "removes a c K b c1 R \<Longrightarrow> K \<subseteq> L \<Longrightarrow> removes a c L b c1 R"
  by (auto simp: removes_def)

lemma removeNodesFromShard_removes:
  assumes "removeNodesFromShard ex lv s (counter c s) = (ex', lv', n)" "s \<in> fst ` set ex"
    and "distinct (map fst ex)" "\<forall>s. 0 \<le> counter c s"
  shows "\<exists>R. removes ex c (pubKey ` set lv) ex' (AList.update s (counter c s - n) c) R" "set lv' \<subseteq> set lv"
proof -
  define nb where "nb = (if int (length lv) < counter c s then int (length lv) else counter c s)"
  obtain vl rm where rm: "removeValidatorsFromList (shardList ex s) lv nb = (vl, rm)" by fastforce
  from assms(1) rm have res: "ex' = AList.update s vl ex" "n = int (length rm)"
    "lv' = fst (removeValidatorsFromList lv rm (int (length rm)))"
    by (auto simp: removeNodesFromShard_def nb_def Let_def split: prod.splits)
  from assms(4) have "0 \<le> nb" "nb \<le> counter c s" by (auto simp: nb_def)
  note m = removeValidatorsFromList_mset [OF rm] \<open>0 \<le> nb\<close> \<open>nb \<le> counter c s\<close>
  have "allOf ex' + (mset vl + mset rm) = allOf ex + mset vl"
    using allOf_update [OF assms(3), of s vl] by (simp add: res m(1))
  then have "allOf ex = allOf ex' + mset rm" by simp
  moreover have "length (shardList ex s) = length vl + length rm"
    using m(1) by (metis size_mset size_union)
  ultimately have "removes ex c (pubKey ` set lv) ex' (AList.update s (counter c s - n) c) (mset rm)"
    using m assms by (auto simp: removes_def res distinct_update insert_absorb)
  then show "\<exists>R. removes ex c (pubKey ` set lv) ex' (AList.update s (counter c s - n) c) R" ..
  show "set lv' \<subseteq> set lv" by (simp add: res removeValidatorsFromList_subset)
qed

lemma removesD:
  assumes "removes ex c K ex' c' R"
  shows "distinct (map fst ex')" "fst ` set ex' = fst ` set ex" "\<forall>s. 0 \<le> counter c' s" "allOf ex = allOf ex' + R"
    "pubKey ` set_mset R \<subseteq> K"
    "int (length (shardList ex s)) - int (length (shardList ex' s)) = counter c s - counter c' s"
  using assms by (auto simp: removes_def)

lemma removeNodesLoop_removes:
  assumes "removeNodesLoop ex lv c ss = (ex', lv', c')" "set ss \<subseteq> fst ` set ex"
    and "distinct (map fst ex)" "\<forall>s. 0 \<le> counter c s"
  shows "(\<exists>R. removes ex c (pubKey ` set lv) ex' c' R) \<and> set lv' \<subseteq> set lv"
  using assms
proof (induction ex lv c ss rule: removeNodesLoop.induct)
  case (2 ex lv c s ss)
  obtain ex1 lv1 n where st: "removeNodesFromShard ex lv s (counter c s) = (ex1, lv1, n)"
    by (metis prod_cases3)
  let ?c1 = "AList.update s (counter c s - n) c"
  from removeNodesFromShard_removes [OF st] "2.prems" obtain R where
    R: "removes ex c (pubKey ` set lv) ex1 ?c1 R" and sub: "set lv1 \<subseteq> set lv" by auto
  from 2(1) [OF st [symmetric] refl refl] "2.prems" removesD(1-3) [OF R] st obtain Q where
    Q: "removes ex1 ?c1 (pubKey ` set lv1) ex' c' Q" and sub': "set lv' \<subseteq> set lv1"
    by auto
  have "removes ex c (pubKey ` set lv) ex' c' (Q + R)"
    by (rule removes_trans [OF R removes_mono [OF Q]]) (use sub in auto)
  with sub sub' show ?case by blast
qed (auto intro: removes_refl)

lemma removeNodesFromMap_removes:
  assumes "removeNodesFromMap ex lv c = (ex', lv', c')" "distinct (map fst ex)" "\<forall>s. 0 \<le> counter c s"
  obtains R where "removes ex c (pubKey ` set lv) ex' c' R" "set lv' \<subseteq> set lv"
  using removeNodesLoop_removes [of ex lv c "sortKeys ex" ex' lv' c'] assms
  by (auto simp: removeNodesFromMap_def)

subsection \<open>Shuffling\<close>

text \<open>No two of the validators have the same shuffle hash: SHA-256 does not collide on them and no two
  have the same key.\<close>

definition hash_distinct :: "(bytes \<Rightarrow> bytes) \<Rightarrow> bytes \<Rightarrow> validator set \<Rightarrow> bool" where
  "hash_distinct sha rand V \<longleftrightarrow> inj_on (\<lambda>v. sha (pubKey v @ rand)) V"

lemma hash_distinct_subset: "hash_distinct sha rand V \<Longrightarrow> W \<subseteq> V \<Longrightarrow> hash_distinct sha rand W"
  by (auto simp: hash_distinct_def intro: inj_on_subset)

lemma hash_distinct_pubKey: "hash_distinct sha rand V \<Longrightarrow> inj_on pubKey V"
  by (auto simp: hash_distinct_def inj_on_def)

lemma shuffle_lookup:
  assumes "hash_distinct sha rand (set vs)" "v \<in> set vs"
  shows "map_of (rev (map (\<lambda>v. (sha (pubKey v @ rand), v)) vs)) (sha (pubKey v @ rand)) = Some v"
proof -
  let ?m = "rev (map (\<lambda>v. (sha (pubKey v @ rand), v)) vs)"
  have "map_of ?m (sha (pubKey v @ rand)) \<noteq> None"
    using assms(2) by (auto simp: map_of_eq_None_iff image_iff)
  then obtain w where w: "map_of ?m (sha (pubKey v @ rand)) = Some w" by auto
  then have "(sha (pubKey v @ rand), w) \<in> set ?m" by (rule map_of_SomeD)
  with assms have "w = v" by (auto simp: hash_distinct_def inj_on_def)
  with w show ?thesis by simp
qed

lemma shuffleList_mset:
  assumes "hash_distinct sha rand (set vs)"
  shows "mset (shuffleList sha vs rand) = mset vs"
proof -
  let ?k = "\<lambda>v. sha (pubKey v @ rand)"
  let ?f = "\<lambda>k. case map_of (rev (map (\<lambda>v. (?k v, v)) vs)) k of Some v \<Rightarrow> v | None \<Rightarrow> hd vs"
  have "mset (shuffleList sha vs rand) = image_mset (?f \<circ> ?k) (mset vs)"
    by (simp add: shuffleList_def Let_def comp_def image_mset.compositionality)
  also have "\<dots> = image_mset id (mset vs)"
    by (rule image_mset_cong) (simp add: shuffle_lookup [OF assms])
  finally show ?thesis by simp
qed

lemma shuffleList_length [simp]: "length (shuffleList sha vs rand) = length vs"
  by (simp add: shuffleList_def Let_def)

lemma shuffleList_perm:
  assumes "hash_distinct sha rand (set vs)" "mset vs = mset ws"
  shows "shuffleList sha vs rand = shuffleList sha ws rand"
proof -
  have st: "set vs = set ws" using assms(2) by (rule mset_eq_setD)
  have "sort (map (\<lambda>v. sha (pubKey v @ rand)) vs) = sort (map (\<lambda>v. sha (pubKey v @ rand)) ws)"
    by (rule properties_for_sort) (simp_all add: assms(2))
  then show ?thesis
    unfolding shuffleList_def Let_def map_map comp_def fst_conv
    by (rule map_cong) (use assms(1) st in \<open>auto simp: shuffle_lookup\<close>)
qed

text \<open>What \<open>shuffleOutNodes\<close> computes: the first \<open>n\<close> shuffled validators of a shard leave.\<close>

definition outNum :: "shard_map \<Rightarrow> counters \<Rightarrow> u32 \<Rightarrow> nat" where
  "outNum elig c s = nat (min (int (length (shardList elig s))) (counter c s))"

lemma shuffleOutLoop_eq:
  assumes "distinct ss" "set ss \<inter> fst ` set (fst acc) = {}" "set ss \<inter> fst ` set (snd acc) = {}"
    and "\<forall>s. 0 \<le> counter c s"
    and "\<And>s. hash_distinct sha rand (set (shardList elig s)) \<and> distinct (shardList elig s)"
  shows "shuffleOutLoop sha elig c rand ss acc = Inr
     (fst acc @ map (\<lambda>s. (s, take (outNum elig c s) (shuffleList sha (shardList elig s) rand))) ss,
      snd acc @ map (\<lambda>s. (s, drop (outNum elig c s) (shuffleList sha (shardList elig s) rand))) ss)"
  using assms(1-3)
proof (induction ss arbitrary: acc)
  case (Cons s ss)
  let ?sh = "shuffleList sha (shardList elig s) rand" and ?n = "outNum elig c s"
  have hd: "hash_distinct sha rand (set (shardList elig s))" and di: "distinct (shardList elig s)"
    using assms(5) by auto
  have "distinct ?sh" "set ?sh = set (shardList elig s)"
    using shuffleList_mset [OF hd] di by (metis mset_eq_imp_distinct_iff, metis mset_eq_setD)
  then have "pubKey ` set (drop ?n ?sh) \<inter> pubKey ` set (take ?n ?sh) = {}"
    using hash_distinct_pubKey [OF hd] set_take_disj_set_drop_if_distinct [of ?sh ?n ?n]
    by (auto simp: inj_on_def) (metis disjoint_iff in_set_dropD in_set_takeD)
  then have "removeValidatorsFromList (drop ?n ?sh) (take ?n ?sh) m = (drop ?n ?sh, [])" for m
    by (simp add: removeValidatorsFromList_def removeLoop_disjoint)
  moreover have "shuffleOutShard sha (shardList elig s) (counter c s) rand = Inr (take ?n ?sh, drop ?n ?sh)"
    using assms(4) [rule_format, of s] by (auto simp: shuffleOutShard_def Let_def outNum_def min_def)
  ultimately show ?case
    using Cons by (simp add: update_absent)
qed simp

lemma distinct_of_count:
  assumes "\<And>v. count (mset xs) v \<le> 1"
  shows "distinct xs"
  unfolding distinct_count_atmost_1
proof
  fix v
  show "count (mset xs) v = (if v \<in> set xs then 1 else 0)"
    using assms [of v] by (cases "v \<in> set xs") (auto simp: le_less simp flip: set_mset_mset not_in_iff)
qed

lemma shuffleOutNodes_spec:
  assumes "distinct (map fst elig)" "\<forall>s. 0 \<le> counter c s"
    and "hash_distinct sha rand (set_mset (allOf elig))" "\<And>v. count (allOf elig) v \<le> 1"
  obtains out rest where "shuffleOutNodes sha elig c rand = Inr (out, rest)"
    "distinct (map fst out)" "distinct (map fst rest)" "allOf elig = allOf out + allOf rest"
    "\<And>s. int (length (shardList rest s)) = max 0 (int (length (shardList elig s)) - counter c s)"
proof -
  let ?sh = "\<lambda>s. shuffleList sha (shardList elig s) rand" and ?n = "outNum elig c"
  let ?out = "map (\<lambda>s. (s, take (?n s) (?sh s))) (sortKeys elig)"
  let ?rest = "map (\<lambda>s. (s, drop (?n s) (?sh s))) (sortKeys elig)"
  have hd: "hash_distinct sha rand (set (shardList elig s))" for s
    using hash_distinct_subset [OF assms(3)] set_mset_mono [OF shardList_subset_allOf [of elig s]] by simp
  moreover have "distinct (shardList elig s)" for s
    by (rule distinct_of_count)
      (rule le_trans [OF mset_subset_eq_count [OF shardList_subset_allOf [of elig s]] assms(4)])
  ultimately have "shuffleOutNodes sha elig c rand = Inr (?out, ?rest)"
    using shuffleOutLoop_eq [of "sortKeys elig" "([], [])" c sha rand elig] assms(1,2)
    by (simp add: shuffleOutNodes_def)
  moreover have "distinct (map fst ?out)" "distinct (map fst ?rest)"
    using assms(1) by (simp_all add: comp_def)
  moreover have "allOf elig = allOf ?out + allOf ?rest"
  proof -
    have "mset (take (?n s) (?sh s)) + mset (drop (?n s) (?sh s)) = mset (shardList elig s)" for s
      by (metis append_take_drop_id hd mset_append shuffleList_mset)
    then have "allOf ?out + allOf ?rest = sum_list (map (\<lambda>s. mset (shardList elig s)) (sortKeys elig))"
      by (simp add: allOf_of_keys flip: sum_list_addf)
    also have "\<dots> = allOf elig"
      using assms(1) by (simp add: allOf_by_keys sum_list_distinct_conv_sum_set)
    finally show ?thesis by simp
  qed
  moreover have "int (length (shardList ?rest s)) = max 0 (int (length (shardList elig s)) - counter c s)" for s
    using assms(2) [rule_format, of s] shardList_absent [of s elig]
    by (cases "s \<in> fst ` set elig") (auto simp: outNum_def min_def max_def)
  ultimately show thesis by (rule that)
qed

subsection \<open>Filling and distributing\<close>

lemma unat_of_nat_u32: "n < 2 ^ 32 \<Longrightarrow> unat (of_nat n :: u32) = n"
  by (simp add: unat_of_nat take_bit_nat_eq_self)

lemma unat_computeNeededNodes:
  assumes "length d < 2 ^ 32" "length w < 2 ^ 32"
  shows "unat (computeNeededNodes d w m) = min (length w) (unat m - length d)"
  using assms by (simp add: computeNeededNodes_def Let_def word_less_nat_alt unat_of_nat_u32 unat_sub_if_size min_def)

lemma moveShard_allOf:
  assumes "distinct (map fst d)" "distinct (map fst w)" "moveShard nm ns (d, w) s = (d', w')"
  shows "distinct (map fst d') \<and> distinct (map fst w') \<and> allOf d' + allOf w' = allOf d + allOf w"
proof -
  obtain n where r: "d' = AList.update s (shardList d s @ take n (shardList w s)) d"
      "w' = AList.update s (drop n (shardList w s)) w"
    using assms(3) by (auto simp: moveShard_def Let_def)
  have "allOf d' + mset (shardList d s) = allOf d + (mset (shardList d s) + mset (take n (shardList w s)))"
    using allOf_update [OF assms(1)] by (simp add: r)
  then have d: "allOf d' = allOf d + mset (take n (shardList w s))" by simp
  have "allOf w' + (mset (take n (shardList w s)) + mset (drop n (shardList w s))) = allOf w + mset (drop n (shardList w s))"
    using allOf_update [OF assms(2), of s "drop n (shardList w s)"]
    by (metis append_take_drop_id mset_append r(2))
  then have "allOf w' + mset (take n (shardList w s)) = allOf w" by (simp add: ac_simps)
  with d show ?thesis
    using assms by (auto simp: r distinct_update ac_simps)
qed

lemma moveShards_allOf:
  assumes "foldl (moveShard nm ns) (d, w) ss = (d', w')" "distinct (map fst d)" "distinct (map fst w)"
  shows "distinct (map fst d') \<and> distinct (map fst w') \<and> allOf d' + allOf w' = allOf d + allOf w"
  using assms
proof (induction ss arbitrary: d w)
  case (Cons s ss)
  obtain d1 w1 where "moveShard nm ns (d, w) s = (d1, w1)" by fastforce
  with Cons moveShard_allOf [of d w nm ns s d1 w1] show ?case by simp
qed auto

lemma moveShards_other:
  "foldl (moveShard nm ns) (d, w) ss = (d', w') \<Longrightarrow> s \<notin> set ss \<Longrightarrow> shardList d' s = shardList d s"
proof (induction ss arbitrary: d w)
  case (Cons t ss)
  obtain d1 w1 where "moveShard nm ns (d, w) t = (d1, w1)" by fastforce
  moreover from this Cons.prems(2) have "shardList d1 s = shardList d s"
    by (auto simp: moveShard_def Let_def)
  ultimately show ?case using Cons by simp
qed auto

lemma moveShards_length:
  assumes "foldl (moveShard nm ns) (d, w) ss = (d', w')" "distinct ss" "s \<in> set ss"
    and "length (shardList d s) < 2 ^ 32" "length (shardList w s) < 2 ^ 32"
    and "unat (if s = MetachainShardId then nm else ns) \<le> length (shardList d s) + length (shardList w s)"
  shows "unat (if s = MetachainShardId then nm else ns) \<le> length (shardList d' s)"
  using assms
proof (induction ss arbitrary: d w)
  case (Cons t ss)
  obtain d1 w1 where st: "moveShard nm ns (d, w) t = (d1, w1)" by fastforce
  show ?case
  proof (cases "s = t")
    case True
    with Cons.prems have "s \<notin> set ss" by auto
    with Cons.prems st have "shardList d' s = shardList d1 s" by (simp add: moveShards_other)
    with st Cons.prems True show ?thesis
      by (auto simp: moveShard_def Let_def unat_computeNeededNodes)
  next
    case False
    with st have "shardList d1 s = shardList d s" "shardList w1 s = shardList w s"
      by (auto simp: moveShard_def Let_def)
    with Cons False st show ?thesis by simp
  qed
qed simp

lemma equalizeLoop_allOf:
  assumes "equalizeLoop d vs m ss = (d', vs')" "distinct (map fst d)"
  shows "distinct (map fst d') \<and> allOf d' + mset vs' = allOf d + mset vs \<and> set vs' \<subseteq> set vs"
  using assms
proof (induction d vs m ss rule: equalizeLoop.induct)
  case (2 d vs m s ss)
  show ?case
  proof (cases "length (shardList d s) < m")
    case True
    define n where "n = min (m - length (shardList d s)) (length vs)"
    let ?d = "AList.update s (shardList d s @ take n vs) d"
    have dd: "distinct (map fst ?d)" using "2.prems" by (simp add: distinct_update)
    have "allOf ?d = allOf d + mset (take n vs)"
      using allOf_update [OF "2.prems"(2), of s "shardList d s @ take n vs"] by simp
    then have "allOf ?d + mset (drop n vs) = allOf d + mset vs"
      by (metis add.assoc append_take_drop_id mset_append)
    moreover have "distinct (map fst d') \<and> allOf d' + mset vs' = allOf ?d + mset (drop n vs) \<and> set vs' \<subseteq> set (drop n vs)"
      using "2.IH"(1) [OF True n_def] "2.prems"(1) dd True by (simp add: n_def Let_def)
    ultimately show ?thesis using set_drop_subset by force
  next
    case False
    with 2 show ?thesis by simp
  qed
qed auto

lemma roundRobin_allOf:
  "distinct (map fst d) \<Longrightarrow>
   distinct (map fst (roundRobin d ids i vs)) \<and> allOf (roundRobin d ids i vs) = allOf d + mset vs"
proof (induction vs arbitrary: d i)
  case (Cons v vs)
  define s where "s = ids ! (unat (of_nat i :: u32) mod length ids)"
  have "allOf (AList.update s (shardList d s @ [v]) d) = allOf d + {#v#}"
    using allOf_update [OF Cons.prems, of s "shardList d s @ [v]"] by simp
  with Cons show ?case
    by (simp add: distinct_update Let_def flip: s_def)
qed simp

lemma equalizeLoop_keys: "equalizeLoop d vs m ss = (d', vs') \<Longrightarrow> fst ` set d \<subseteq> fst ` set d'"
  by (induction d vs m ss rule: equalizeLoop.induct) (auto simp: Let_def split: if_splits)

lemma roundRobin_keys: "fst ` set d \<subseteq> fst ` set (roundRobin d ids i vs)"
proof (induction vs arbitrary: d i)
  case (Cons v vs)
  let ?s = "ids ! (unat (of_nat i :: u32) mod length ids)"
  have "insert ?s (fst ` set d) \<subseteq> fst ` set (roundRobin (AList.update ?s (shardList d ?s @ [v]) d) ids (Suc i) vs)"
    using Cons [of "AList.update ?s (shardList d ?s @ [v]) d" "Suc i"] by simp
  then show ?case by (simp add: Let_def)
qed simp

lemma distributeValidators_allOf:
  assumes "d \<noteq> []" "distinct (map fst d)" "hash_distinct sha rand (set vs)"
  obtains d' where "distributeValidators sha d vs rand b = Inr d'" "distinct (map fst d')"
    "allOf d' = allOf d + mset vs" "fst ` set d \<subseteq> fst ` set d'"
proof -
  obtain d1 vs1 where e: "(if b then equalizeValidatorsLists d (shuffleList sha vs rand)
      else (d, shuffleList sha vs rand)) = (d1, vs1)" by fastforce
  have d1: "distinct (map fst d1)" "allOf d1 + mset vs1 = allOf d + mset vs" "fst ` set d \<subseteq> fst ` set d1"
    using equalizeLoop_allOf [of d _ _ _ d1 vs1] equalizeLoop_keys [of d _ _ _ d1 vs1] e assms
    by (auto simp: equalizeValidatorsLists_def shuffleList_mset split: if_splits)
  let ?r = "roundRobin d1 (sortKeys d) 0 vs1"
  show thesis
  proof (rule that)
    show "distributeValidators sha d vs rand b = Inr ?r"
      using assms(1) e by (simp add: distributeValidators_def Let_def)
    show "fst ` set d \<subseteq> fst ` set ?r"
      using d1(3) roundRobin_keys by (rule order_trans)
  qed (use d1 roundRobin_allOf [OF d1(1)] in auto)
qed

lemma moveNodes_fold:
  assumes "foldl (\<lambda>(d, src) s. (AList.update s (shardList d s @ shardList src s) d, AList.update s [] src)) (d, w) ss = (d', w')"
    and "distinct (map fst d)" "distinct (map fst w)"
  shows "distinct (map fst d') \<and> distinct (map fst w') \<and> allOf d' + allOf w' = allOf d + allOf w \<and>
    fst ` set w' = fst ` set w \<union> set ss \<and> (\<forall>s. s \<in> set ss \<or> shardList w s = [] \<longrightarrow> shardList w' s = [])"
  using assms
proof (induction ss arbitrary: d w)
  case (Cons s ss)
  let ?d = "AList.update s (shardList d s @ shardList w s) d" and ?w = "AList.update s [] w"
  have "allOf ?d = allOf d + mset (shardList w s)" "allOf ?w + mset (shardList w s) = allOf w"
    using allOf_update [OF Cons.prems(2), of s "shardList d s @ shardList w s"]
      allOf_update [OF Cons.prems(3), of s "[]"] by simp_all
  then have "allOf ?d + allOf ?w = allOf d + allOf w" by (simp add: ac_simps)
  moreover have "distinct (map fst ?d)" "distinct (map fst ?w)"
    using Cons.prems by (simp_all add: distinct_update)
  ultimately show ?case
    using Cons.IH [of ?d ?w] Cons.prems(1) by auto
qed auto

lemma moveNodesToMap_allOf:
  assumes "distinct (map fst d)" "distinct (map fst w)" "moveNodesToMap d w = (d', w')"
  shows "distinct (map fst d')" "allOf d' = allOf d + allOf w"
proof -
  note f = moveNodes_fold [OF assms(3) [unfolded moveNodesToMap_def] assms(1,2)]
  then have "allOf w' = {#}" by (simp add: allOf_by_keys)
  with f show "distinct (map fst d')" "allOf d' = allOf d + allOf w" by simp_all
qed

subsection \<open>The first half of the shuffle\<close>

lemma ensureShard_simps:
  "distinct (map fst mp) \<Longrightarrow> distinct (map fst (ensureShard mp s))"
  "distinct (map fst mp) \<Longrightarrow> allOf (ensureShard mp s) = allOf mp"
  "fst ` set (ensureShard mp s) = insert s (fst ` set mp)"
  by (simp_all add: ensureShard_def distinct_update update_absent map_of_eq_None_iff shardList_absent insert_absorb)

lemma shardList_ensureShard [simp]: "shardList (ensureShard mp s) t = shardList mp t"
  by (simp add: ensureShard_def map_of_eq_None_iff shardList_absent)

lemma ensureShards_fold:
  assumes "distinct (map fst mp)"
  shows "distinct (map fst (foldl ensureShard mp ss)) \<and> allOf (foldl ensureShard mp ss) = allOf mp \<and>
    (\<forall>t. shardList (foldl ensureShard mp ss) t = shardList mp t) \<and>
    fst ` set (foldl ensureShard mp ss) = set ss \<union> fst ` set mp"
  using assms by (induction ss arbitrary: mp) (auto simp: ensureShard_simps)

lemma createListsForAllShards_spec:
  assumes "distinct (map fst mp)"
  shows "distinct (map fst (createListsForAllShards mp n))" "allOf (createListsForAllShards mp n) = allOf mp"
    "shardList (createListsForAllShards mp n) t = shardList mp t"
    "set (map of_nat [0..<n]) \<union> {MetachainShardId} \<subseteq> fst ` set (createListsForAllShards mp n)"
  using ensureShards_fold [OF assms, of "map of_nat [0..<n]"]
  by (auto simp: createListsForAllShards_def ensureShard_simps)

definition shardSize :: "shuffleNodesArg \<Rightarrow> u32 \<Rightarrow> nat" where
  "shardSize arg s = length (shardList (eligible arg) s) + length (shardList (waiting arg) s)"

text \<open>Every shard has at least its minimum number of validators, eligible and waiting together.\<close>

definition enoughValidators :: "shuffleNodesArg \<Rightarrow> bool" where
  "enoughValidators arg = list_all (\<lambda>s. unat (shardTarget arg s) \<le> shardSize arg s) (allShards arg)"

lemma computeNumToRemoveLoop_spec:
  "computeNumToRemoveLoop arg ss c = (if \<forall>s \<in> set ss. unat (shardTarget arg s) \<le> shardSize arg s
     then Inr (foldl (\<lambda>c s. AList.update s (int (shardSize arg s) - int (unat (shardTarget arg s))) c) c ss)
     else Inl ErrSmallShardEligibleListSize)"
  by (induction ss arbitrary: c) (auto simp: computeNumToRemovePerShard_def shardSize_def simp del: of_nat_unat)

lemma counter_fold_update:
  "counter (foldl (\<lambda>c s. AList.update s (f s) c) c ss) t = (if t \<in> set ss then f t else counter c t)"
  by (induction ss arbitrary: c) auto

lemma counter_cap: "counter (capNumToRemove m c) s = min (counter c s) (int (unat m))" if "0 \<le> counter c s"
  using that by (induction c) (auto simp: counter_def capNumToRemove_def split: if_splits)

lemma removeLeaving_spec:
  assumes "removeLeavingNodesFromValidatorMaps el wa c lv = (el', wa', still, c')"
    and "distinct (map fst el)" "distinct (map fst wa)" "\<forall>s. 0 \<le> counter c s"
  shows "\<exists>R. distinct (map fst el') \<and> distinct (map fst wa') \<and> fst ` set wa' = fst ` set wa \<and>
    allOf el + allOf wa = allOf el' + allOf wa' + R \<and> pubKey ` set_mset R \<subseteq> pubKey ` set lv \<and>
    (\<forall>s. 0 \<le> counter c' s \<and> int (length (shardList el s)) + int (length (shardList wa s)) - counter c s =
         int (length (shardList el' s)) + int (length (shardList wa' s)) - counter c' s)"
proof -
  obtain s1 c1 where w: "removeNodesFromMap wa lv c = (wa', s1, c1)"
    and e: "removeNodesFromMap el s1 c1 = (el', still, c')"
    using assms(1) by (auto simp: removeLeavingNodesFromValidatorMaps_def Let_def split: prod.splits)
  obtain R where R: "removes wa c (pubKey ` set lv) wa' c1 R" and sub: "set s1 \<subseteq> set lv"
    using removeNodesFromMap_removes [OF w assms(3,4)] .
  obtain Q where Q: "removes el c1 (pubKey ` set s1) el' c' Q"
    using removeNodesFromMap_removes [OF e assms(2) removesD(3) [OF R]] .
  have "pubKey ` set_mset (R + Q) \<subseteq> pubKey ` set lv"
    using removesD(5) [OF R] removesD(5) [OF Q] image_mono [OF sub, of pubKey]
    unfolding set_mset_union image_Un by (meson Un_least order_trans)
  moreover have "int (length (shardList el s)) + int (length (shardList wa s)) - counter c s =
         int (length (shardList el' s)) + int (length (shardList wa' s)) - counter c' s" for s
    using removesD(6) [OF R, of s] removesD(6) [OF Q, of s] by simp
  ultimately show ?thesis
    using removesD(1-4) [OF R] removesD(1-4) [OF Q] by (intro exI [of _ "R + Q"]) (simp add: ac_simps)
qed

text \<open>The arguments of a shuffle: the maps have one entry per shard, no validator appears twice, the
  shuffle hashes of all validators involved differ, and there are fewer than \<open>2 ^ 32\<close> validators.\<close>

definition shuffle_args_ok :: "(bytes \<Rightarrow> bytes) \<Rightarrow> shuffleNodesArg \<Rightarrow> bool" where
  "shuffle_args_ok sha arg \<longleftrightarrow>
     distinct (map fst (eligible arg)) \<and> distinct (map fst (waiting arg)) \<and>
     distinct (concat (map snd (eligible arg)) @ concat (map snd (waiting arg))) \<and>
     hash_distinct sha (randomness arg) (set (concat (map snd (eligible arg)) @ concat (map snd (waiting arg)) @
       newNodes arg @ auction arg)) \<and>
     length (concat (map snd (eligible arg)) @ concat (map snd (waiting arg))) < 2 ^ 32"

lemma shuffle_args_okD:
  assumes "shuffle_args_ok sha arg"
  shows "distinct (map fst (eligible arg))" "distinct (map fst (waiting arg))"
    "count (allOf (eligible arg) + allOf (waiting arg)) v \<le> 1"
    "size (allOf (eligible arg) + allOf (waiting arg)) < 2 ^ 32"
    "hash_distinct sha (randomness arg) (set_mset (allOf (eligible arg) + allOf (waiting arg)) \<union>
       set (newNodes arg) \<union> set (auction arg))"
proof -
  show "count (allOf (eligible arg) + allOf (waiting arg)) v \<le> 1"
    using assms unfolding shuffle_args_ok_def distinct_count_atmost_1
    by (metis allOf_def eq_imp_le mset_append zero_le_one)
qed (use assms in \<open>auto simp: shuffle_args_ok_def allOf_def Un_ac\<close>)

lemma length_shardList_le: "length (shardList mp s) \<le> size (allOf mp)"
  using size_mset_mono [OF shardList_subset_allOf] by (metis size_mset)

lemma removeLeavingNodesNotExisting_subset:
  "set (fst (removeLeavingNodesNotExistingInEligibleOrWaiting lv wa el)) \<subseteq> set lv"
  by (simp add: removeLeavingNodesNotExistingInEligibleOrWaiting_def Let_def removeValidatorsFromList_subset)

lemma numToRemove_spec:
  assumes "enoughValidators arg" "0 < nbShards arg"
  obtains c where "computeNumToRemove arg = Inr c"
    "\<And>m s. 0 \<le> counter (capNumToRemove m c) s"
    "\<And>m s. s \<in> set (allShards arg) \<Longrightarrow>
       counter (capNumToRemove m c) s \<le> int (shardSize arg s) - int (unat (shardTarget arg s))"
proof -
  let ?f = "\<lambda>s. int (shardSize arg s) - int (unat (shardTarget arg s))"
  let ?c = "foldl (\<lambda>c s. AList.update s (?f s) c) [] (allShards arg)"
  have enough: "unat (shardTarget arg s) \<le> shardSize arg s" if "s \<in> set (allShards arg)" for s
    using assms(1) that by (auto simp: enoughValidators_def list_all_iff)
  have c: "counter ?c s = (if s \<in> set (allShards arg) then ?f s else 0)" for s
    by (simp add: counter_fold_update) (simp add: counter_def)
  then have "0 \<le> counter ?c s" for s using enough [of s] by (simp del: of_nat_unat)
  moreover have "nbShards arg \<noteq> 0" using assms(2) by auto
  then have "computeNumToRemove arg = Inr ?c"
    using enough by (simp add: computeNumToRemove_def computeNumToRemoveLoop_spec del: of_nat_unat)
  moreover have "counter (capNumToRemove m ?c) s = min (counter ?c s) (int (unat m))" for m s
    by (rule counter_cap) (rule calculation(1))
  ultimately show thesis
    by (intro that [of ?c]) (simp_all only: c min.bounded_iff min.cobounded1 of_nat_0_le_iff if_True simp_thms)
qed

lemma allShards_created:
  "distinct (map fst mp) \<Longrightarrow> set (allShards arg) \<subseteq> fst ` set (createListsForAllShards mp (unat (nbShards arg)))"
  using createListsForAllShards_spec(4) [of mp "unat (nbShards arg)"] by (simp add: allShards_def)

text \<open>Both removal passes together.\<close>

lemma twoRemovals_spec:
  assumes "removeLeavingNodesFromValidatorMaps el wa c u = (e1, w1, still1, c1)"
    and "removeLeavingNodesFromValidatorMaps e1 w1 c1 a = (e2, w2, still2, c2)"
    and "distinct (map fst el)" "distinct (map fst wa)" "\<forall>s. 0 \<le> counter c s"
  shows "\<exists>R. distinct (map fst e2) \<and> distinct (map fst w2) \<and> fst ` set w2 = fst ` set wa \<and>
    allOf el + allOf wa = allOf e2 + allOf w2 + R \<and> pubKey ` set_mset R \<subseteq> pubKey ` set (u @ a) \<and>
    (\<forall>s. 0 \<le> counter c2 s \<and> int (length (shardList el s)) + int (length (shardList wa s)) - counter c s =
         int (length (shardList e2 s)) + int (length (shardList w2 s)) - counter c2 s)"
proof -
  obtain R where R: "distinct (map fst e1)" "distinct (map fst w1)" "fst ` set w1 = fst ` set wa"
    "allOf el + allOf wa = allOf e1 + allOf w1 + R" "pubKey ` set_mset R \<subseteq> pubKey ` set u"
    and c1: "\<forall>s. 0 \<le> counter c1 s \<and> int (length (shardList el s)) + int (length (shardList wa s)) - counter c s =
         int (length (shardList e1 s)) + int (length (shardList w1 s)) - counter c1 s"
    using removeLeaving_spec [OF assms(1,3,4,5)] by blast
  from c1 have "\<forall>s. 0 \<le> counter c1 s" by blast
  from removeLeaving_spec [OF assms(2) R(1,2) this] obtain Q where
    Q: "distinct (map fst e2)" "distinct (map fst w2)" "fst ` set w2 = fst ` set w1"
    "allOf e1 + allOf w1 = allOf e2 + allOf w2 + Q" "pubKey ` set_mset Q \<subseteq> pubKey ` set a"
    and c2: "\<forall>s. 0 \<le> counter c2 s \<and> int (length (shardList e1 s)) + int (length (shardList w1 s)) - counter c1 s =
         int (length (shardList e2 s)) + int (length (shardList w2 s)) - counter c2 s" by blast
  have "pubKey ` set_mset (Q + R) \<subseteq> pubKey ` set (u @ a)"
    using R(5) Q(5) unfolding set_mset_union image_Un set_append by blast
  with R Q c1 c2 show ?thesis
    by (intro exI [of _ "Q + R"]) (simp add: ac_simps)
qed

lemma shuffleRemove_eq:
  assumes "computeNumToRemove arg = Inr c"
    and "wa = createListsForAllShards (waiting arg) (unat (nbShards arg))"
    and "removeLeavingNodesFromValidatorMaps (eligible arg) wa (capNumToRemove (maxNodesToSwapPerShard arg) c)
      (fst (removeLeavingNodesNotExistingInEligibleOrWaiting (unstakeLeaving arg) wa (eligible arg))) = (e1, w1, s1, n1)"
    and "removeLeavingNodesFromValidatorMaps e1 w1 n1
      (fst (removeLeavingNodesNotExistingInEligibleOrWaiting (additionalLeaving arg) wa (eligible arg))) = (e2, w2, s2, n2)"
    and "shuffleOutNodes sha e2 n2 (randomness arg) = Inr (out, e3)"
    and "moveMaxNumNodesToMap e3 w2 (nodesMeta arg) (nodesPerShard arg) = (e4, w3)"
  shows "shuffleRemove sha arg = Inr (e4, w3, out, s1 @ s2)"
  using assms(1,3-6) by (simp add: shuffleRemove_def Let_def case_prod_unfold flip: assms(2))

lemma moveShards_keys:
  "foldl (moveShard nm ns) (d, w) ss = (d', w') \<Longrightarrow> fst ` set w \<subseteq> fst ` set w'"
proof (induction ss arbitrary: d w)
  case (Cons t ss)
  obtain d1 w1 where "moveShard nm ns (d, w) t = (d1, w1)" by fastforce
  moreover from this obtain v where "w1 = AList.update t v w"
    by (auto simp: moveShard_def Let_def)
  ultimately show ?case using Cons.IH [of d1 w1] Cons.prems by auto
qed auto

lemma keepsTarget:
  fixes n n2 :: counters
  assumes "foldl (moveShard (nodesMeta arg) (nodesPerShard arg)) (e3, w2) (map fst w2) = (e4, w3)"
    and "s \<in> fst ` set w2" "distinct (map fst w2)"
    and "length (shardList e3 s) < 2 ^ 32" "length (shardList w2 s) < 2 ^ 32"
    and "counter n s \<le> int (shardSize arg s) - int (unat (shardTarget arg s))"
    and "int (shardSize arg s) - counter n s = int (length (shardList e2 s)) + int (length (shardList w2 s)) - counter n2 s"
    and "int (length (shardList e3 s)) = max 0 (int (length (shardList e2 s)) - counter n2 s)"
  shows "unat (shardTarget arg s) \<le> length (shardList e4 s)"
proof -
  have "unat (shardTarget arg s) \<le> length (shardList e3 s) + length (shardList w2 s)"
    using assms(6-8) by (simp del: of_nat_unat)
  then show ?thesis
    using moveShards_length [OF assms(1,3) _ assms(4,5)] assms(2) by (simp add: shardTarget_def)
qed

lemma shuffleRemove_spec:
  assumes ok: "shuffle_args_ok sha arg" and enough: "enoughValidators arg" "0 < nbShards arg"
  obtains e w out still R where "shuffleRemove sha arg = Inr (e, w, out, still)"
    "distinct (map fst e)" "distinct (map fst w)" "distinct (map fst out)" "MetachainShardId \<in> fst ` set w"
    "allOf (eligible arg) + allOf (waiting arg) = allOf e + allOf w + allOf out + R"
    "pubKey ` set_mset R \<subseteq> pubKey ` set (unstakeLeaving arg @ additionalLeaving arg)"
    "\<And>s. s \<in> set (allShards arg) \<Longrightarrow> unat (shardTarget arg s) \<le> length (shardList e s)"
proof -
  note okd = shuffle_args_okD [OF ok]
  define wa where "wa = createListsForAllShards (waiting arg) (unat (nbShards arg))"
  note wa = createListsForAllShards_spec(1-3) [OF okd(2), of "unat (nbShards arg)", folded wa_def]
  let ?V = "allOf (eligible arg) + allOf (waiting arg)"
  obtain c where c: "computeNumToRemove arg = Inr c"
      and c0: "\<And>m s. 0 \<le> counter (capNumToRemove m c) s"
      and cmax: "\<And>m s. s \<in> set (allShards arg) \<Longrightarrow>
        counter (capNumToRemove m c) s \<le> int (shardSize arg s) - int (unat (shardTarget arg s))"
    using numToRemove_spec [OF enough] by metis
  let ?n = "capNumToRemove (maxNodesToSwapPerShard arg) c"
  let ?u = "fst (removeLeavingNodesNotExistingInEligibleOrWaiting (unstakeLeaving arg) wa (eligible arg))"
  let ?a = "fst (removeLeavingNodesNotExistingInEligibleOrWaiting (additionalLeaving arg) wa (eligible arg))"
  obtain e1 w1 s1 n1 where r1: "removeLeavingNodesFromValidatorMaps (eligible arg) wa ?n ?u = (e1, w1, s1, n1)"
    by (metis prod_cases4)
  obtain e2 w2 s2 n2 where r2: "removeLeavingNodesFromValidatorMaps e1 w1 n1 ?a = (e2, w2, s2, n2)"
    by (metis prod_cases4)
  from twoRemovals_spec [OF r1 r2 okd(1) wa(1) allI [OF c0], unfolded wa(2,3)] obtain R where
    R: "distinct (map fst e2)" "distinct (map fst w2)" "fst ` set w2 = fst ` set wa"
      "?V = allOf e2 + allOf w2 + R" "pubKey ` set_mset R \<subseteq> pubKey ` set (?u @ ?a)"
    and n2': "\<forall>s. 0 \<le> counter n2 s \<and>
        int (length (shardList (eligible arg) s)) + int (length (shardList (waiting arg) s)) - counter ?n s =
        int (length (shardList e2 s)) + int (length (shardList w2 s)) - counter n2 s"
    by (elim exE conjE)
  have n0: "\<forall>s. 0 \<le> counter n2 s" and n2: "\<And>s. int (shardSize arg s) - counter ?n s =
      int (length (shardList e2 s)) + int (length (shardList w2 s)) - counter n2 s"
    using n2' by (simp_all add: shardSize_def)
  have sub: "allOf e2 \<subseteq># ?V"
    by (metis R(4) mset_subset_eq_add_left add.assoc)
  obtain out e3 where out: "shuffleOutNodes sha e2 n2 (randomness arg) = Inr (out, e3)"
      "distinct (map fst out)" "distinct (map fst e3)" "allOf e2 = allOf out + allOf e3"
      and len3: "\<And>s. int (length (shardList e3 s)) = max 0 (int (length (shardList e2 s)) - counter n2 s)"
  proof (rule shuffleOutNodes_spec [OF R(1) n0, of sha "randomness arg"])
    show "hash_distinct sha (randomness arg) (set_mset (allOf e2))"
      by (rule hash_distinct_subset [OF okd(5)]) (use set_mset_mono [OF sub] in auto)
    show "count (allOf e2) v \<le> 1" for v
      using mset_subset_eq_count [OF sub, of v] okd(3) [of v] by simp
  qed (rule that)
  obtain e4 w3 where mv: "moveMaxNumNodesToMap e3 w2 (nodesMeta arg) (nodesPerShard arg) = (e4, w3)" by fastforce
  note mv' = mv [unfolded moveMaxNumNodesToMap_def]
  note mvd = moveShards_allOf [OF mv' out(3) R(2)]
  have shards: "set (allShards arg) \<subseteq> fst ` set w2"
    using allShards_created [OF okd(2)] R(3) by (simp add: wa_def)
  show thesis
  proof (rule that)
    show "shuffleRemove sha arg = Inr (e4, w3, out, s1 @ s2)"
      by (rule shuffleRemove_eq [OF c wa_def r1 r2 out(1) mv])
    show "MetachainShardId \<in> fst ` set w3"
      using shards moveShards_keys [OF mv'] by (auto simp: allShards_def)
    show "?V = allOf e4 + allOf w3 + allOf out + R"
      using R(4) out(4) mvd by (simp add: ac_simps)
    show "pubKey ` set_mset R \<subseteq> pubKey ` set (unstakeLeaving arg @ additionalLeaving arg)"
      by (rule order_trans [OF R(5)], unfold set_append,
          intro image_mono Un_mono removeLeavingNodesNotExisting_subset)
    show "unat (shardTarget arg s) \<le> length (shardList e4 s)" if "s \<in> set (allShards arg)" for s
    proof (rule keepsTarget [OF mv' _ R(2) _ _ cmax n2 len3])
      have "size (allOf e3) + size (allOf w2) < 2 ^ 32"
        using okd(4) R(4) out(4) by simp
      then show "length (shardList e3 s) < 2 ^ 32" "length (shardList w2 s) < 2 ^ 32"
        using length_shardList_le [of e3 s] length_shardList_le [of w2 s] by linarith+
    qed (use that shards in auto)
  qed (use mvd out(2) in auto)
qed

subsection \<open>The whole shuffle\<close>

lemma distributeIf_spec:
  assumes "w \<noteq> []" "distinct (map fst w)" "hash_distinct sha rand (set vs)"
  obtains w' where "(if c then distributeValidators sha w vs rand b else Inr w) = Inr w'" "distinct (map fst w')"
    "allOf w' = allOf w + (if c then mset vs else {#})" "w' \<noteq> []"
proof (cases c)
  case True
  obtain w' where "distributeValidators sha w vs rand b = Inr w'" "distinct (map fst w')"
    "allOf w' = allOf w + mset vs" "fst ` set w \<subseteq> fst ` set w'"
    using distributeValidators_allOf [OF assms(1-3)] .
  with True assms(1) show thesis by (intro that [of w']) auto
qed (use assms that [of w] in simp)

lemma checkAndDistributeNewNodes_if:
  "(v4 \<Longrightarrow> new = []) \<Longrightarrow> checkAndDistributeNewNodes sha w new rand v4 =
     (if \<not> v4 then distributeValidators sha w new rand False else Inr w)"
  by (simp add: checkAndDistributeNewNodes_def)

lemma distributeShuffledOut_spec:
  assumes "w \<noteq> []" "distinct (map fst w)" "distinct (map fst out)" "hash_distinct sha rand (set_mset (allOf out))"
  obtains w' out' where "distributeShuffledOut sha across w out rand b = Inr (w', out')"
    "allOf w' = allOf w + allOf out"
proof (cases across)
  case True
  from assms(4) have "hash_distinct sha rand (set (concat (map snd out)))" by (simp add: allOf_def)
  from distributeValidators_allOf [OF assms(1,2) this, of b] obtain w' where
    "distributeValidators sha w (concat (map snd out)) rand b = Inr w'" "allOf w' = allOf w + mset (concat (map snd out))" .
  with True show thesis by (intro that [of w' out]) (simp_all add: distributeShuffledOut_def allOf_def)
next
  case False
  obtain w' out' where m: "moveNodesToMap w out = (w', out')" by fastforce
  with False moveNodesToMap_allOf(2) [OF assms(2,3) m] show thesis
    by (intro that [of w' out']) (simp_all add: distributeShuffledOut_def)
qed

lemma distributeShuffledOutIf_spec:
  assumes "w \<noteq> []" "distinct (map fst w)" "distinct (map fst out)" "hash_distinct sha rand (set_mset (allOf out))"
  obtains w' out' where "(if c then distributeShuffledOut sha across w out rand b else Inr (w, out)) = Inr (w', out')"
    "allOf w' + (if c then {#} else allOf out') = allOf w + allOf out"
proof (cases c)
  case True
  from distributeShuffledOut_spec [OF assms, of across b] obtain w' out' where
    "distributeShuffledOut sha across w out rand b = Inr (w', out')" "allOf w' = allOf w + allOf out" .
  with True show thesis by (intro that [of w' out']) simp_all
qed (use that [of w out] in simp)

lemma mset_balance:
  fixes V :: "'a multiset"
  assumes "V = E + W + S + R" "W1 = W + N" "W2 = W1 + A" "W3 + B = W2 + S"
  shows "V + N + A = E + W3 + B + R"
proof -
  have "V + N + A = E + R + (W2 + S)" using assms(1-3) by (simp add: ac_simps)
  also have "\<dots> = E + R + (W3 + B)" by (simp only: assms(4))
  finally show ?thesis by (simp add: ac_simps)
qed

lemma shuffleNodes_spec:
  assumes ok: "shuffle_args_ok sha arg" and enough: "enoughValidators arg" "0 < nbShards arg"
    and new: "flagStakingV4Step3 arg \<Longrightarrow> newNodes arg = []"
  obtains res R low where "shuffleNodes sha arg = Inr res"
    "resLowWaitingList res = (flagCleanupAuctionOnLowWaitingList arg \<and> low)"
    "low \<Longrightarrow> flagStakingV4Step2 arg"
    "pubKey ` set_mset R \<subseteq> pubKey ` set (unstakeLeaving arg @ additionalLeaving arg)"
    "allOf (eligible arg) + allOf (waiting arg) + mset (newNodes arg) +
       (if flagStakingV4Step3 arg \<or> low then mset (auction arg) else {#}) =
     allOf (resEligible res) + allOf (resWaiting res) +
       (if \<not> flagStakingV4Step2 arg \<or> low then {#} else allOf (resShuffledOut res)) + R"
    "\<And>s. s \<in> set (allShards arg) \<Longrightarrow> unat (shardTarget arg s) \<le> length (shardList (resEligible res) s)"
proof -
  obtain e w out still R where rm: "shuffleRemove sha arg = Inr (e, w, out, still)"
      "distinct (map fst w)" "distinct (map fst out)" "MetachainShardId \<in> fst ` set w"
      "allOf (eligible arg) + allOf (waiting arg) = allOf e + allOf w + allOf out + R"
      "pubKey ` set_mset R \<subseteq> pubKey ` set (unstakeLeaving arg @ additionalLeaving arg)"
      and target: "\<And>s. s \<in> set (allShards arg) \<Longrightarrow> unat (shardTarget arg s) \<le> length (shardList e s)"
    using shuffleRemove_spec [OF ok enough] by metis
  note hd = shuffle_args_okD(5) [OF ok]
  have "w \<noteq> []" using rm(4) by auto
  have hdn: "hash_distinct sha (randomness arg) (set (newNodes arg))"
    and hda: "hash_distinct sha (randomness arg) (set (auction arg))"
    and hdo: "hash_distinct sha (randomness arg) (set_mset (allOf out))"
    by (rule hash_distinct_subset [OF hd]; auto simp: rm(5))+
  obtain w1 where "(if \<not> flagStakingV4Step3 arg then distributeValidators sha w (newNodes arg) (randomness arg) False
        else Inr w) = Inr w1"
      and w1: "distinct (map fst w1)" "w1 \<noteq> []"
      and "allOf w1 = allOf w + (if \<not> flagStakingV4Step3 arg then mset (newNodes arg) else {#})"
    using distributeIf_spec [OF \<open>w \<noteq> []\<close> rm(2) hdn] by metis
  then have w1': "checkAndDistributeNewNodes sha w (newNodes arg) (randomness arg) (flagStakingV4Step3 arg) = Inr w1"
      "allOf w1 = allOf w + mset (newNodes arg)"
    using new by (auto simp: checkAndDistributeNewNodes_if split: if_splits)
  define low where "low = shouldDistributeShuffledToWaitingInStakingV4 (getNumPubKeys out) (getNumPubKeys e)
    (getNumPubKeys w1) (of_nat (length (auction arg))) (maxNumNodes arg) (flagStakingV4Step2 arg)"
  obtain w2 where w2: "(if flagStakingV4Step3 arg \<or> low
      then distributeValidators sha w1 (auction arg) (randomness arg) (flagBalanceWaitingLists arg) else Inr w1) = Inr w2"
      "distinct (map fst w2)" "allOf w2 = allOf w1 + (if flagStakingV4Step3 arg \<or> low then mset (auction arg) else {#})"
      "w2 \<noteq> []"
    using distributeIf_spec [OF w1(2,1) hda] .
  obtain w3 out' where w3: "(if \<not> flagStakingV4Step2 arg \<or> low
      then distributeShuffledOut sha (shuffleBetweenShards arg) w2 out (randomness arg) (flagBalanceWaitingLists arg)
      else Inr (w2, out)) = Inr (w3, out')"
      "allOf w3 + (if \<not> flagStakingV4Step2 arg \<or> low then {#} else allOf out') = allOf w2 + allOf out"
    using distributeShuffledOutIf_spec [OF w2(4,2) rm(3) hdo] .
  show thesis
  proof (rule that [where R = R and low = low])
    show "shuffleNodes sha arg = Inr \<lparr>resEligible = e, resWaiting = w3, resShuffledOut = out',
        resLeaving = fst (removeValidatorsFromList (unstakeLeaving arg @ additionalLeaving arg) still (int (length still))),
        resStillRemaining = still,
        resLowWaitingList = (flagCleanupAuctionOnLowWaitingList arg \<and> low)\<rparr>"
      using rm(1) w1'(1) w2(1) w3(1) by (simp add: shuffleNodes_def Let_def flip: low_def)
    show "flagStakingV4Step2 arg" if low
      using that by (simp add: low_def shouldDistributeShuffledToWaitingInStakingV4_def split: if_splits)
  qed (use rm(6) target mset_balance [OF rm(5) w1'(2) w2(3) w3(2)] in simp_all)
qed

lemma shuffleNodes_not_enough:
  assumes "\<not> enoughValidators arg" "0 < nbShards arg"
  shows "shuffleNodes sha arg = Inl ErrSmallShardEligibleListSize"
proof -
  from assms(2) have "nbShards arg \<noteq> 0" by auto
  then have "computeNumToRemove arg = Inl ErrSmallShardEligibleListSize"
    using assms(1) by (auto simp: computeNumToRemove_def computeNumToRemoveLoop_spec enoughValidators_def list_all_iff)
  then show ?thesis by (simp add: shuffleNodes_def shuffleRemove_def Let_def)
qed

lemma shuffleNodes_new_in_v4:
  assumes "shuffle_args_ok sha arg" "enoughValidators arg" "0 < nbShards arg"
    and "flagStakingV4Step3 arg" "newNodes arg \<noteq> []"
  shows "shuffleNodes sha arg = Inl ErrReceivedNewListNodeInStakingV4"
proof -
  obtain e w out still where "shuffleRemove sha arg = Inr (e, w, out, still)"
    using shuffleRemove_spec [OF assms(1-3)] by metis
  with assms(4,5) show ?thesis
    by (simp add: shuffleNodes_def checkAndDistributeNewNodes_def)
qed

subsection \<open>The active configuration\<close>

lemma foldl_last_filter:
  "foldl (\<lambda>active c. if P c then c else active) start cs = (if filter P cs = [] then start else last (filter P cs))"
  by (induction cs arbitrary: start) auto

lemma sorted_last_max: "sorted xs \<Longrightarrow> x \<in> set xs \<Longrightarrow> x \<le> last xs"
  by (induction xs) auto

lemma active_config_of_sorted:
  assumes "sorted (map epochEnable cs)" "c \<in> set cs" "epochEnable c \<le> epoch" "availableNodesConfigs rhs = cs"
  shows "let a = activeNodesConfig (UpdateShufflerConfig epoch params rhs) in
    a \<in> set cs \<and> epochEnable a \<le> epoch \<and> epochEnable c \<le> epochEnable a"
proof -
  let ?ys = "filter (\<lambda>c. epoch \<ge> epochEnable c) cs"
  have ne: "?ys \<noteq> []" using assms(2,3) by (auto simp: filter_empty_conv)
  then have active: "activeNodesConfig (UpdateShufflerConfig epoch params rhs) = last ?ys"
    using assms(4) by (simp add: UpdateShufflerConfig_def Let_def foldl_last_filter)
  have "last ?ys \<in> set ?ys" using ne by (rule last_in_set)
  moreover have "epochEnable c \<le> last (map epochEnable ?ys)"
    by (rule sorted_last_max) (use assms in \<open>auto intro: sorted_filter\<close>)
  ultimately show ?thesis using ne by (simp add: active last_map)
qed

subsection \<open>Results\<close>

text \<open>A small network: two shards and the metachain, one leaving and one new validator. The hash of the
  instance is the identity, which distinguishes all keys.\<close>

definition demo_validator :: "byte \<Rightarrow> validator" where
  "demo_validator b = \<lparr>pubKey = [b], chances = 1, index = 0\<rparr>"

definition demo_arg :: shuffleNodesArg where
  "demo_arg = \<lparr>eligible = [(0, map demo_validator [1, 2]), (1, map demo_validator [3, 4]), (MetachainShardId, map demo_validator [5, 6])],
     waiting = [(0, map demo_validator [7]), (1, map demo_validator [8])],
     unstakeLeaving = [demo_validator 1], additionalLeaving = [], newNodes = [demo_validator 9], auction = [],
     randomness = [42], shuffleBetweenShards = True, nodesMeta = 2, nodesPerShard = 2, nbShards = 2,
     maxNodesToSwapPerShard = 1, maxNumNodes = 12, flagBalanceWaitingLists = False, flagStakingV4Step2 = False,
     flagStakingV4Step3 = False, flagCleanupAuctionOnLowWaitingList = False\<rparr>"

lemma demo_ok: "shuffle_args_ok id demo_arg" "enoughValidators demo_arg" "0 < nbShards demo_arg"
    "flagStakingV4Step3 demo_arg \<longrightarrow> newNodes demo_arg = []"
  by (simp_all add: shuffle_args_ok_def hash_distinct_def demo_arg_def demo_validator_def MetachainShardId_def
      enoughValidators_def allShards_def shardTarget_def shardSize_def shardList_def upt_rec)

text \<open>C14. A shuffle loses and duplicates no validator. When every shard has enough validators it returns
  a result, and the validators that were eligible, waiting, new or selected from the auction are, as a
  multiset, exactly those that are eligible, waiting or (when they are not sent to waiting) shuffled out
  afterwards, together with removed ones that had all asked to leave.\<close>

theorem shuffle_conserves_validators:
  assumes "shuffle_args_ok sha arg" "enoughValidators arg" "0 < nbShards arg"
    and "flagStakingV4Step3 arg \<longrightarrow> newNodes arg = []"
  shows "\<exists>res R low. shuffleNodes sha arg = Inr res \<and> (low \<longrightarrow> flagStakingV4Step2 arg) \<and>
    resLowWaitingList res = (flagCleanupAuctionOnLowWaitingList arg \<and> low) \<and>
    pubKey ` set_mset R \<subseteq> pubKey ` set (unstakeLeaving arg @ additionalLeaving arg) \<and>
    allOf (eligible arg) + allOf (waiting arg) + mset (newNodes arg) +
      (if flagStakingV4Step3 arg \<or> low then mset (auction arg) else {#}) =
    allOf (resEligible res) + allOf (resWaiting res) +
      (if \<not> flagStakingV4Step2 arg \<or> low then {#} else allOf (resShuffledOut res)) + R"
  using shuffleNodes_spec [OF assms(1-3)] assms(4) by metis

theorem shuffle_conserves_validators_witness:
  "\<exists>res R. shuffleNodes id demo_arg = Inr res \<and> pubKey ` set_mset R \<subseteq> {[1]} \<and>
     allOf (eligible demo_arg) + allOf (waiting demo_arg) + mset (newNodes demo_arg) =
     allOf (resEligible res) + allOf (resWaiting res) + R"
  using shuffle_conserves_validators [OF demo_ok] by (auto simp: demo_arg_def demo_validator_def)

text \<open>C15. After a successful shuffle every shard, the metachain included, has at least its minimum
  number of eligible validators.\<close>

theorem shuffle_keeps_shard_minimum:
  assumes "shuffle_args_ok sha arg" "0 < nbShards arg" "shuffleNodes sha arg = Inr res" "s \<in> set (allShards arg)"
  shows "unat (shardTarget arg s) \<le> length (shardList (resEligible res) s)"
proof -
  have enough: "enoughValidators arg"
    using shuffleNodes_not_enough [of arg sha] assms(2,3) by auto
  have "flagStakingV4Step3 arg \<Longrightarrow> newNodes arg = []"
    using shuffleNodes_new_in_v4 [OF assms(1) enough assms(2)] assms(3) by auto
  from shuffleNodes_spec [OF assms(1) enough assms(2) this] assms(3,4) show ?thesis
    by (metis Inr_inject)
qed

theorem shuffle_keeps_shard_minimum_witness:
  "\<exists>res. shuffleNodes id demo_arg = Inr res \<and> 2 \<le> length (shardList (resEligible res) 1)"
proof -
  obtain res where res: "shuffleNodes id demo_arg = Inr res"
    using shuffleNodes_spec [OF demo_ok(1-3)] demo_ok(4) by metis
  have "1 \<in> set (allShards demo_arg)" "unat (shardTarget demo_arg 1) = 2"
    by (simp_all add: allShards_def demo_arg_def shardTarget_def MetachainShardId_def upt_rec)
  with shuffle_keeps_shard_minimum [OF demo_ok(1,3) res, of 1] res show ?thesis by auto
qed

text \<open>C16. A shuffle fails in exactly two ways: with \<open>ErrSmallShardEligibleListSize\<close> when some shard has
  fewer validators than its minimum, and otherwise with \<open>ErrReceivedNewListNodeInStakingV4\<close> when new nodes
  are given in staking v4. No slice expression of it panics.\<close>

theorem shuffle_errors:
  assumes "shuffle_args_ok sha arg" "0 < nbShards arg"
  shows "shuffleNodes sha arg = Inl err \<longleftrightarrow>
    (if \<not> enoughValidators arg then err = ErrSmallShardEligibleListSize
     else flagStakingV4Step3 arg \<and> newNodes arg \<noteq> [] \<and> err = ErrReceivedNewListNodeInStakingV4)"
proof (cases "enoughValidators arg")
  case True
  show ?thesis
  proof (cases "flagStakingV4Step3 arg \<and> newNodes arg \<noteq> []")
    case False
    then obtain res where "shuffleNodes sha arg = Inr res"
      using shuffleNodes_spec [OF assms(1) True assms(2)] by metis
    with True False show ?thesis by auto
  next
    case v4: True
    with shuffleNodes_new_in_v4 [OF assms(1) True assms(2)] True show ?thesis by auto
  qed
next
  case False
  with shuffleNodes_not_enough [OF False assms(2)] show ?thesis by auto
qed

theorem shuffle_errors_witness:
  "shuffleNodes id (demo_arg\<lparr>flagStakingV4Step3 := True\<rparr>) = Inl ErrReceivedNewListNodeInStakingV4"
proof -
  let ?a = "demo_arg\<lparr>flagStakingV4Step3 := True\<rparr>"
  have "shuffle_args_ok id ?a" "0 < nbShards ?a"
    using demo_ok(1,3) by (simp_all add: shuffle_args_ok_def)
  moreover have "shardTarget ?a = shardTarget demo_arg" "shardSize ?a = shardSize demo_arg" "allShards ?a = allShards demo_arg"
    by (simp_all add: fun_eq_iff shardTarget_def shardSize_def allShards_def)
  then have "enoughValidators ?a"
    using demo_ok(2) by (simp add: enoughValidators_def)
  moreover have "newNodes ?a \<noteq> []" by (simp add: demo_arg_def)
  ultimately show ?thesis by (simp add: shuffle_errors)
qed

text \<open>C17. When the shuffle hashes of the validators differ, \<open>shuffleList\<close> is a permutation of its input
  and does not depend on the order of it: every node of the network computes the same list.\<close>

theorem shuffle_deterministic:
  assumes "hash_distinct sha rand (set vs)" "mset vs = mset ws"
  shows "mset (shuffleList sha vs rand) = mset vs \<and> shuffleList sha ws rand = shuffleList sha vs rand"
  using shuffleList_mset [OF assms(1)] shuffleList_perm [OF assms] by simp

theorem shuffle_deterministic_witness:
  "shuffleList id (map demo_validator [3, 1, 2]) [7] = shuffleList id (map demo_validator [1, 2, 3]) [7]"
  using shuffle_deterministic [of id "[7]" "map demo_validator [1, 2, 3]" "map demo_validator [3, 1, 2]"]
  by (simp add: hash_distinct_def demo_validator_def)

text \<open>After \<open>UpdateShufflerConfig\<close> the active configuration is one of the configured ones, enabled in
  the epoch, and no other configuration enabled in the epoch is enabled later, in whatever order the
  configurations were given.\<close>

theorem active_config_is_latest:
  assumes "c \<in> set configs" "epochEnable c \<le> epoch"
  shows "let a = activeNodesConfig (UpdateShufflerConfig epoch params (NewHashValidatorsShuffler between configs s2 s3)) in
    a \<in> set configs \<and> epochEnable a \<le> epoch \<and> epochEnable c \<le> epochEnable a"
  using active_config_of_sorted [of "sort_key epochEnable configs" c epoch
      "NewHashValidatorsShuffler between configs s2 s3" params] assms
  by (simp add: NewHashValidatorsShuffler_def sortConfigs_def)

theorem active_config_is_latest_witness:
  "let mk = (\<lambda>e. \<lparr>epochEnable = e, cfgMaxNumNodes = 10, nodesToShufflePerShard = 1\<rparr>);
       a = activeNodesConfig (UpdateShufflerConfig 5
         \<lparr>shardMinNumNodes = 2, metachainMinNumNodes = 2, metaHyst = 0, shardHyst = 0, adaptivity = False\<rparr>
         (NewHashValidatorsShuffler True [mk 4, mk 0, mk 7] 0 0))
   in epochEnable a \<le> 5 \<and> 4 \<le> epochEnable a"
  using active_config_is_latest [of "\<lparr>epochEnable = 4, cfgMaxNumNodes = 10, nodesToShufflePerShard = 1\<rparr>" _ 5]
  by (auto simp: Let_def)

end
