(* ===== verification/Fork_Detector.thy ===== *)
theory Fork_Detector
  imports Go_Prelude "HOL-Library.AList" "HOL-Library.List_Lexorder"
begin

text \<open>
  The fork detectors of \<open>process/sync\<close>: \<open>baseForkDetector.go\<close> with the shard and the metachain variants. The
  map of headers per nonce is an association list with distinct keys, a nil hash is the empty list. Values
  converted to \<open>int64\<close> are compared as signed words, so the differences wrap as in the source. The round
  handler, the proofs pool, the epoch flags and the sweep of the time cache are an environment. The variants
  differ in two methods, \<open>computeFinalCheckpoint\<close> and the job on a processed block, which the base calls
  through parameters, as the source does.
\<close>

datatype blockHeaderState = BHReceived | BHReceivedTooLate | BHProcessed | BHProposed | BHNotarized

record headerInfo =
  hiEpoch :: u32
  hiNonce :: u64
  hiRound :: u64
  hiHash :: bytes
  hiState :: blockHeaderState
  hiHasProof :: bool

record checkpointInfo =
  cpNonce :: u64
  cpRound :: u64
  cpHash :: bytes

record forkInfo =
  checkpoint :: "checkpointInfo list"
  finalCheckpoint :: checkpointInfo
  probableHighestNonce :: u64
  highestNonceReceived :: u64
  rollBackNonce :: u64
  lastRoundWithForcedFork :: u64

record baseForkDetector =
  headers :: "(u64 \<times> headerInfo list) list"
  fork :: forkInfo
  blackList :: "bytes list"
  genesisTime :: u64
  genesisNonce :: u64
  genesisRound :: u64
  maxForkHeaderEpoch :: u32

record header =
  GetEpoch :: u32
  GetNonce :: u64
  GetRound :: u64
  GetTimeStamp :: u64
  GetPrevHash :: bytes
  GetShardID :: u32
  IsStartOfEpochBlock :: bool

record forkEnv =
  roundIndex :: u64
  roundSeconds :: u64
  AndromedaFlag :: "u32 \<Rightarrow> bool"
  andromedaActivationEpoch :: u32
  HasProof :: "u32 \<Rightarrow> bytes \<Rightarrow> bool"
  sweep :: "bytes list \<Rightarrow> bytes list"

datatype fork_error = ErrNilHeader | ErrNilHash | ErrHeaderIsBlackListed | ErrGenesisTimeMissmatch
  | ErrLowerRoundInBlock | ErrLowerNonceInBlock | ErrHigherRoundInBlock | ErrHigherNonceInBlock

definition MaxUint64 :: u64 where "MaxUint64 = - 1"
definition MinForkRound :: u64 where "MinForkRound = 0"
definition MaxRoundsWithoutCommittedBlock :: int where "MaxRoundsWithoutCommittedBlock = 10"
definition RoundModulusTrigger :: int where "RoundModulusTrigger = 5"
definition NonceDifferenceWhenSynced :: int where "NonceDifferenceWhenSynced = 0"
definition BlockFinality :: u64 where "BlockFinality = 1"

definition headersAt :: "(u64 \<times> headerInfo list) list \<Rightarrow> u64 \<Rightarrow> headerInfo list" where
  "headersAt m n = (case map_of m n of None \<Rightarrow> [] | Some hs \<Rightarrow> hs)"

definition setFork :: "(forkInfo \<Rightarrow> forkInfo) \<Rightarrow> baseForkDetector \<Rightarrow> baseForkDetector" where
  "setFork f bfd = bfd\<lparr>fork := f (fork bfd)\<rparr>"

subsection \<open>Accessors and setters of the fork information\<close>

definition SetRollBackNonce :: "u64 \<Rightarrow> baseForkDetector \<Rightarrow> baseForkDetector" where
  "SetRollBackNonce n = setFork (\<lambda>f. f\<lparr>rollBackNonce := n\<rparr>)"

definition setLastRoundWithForcedFork :: "u64 \<Rightarrow> baseForkDetector \<Rightarrow> baseForkDetector" where
  "setLastRoundWithForcedFork r = setFork (\<lambda>f. f\<lparr>lastRoundWithForcedFork := r\<rparr>)"

definition addCheckpoint :: "checkpointInfo \<Rightarrow> baseForkDetector \<Rightarrow> baseForkDetector" where
  "addCheckpoint cp = setFork (\<lambda>f. f\<lparr>checkpoint := checkpoint f @ [cp]\<rparr>)"

definition AddCheckpoint :: "u64 \<Rightarrow> u64 \<Rightarrow> bytes \<Rightarrow> baseForkDetector \<Rightarrow> baseForkDetector" where
  "AddCheckpoint n r h = addCheckpoint \<lparr>cpNonce = n, cpRound = r, cpHash = h\<rparr>"

definition lastCheckpoint :: "baseForkDetector \<Rightarrow> checkpointInfo" where
  "lastCheckpoint bfd =
     (if checkpoint (fork bfd) = [] then \<lparr>cpNonce = genesisNonce bfd, cpRound = genesisRound bfd, cpHash = []\<rparr>
      else last (checkpoint (fork bfd)))"

definition setFinalCheckpoint :: "checkpointInfo \<Rightarrow> baseForkDetector \<Rightarrow> baseForkDetector" where
  "setFinalCheckpoint cp = setFork (\<lambda>f. f\<lparr>finalCheckpoint := cp\<rparr>)"

definition SetFinalToLastCheckpoint :: "baseForkDetector \<Rightarrow> baseForkDetector" where
  "SetFinalToLastCheckpoint bfd = setFinalCheckpoint (lastCheckpoint bfd) bfd"

definition GetHighestFinalBlockNonce :: "baseForkDetector \<Rightarrow> u64" where
  "GetHighestFinalBlockNonce bfd = cpNonce (finalCheckpoint (fork bfd))"

definition GetHighestFinalBlockHash :: "baseForkDetector \<Rightarrow> bytes" where
  "GetHighestFinalBlockHash bfd = cpHash (finalCheckpoint (fork bfd))"

definition setProbableHighestNonce :: "u64 \<Rightarrow> baseForkDetector \<Rightarrow> baseForkDetector" where
  "setProbableHighestNonce n = setFork (\<lambda>f. f\<lparr>probableHighestNonce := n\<rparr>)"

definition setHighestNonceReceived :: "u64 \<Rightarrow> baseForkDetector \<Rightarrow> baseForkDetector" where
  "setHighestNonceReceived n bfd =
     (if n \<le> highestNonceReceived (fork bfd) then bfd else setFork (\<lambda>f. f\<lparr>highestNonceReceived := n\<rparr>) bfd)"

definition RestoreToGenesis :: "baseForkDetector \<Rightarrow> baseForkDetector" where
  "RestoreToGenesis bfd =
     (let cp = \<lparr>cpNonce = genesisNonce bfd, cpRound = genesisRound bfd, cpHash = []\<rparr>
      in bfd\<lparr>headers := [], fork := (fork bfd)\<lparr>checkpoint := [cp], finalCheckpoint := cp,
           probableHighestNonce := genesisNonce bfd, highestNonceReceived := genesisNonce bfd\<rparr>\<rparr>)"

subsection \<open>Removing records\<close>

definition removePastHeaders :: "baseForkDetector \<Rightarrow> baseForkDetector" where
  "removePastHeaders bfd = bfd\<lparr>headers := filter (\<lambda>(n, hs). \<not> n < GetHighestFinalBlockNonce bfd) (headers bfd)\<rparr>"

definition isReceivedHeaderInvalid :: "baseForkDetector \<Rightarrow> headerInfo \<Rightarrow> bool" where
  "isReceivedHeaderInvalid bfd h =
     (let roundDif = sint (hiRound h - cpRound (finalCheckpoint (fork bfd)));
          nonceDif = sint (hiNonce h - cpNonce (finalCheckpoint (fork bfd)));
          hasStateReceived = (hiState h = BHReceived \<or> hiState h = BHReceivedTooLate)
      in hasStateReceived \<and> roundDif < nonceDif)"

text \<open>Both removal loops keep a filtered list under each nonce and delete the nonces left empty.\<close>

definition keepHeaders :: "(u64 \<Rightarrow> headerInfo \<Rightarrow> bool) \<Rightarrow> (u64 \<times> headerInfo list) list \<Rightarrow> (u64 \<times> headerInfo list) list" where
  "keepHeaders keep m = filter (\<lambda>(n, hs). hs \<noteq> []) (map (\<lambda>(n, hs). (n, filter (keep n) hs)) m)"

definition removeInvalidReceivedHeaders :: "baseForkDetector \<Rightarrow> baseForkDetector" where
  "removeInvalidReceivedHeaders bfd =
     bfd\<lparr>headers := keepHeaders (\<lambda>n h. \<not> isReceivedHeaderInvalid bfd h) (headers bfd)\<rparr>"

definition removeCheckpointsBehindNonce :: "u64 \<Rightarrow> baseForkDetector \<Rightarrow> baseForkDetector" where
  "removeCheckpointsBehindNonce n = setFork (\<lambda>f. f\<lparr>checkpoint := filter (\<lambda>cp. \<not> cpNonce cp < n) (checkpoint f)\<rparr>)"

definition removePastCheckpoints :: "baseForkDetector \<Rightarrow> baseForkDetector" where
  "removePastCheckpoints bfd = removeCheckpointsBehindNonce (GetHighestFinalBlockNonce bfd) bfd"

definition removePastOrInvalidRecords :: "baseForkDetector \<Rightarrow> baseForkDetector" where
  "removePastOrInvalidRecords bfd = removePastCheckpoints (removeInvalidReceivedHeaders (removePastHeaders bfd))"

definition removeCheckpointWithNonce :: "u64 \<Rightarrow> baseForkDetector \<Rightarrow> baseForkDetector" where
  "removeCheckpointWithNonce n = setFork (\<lambda>f. f\<lparr>checkpoint := filter (\<lambda>cp. cpNonce cp \<noteq> n) (checkpoint f)\<rparr>)"

definition cleanupReceivedHeadersHigherThanNonce :: "u64 \<Rightarrow> baseForkDetector \<Rightarrow> baseForkDetector" where
  "cleanupReceivedHeadersHigherThanNonce nonce bfd =
     bfd\<lparr>headers := filter (\<lambda>(n, hs). n \<le> nonce \<or> hs \<noteq> [])
       (map (\<lambda>(n, hs). (n, if n \<le> nonce then hs else filter (\<lambda>h. hiState h = BHNotarized) hs)) (headers bfd))\<rparr>"

subsection \<open>The probable highest nonce\<close>

definition computeProbableHighestNonce :: "baseForkDetector \<Rightarrow> u64" where
  "computeProbableHighestNonce bfd =
     foldl (\<lambda>p (n, hs). if n \<le> p then p else if list_ex hiHasProof hs then n else p)
       (GetHighestFinalBlockNonce bfd) (headers bfd)"

definition updateProbable :: "baseForkDetector \<Rightarrow> baseForkDetector" where
  "updateProbable bfd = setProbableHighestNonce (computeProbableHighestNonce bfd) bfd"

definition ResetProbableHighestNonce :: "baseForkDetector \<Rightarrow> baseForkDetector" where
  "ResetProbableHighestNonce bfd =
     updateProbable (cleanupReceivedHeadersHigherThanNonce (cpNonce (lastCheckpoint bfd)) bfd)"

definition ResetFork :: "forkEnv \<Rightarrow> baseForkDetector \<Rightarrow> baseForkDetector" where
  "ResetFork E bfd = setLastRoundWithForcedFork (roundIndex E) (ResetProbableHighestNonce bfd)"

definition GetNotarizedHeaderHash :: "u64 \<Rightarrow> baseForkDetector \<Rightarrow> bytes" where
  "GetNotarizedHeaderHash n bfd =
     (case filter (\<lambda>h. hiState h = BHNotarized) (headersAt (headers bfd) n) of [] \<Rightarrow> [] | h # _ \<Rightarrow> hiHash h)"

subsection \<open>Adding headers\<close>

definition adjustHeadersWithInfo :: "forkEnv \<Rightarrow> headerInfo \<Rightarrow> headerInfo list \<Rightarrow> headerInfo list" where
  "adjustHeadersWithInfo E hInfo hs =
     (if \<not> AndromedaFlag E (hiEpoch hInfo) then hs
      else if \<not> hiHasProof hInfo then hs
      else map (\<lambda>h. if hiHash h = hiHash hInfo then h\<lparr>hiHasProof := True\<rparr> else h) hs)"

definition appendHeader :: "forkEnv \<Rightarrow> headerInfo \<Rightarrow> baseForkDetector \<Rightarrow> bool \<times> baseForkDetector" where
  "appendHeader E hInfo bfd =
     (let hs = headersAt (headers bfd) (hiNonce hInfo)
      in if hs = [] then (True, bfd\<lparr>headers := AList.update (hiNonce hInfo) [hInfo] (headers bfd)\<rparr>)
         else
           let hs' = adjustHeadersWithInfo E hInfo hs
           in if list_ex (\<lambda>h. hiHash h = hiHash hInfo \<and> hiState h = hiState hInfo \<and> hiHasProof h = hiHasProof hInfo) hs'
              then (False, bfd\<lparr>headers := AList.update (hiNonce hInfo) hs' (headers bfd)\<rparr>)
              else (True, bfd\<lparr>headers := AList.update (hiNonce hInfo) (hs' @ [hInfo]) (headers bfd)\<rparr>))"

definition AddHeaderToBlackList :: "forkEnv \<Rightarrow> bytes \<Rightarrow> baseForkDetector \<Rightarrow> baseForkDetector" where
  "AddHeaderToBlackList E h bfd = bfd\<lparr>blackList := h # sweep E (blackList bfd)\<rparr>"

definition computeGenesisTimeFromHeader :: "forkEnv \<Rightarrow> baseForkDetector \<Rightarrow> header \<Rightarrow> u64" where
  "computeGenesisTimeFromHeader E bfd h = GetTimeStamp h - (GetRound h - genesisRound bfd) * roundSeconds E"

text \<open>The check may blacklist the header, so it returns the detector too.\<close>

definition checkBlockBasicValidity :: "forkEnv \<Rightarrow> header option \<Rightarrow> bytes option \<Rightarrow> baseForkDetector \<Rightarrow>
    fork_error option \<times> baseForkDetector" where
  "checkBlockBasicValidity E ho hasho bfd = (case ho of
     None \<Rightarrow> (Some ErrNilHeader, bfd)
   | Some h \<Rightarrow> (case hasho of
       None \<Rightarrow> (Some ErrNilHash, bfd)
     | Some hash \<Rightarrow>
         (let roundDif = sint (GetRound h - cpRound (finalCheckpoint (fork bfd)));
              nonceDif = sint (GetNonce h - cpNonce (finalCheckpoint (fork bfd)));
              swept = bfd\<lparr>blackList := sweep E (blackList bfd)\<rparr>
          in if GetPrevHash h \<in> set (blackList swept) then (Some ErrHeaderIsBlackListed, AddHeaderToBlackList E hash swept)
             else if computeGenesisTimeFromHeader E bfd h \<noteq> genesisTime bfd
               then (Some ErrGenesisTimeMissmatch, AddHeaderToBlackList E hash swept)
             else if roundDif < 0 then (Some ErrLowerRoundInBlock, swept)
             else if nonceDif < 0 then (Some ErrLowerNonceInBlock, swept)
             else if sint (GetRound h) > sint (roundIndex E + 1) then (Some ErrHigherRoundInBlock, swept)
             else if roundDif < nonceDif then (Some ErrHigherNonceInBlock, swept)
             else (None, swept))))"

definition IsProofsFlagEnabledForHeader :: "forkEnv \<Rightarrow> header \<Rightarrow> bool" where
  "IsProofsFlagEnabledForHeader E h = (AndromedaFlag E (GetEpoch h) \<and> GetNonce h \<noteq> 0)"

definition IsEpochChangeBlockForFlagActivation :: "forkEnv \<Rightarrow> header \<Rightarrow> bool" where
  "IsEpochChangeBlockForFlagActivation E h = (IsStartOfEpochBlock h \<and> GetEpoch h = andromedaActivationEpoch E)"

definition IsFlagEnabledAfterEpochsStartBlock :: "forkEnv \<Rightarrow> header \<Rightarrow> bool" where
  "IsFlagEnabledAfterEpochsStartBlock E h = (AndromedaFlag E (GetEpoch h) \<and> \<not> IsEpochChangeBlockForFlagActivation E h)"

definition isHeaderReceivedTooLate :: "forkEnv \<Rightarrow> header \<Rightarrow> blockHeaderState \<Rightarrow> bool" where
  "isHeaderReceivedTooLate E h state =
     (if state = BHProcessed then False else sint (GetRound h) < sint (roundIndex E - BlockFinality))"

type_synonym job = "header \<Rightarrow> bytes \<Rightarrow> (header \<times> bytes) list \<Rightarrow> baseForkDetector \<Rightarrow> baseForkDetector"

definition processReceivedBlock :: "forkEnv \<Rightarrow> job \<Rightarrow> header \<Rightarrow> bytes \<Rightarrow> blockHeaderState \<Rightarrow> (header \<times> bytes) list \<Rightarrow>
    baseForkDetector \<Rightarrow> baseForkDetector" where
  "processReceivedBlock E doJob h hash state0 selfNotarized bfd0 =
     (let hasProof = (if IsProofsFlagEnabledForHeader E h then HasProof E (GetShardID h) hash else True);
          bfd = setHighestNonceReceived (GetNonce h) bfd0
      in if state0 = BHProposed \<or> \<not> hasProof then bfd
         else
           let state = (if isHeaderReceivedTooLate E h state0 then BHReceivedTooLate else state0);
               hInfo = \<lparr>hiEpoch = GetEpoch h, hiNonce = GetNonce h, hiRound = GetRound h, hiHash = hash,
                        hiState = state, hiHasProof = hasProof\<rparr>;
               (appended, bfd') = appendHeader E hInfo bfd
           in if \<not> appended then bfd'
              else updateProbable (if state = BHProcessed then doJob h hash selfNotarized bfd' else bfd'))"

definition addHeader :: "forkEnv \<Rightarrow> job \<Rightarrow> header option \<Rightarrow> bytes option \<Rightarrow> blockHeaderState \<Rightarrow> (header \<times> bytes) list \<Rightarrow>
    baseForkDetector \<Rightarrow> fork_error option \<times> baseForkDetector" where
  "addHeader E doJob ho hasho state selfNotarized bfd =
     (case checkBlockBasicValidity E ho hasho bfd of
        (Some e, bfd') \<Rightarrow> (Some e, bfd')
      | (None, bfd') \<Rightarrow>
          (None, processReceivedBlock E doJob (the ho) (the hasho) state selfNotarized bfd'))"

definition processReceivedProof :: "forkEnv \<Rightarrow> u32 \<Rightarrow> u64 \<Rightarrow> u64 \<Rightarrow> bytes \<Rightarrow> baseForkDetector \<Rightarrow> baseForkDetector" where
  "processReceivedProof E epoch nonce round hash bfd =
     updateProbable (snd (appendHeader E \<lparr>hiEpoch = epoch, hiNonce = nonce, hiRound = round, hiHash = hash,
         hiState = BHReceived, hiHasProof = True\<rparr> (setHighestNonceReceived nonce bfd)))"

definition RemoveHeader :: "(baseForkDetector \<Rightarrow> baseForkDetector) \<Rightarrow> u64 \<Rightarrow> bytes \<Rightarrow> baseForkDetector \<Rightarrow> baseForkDetector" where
  "RemoveHeader computeFinal nonce hash bfd =
     (if nonce \<le> GetHighestFinalBlockNonce bfd then bfd
      else
        let bfd1 = removeCheckpointWithNonce nonce bfd;
            preserved = filter (\<lambda>h. \<not> (hiState h \<noteq> BHNotarized \<and> hash = hiHash h)) (headersAt (headers bfd1) nonce);
            bfd2 = bfd1\<lparr>headers := (if preserved = [] then AList.delete nonce (headers bfd1)
                       else AList.update nonce preserved (headers bfd1))\<rparr>
        in updateProbable (computeFinal bfd2))"

subsection \<open>Detecting forks\<close>

record forkResult =
  IsDetected :: bool
  frNonce :: u64
  frRound :: u64
  frHash :: bytes

definition NewForkInfo :: forkResult where
  "NewForkInfo = \<lparr>IsDetected = False, frNonce = MaxUint64, frRound = MaxUint64, frHash = []\<rparr>"

definition isSyncing :: "baseForkDetector \<Rightarrow> bool" where
  "isSyncing bfd = (sint (probableHighestNonce (fork bfd) - cpNonce (lastCheckpoint bfd)) > NonceDifferenceWhenSynced)"

text \<open>Go's \<open>%\<close> keeps the sign of the dividend; for the test against zero this is divisibility.\<close>

definition IsInProperRound :: "u64 \<Rightarrow> bool" where
  "IsInProperRound i = (sint i mod RoundModulusTrigger = 0)"

definition isConsensusStuck :: "forkEnv \<Rightarrow> baseForkDetector \<Rightarrow> bool" where
  "isConsensusStuck E bfd =
     (if lastRoundWithForcedFork (fork bfd) = roundIndex E then False
      else if isSyncing bfd then False
      else if sint (roundIndex E - cpRound (lastCheckpoint bfd)) \<le> MaxRoundsWithoutCommittedBlock then False
      else if \<not> IsInProperRound (roundIndex E) then False
      else True)"

definition getMaxEpochFromHdrsInfo :: "headerInfo list \<Rightarrow> u32" where
  "getMaxEpochFromHdrsInfo hs = foldl (\<lambda>m h. if hiEpoch h > m then hiEpoch h else m) 0 hs"

type_synonym best = "bytes \<times> u64 \<times> u32"

definition computeForkInfo :: "u64 \<Rightarrow> u32 \<Rightarrow> headerInfo \<Rightarrow> best \<Rightarrow> best" where
  "computeForkInfo highestReceived maxEpoch h b = (case b of (lastForkHash, lastForkRound, lastForkEpoch) \<Rightarrow>
     if hiState h = BHReceivedTooLate \<and> highestReceived > hiNonce h then b
     else if hiState h \<noteq> BHNotarized \<and> hiEpoch h < maxEpoch then b
     else
       let currentForkRound = (if hiState h = BHNotarized then MinForkRound else hiRound h)
       in if currentForkRound < lastForkRound then (hiHash h, currentForkRound, hiEpoch h)
          else if currentForkRound = lastForkRound \<and> hiHash h < lastForkHash then (hiHash h, currentForkRound, hiEpoch h)
          else b)"

definition shouldSignalFork :: "u64 \<Rightarrow> headerInfo \<Rightarrow> best \<Rightarrow> bool" where
  "shouldSignalFork highestReceived h b = (case b of (lastForkHash, lastForkRound, lastForkEpoch) \<Rightarrow>
     if hiHash h = lastForkHash then False
     else if lastForkRound \<noteq> MinForkRound \<and> hiEpoch h > lastForkEpoch then False
     else if lastForkRound \<noteq> MinForkRound \<and> hiEpoch h < lastForkEpoch then True
     else
       let higherHashForSameRound = (hiRound h = lastForkRound \<and> hiHash h > lastForkHash);
           higherNonceReceived = (highestReceived > hiNonce h)
       in hiRound h > lastForkRound \<or> (higherHashForSameRound \<and> \<not> higherNonceReceived))"

text \<open>The inner loop of \<open>CheckFork\<close>: the last processed header and the best other header of a nonce.\<close>

fun scanHeaders :: "u64 \<Rightarrow> u32 \<Rightarrow> headerInfo list \<Rightarrow> headerInfo option \<times> best \<Rightarrow> headerInfo option \<times> best" where
  "scanHeaders highestReceived maxEpoch [] acc = acc"
| "scanHeaders highestReceived maxEpoch (h # hs) (self, b) =
     (if hiState h = BHProcessed then scanHeaders highestReceived maxEpoch hs (Some h, b)
      else scanHeaders highestReceived maxEpoch hs (self, computeForkInfo highestReceived maxEpoch h b))"

text \<open>What one nonce signals: the fork to switch to, if any.\<close>

definition forkAt :: "u64 \<Rightarrow> u64 \<Rightarrow> u64 \<Rightarrow> headerInfo list \<Rightarrow> best option" where
  "forkAt highestReceived finalNonce nonce hs =
     (if length hs = 1 then None
      else if nonce \<le> finalNonce then None
      else case scanHeaders highestReceived (getMaxEpochFromHdrsInfo hs) hs (None, [], MaxUint64, 0) of
        (None, b) \<Rightarrow> None
      | (Some self, b) \<Rightarrow> if shouldSignalFork highestReceived self b then Some b else None)"

fun checkForkLoop :: "u64 \<Rightarrow> u64 \<Rightarrow> (u64 \<times> headerInfo list) list \<Rightarrow> forkResult \<Rightarrow> forkResult" where
  "checkForkLoop highestReceived finalNonce [] r = r"
| "checkForkLoop highestReceived finalNonce ((n, hs) # m) r =
     checkForkLoop highestReceived finalNonce m (case forkAt highestReceived finalNonce n hs of
        None \<Rightarrow> r
      | Some (h, rd, ep) \<Rightarrow>
          if n < frNonce r then r\<lparr>IsDetected := True, frNonce := n, frRound := rd, frHash := h\<rparr>
          else r\<lparr>IsDetected := True\<rparr>)"

text \<open>The field \<open>maxForkHeaderEpoch\<close> is scratch space of the loop, written for each examined nonce before it is read.\<close>

definition lastScannedEpoch :: "u64 \<Rightarrow> (u64 \<times> headerInfo list) list \<Rightarrow> u32 \<Rightarrow> u32" where
  "lastScannedEpoch finalNonce m e0 =
     foldl (\<lambda>e (n, hs). if length hs = 1 \<or> n \<le> finalNonce then e else getMaxEpochFromHdrsInfo hs) e0 m"

definition CheckFork :: "forkEnv \<Rightarrow> baseForkDetector \<Rightarrow> forkResult \<times> baseForkDetector" where
  "CheckFork E bfd =
     (if isConsensusStuck E bfd then (NewForkInfo\<lparr>IsDetected := True\<rparr>, bfd)
      else if rollBackNonce (fork bfd) < MaxUint64 then
        (NewForkInfo\<lparr>IsDetected := True, frNonce := rollBackNonce (fork bfd)\<rparr>, SetRollBackNonce MaxUint64 bfd)
      else
        let finalNonce = GetHighestFinalBlockNonce bfd; highest = highestNonceReceived (fork bfd)
        in (checkForkLoop highest finalNonce (headers bfd) NewForkInfo,
            bfd\<lparr>maxForkHeaderEpoch := lastScannedEpoch finalNonce (headers bfd) (maxForkHeaderEpoch bfd)\<rparr>))"

subsection \<open>The metachain detector\<close>

text \<open>Both constructors start from the genesis header; \<open>lastRoundWithForcedFork\<close> has its zero value.\<close>

definition newForkDetector :: "u64 \<Rightarrow> u64 \<Rightarrow> u64 \<Rightarrow> baseForkDetector" where
  "newForkDetector gTime gNonce gRound =
     (let cp = \<lparr>cpNonce = gNonce, cpRound = gRound, cpHash = []\<rparr>
      in \<lparr>headers = [], fork = \<lparr>checkpoint = [cp], finalCheckpoint = cp, probableHighestNonce = gNonce,
            highestNonceReceived = gNonce, rollBackNonce = MaxUint64, lastRoundWithForcedFork = 0\<rparr>,
          blackList = [], genesisTime = gTime, genesisNonce = gNonce, genesisRound = gRound, maxForkHeaderEpoch = 0\<rparr>)"

definition NewMetaForkDetector :: "u64 \<Rightarrow> u64 \<Rightarrow> u64 \<Rightarrow> baseForkDetector" where
  "NewMetaForkDetector gTime gNonce gRound = newForkDetector gTime gNonce gRound"

definition metaDoJob :: "forkEnv \<Rightarrow> job" where
  "metaDoJob E h hash selfNotarized bfd =
     (let bfd1 = setFinalCheckpoint (lastCheckpoint bfd) bfd;
          cp = \<lparr>cpNonce = GetNonce h, cpRound = GetRound h, cpHash = hash\<rparr>;
          bfd2 = addCheckpoint cp bfd1;
          bfd3 = (if IsProofsFlagEnabledForHeader E h then setFinalCheckpoint cp bfd2 else bfd2)
      in removePastOrInvalidRecords bfd3)"

definition metaComputeFinalCheckpoint :: "baseForkDetector \<Rightarrow> baseForkDetector" where
  "metaComputeFinalCheckpoint bfd = bfd"

definition metaAddHeader :: "forkEnv \<Rightarrow> header option \<Rightarrow> bytes option \<Rightarrow> blockHeaderState \<Rightarrow> (header \<times> bytes) list \<Rightarrow>
    baseForkDetector \<Rightarrow> fork_error option \<times> baseForkDetector" where
  "metaAddHeader E ho hasho state selfNotarized bfd = addHeader E (metaDoJob E) ho hasho state selfNotarized bfd"

subsection \<open>The shard detector\<close>

definition NewShardForkDetector :: "u64 \<Rightarrow> u64 \<Rightarrow> u64 \<Rightarrow> baseForkDetector" where
  "NewShardForkDetector gTime gNonce gRound = newForkDetector gTime gNonce gRound"

definition lastOfState :: "blockHeaderState \<Rightarrow> headerInfo list \<Rightarrow> headerInfo option" where
  "lastOfState st hs = foldl (\<lambda>r h. if hiState h = st then Some h else r) None hs"

text \<open>The headers the two indexes of the source point at.\<close>

definition getProcessedAndNotarizedIndexes :: "headerInfo list \<Rightarrow> headerInfo option \<times> headerInfo option" where
  "getProcessedAndNotarizedIndexes hs = (lastOfState BHProcessed hs, lastOfState BHNotarized hs)"

definition finalAt :: "u64 \<Rightarrow> headerInfo list \<Rightarrow> checkpointInfo option" where
  "finalAt nonce hs = (case getProcessedAndNotarizedIndexes hs of
     (Some p, Some n) \<Rightarrow>
       if hiHash n = hiHash p then Some \<lparr>cpNonce = nonce, cpRound = hiRound n, cpHash = hiHash n\<rparr> else None
   | _ \<Rightarrow> None)"

text \<open>The accumulator is \<open>None\<close> until the checkpoint was set; its nonce is zero then.\<close>

definition finalStep :: "checkpointInfo option \<Rightarrow> u64 \<times> headerInfo list \<Rightarrow> checkpointInfo option" where
  "finalStep acc p =
     (if (case acc of None \<Rightarrow> 0 | Some cp \<Rightarrow> cpNonce cp) \<ge> fst p then acc
      else case finalAt (fst p) (snd p) of None \<Rightarrow> acc | Some cp \<Rightarrow> Some cp)"

definition shardComputeFinalCheckpoint :: "baseForkDetector \<Rightarrow> baseForkDetector" where
  "shardComputeFinalCheckpoint bfd = (case foldl finalStep None (headers bfd) of
     None \<Rightarrow> bfd
   | Some cp \<Rightarrow> setFinalCheckpoint cp bfd)"

fun appendSelfNotarizedLoop :: "forkEnv \<Rightarrow> u64 \<Rightarrow> (header \<times> bytes) list \<Rightarrow> bool \<times> baseForkDetector \<Rightarrow> bool \<times> baseForkDetector" where
  "appendSelfNotarizedLoop E finalNonce [] acc = acc"
| "appendSelfNotarizedLoop E finalNonce ((h, hash) # hs) (added, bfd) =
     (if GetNonce h \<le> finalNonce then appendSelfNotarizedLoop E finalNonce hs (added, bfd)
      else
        let (appended, bfd') = appendHeader E \<lparr>hiEpoch = 0, hiNonce = GetNonce h, hiRound = GetRound h, hiHash = hash,
              hiState = BHNotarized, hiHasProof = HasProof E (GetShardID h) hash\<rparr> bfd
        in appendSelfNotarizedLoop E finalNonce hs (added \<or> appended, bfd'))"

definition appendSelfNotarizedHeaders :: "forkEnv \<Rightarrow> (header \<times> bytes) list \<Rightarrow> baseForkDetector \<Rightarrow> bool \<times> baseForkDetector" where
  "appendSelfNotarizedHeaders E hs bfd = appendSelfNotarizedLoop E (GetHighestFinalBlockNonce bfd) hs (False, bfd)"

definition shardDoJob :: "forkEnv \<Rightarrow> job" where
  "shardDoJob E h hash selfNotarized bfd =
     (let bfd1 = shardComputeFinalCheckpoint (snd (appendSelfNotarizedHeaders E selfNotarized bfd));
          cp = \<lparr>cpNonce = GetNonce h, cpRound = GetRound h, cpHash = hash\<rparr>;
          bfd2 = addCheckpoint cp bfd1;
          bfd3 = (if IsFlagEnabledAfterEpochsStartBlock E h then setFinalCheckpoint cp bfd2 else bfd2)
      in removePastOrInvalidRecords bfd3)"

definition shardAddHeader :: "forkEnv \<Rightarrow> header option \<Rightarrow> bytes option \<Rightarrow> blockHeaderState \<Rightarrow> (header \<times> bytes) list \<Rightarrow>
    baseForkDetector \<Rightarrow> fork_error option \<times> baseForkDetector" where
  "shardAddHeader E ho hasho state selfNotarized bfd = addHeader E (shardDoJob E) ho hasho state selfNotarized bfd"

definition ReceivedSelfNotarizedFromCrossHeaders :: "forkEnv \<Rightarrow> bool \<Rightarrow> (header \<times> bytes) list \<Rightarrow> baseForkDetector \<Rightarrow> baseForkDetector" where
  "ReceivedSelfNotarizedFromCrossHeaders E fromMeta hs bfd =
     (if \<not> fromMeta then bfd
      else
        let (appended, bfd') = appendSelfNotarizedHeaders E hs bfd
        in if appended then shardComputeFinalCheckpoint bfd' else bfd')"

end
