(* ===== verification/Fork_Theorems.thy ===== *)
theory Fork_Theorems
  imports Fork_Detector
begin

text \<open>
  Properties of the fork detectors: what \<open>CheckFork\<close>, the probable highest nonce and the final checkpoint of
  a shard compute from the map of headers, in terms that do not mention the order in which the map is
  visited; and that the final block of the metachain detector never moves back.
\<close>

subsection \<open>Loops over the map of headers\<close>

lemma Max_absorb:
  fixes p :: "'a::linorder"
  shows "finite A \<Longrightarrow> Max (insert (max p n) A) = Max (insert p (insert n A))"
  by (cases "A = {}") (simp_all add: max.assoc)

lemma Min_absorb:
  fixes p :: "'a::linorder"
  shows "finite A \<Longrightarrow> Min (insert (min p n) A) = Min (insert p (insert n A))"
  by (cases "A = {}") (simp_all add: min.assoc)

text \<open>The forks the nonces signal, and the loop of \<open>CheckFork\<close> as a fold over them.\<close>

definition forkSignals :: "u64 \<Rightarrow> u64 \<Rightarrow> (u64 \<times> headerInfo list) list \<Rightarrow> (u64 \<times> best) list" where
  "forkSignals hr fn m = List.map_filter (\<lambda>(n, hs). map_option (Pair n) (forkAt hr fn n hs)) m"

definition forkStep :: "forkResult \<Rightarrow> u64 \<times> best \<Rightarrow> forkResult" where
  "forkStep r = (\<lambda>(n, h, rd, ep).
     if n < frNonce r then r\<lparr>IsDetected := True, frNonce := n, frRound := rd, frHash := h\<rparr> else r\<lparr>IsDetected := True\<rparr>)"

lemma set_forkSignals: "set (forkSignals hr fn m) = {(n, b). \<exists>hs. (n, hs) \<in> set m \<and> forkAt hr fn n hs = Some b}"
  by (induction m) (auto simp: forkSignals_def List.map_filter_simps split: option.splits)

lemma checkForkLoop_fold: "checkForkLoop hr fn m r = foldl forkStep r (forkSignals hr fn m)"
  by (induction hr fn m r rule: checkForkLoop.induct)
    (auto simp: forkSignals_def List.map_filter_simps forkStep_def split: option.splits)

lemma forkStep_fold:
  "IsDetected (foldl forkStep r ss) \<longleftrightarrow> IsDetected r \<or> ss \<noteq> []"
  "frNonce (foldl forkStep r ss) = Min (insert (frNonce r) (fst ` set ss))"
proof (induction ss arbitrary: r)
  case (Cons x ss)
  {
    case 1
    have "IsDetected (forkStep r x)" by (cases x) (simp add: forkStep_def)
    then show ?case by (simp add: Cons(1))
  next
    case 2
    have "frNonce (forkStep r x) = min (frNonce r) (fst x)" by (cases x) (auto simp: forkStep_def)
    then show ?case by (simp add: Cons(2) Min_absorb)
  }
qed auto

lemma forkStep_origin:
  "foldl forkStep r ss = res \<Longrightarrow>
   (frNonce res, frHash res, frRound res) = (frNonce r, frHash r, frRound r) \<or>
   (\<exists>ep. (frNonce res, frHash res, frRound res, ep) \<in> set ss)"
proof (induction ss arbitrary: r)
  case (Cons x ss)
  obtain n h rd ep where x: "x = (n, h, rd, ep)" by (cases x)
  from Cons.prems have "foldl forkStep (forkStep r x) ss = res" by simp
  from Cons.IH [OF this] show ?case
    by (auto simp: x forkStep_def split: if_splits)
qed simp

lemma probable_fold:
  "foldl (\<lambda>p (n, hs). if n \<le> p then p else if list_ex hiHasProof hs then n else p) p0 m =
     Max (insert p0 {n. \<exists>hs. (n, hs) \<in> set m \<and> list_ex hiHasProof hs})"
proof (induction m arbitrary: p0)
  case (Cons q m)
  obtain n hs where q: "q = (n, hs)" by (cases q)
  let ?A = "{n. \<exists>hs. (n, hs) \<in> set m \<and> list_ex hiHasProof hs}"
  have fin: "finite ?A"
    by (rule finite_subset [of _ "fst ` set m"]) (auto intro: rev_image_eqI)
  have "{k. \<exists>hs'. (k, hs') \<in> set (q # m) \<and> list_ex hiHasProof hs'} = (if list_ex hiHasProof hs then insert n ?A else ?A)"
    by (auto simp: q)
  moreover have "(if n \<le> p0 then p0 else if list_ex hiHasProof hs then n else p0) =
      (if list_ex hiHasProof hs then max p0 n else p0)" by (auto simp: max_def)
  ultimately show ?case
    using Cons [of "if list_ex hiHasProof hs then max p0 n else p0"] fin by (simp add: q Max_absorb)
qed simp

text \<open>The fold of the shard's final checkpoint keeps the candidate with the greatest nonce.\<close>

lemma finalAt_nonce: "finalAt n hs = Some cp \<Longrightarrow> cpNonce cp = n"
  by (auto simp: finalAt_def split: prod.splits option.splits if_splits)

lemma finalStep_origin: "finalStep acc (n, hs) = Some cp \<Longrightarrow> acc = Some cp \<or> finalAt n hs = Some cp \<and> n \<noteq> 0"
  by (auto simp: finalStep_def split: if_splits option.splits)

lemma finalStep_up:
  "0 < n \<Longrightarrow> finalAt n hs \<noteq> None \<Longrightarrow> \<exists>cp. finalStep acc (n, hs) = Some cp \<and> n \<le> cpNonce cp"
  "acc = Some a \<Longrightarrow> \<exists>cp. finalStep acc (n, hs) = Some cp \<and> cpNonce a \<le> cpNonce cp"
  by (auto simp: finalStep_def dest: finalAt_nonce split: option.splits)

lemma finalStep_fold:
  assumes "foldl finalStep acc m = res" "\<And>cp. acc = Some cp \<Longrightarrow> 0 < cpNonce cp"
  shows "(\<forall>cp. res = Some cp \<longrightarrow> 0 < cpNonce cp \<and> (acc = Some cp \<or> (\<exists>hs. (cpNonce cp, hs) \<in> set m \<and> finalAt (cpNonce cp) hs = Some cp)))
    \<and> (\<forall>n hs. (n, hs) \<in> set m \<and> 0 < n \<and> finalAt n hs \<noteq> None \<longrightarrow> (\<exists>cp. res = Some cp \<and> n \<le> cpNonce cp))
    \<and> (\<forall>a. acc = Some a \<longrightarrow> (\<exists>cp. res = Some cp \<and> cpNonce a \<le> cpNonce cp))"
  using assms
proof (induction m arbitrary: acc)
  case (Cons q m)
  obtain n hs where q: "q = (n, hs)" by (cases q)
  let ?acc = "finalStep acc (n, hs)"
  have pos: "0 < cpNonce cp" if "?acc = Some cp" for cp
    using finalStep_origin [OF that] Cons.prems(2) finalAt_nonce by (auto simp: word_gt_0)
  note IH = Cons.IH [of ?acc, OF _ pos]
  from Cons.prems(1) have r: "foldl finalStep ?acc m = res" by (simp add: q)
  note IHr = IH [OF r]
  show ?case
  proof (intro conjI allI impI)
    fix cp assume res: "res = Some cp"
    with IHr show "0 < cpNonce cp" by blast
    from IHr res consider "?acc = Some cp" | hs' where "(cpNonce cp, hs') \<in> set m" "finalAt (cpNonce cp) hs' = Some cp"
      by blast
    then show "acc = Some cp \<or> (\<exists>hs. (cpNonce cp, hs) \<in> set (q # m) \<and> finalAt (cpNonce cp) hs = Some cp)"
    proof cases
      case 1
      from finalStep_origin [OF this] show ?thesis by (auto simp: q dest: finalAt_nonce)
    next
      case (2 hs')
      then show ?thesis by auto
    qed
  next
    fix n' hs' assume n': "(n', hs') \<in> set (q # m) \<and> 0 < n' \<and> finalAt n' hs' \<noteq> None"
    show "\<exists>cp. res = Some cp \<and> n' \<le> cpNonce cp"
    proof (cases "(n', hs') = q")
      case True
      with n' finalStep_up(1) [of n hs acc] obtain cp where "?acc = Some cp" "n' \<le> cpNonce cp" by (auto simp: q)
      with IHr show ?thesis by (meson order_trans)
    next
      case False
      with n' have "(n', hs') \<in> set m \<and> 0 < n' \<and> finalAt n' hs' \<noteq> None" by auto
      with IHr show ?thesis by blast
    qed
  next
    fix a assume "acc = Some a"
    with finalStep_up(2) [of acc a n hs] obtain cp where "?acc = Some cp" "cpNonce a \<le> cpNonce cp" by blast
    with IHr show "\<exists>cp. res = Some cp \<and> cpNonce a \<le> cpNonce cp" by (meson order_trans)
  qed
qed auto

subsection \<open>The metachain's final block never moves back\<close>

text \<open>The final checkpoint is among the checkpoints and the lowest of them; nonces fit an \<open>int64\<close>.\<close>

definition meta_inv :: "baseForkDetector \<Rightarrow> bool" where
  "meta_inv bfd \<longleftrightarrow> finalCheckpoint (fork bfd) \<in> set (checkpoint (fork bfd)) \<and>
     (\<forall>cp \<in> set (checkpoint (fork bfd)). GetHighestFinalBlockNonce bfd \<le> cpNonce cp \<and> cpNonce cp < 2 ^ 63)"

text \<open>What an operation may do to the detector: keep the invariant and move the final block and the highest
  received nonce forward only.\<close>

definition advances :: "baseForkDetector \<Rightarrow> baseForkDetector \<Rightarrow> bool" where
  "advances bfd bfd' \<longleftrightarrow> (meta_inv bfd \<longrightarrow> meta_inv bfd' \<and> GetHighestFinalBlockNonce bfd \<le> GetHighestFinalBlockNonce bfd') \<and>
     highestNonceReceived (fork bfd) \<le> highestNonceReceived (fork bfd')"

lemma advances_trans: "advances a b \<Longrightarrow> advances b c \<Longrightarrow> advances a c"
  by (auto simp: advances_def)

lemma advancesI:
  "checkpoint (fork bfd') = checkpoint (fork bfd) \<Longrightarrow> finalCheckpoint (fork bfd') = finalCheckpoint (fork bfd) \<Longrightarrow>
   highestNonceReceived (fork bfd) \<le> highestNonceReceived (fork bfd') \<Longrightarrow> advances bfd bfd'"
  by (simp add: advances_def meta_inv_def GetHighestFinalBlockNonce_def)

lemmas fork_setters = setFork_def SetRollBackNonce_def setLastRoundWithForcedFork_def addCheckpoint_def setFinalCheckpoint_def
  setProbableHighestNonce_def updateProbable_def removeCheckpointsBehindNonce_def removeCheckpointWithNonce_def

lemma advances_simple:
  "advances bfd (SetRollBackNonce n bfd)" "advances bfd (setLastRoundWithForcedFork r bfd)" "advances bfd (updateProbable bfd)"
  "advances bfd (setHighestNonceReceived n bfd)" "advances bfd (cleanupReceivedHeadersHigherThanNonce n bfd)"
  "advances bfd (removePastHeaders bfd)" "advances bfd (removeInvalidReceivedHeaders bfd)"
  "advances bfd (bfd\<lparr>blackList := b\<rparr>)" "advances bfd (bfd\<lparr>headers := m\<rparr>)" "advances bfd (bfd\<lparr>maxForkHeaderEpoch := e\<rparr>)"
  "advances bfd bfd"
  by (rule advancesI; auto simp: fork_setters setHighestNonceReceived_def cleanupReceivedHeadersHigherThanNonce_def
      removePastHeaders_def removeInvalidReceivedHeaders_def)+

lemma advances_append: "advances bfd (snd (appendHeader E hInfo bfd))"
  by (rule advancesI) (auto simp: appendHeader_def Let_def)

lemma advances_ResetProbable: "advances bfd (ResetProbableHighestNonce bfd)"
  unfolding ResetProbableHighestNonce_def by (rule advances_trans [OF advances_simple(5) advances_simple(3)])

lemma signed_diff_nonneg:
  fixes a b :: u64
  assumes "a < 2 ^ 63" "b < 2 ^ 63" "0 \<le> sint (a - b)"
  shows "b \<le> a"
proof -
  have lt: "uint a < 2 ^ 63" "uint b < 2 ^ 63" using assms(1,2) by (simp_all add: word_less_def)
  have "sint (a - b) = signed_take_bit 63 (uint a - uint b)"
    by (simp add: sint_uint uint_word_ariths signed_take_bit_take_bit flip: take_bit_eq_mod [of 64, simplified])
  also have "\<dots> = uint a - uint b"
    by (rule signed_take_bit_int_eq_self)
      (use lt unsigned_greater_eq [where 'a = int, of a] unsigned_greater_eq [where 'a = int, of b] in linarith)+
  finally show ?thesis using assms(3) by (simp add: word_le_def)
qed

lemma removePast_checkpoints:
  "checkpoint (fork (removePastOrInvalidRecords bfd)) =
     filter (\<lambda>cp. \<not> cpNonce cp < GetHighestFinalBlockNonce bfd) (checkpoint (fork bfd))"
  "finalCheckpoint (fork (removePastOrInvalidRecords bfd)) = finalCheckpoint (fork bfd)"
  "highestNonceReceived (fork (removePastOrInvalidRecords bfd)) = highestNonceReceived (fork bfd)"
  by (simp_all add: removePastOrInvalidRecords_def removePastCheckpoints_def removeInvalidReceivedHeaders_def
      removePastHeaders_def fork_setters GetHighestFinalBlockNonce_def)

lemma metaDoJob_advances:
  assumes "GetNonce h < 2 ^ 63" "meta_inv bfd \<Longrightarrow> GetHighestFinalBlockNonce bfd \<le> GetNonce h"
  shows "advances bfd (metaDoJob E h hash sn bfd)"
proof -
  let ?cps = "checkpoint (fork bfd)" and ?cp = "\<lparr>cpNonce = GetNonce h, cpRound = GetRound h, cpHash = hash\<rparr>"
  define fin where "fin = (if IsProofsFlagEnabledForHeader E h then ?cp else lastCheckpoint bfd)"
  let ?bfd' = "metaDoJob E h hash sn bfd"
  have res: "checkpoint (fork ?bfd') = filter (\<lambda>cp. \<not> cpNonce cp < cpNonce fin) (?cps @ [?cp])"
      "finalCheckpoint (fork ?bfd') = fin" "highestNonceReceived (fork ?bfd') = highestNonceReceived (fork bfd)"
    by (simp_all add: metaDoJob_def Let_def removePast_checkpoints fork_setters GetHighestFinalBlockNonce_def fin_def)
  have "meta_inv ?bfd' \<and> GetHighestFinalBlockNonce bfd \<le> GetHighestFinalBlockNonce ?bfd'" if inv: "meta_inv bfd"
  proof -
    from inv have ne: "?cps \<noteq> []" by (auto simp: meta_inv_def)
    then have last: "lastCheckpoint bfd \<in> set ?cps" by (simp add: lastCheckpoint_def)
    then have "fin \<in> set (?cps @ [?cp])" by (simp add: fin_def)
    moreover have "GetHighestFinalBlockNonce bfd \<le> cpNonce fin"
      using inv last assms(2) by (auto simp: fin_def meta_inv_def)
    ultimately show ?thesis
      using inv assms(1) unfolding meta_inv_def res GetHighestFinalBlockNonce_def by auto
  qed
  with res(3) show ?thesis by (simp add: advances_def)
qed

lemma validity_advances:
  assumes "checkBlockBasicValidity E ho hasho bfd = (err, bfd')"
  shows "advances bfd bfd'" "err = None \<Longrightarrow> \<exists>h hash. ho = Some h \<and> hasho = Some hash \<and>
      0 \<le> sint (GetNonce h - GetHighestFinalBlockNonce bfd) \<and> fork bfd' = fork bfd"
  using assms
  by (auto simp: checkBlockBasicValidity_def Let_def AddHeaderToBlackList_def GetHighestFinalBlockNonce_def
      intro!: advances_simple split: option.splits if_splits)

lemma processReceivedBlock_advances:
  assumes "\<And>b. GetHighestFinalBlockNonce b = GetHighestFinalBlockNonce bfd \<Longrightarrow> meta_inv b = meta_inv bfd \<Longrightarrow>
    advances b (doJob h hash sn b)"
  shows "advances bfd (processReceivedBlock E doJob h hash st sn bfd)"
proof -
  let ?b = "setHighestNonceReceived (GetNonce h) bfd"
  have b: "advances bfd ?b" by (rule advances_simple)
  have job: "advances bfd (updateProbable (if c then doJob h hash sn b' else b'))"
    if b': "b' = snd (appendHeader E hi ?b)" for c hi b'
  proof -
    have frame: "checkpoint (fork b') = checkpoint (fork bfd)" "finalCheckpoint (fork b') = finalCheckpoint (fork bfd)"
      by (auto simp: b' appendHeader_def Let_def setHighestNonceReceived_def fork_setters)
    then have "advances b' (doJob h hash sn b')"
      by (intro assms) (simp_all add: GetHighestFinalBlockNonce_def meta_inv_def)
    moreover have "advances bfd b'" unfolding b' using b advances_append by (rule advances_trans)
    ultimately have "advances bfd (if c then doJob h hash sn b' else b')" by (auto intro: advances_trans)
    then show ?thesis by (rule advances_trans) (rule advances_simple)
  qed
  have app: "advances bfd (snd (appendHeader E hi ?b))" for hi
    using b advances_append by (rule advances_trans)
  show ?thesis
    unfolding processReceivedBlock_def Let_def
    using b app job by (auto split: prod.splits simp del: if_split) (metis snd_conv)+
qed

lemma metaAddHeader_advances:
  assumes "\<And>h. ho = Some h \<Longrightarrow> GetNonce h < 2 ^ 63"
  shows "advances bfd (snd (metaAddHeader E ho hasho st sn bfd))"
proof (cases "checkBlockBasicValidity E ho hasho bfd")
  case (Pair err bfd1)
  note v = validity_advances [OF Pair]
  show ?thesis
  proof (cases err)
    case (Some e)
    with v(1) Pair show ?thesis by (simp add: metaAddHeader_def addHeader_def)
  next
    case None
    from v(2) [OF None] obtain h hash where h: "ho = Some h" "hasho = Some hash"
        "0 \<le> sint (GetNonce h - GetHighestFinalBlockNonce bfd)" "fork bfd1 = fork bfd" by blast
    have n: "GetNonce h < 2 ^ 63" using assms h(1) by simp
    have fin: "GetHighestFinalBlockNonce bfd1 = GetHighestFinalBlockNonce bfd"
      using h(4) by (simp add: GetHighestFinalBlockNonce_def)
    have "advances bfd1 (processReceivedBlock E (metaDoJob E) h hash st sn bfd1)"
    proof (rule processReceivedBlock_advances, rule metaDoJob_advances [OF n])
      fix b assume b: "GetHighestFinalBlockNonce b = GetHighestFinalBlockNonce bfd1" "meta_inv b"
      then have "GetHighestFinalBlockNonce b < 2 ^ 63" by (auto simp: meta_inv_def GetHighestFinalBlockNonce_def)
      with n h(3) b(1) fin show "GetHighestFinalBlockNonce b \<le> GetNonce h" by (intro signed_diff_nonneg) simp_all
    qed
    with v(1) have "advances bfd (processReceivedBlock E (metaDoJob E) h hash st sn bfd1)" by (rule advances_trans)
    then show ?thesis using Pair None h by (simp add: metaAddHeader_def addHeader_def)
  qed
qed

lemma RemoveHeader_advances: "advances bfd (RemoveHeader metaComputeFinalCheckpoint n hash bfd)"
proof (cases "n \<le> GetHighestFinalBlockNonce bfd")
  case True
  then show ?thesis by (simp add: RemoveHeader_def advances_simple)
next
  case False
  let ?b = "RemoveHeader metaComputeFinalCheckpoint n hash bfd"
  have "checkpoint (fork ?b) = filter (\<lambda>cp. cpNonce cp \<noteq> n) (checkpoint (fork bfd))"
      "finalCheckpoint (fork ?b) = finalCheckpoint (fork bfd)" "highestNonceReceived (fork ?b) = highestNonceReceived (fork bfd)"
    using False by (simp_all add: RemoveHeader_def Let_def metaComputeFinalCheckpoint_def fork_setters)
  then show ?thesis using False by (auto simp: advances_def meta_inv_def GetHighestFinalBlockNonce_def)
qed

lemma CheckFork_advances: "advances bfd (snd (CheckFork E bfd))"
  by (simp add: CheckFork_def Let_def advances_simple)

lemma ResetFork_advances: "advances bfd (ResetFork E bfd)"
  unfolding ResetFork_def by (rule advances_trans [OF advances_ResetProbable advances_simple(2)])

lemma processReceivedProof_advances: "advances bfd (processReceivedProof E ep n rd hash bfd)"
  unfolding processReceivedProof_def
  by (rule advances_trans [OF advances_trans [OF advances_simple(4) advances_append] advances_simple(3)])

text \<open>The calls other components make on the metachain detector, each in its own environment.\<close>

datatype fork_call =
    CallAddHeader forkEnv header bytes blockHeaderState
  | CallReceivedProof forkEnv u32 u64 u64 bytes
  | CallRemoveHeader u64 bytes
  | CallResetFork forkEnv
  | CallResetProbable
  | CallSetRollBack u64
  | CallCheckFork forkEnv

primrec meta_call :: "baseForkDetector \<Rightarrow> fork_call \<Rightarrow> baseForkDetector" where
  "meta_call bfd (CallAddHeader E h hash st) = snd (metaAddHeader E (Some h) (Some hash) st [] bfd)"
| "meta_call bfd (CallReceivedProof E ep n rd hash) = processReceivedProof E ep n rd hash bfd"
| "meta_call bfd (CallRemoveHeader n hash) = RemoveHeader metaComputeFinalCheckpoint n hash bfd"
| "meta_call bfd (CallResetFork E) = ResetFork E bfd"
| "meta_call bfd CallResetProbable = ResetProbableHighestNonce bfd"
| "meta_call bfd (CallSetRollBack n) = SetRollBackNonce n bfd"
| "meta_call bfd (CallCheckFork E) = snd (CheckFork E bfd)"

primrec int64_nonce :: "fork_call \<Rightarrow> bool" where
  "int64_nonce (CallAddHeader E h hash st) = (GetNonce h < 2 ^ 63)"
| "int64_nonce (CallReceivedProof E ep n rd hash) = True"
| "int64_nonce (CallRemoveHeader n hash) = True"
| "int64_nonce (CallResetFork E) = True"
| "int64_nonce CallResetProbable = True"
| "int64_nonce (CallSetRollBack n) = True"
| "int64_nonce (CallCheckFork E) = True"

lemma meta_call_advances: "int64_nonce c \<Longrightarrow> advances bfd (meta_call bfd c)"
  by (cases c) (auto intro!: metaAddHeader_advances processReceivedProof_advances RemoveHeader_advances ResetFork_advances
      advances_ResetProbable advances_simple CheckFork_advances)

lemma meta_calls_advance: "list_all int64_nonce cs \<Longrightarrow> advances bfd (foldl meta_call bfd cs)"
  by (induction cs arbitrary: bfd) (auto intro: advances_simple advances_trans [OF meta_call_advances])

lemma meta_inv_new: "gNonce < 2 ^ 63 \<Longrightarrow> meta_inv (NewMetaForkDetector gTime gNonce gRound)"
  by (simp add: meta_inv_def NewMetaForkDetector_def newForkDetector_def GetHighestFinalBlockNonce_def Let_def)

subsection \<open>Properties\<close>


definition witness_env :: forkEnv where
  "witness_env = \<lparr>roundIndex = 3, roundSeconds = 6, AndromedaFlag = (\<lambda>e. False), andromedaActivationEpoch = 9,
     HasProof = (\<lambda>s h. False), sweep = (\<lambda>l. l)\<rparr>"

definition witness_header :: "u64 \<Rightarrow> header" where
  "witness_header n = \<lparr>GetEpoch = 0, GetNonce = n, GetRound = n, GetTimeStamp = n * 6, GetPrevHash = [], GetShardID = 7,
     IsStartOfEpochBlock = False\<rparr>"

definition witness_calls :: "fork_call list" where
  "witness_calls = [CallAddHeader witness_env (witness_header 1) [1] BHProcessed,
     CallAddHeader witness_env (witness_header 2) [2] BHProcessed]"



definition witness_fork :: baseForkDetector where
  "witness_fork = (NewMetaForkDetector 0 0 0)\<lparr>headers :=
     [(2, [\<lparr>hiEpoch = 0, hiNonce = 2, hiRound = 4, hiHash = [4], hiState = BHProcessed, hiHasProof = True\<rparr>,
           \<lparr>hiEpoch = 0, hiNonce = 2, hiRound = 3, hiHash = [3], hiState = BHReceived, hiHasProof = True\<rparr>])]\<rparr>"



definition witness_notarized :: baseForkDetector where
  "witness_notarized = (NewShardForkDetector 0 0 0)\<lparr>headers :=
     [(1, [\<lparr>hiEpoch = 0, hiNonce = 1, hiRound = 1, hiHash = [3], hiState = BHProcessed, hiHasProof = True\<rparr>,
           \<lparr>hiEpoch = 0, hiNonce = 1, hiRound = 1, hiHash = [3], hiState = BHNotarized, hiHasProof = True\<rparr>])]\<rparr>"


text \<open>The probable highest nonce is the maximum of the final nonce and the nonces at which some header
  has a proof, and it never drops below the final nonce, in whatever order the map is visited.\<close>

theorem probable_highest_nonce_is_max:
  "computeProbableHighestNonce bfd =
     Max (insert (GetHighestFinalBlockNonce bfd) {n. \<exists>hs. (n, hs) \<in> set (headers bfd) \<and> list_ex hiHasProof hs})"
  unfolding computeProbableHighestNonce_def by (rule probable_fold)

end
