(* ===== verification/Peer_Mapper.thy ===== *)
theory Peer_Mapper
  imports Go_Prelude
begin

text \<open>
  The peer id queue of \<open>common/pidQueue.go\<close> and its client, the peer shard mapper of
  \<open>sharding/networksharding/peerShardMapper.go\<close>. Locks are dropped (every operation is a critical
  section). A cache is a map; a bounded cache may also drop entries, which \<open>Peer_Theorems\<close> adds as steps of
  their own. The type assertions of the source on values read from its own caches always succeed: the
  caches are typed here.
\<close>

type_synonym pid = bytes

subsection \<open>The queue of peer ids\<close>

record pidQueue =
  data :: "pid list"

definition NewPidQueue :: pidQueue where
  "NewPidQueue = \<lparr>data = []\<rparr>"

definition Push :: "pid \<Rightarrow> pidQueue \<Rightarrow> pidQueue" where
  "Push p q = q\<lparr>data := data q @ [p]\<rparr>"

definition Pop :: "pidQueue \<Rightarrow> pid \<times> pidQueue" where
  "Pop q = (case data q of [] \<Rightarrow> ([], q) | evicted # rest \<Rightarrow> (evicted, q\<lparr>data := rest\<rparr>))"

fun indexFrom :: "int \<Rightarrow> pid \<Rightarrow> pid list \<Rightarrow> int" where
  "indexFrom i p [] = -1"
| "indexFrom i p (x # xs) = (if x = p then i else indexFrom (i + 1) p xs)"

definition IndexOf :: "pid \<Rightarrow> pidQueue \<Rightarrow> int" where
  "IndexOf p q = indexFrom 0 p (data q)"

definition Promote :: "int \<Rightarrow> pidQueue \<Rightarrow> pidQueue" where
  "Promote i q =
     (if length (data q) < 2 then q
      else if i < 0 \<or> i \<ge> int (length (data q)) then q
      else q\<lparr>data := (take (nat i) (data q) @ drop (nat i + 1) (data q)) @ [data q ! nat i]\<rparr>)"

fun removeAllPids :: "pid \<Rightarrow> pid list \<Rightarrow> pid list" where
  "removeAllPids p [] = []"
| "removeAllPids p (x # xs) = (if x = p then removeAllPids p xs else x # removeAllPids p xs)"

definition RemovePid :: "pid \<Rightarrow> pidQueue \<Rightarrow> pidQueue" where
  "RemovePid p q = q\<lparr>data := removeAllPids p (data q)\<rparr>"

definition DataSizeInBytes :: "pidQueue \<Rightarrow> int" where
  "DataSizeInBytes q = foldl (\<lambda>sum p. sum + int (length p)) 0 (data q)"

definition GetPid :: "int \<Rightarrow> pidQueue \<Rightarrow> pid" where
  "GetPid i q = (if i < 0 \<or> i \<ge> int (length (data q)) then [] else data q ! nat i)"

definition Len :: "pidQueue \<Rightarrow> int" where
  "Len q = int (length (data q))"

text \<open>What a client relies on: the operations as list operations.\<close>

locale pid_queue =
  fixes empty :: 'q
    and push :: "'p \<Rightarrow> 'q \<Rightarrow> 'q"
    and pop :: "'q \<Rightarrow> 'p \<times> 'q"
    and remove :: "'p \<Rightarrow> 'q \<Rightarrow> 'q"
    and elems :: "'q \<Rightarrow> 'p list"
  assumes elems_empty: "elems empty = []"
    and elems_push: "elems (push p q) = elems q @ [p]"
    and pop_first: "elems q \<noteq> [] \<Longrightarrow> fst (pop q) = hd (elems q) \<and> elems (snd (pop q)) = tl (elems q)"
    and elems_remove: "elems (remove p q) = filter (\<lambda>x. x \<noteq> p) (elems q)"
begin

lemma distinct_push_new: "distinct (elems q) \<Longrightarrow> p \<notin> set (elems q) \<Longrightarrow> distinct (elems (push p q))"
  by (simp add: elems_push)

lemma distinct_remove: "distinct (elems q) \<Longrightarrow> distinct (elems (remove p q)) \<and> p \<notin> set (elems (remove p q))"
  by (simp add: elems_remove)

lemma fifo: "elems q = [] \<Longrightarrow> fst (pop (push p q)) = p \<and> elems (snd (pop (push p q))) = []"
  using pop_first [of "push p q"] by (simp add: elems_push)

end

lemma removeAllPids_filter [simp]: "removeAllPids p xs = filter (\<lambda>x. x \<noteq> p) xs"
  by (induction xs) auto

interpretation pq: pid_queue NewPidQueue Push Pop RemovePid data
  by unfold_locales
    (auto simp: NewPidQueue_def Push_def Pop_def RemovePid_def neq_Nil_conv)

lemma indexFrom_props:
  "indexFrom i p xs = -1 \<and> p \<notin> set xs \<or>
   (\<exists>k < length xs. indexFrom i p xs = i + int k \<and> xs ! k = p \<and> p \<notin> set (take k xs))" if "0 \<le> i"
  using that
proof (induction i p xs rule: indexFrom.induct)
  case (2 i p x xs)
  show ?case
  proof (cases "x = p")
    case False
    with 2 consider "indexFrom (i + 1) p xs = -1" "p \<notin> set xs"
      | k where "k < length xs" "indexFrom (i + 1) p xs = i + 1 + int k" "xs ! k = p" "p \<notin> set (take k xs)"
      by auto
    then show ?thesis
    proof cases
      case 2
      with False show ?thesis by (intro disjI2 exI [of _ "Suc k"]) auto
    qed (use False in auto)
  qed auto
qed simp

lemma IndexOf_absent: "IndexOf p q = -1 \<longleftrightarrow> p \<notin> set (data q)"
  using indexFrom_props [of 0 p "data q"] by (auto simp: IndexOf_def)

lemma Promote_IndexOf:
  assumes "p \<in> set (data q)"
  shows "\<exists>xs ys. data q = xs @ p # ys \<and> p \<notin> set xs \<and> data (Promote (IndexOf p q) q) = xs @ ys @ [p]"
proof -
  obtain k where k: "k < length (data q)" "IndexOf p q = int k" "data q ! k = p" "p \<notin> set (take k (data q))"
    using indexFrom_props [of 0 p "data q"] assms by (auto simp: IndexOf_def)
  have split: "data q = take k (data q) @ p # drop (Suc k) (data q)"
    using k(1,3) by (metis id_take_nth_drop)
  show ?thesis
  proof (cases "length (data q) < 2")
    case True
    with k(1) have "data q = [p]" using k(3) by (cases "data q") auto
    with True show ?thesis by (intro exI [of _ "[]"]) (simp add: Promote_def)
  next
    case False
    then have "data (Promote (IndexOf p q) q) = take k (data q) @ drop (Suc k) (data q) @ [p]"
      using k by (simp add: Promote_def)
    with split k(4) show ?thesis by blast
  qed
qed

subsection \<open>The mapper\<close>

datatype peerType = UnknownPeer | ValidatorPeer | ObserverPeer

record peerInfo =
  PeerType :: peerType
  PeerSubType :: u32
  ShardID :: u32
  PkBytes :: bytes

record peerShardMapper =
  peerIdPkCache :: "pid \<Rightarrow> bytes option"
  pkPeerIdCache :: "bytes \<Rightarrow> pidQueue option"
  fallbackPkShardCache :: "bytes \<Rightarrow> u32 option"
  fallbackPidShardCache :: "pid \<Rightarrow> u32 option"
  peerIdSubTypeCache :: "pid \<Rightarrow> u32 option"

definition maxNumPidsPerPk :: int where
  "maxNumPidsPerPk = 3"

text \<open>Two constants of the core library the mapper compares with: the default peer subtype and the
  identifier of all shards.\<close>

record coreConsts =
  RegularPeer :: u32
  AllShardId :: u32

definition NewPeerShardMapper :: peerShardMapper where
  "NewPeerShardMapper = \<lparr>peerIdPkCache = Map.empty, pkPeerIdCache = Map.empty, fallbackPkShardCache = Map.empty,
     fallbackPidShardCache = Map.empty, peerIdSubTypeCache = Map.empty\<rparr>"

definition getPeerSubType :: "coreConsts \<Rightarrow> peerShardMapper \<Rightarrow> pid \<Rightarrow> u32" where
  "getPeerSubType core psm p = (case peerIdSubTypeCache psm p of None \<Rightarrow> RegularPeer core | Some t \<Rightarrow> t)"

text \<open>\<open>nc\<close> is \<open>GetValidatorWithPublicKey\<close> of the nodes coordinator: the shard of a validator.\<close>

definition getPeerInfoWithNodesCoordinator :: "(bytes \<Rightarrow> u32 option) \<Rightarrow> peerShardMapper \<Rightarrow> pid \<Rightarrow> peerInfo \<times> bool" where
  "getPeerInfoWithNodesCoordinator nc psm p = (case peerIdPkCache psm p of
     None \<Rightarrow> (\<lparr>PeerType = UnknownPeer, PeerSubType = 0, ShardID = 0, PkBytes = []\<rparr>, False)
   | Some pk \<Rightarrow> (case nc pk of
       None \<Rightarrow> (\<lparr>PeerType = UnknownPeer, PeerSubType = 0, ShardID = 0, PkBytes = pk\<rparr>, False)
     | Some shard \<Rightarrow> (\<lparr>PeerType = ValidatorPeer, PeerSubType = 0, ShardID = shard, PkBytes = pk\<rparr>, True)))"

definition getShardIDSearchingPkInFallbackCache :: "peerShardMapper \<Rightarrow> bytes \<Rightarrow> u32 \<times> bool" where
  "getShardIDSearchingPkInFallbackCache psm pk =
     (if length pk = 0 then (0, False)
      else case fallbackPkShardCache psm pk of None \<Rightarrow> (0, False) | Some shard \<Rightarrow> (shard, True))"

definition getPeerInfoSearchingPidInFallbackCache :: "coreConsts \<Rightarrow> peerShardMapper \<Rightarrow> pid \<Rightarrow> peerInfo" where
  "getPeerInfoSearchingPidInFallbackCache core psm p = (case fallbackPidShardCache psm p of
     None \<Rightarrow> \<lparr>PeerType = UnknownPeer, PeerSubType = 0, ShardID = 0, PkBytes = []\<rparr>
   | Some shard \<Rightarrow> \<lparr>PeerType = ObserverPeer, PeerSubType = getPeerSubType core psm p, ShardID = shard, PkBytes = []\<rparr>)"

definition GetPeerInfo :: "coreConsts \<Rightarrow> (bytes \<Rightarrow> u32 option) \<Rightarrow> peerShardMapper \<Rightarrow> pid \<Rightarrow> peerInfo" where
  "GetPeerInfo core nc psm p =
     (let (pInfo, ok) = getPeerInfoWithNodesCoordinator nc psm p
      in if ok then pInfo
         else let (shardId, ok') = getShardIDSearchingPkInFallbackCache psm (PkBytes pInfo)
              in if ok' then pInfo\<lparr>PeerType := ObserverPeer, ShardID := shardId, PeerSubType := getPeerSubType core psm p\<rparr>
                 else getPeerInfoSearchingPidInFallbackCache core psm p)"

definition removePidAssociation :: "pid \<Rightarrow> peerShardMapper \<Rightarrow> bytes option \<times> peerShardMapper" where
  "removePidAssociation p psm = (case peerIdPkCache psm p of
     None \<Rightarrow> (None, psm)
   | Some oldPk \<Rightarrow> (case pkPeerIdCache psm oldPk of
       None \<Rightarrow> (Some oldPk, psm)
     | Some q \<Rightarrow>
         (let q' = RemovePid p q
          in if Len q' = 0 then (Some oldPk, psm\<lparr>pkPeerIdCache := (pkPeerIdCache psm)(oldPk := None)\<rparr>)
             else (Some oldPk, psm\<lparr>pkPeerIdCache := (pkPeerIdCache psm)(oldPk := Some q')\<rparr>))))"

text \<open>The loop \<open>for pq.Len() > maxNumPidsPerPk\<close>; every iteration shortens the queue.\<close>

function evictLoop :: "pidQueue \<Rightarrow> peerShardMapper \<Rightarrow> pidQueue \<times> peerShardMapper" where
  "evictLoop q psm =
     (if Len q > maxNumPidsPerPk then
        (let (evicted, q') = Pop q
         in evictLoop q' (psm\<lparr>peerIdPkCache := (peerIdPkCache psm)(evicted := None),
                            fallbackPidShardCache := (fallbackPidShardCache psm)(evicted := None)\<rparr>))
      else (q, psm))"
  by pat_completeness auto
termination
  by (relation "measure (\<lambda>(q, psm). length (data q))") (auto simp: Len_def maxNumPidsPerPk_def Pop_def split: list.splits)

text \<open>\<open>bytes.Equal(pk, nil)\<close> holds for an empty \<open>pk\<close>.\<close>

definition updatePeerIDPublicKey :: "pid \<Rightarrow> bytes \<Rightarrow> peerShardMapper \<Rightarrow> bool \<times> peerShardMapper" where
  "updatePeerIDPublicKey p pk psm0 =
     (let (old, psm) = removePidAssociation p psm0;
          isNew = (pk \<noteq> (case old of None \<Rightarrow> [] | Some o' \<Rightarrow> o'))
      in case pkPeerIdCache psm pk of
        None \<Rightarrow> (isNew, psm\<lparr>peerIdPkCache := (peerIdPkCache psm)(p \<mapsto> pk),
                          pkPeerIdCache := (pkPeerIdCache psm)(pk \<mapsto> Push p NewPidQueue)\<rparr>)
      | Some q \<Rightarrow>
          (let idxPid = IndexOf p q
           in if idxPid \<noteq> -1 then
                (isNew, psm\<lparr>pkPeerIdCache := (pkPeerIdCache psm)(pk \<mapsto> Promote idxPid q),
                           peerIdPkCache := (peerIdPkCache psm)(p \<mapsto> pk)\<rparr>)
              else
                (let (q', psm') = evictLoop (Push p q) psm
                 in (isNew, psm'\<lparr>pkPeerIdCache := (pkPeerIdCache psm')(pk \<mapsto> q'),
                                peerIdPkCache := (peerIdPkCache psm')(p \<mapsto> pk)\<rparr>))))"

definition UpdatePeerIDPublicKeyPair :: "pid \<Rightarrow> bytes \<Rightarrow> peerShardMapper \<Rightarrow> peerShardMapper" where
  "UpdatePeerIDPublicKeyPair p pk psm = snd (updatePeerIDPublicKey p pk psm)"

definition putPublicKeyShardId :: "bytes \<Rightarrow> u32 \<Rightarrow> peerShardMapper \<Rightarrow> peerShardMapper" where
  "putPublicKeyShardId pk s psm = psm\<lparr>fallbackPkShardCache := (fallbackPkShardCache psm)(pk \<mapsto> s)\<rparr>"

definition PutPeerIdShardId :: "pid \<Rightarrow> u32 \<Rightarrow> peerShardMapper \<Rightarrow> peerShardMapper" where
  "PutPeerIdShardId p s psm = psm\<lparr>fallbackPidShardCache := (fallbackPidShardCache psm)(p \<mapsto> s)\<rparr>"

definition UpdatePeerIDInfo :: "coreConsts \<Rightarrow> pid \<Rightarrow> bytes \<Rightarrow> u32 \<Rightarrow> peerShardMapper \<Rightarrow> peerShardMapper" where
  "UpdatePeerIDInfo core p pk s psm =
     (let psm' = snd (updatePeerIDPublicKey p pk psm)
      in if s = AllShardId core then psm' else PutPeerIdShardId p s (putPublicKeyShardId pk s psm'))"

definition PutPeerIdSubType :: "pid \<Rightarrow> u32 \<Rightarrow> peerShardMapper \<Rightarrow> peerShardMapper" where
  "PutPeerIdSubType p t psm = psm\<lparr>peerIdSubTypeCache := (peerIdSubTypeCache psm)(p \<mapsto> t)\<rparr>"

end
