(* ===== verification/Peer_Theorems.thy ===== *)
theory Peer_Theorems
  imports Peer_Mapper
begin

text \<open>
  Properties of the peer shard mapper as a state machine. A step is one of its operations or the loss of
  entries by one of the bounded caches. No public key ever holds more than \<open>maxNumPidsPerPk\<close> peers, the
  defence against eclipse attacks the source names; and as long as no cache overflows, the two directions
  of the mapping agree.
\<close>

subsection \<open>Steps\<close>

inductive psm_step :: "coreConsts \<Rightarrow> peerShardMapper \<Rightarrow> peerShardMapper \<Rightarrow> bool" for core where
  updatePair: "psm_step core psm (UpdatePeerIDPublicKeyPair p pk psm)"
| updateInfo: "psm_step core psm (UpdatePeerIDInfo core p pk s psm)"
| putShard: "psm_step core psm (PutPeerIdShardId p s psm)"
| putSubType: "psm_step core psm (PutPeerIdSubType p t psm)"

text \<open>A bounded cache may drop entries at any time.\<close>

inductive psm_evict :: "peerShardMapper \<Rightarrow> peerShardMapper \<Rightarrow> bool" where
  "a \<subseteq>\<^sub>m peerIdPkCache psm \<Longrightarrow> b \<subseteq>\<^sub>m pkPeerIdCache psm \<Longrightarrow> c \<subseteq>\<^sub>m fallbackPkShardCache psm \<Longrightarrow>
   d \<subseteq>\<^sub>m fallbackPidShardCache psm \<Longrightarrow> e \<subseteq>\<^sub>m peerIdSubTypeCache psm \<Longrightarrow>
   psm_evict psm \<lparr>peerIdPkCache = a, pkPeerIdCache = b, fallbackPkShardCache = c, fallbackPidShardCache = d,
     peerIdSubTypeCache = e\<rparr>"

inductive psm_reach :: "coreConsts \<Rightarrow> bool \<Rightarrow> peerShardMapper \<Rightarrow> bool" for core lossy where
  init: "psm_reach core lossy NewPeerShardMapper"
| step: "psm_reach core lossy psm \<Longrightarrow> psm_step core psm psm' \<Longrightarrow> psm_reach core lossy psm'"
| evict: "lossy \<Longrightarrow> psm_reach core lossy psm \<Longrightarrow> psm_evict psm psm' \<Longrightarrow> psm_reach core lossy psm'"

inductive_cases psm_evictE: "psm_evict psm psm'"

subsection \<open>The eviction loop\<close>

declare evictLoop.simps [simp del]

lemma Pop_Cons: "data q = p # ps \<Longrightarrow> Pop q = (p, q\<lparr>data := ps\<rparr>)"
  by (simp add: Pop_def)

lemma restrict_UNIV [simp]: "m |` UNIV = m"
  by (simp add: restrict_map_def)

lemma restrict_forget: "(\<lambda>a. if a = p then None else m a) |` (- A) = m |` (- insert p A)"
  by (auto simp: restrict_map_def fun_eq_iff)

lemma evictLoop_spec:
  "evictLoop q psm = (q\<lparr>data := drop (length (data q) - 3) (data q)\<rparr>,
     psm\<lparr>peerIdPkCache := (peerIdPkCache psm) |` (- set (take (length (data q) - 3) (data q))),
         fallbackPidShardCache := (fallbackPidShardCache psm) |` (- set (take (length (data q) - 3) (data q)))\<rparr>)"
proof (induction q psm rule: evictLoop.induct)
  case (1 q psm)
  show ?case
  proof (cases "Len q > maxNumPidsPerPk")
    case False
    then show ?thesis
      by (subst evictLoop.simps) (simp add: Len_def maxNumPidsPerPk_def)
  next
    case True
    then obtain p ps where q: "data q = p # ps" by (cases "data q") (auto simp: Len_def maxNumPidsPerPk_def)
    then have "length ps \<ge> 3" using True by (simp add: Len_def maxNumPidsPerPk_def)
    then have len: "length (data q) - 3 = Suc (length ps - 3)" using q by simp
    show ?thesis
      using 1 [OF True Pop_Cons [OF q, symmetric] refl] True
      by (subst evictLoop.simps) (simp add: Pop_Cons [OF q] len, simp add: q restrict_forget)
  qed
qed

text \<open>One push keeps the queue within the bound and evicts at most the oldest entry.\<close>

lemma evictLoop_push:
  assumes "length (data q) \<le> 3" "evictLoop (Push p q) psm = (q', psm')"
  shows "length (data q') \<le> 3" "p \<in> set (data q')" "set (data q') \<subseteq> insert p (set (data q))"
    "distinct (data q) \<Longrightarrow> p \<notin> set (data q) \<Longrightarrow> distinct (data q')"
    "pkPeerIdCache psm' = pkPeerIdCache psm"
    "peerIdPkCache psm' = (peerIdPkCache psm) |` (- (set (take (length (data q) - 2) (data q))))"
  using assms by (auto simp: evictLoop_spec Push_def drop_Cons' split: if_splits dest: in_set_dropD)

subsection \<open>Invariants\<close>

definition psm_bounded :: "peerShardMapper \<Rightarrow> bool" where
  "psm_bounded psm \<longleftrightarrow> (\<forall>pk q. pkPeerIdCache psm pk = Some q \<longrightarrow>
     data q \<noteq> [] \<and> length (data q) \<le> 3 \<and> distinct (data q))"

definition queuedUnder :: "peerShardMapper \<Rightarrow> pid \<Rightarrow> bytes \<Rightarrow> bool" where
  "queuedUnder psm p pk \<longleftrightarrow> (case pkPeerIdCache psm pk of None \<Rightarrow> False | Some q \<Rightarrow> p \<in> set (data q))"

text \<open>The two directions of the mapping agree.\<close>

definition psm_agree :: "peerShardMapper \<Rightarrow> bool" where
  "psm_agree psm \<longleftrightarrow> (\<forall>p pk. peerIdPkCache psm p = Some pk \<longleftrightarrow> queuedUnder psm p pk)"

lemma removePidAssociation_spec:
  assumes "psm_bounded psm" "removePidAssociation p psm = (old, psm1)"
  shows "psm_bounded psm1" "peerIdPkCache psm1 = peerIdPkCache psm"
    "psm_agree psm \<Longrightarrow> queuedUnder psm1 p' pk \<longleftrightarrow> p' \<noteq> p \<and> queuedUnder psm p' pk"
proof -
  show "psm_bounded psm1" "peerIdPkCache psm1 = peerIdPkCache psm"
    using assms
    by (auto simp: removePidAssociation_def psm_bounded_def Len_def RemovePid_def Let_def
          split: option.splits if_splits) (metis le_trans length_filter_le)
  assume agree: "psm_agree psm"
  show "queuedUnder psm1 p' pk \<longleftrightarrow> p' \<noteq> p \<and> queuedUnder psm p' pk"
  proof (cases "peerIdPkCache psm p")
    case None
    with agree have "\<not> queuedUnder psm p pk"
      unfolding psm_agree_def by (metis option.distinct(1))
    with None assms(2) show ?thesis by (auto simp: removePidAssociation_def)
  next
    case (Some oldPk)
    with agree have u: "queuedUnder psm p pk \<longleftrightarrow> pk = oldPk" "queuedUnder psm p oldPk"
      unfolding psm_agree_def by (metis option.inject)+
    then obtain q where q: "pkPeerIdCache psm oldPk = Some q" "p \<in> set (data q)"
      by (auto simp: queuedUnder_def split: option.splits)
    have m: "pkPeerIdCache psm1 = (pkPeerIdCache psm)(oldPk :=
        if filter (\<lambda>x. x \<noteq> p) (data q) = [] then None else Some (RemovePid p q))"
      using Some q assms(2) by (auto simp: removePidAssociation_def Let_def Len_def RemovePid_def)
    show ?thesis
    proof (cases "pk = oldPk")
      case True
      then show ?thesis by (auto simp: queuedUnder_def m q(1) RemovePid_def filter_empty_conv)
    next
      case False
      then have "queuedUnder psm1 p' pk = queuedUnder psm p' pk" by (simp add: queuedUnder_def m)
      with u(1) False show ?thesis by blast
    qed
  qed
qed

lemma psm_boundedD: "psm_bounded psm \<Longrightarrow> pkPeerIdCache psm pk = Some q \<Longrightarrow>
    data q \<noteq> [] \<and> length (data q) \<le> 3 \<and> distinct (data q)"
  by (simp add: psm_bounded_def)

lemma psm_bounded_upd:
  "psm_bounded psm \<Longrightarrow> data q \<noteq> [] \<Longrightarrow> length (data q) \<le> 3 \<Longrightarrow> distinct (data q) \<Longrightarrow>
   pkPeerIdCache psm' = (pkPeerIdCache psm)(pk \<mapsto> q) \<Longrightarrow> psm_bounded psm'"
  by (simp add: psm_bounded_def)

text \<open>The three ways an update ends, after the old association of the peer is removed.\<close>

lemma updatePeerIDPublicKey_cases:
  assumes "removePidAssociation p psm = (old, psm1)"
  obtains (new) "pkPeerIdCache psm1 pk = None"
      "snd (updatePeerIDPublicKey p pk psm) = psm1\<lparr>peerIdPkCache := (peerIdPkCache psm1)(p \<mapsto> pk),
         pkPeerIdCache := (pkPeerIdCache psm1)(pk \<mapsto> Push p NewPidQueue)\<rparr>"
    | (known) q where "pkPeerIdCache psm1 pk = Some q" "p \<in> set (data q)"
      "snd (updatePeerIDPublicKey p pk psm) = psm1\<lparr>pkPeerIdCache := (pkPeerIdCache psm1)(pk \<mapsto> Promote (IndexOf p q) q),
         peerIdPkCache := (peerIdPkCache psm1)(p \<mapsto> pk)\<rparr>"
    | (pushed) q q' psm2 where "pkPeerIdCache psm1 pk = Some q" "p \<notin> set (data q)"
      "evictLoop (Push p q) psm1 = (q', psm2)"
      "snd (updatePeerIDPublicKey p pk psm) = psm2\<lparr>pkPeerIdCache := (pkPeerIdCache psm2)(pk \<mapsto> q'),
         peerIdPkCache := (peerIdPkCache psm2)(p \<mapsto> pk)\<rparr>"
proof (cases "pkPeerIdCache psm1 pk")
  case None
  with assms show thesis by (intro new) (simp_all add: updatePeerIDPublicKey_def)
next
  case (Some q)
  show thesis
  proof (cases "p \<in> set (data q)")
    case True
    with Some assms show thesis
      by (intro known [of q]) (simp_all add: updatePeerIDPublicKey_def Let_def IndexOf_absent)
  next
    case False
    obtain q' psm2 where "evictLoop (Push p q) psm1 = (q', psm2)" by fastforce
    with Some False assms show thesis
      by (intro pushed [of q q' psm2]) (simp_all add: updatePeerIDPublicKey_def Let_def IndexOf_absent)
  qed
qed

lemma Promote_set_distinct:
  assumes "p \<in> set (data q)" "distinct (data q)"
  shows "set (data (Promote (IndexOf p q) q)) = set (data q) \<and> distinct (data (Promote (IndexOf p q) q)) \<and>
    length (data (Promote (IndexOf p q) q)) = length (data q)"
  using Promote_IndexOf [OF assms(1)] assms(2) by auto

lemma updatePeerIDPublicKey_bounded:
  assumes "psm_bounded psm"
  shows "psm_bounded (snd (updatePeerIDPublicKey p pk psm))"
proof -
  obtain old psm1 where r: "removePidAssociation p psm = (old, psm1)" by fastforce
  note b = removePidAssociation_spec(1) [OF assms r]
  show ?thesis
    using r
  proof (cases rule: updatePeerIDPublicKey_cases [where pk = pk])
    case new
    with b show ?thesis by (simp add: psm_bounded_def Push_def NewPidQueue_def)
  next
    case (known q)
    with psm_boundedD [OF b known(1)] Promote_set_distinct [OF known(2)] b show ?thesis
      by (intro psm_bounded_upd [OF b, of "Promote (IndexOf p q) q"]) auto
  next
    case (pushed q q' psm2)
    note e = evictLoop_push [OF _ pushed(3)] and q = psm_boundedD [OF b pushed(1)]
    from q pushed(2,4) e show ?thesis
      by (intro psm_bounded_upd [OF b, of q' _ pk]) auto
  qed
qed

lemma updatePeerIDPublicKey_maps: "peerIdPkCache (snd (updatePeerIDPublicKey p pk psm)) p = Some pk"
proof -
  obtain old psm1 where r: "removePidAssociation p psm = (old, psm1)" by fastforce
  then show ?thesis
    by (cases rule: updatePeerIDPublicKey_cases [where pk = pk]) auto
qed

lemma evictLoop_push_set:
  assumes "evictLoop (Push p q) psm = (q', psm')" "distinct (data q)" "p \<notin> set (data q)"
  shows "set (data q') = insert p (set (data q) - set (take (length (data q) - 2) (data q)))"
proof -
  have "set (drop n xs) = set xs - set (take n xs)" if "distinct xs" for n and xs :: "pid list"
    using that by (metis append_take_drop_id distinct_append set_append Un_Diff Diff_cancel Diff_triv Un_empty_left inf_commute)
  moreover have "data q' = drop (length (data q) - 2) (data q) @ [p]"
    using assms(1) by (auto simp: evictLoop_spec Push_def)
  ultimately show ?thesis using assms(2) by simp
qed

lemma queuedUnder_upd:
  "pkPeerIdCache psm' = (pkPeerIdCache psm)(pk \<mapsto> q) \<Longrightarrow>
   queuedUnder psm' p pk' \<longleftrightarrow> (if pk' = pk then p \<in> set (data q) else queuedUnder psm p pk')"
  by (simp add: queuedUnder_def)

lemma updatePeerIDPublicKey_agree:
  assumes "psm_bounded psm" "psm_agree psm"
  shows "psm_agree (snd (updatePeerIDPublicKey p pk psm))"
proof -
  obtain old psm1 where r: "removePidAssociation p psm = (old, psm1)" by fastforce
  note b = removePidAssociation_spec(1) [OF assms(1) r]
  have q1: "queuedUnder psm1 p' pk' \<longleftrightarrow> p' \<noteq> p \<and> peerIdPkCache psm1 p' = Some pk'" for p' pk'
    using removePidAssociation_spec(2,3) [OF assms(1) r] assms(2) by (auto simp: psm_agree_def)
  show ?thesis
    using r
  proof (cases rule: updatePeerIDPublicKey_cases [where pk = pk])
    case new
    have "peerIdPkCache psm1 p' \<noteq> Some pk" if "p' \<noteq> p" for p'
      using new(1) q1 [of p' pk] that by (simp add: queuedUnder_def)
    then show ?thesis
      unfolding new(2) psm_agree_def
      by (auto simp: queuedUnder_upd [of _ psm1 pk "Push p NewPidQueue"] q1 Push_def NewPidQueue_def)
  next
    case (known q)
    then have "queuedUnder psm1 p pk" by (simp add: queuedUnder_def)
    then show ?thesis by (simp add: q1)
  next
    case (pushed q q' psm2)
    have len: "length (data q) \<le> 3" and di: "distinct (data q)"
      using psm_boundedD [OF b pushed(1)] by auto
    have "p' \<in> set (data q) \<longleftrightarrow> p' \<noteq> p \<and> peerIdPkCache psm1 p' = Some pk" for p'
      using q1 [of p' pk] pushed(1) by (simp add: queuedUnder_def)
    moreover have "set (take (length (data q) - 2) (data q)) \<subseteq> set (data q)" by (rule set_take_subset)
    ultimately show ?thesis
      unfolding pushed(4) psm_agree_def
      by (auto simp: queuedUnder_upd [of _ psm1 pk q'] q1 evictLoop_push(5,6) [OF len pushed(3)]
            evictLoop_push_set [OF pushed(3) di pushed(2)] restrict_map_def)
  qed
qed

lemma psm_frame:
  "psm_bounded (PutPeerIdShardId p s psm) = psm_bounded psm" "psm_agree (PutPeerIdShardId p s psm) = psm_agree psm"
  "psm_bounded (putPublicKeyShardId pk s psm) = psm_bounded psm" "psm_agree (putPublicKeyShardId pk s psm) = psm_agree psm"
  "psm_bounded (PutPeerIdSubType p s psm) = psm_bounded psm" "psm_agree (PutPeerIdSubType p s psm) = psm_agree psm"
  by (simp_all add: psm_bounded_def psm_agree_def queuedUnder_def PutPeerIdShardId_def putPublicKeyShardId_def PutPeerIdSubType_def)

lemma psm_step_bounded: "psm_step core psm psm' \<Longrightarrow> psm_bounded psm \<Longrightarrow> psm_bounded psm'"
  by (induction rule: psm_step.induct)
    (simp_all add: UpdatePeerIDPublicKeyPair_def UpdatePeerIDInfo_def Let_def psm_frame updatePeerIDPublicKey_bounded)

lemma psm_step_agree: "psm_step core psm psm' \<Longrightarrow> psm_bounded psm \<Longrightarrow> psm_agree psm \<Longrightarrow> psm_agree psm'"
  by (induction rule: psm_step.induct)
    (simp_all add: UpdatePeerIDPublicKeyPair_def UpdatePeerIDInfo_def Let_def psm_frame updatePeerIDPublicKey_agree)

lemma psm_evict_bounded: "psm_evict psm psm' \<Longrightarrow> psm_bounded psm \<Longrightarrow> psm_bounded psm'"
  by (erule psm_evictE) (auto simp: psm_bounded_def map_le_def dom_def)

lemma psm_reach_bounded: "psm_reach core lossy psm \<Longrightarrow> psm_bounded psm"
proof (induction rule: psm_reach.induct)
  case init
  show ?case by (simp add: psm_bounded_def NewPeerShardMapper_def)
qed (auto intro: psm_step_bounded psm_evict_bounded)

lemma psm_reach_agree: "psm_reach core False psm \<Longrightarrow> psm_agree psm"
proof (induction rule: psm_reach.induct)
  case init
  show ?case by (simp add: psm_agree_def queuedUnder_def NewPeerShardMapper_def)
next
  case (step psm psm')
  then show ?case using psm_step_agree psm_reach_bounded by blast
qed simp

subsection \<open>Results\<close>

text \<open>A run that maps four peers to one key.\<close>

definition demo_core :: coreConsts where
  "demo_core = \<lparr>RegularPeer = 0, AllShardId = 255\<rparr>"

definition demo_psm :: peerShardMapper where
  "demo_psm = fold (\<lambda>p. UpdatePeerIDInfo demo_core [p] [7] 1) [1, 2, 3, 4] NewPeerShardMapper"

lemma demo_psm_reach: "psm_reach demo_core lossy demo_psm"
  unfolding demo_psm_def by (auto intro!: psm_reach.step [OF _ updateInfo] psm_reach.init)

lemma demo_psm_queue: "pkPeerIdCache demo_psm [7] = Some \<lparr>data = [[2], [3], [4]]\<rparr>"
  by (simp add: demo_psm_def demo_core_def UpdatePeerIDInfo_def PutPeerIdShardId_def putPublicKeyShardId_def
      updatePeerIDPublicKey_def removePidAssociation_def NewPeerShardMapper_def NewPidQueue_def Push_def
      IndexOf_def Let_def evictLoop_spec)

text \<open>C18. Whatever sequence of operations and cache evictions the mapper went through, a public key
  holds between one and three peer ids, all different.\<close>

theorem peer_mapper_bounded:
  assumes "psm_reach core lossy psm" "pkPeerIdCache psm pk = Some q"
  shows "1 \<le> Len q \<and> Len q \<le> maxNumPidsPerPk \<and> distinct (data q)"
  using psm_boundedD [OF psm_reach_bounded [OF assms(1)] assms(2)]
  by (auto simp: Len_def maxNumPidsPerPk_def Suc_le_eq)

theorem peer_mapper_bounded_witness:
  "Len \<lparr>data = [[2], [3], [4]]\<rparr> \<le> maxNumPidsPerPk"
  using peer_mapper_bounded [OF demo_psm_reach demo_psm_queue] by blast

text \<open>C19. While no cache overflows, the two directions of the mapping agree in every reachable state: a
  peer is mapped to a public key exactly when it is queued under it, so it is queued under one key at
  most.\<close>

theorem peer_mapper_directions_agree:
  assumes "psm_reach core False psm"
  shows "peerIdPkCache psm p = Some pk \<longleftrightarrow> (\<exists>q. pkPeerIdCache psm pk = Some q \<and> p \<in> set (data q))"
  using psm_reach_agree [OF assms] by (auto simp: psm_agree_def queuedUnder_def split: option.splits)

theorem peer_mapper_directions_agree_witness:
  "peerIdPkCache demo_psm [1] \<noteq> Some [7]"
  using peer_mapper_directions_agree [OF demo_psm_reach, of "[1]" "[7]"] demo_psm_queue by auto

text \<open>After \<open>UpdatePeerIDInfo\<close> the information of the peer is the new one: with a validator's key
  it is a validator in the shard the nodes coordinator names, otherwise an observer in the given shard.\<close>

theorem peer_info_after_update:
  assumes "pk \<noteq> []" "s \<noteq> AllShardId core"
  shows "GetPeerInfo core nc (UpdatePeerIDInfo core p pk s psm) p = (case nc pk of
     Some shard \<Rightarrow> \<lparr>PeerType = ValidatorPeer, PeerSubType = 0, ShardID = shard, PkBytes = pk\<rparr>
   | None \<Rightarrow> \<lparr>PeerType = ObserverPeer, PeerSubType = getPeerSubType core (UpdatePeerIDInfo core p pk s psm) p,
       ShardID = s, PkBytes = pk\<rparr>)"
  using assms updatePeerIDPublicKey_maps [of p pk psm]
  by (simp add: GetPeerInfo_def getPeerInfoWithNodesCoordinator_def getShardIDSearchingPkInFallbackCache_def
      UpdatePeerIDInfo_def PutPeerIdShardId_def putPublicKeyShardId_def Let_def split: option.splits)

theorem peer_info_after_update_witness:
  "ShardID (GetPeerInfo demo_core (\<lambda>_. None) (UpdatePeerIDInfo demo_core [5] [7] 2 demo_psm) [5]) = 2"
  using peer_info_after_update [of "[7]" 2 demo_core "\<lambda>_. None" "[5]" demo_psm] by (simp add: demo_core_def)

end
