(* ===== verification/Gas_Computation.thy ===== *)
theory Gas_Computation
  imports Go_Prelude "HOL-Library.AList"
begin

text \<open>
  The gas accounting of \<open>process/block/preprocess/gasComputation.go\<close>: four ledgers (provided, provided
  as scheduled, refunded, penalized), each a Go map from transaction hashes to gas, and for each ledger the
  hashes recorded under every open key since that key was reset. Maps are association lists. The fee
  handler, the transaction type handler, the address test of the core library and the epoch flag are
  parameters.
\<close>

datatype TransactionType = MoveBalance | SCDeployment | SCInvoking | BuiltInFunctionCall | RelayedTx
  | RelayedTxV2 | RewardTx | InvalidTransaction

datatype gas_error = ErrMissingTransaction | ErrNilTransaction

type_synonym gas_map = "(bytes \<times> u64) list"
type_synonym hashes_map = "(bytes \<times> bytes list) list"

record gasComputation =
  gasProvided :: gas_map
  txHashesWithGasProvidedSinceLastReset :: hashes_map
  gasProvidedAsScheduled :: gas_map
  txHashesWithGasProvidedAsScheduledSinceLastReset :: hashes_map
  gasRefunded :: gas_map
  txHashesWithGasRefundedSinceLastReset :: hashes_map
  gasPenalized :: gas_map
  txHashesWithGasPenalizedSinceLastReset :: hashes_map

subsection \<open>Map operations the four ledgers share\<close>

definition appendToAll :: "bytes \<Rightarrow> hashes_map \<Rightarrow> hashes_map" where
  "appendToAll h since = map (\<lambda>(k, hs). (k, hs @ [h])) since"

definition gasAt :: "gas_map \<Rightarrow> bytes \<Rightarrow> u64" where
  "gasAt m h = (case map_of m h of None \<Rightarrow> 0 | Some g \<Rightarrow> g)"

definition hashesAt :: "hashes_map \<Rightarrow> bytes \<Rightarrow> bytes list" where
  "hashesAt m k = (case map_of m k of None \<Rightarrow> [] | Some hs \<Rightarrow> hs)"

definition totalGas :: "gas_map \<Rightarrow> u64" where
  "totalGas m = foldl (\<lambda>total (h, g). total + g) 0 m"

definition deleteAll :: "bytes list \<Rightarrow> gas_map \<Rightarrow> gas_map" where
  "deleteAll hs m = foldl (\<lambda>m h. AList.delete h m) m hs"

subsection \<open>Operations\<close>

definition NewGasComputation :: gasComputation where
  "NewGasComputation = \<lparr>gasProvided = [], txHashesWithGasProvidedSinceLastReset = [], gasProvidedAsScheduled = [],
     txHashesWithGasProvidedAsScheduledSinceLastReset = [], gasRefunded = [], txHashesWithGasRefundedSinceLastReset = [],
     gasPenalized = [], txHashesWithGasPenalizedSinceLastReset = []\<rparr>"

definition Init :: "gasComputation \<Rightarrow> gasComputation" where
  "Init gc = gc\<lparr>gasProvided := [], txHashesWithGasProvidedSinceLastReset := [], gasProvidedAsScheduled := [],
     txHashesWithGasProvidedAsScheduledSinceLastReset := [], gasRefunded := [], txHashesWithGasRefundedSinceLastReset := [],
     gasPenalized := [], txHashesWithGasPenalizedSinceLastReset := []\<rparr>"

definition Reset :: "bytes \<Rightarrow> gasComputation \<Rightarrow> gasComputation" where
  "Reset key gc = gc\<lparr>
     txHashesWithGasProvidedSinceLastReset := AList.update key [] (txHashesWithGasProvidedSinceLastReset gc),
     txHashesWithGasProvidedAsScheduledSinceLastReset :=
       AList.update key [] (txHashesWithGasProvidedAsScheduledSinceLastReset gc),
     txHashesWithGasRefundedSinceLastReset := AList.update key [] (txHashesWithGasRefundedSinceLastReset gc),
     txHashesWithGasPenalizedSinceLastReset := AList.update key [] (txHashesWithGasPenalizedSinceLastReset gc)\<rparr>"

definition SetGasProvided :: "u64 \<Rightarrow> bytes \<Rightarrow> gasComputation \<Rightarrow> gasComputation" where
  "SetGasProvided g h gc = gc\<lparr>gasProvided := AList.update h g (gasProvided gc),
     txHashesWithGasProvidedSinceLastReset := appendToAll h (txHashesWithGasProvidedSinceLastReset gc)\<rparr>"

definition SetGasProvidedAsScheduled :: "u64 \<Rightarrow> bytes \<Rightarrow> gasComputation \<Rightarrow> gasComputation" where
  "SetGasProvidedAsScheduled g h gc = gc\<lparr>gasProvidedAsScheduled := AList.update h g (gasProvidedAsScheduled gc),
     txHashesWithGasProvidedAsScheduledSinceLastReset :=
       appendToAll h (txHashesWithGasProvidedAsScheduledSinceLastReset gc)\<rparr>"

definition SetGasRefunded :: "u64 \<Rightarrow> bytes \<Rightarrow> gasComputation \<Rightarrow> gasComputation" where
  "SetGasRefunded g h gc = gc\<lparr>gasRefunded := AList.update h g (gasRefunded gc),
     txHashesWithGasRefundedSinceLastReset := appendToAll h (txHashesWithGasRefundedSinceLastReset gc)\<rparr>"

definition SetGasPenalized :: "u64 \<Rightarrow> bytes \<Rightarrow> gasComputation \<Rightarrow> gasComputation" where
  "SetGasPenalized g h gc = gc\<lparr>gasPenalized := AList.update h g (gasPenalized gc),
     txHashesWithGasPenalizedSinceLastReset := appendToAll h (txHashesWithGasPenalizedSinceLastReset gc)\<rparr>"

definition GasProvided :: "gasComputation \<Rightarrow> bytes \<Rightarrow> u64" where
  "GasProvided gc h = gasAt (gasProvided gc) h"

definition GasProvidedAsScheduled :: "gasComputation \<Rightarrow> bytes \<Rightarrow> u64" where
  "GasProvidedAsScheduled gc h = gasAt (gasProvidedAsScheduled gc) h"

definition GasRefunded :: "gasComputation \<Rightarrow> bytes \<Rightarrow> u64" where
  "GasRefunded gc h = gasAt (gasRefunded gc) h"

definition GasPenalized :: "gasComputation \<Rightarrow> bytes \<Rightarrow> u64" where
  "GasPenalized gc h = gasAt (gasPenalized gc) h"

definition TotalGasProvided :: "gasComputation \<Rightarrow> u64" where
  "TotalGasProvided gc = totalGas (gasProvided gc)"

definition TotalGasProvidedAsScheduled :: "gasComputation \<Rightarrow> u64" where
  "TotalGasProvidedAsScheduled gc = totalGas (gasProvidedAsScheduled gc)"

definition TotalGasProvidedWithScheduled :: "gasComputation \<Rightarrow> u64" where
  "TotalGasProvidedWithScheduled gc = TotalGasProvidedAsScheduled gc + TotalGasProvided gc"

definition TotalGasRefunded :: "gasComputation \<Rightarrow> u64" where
  "TotalGasRefunded gc = totalGas (gasRefunded gc)"

definition TotalGasPenalized :: "gasComputation \<Rightarrow> u64" where
  "TotalGasPenalized gc = totalGas (gasPenalized gc)"

definition RemoveGasProvided :: "bytes list \<Rightarrow> gasComputation \<Rightarrow> gasComputation" where
  "RemoveGasProvided hs gc = gc\<lparr>gasProvided := deleteAll hs (gasProvided gc)\<rparr>"

definition RemoveGasProvidedAsScheduled :: "bytes list \<Rightarrow> gasComputation \<Rightarrow> gasComputation" where
  "RemoveGasProvidedAsScheduled hs gc = gc\<lparr>gasProvidedAsScheduled := deleteAll hs (gasProvidedAsScheduled gc)\<rparr>"

definition RemoveGasRefunded :: "bytes list \<Rightarrow> gasComputation \<Rightarrow> gasComputation" where
  "RemoveGasRefunded hs gc = gc\<lparr>gasRefunded := deleteAll hs (gasRefunded gc)\<rparr>"

definition RemoveGasPenalized :: "bytes list \<Rightarrow> gasComputation \<Rightarrow> gasComputation" where
  "RemoveGasPenalized hs gc = gc\<lparr>gasPenalized := deleteAll hs (gasPenalized gc)\<rparr>"

definition RestoreGasSinceLastReset :: "bytes \<Rightarrow> gasComputation \<Rightarrow> gasComputation" where
  "RestoreGasSinceLastReset key gc =
     (let gc1 = RemoveGasProvided (hashesAt (txHashesWithGasProvidedSinceLastReset gc) key) gc;
          gc2 = RemoveGasProvidedAsScheduled (hashesAt (txHashesWithGasProvidedAsScheduledSinceLastReset gc1) key) gc1;
          gc3 = RemoveGasRefunded (hashesAt (txHashesWithGasRefundedSinceLastReset gc2) key) gc2
      in RemoveGasPenalized (hashesAt (txHashesWithGasPenalizedSinceLastReset gc3) key) gc3)"

subsection \<open>Gas provided by a transaction\<close>

record txHandler =
  GetGasLimit :: u64
  GetRcvAddr :: bytes
  GetData :: bytes

record gasDeps =
  ComputeGasLimit :: "txHandler \<Rightarrow> u64"
  ComputeTransactionType :: "txHandler \<Rightarrow> TransactionType \<times> TransactionType"
  IsSmartContractAddress :: "bytes \<Rightarrow> bool"
  SCDeployFlag :: bool

definition isRelayedTx :: "TransactionType \<Rightarrow> bool" where
  "isRelayedTx t = (t = RelayedTx \<or> t = RelayedTxV2)"

definition computeGasProvidedByTxV1 :: "gasDeps \<Rightarrow> u32 \<Rightarrow> u32 \<Rightarrow> txHandler \<Rightarrow> gas_error + u64 \<times> u64" where
  "computeGasProvidedByTxV1 D sender receiver tx =
     (let moveBalanceConsumption = ComputeGasLimit D tx;
          txTypeInShard = fst (ComputeTransactionType D tx);
          isSCCall = (txTypeInShard = SCDeployment \<or> txTypeInShard = SCInvoking \<or> txTypeInShard = BuiltInFunctionCall \<or>
            (IsSmartContractAddress D (GetRcvAddr tx) \<and> length (GetData tx) > 0))
      in if isSCCall then
           (let isCrossShardSCCall = (sender \<noteq> receiver \<and> moveBalanceConsumption < GetGasLimit tx \<and>
                  txTypeInShard \<noteq> BuiltInFunctionCall)
            in if isCrossShardSCCall then Inr (moveBalanceConsumption, GetGasLimit tx - moveBalanceConsumption)
               else Inr (GetGasLimit tx, GetGasLimit tx))
         else Inr (moveBalanceConsumption, moveBalanceConsumption))"

definition ComputeGasProvidedByTx :: "gasDeps \<Rightarrow> u32 \<Rightarrow> u32 \<Rightarrow> txHandler option \<Rightarrow> gas_error + u64 \<times> u64" where
  "ComputeGasProvidedByTx D sender receiver txo = (case txo of
     None \<Rightarrow> Inl ErrNilTransaction
   | Some tx \<Rightarrow>
       if \<not> SCDeployFlag D then computeGasProvidedByTxV1 D sender receiver tx
       else if GetGasLimit tx = 0 then Inr (0, 0)
       else
         (let moveBalanceConsumption = ComputeGasLimit D tx
          in if moveBalanceConsumption > GetGasLimit tx then Inr (GetGasLimit tx, GetGasLimit tx)
             else
               (let (txTypeSndShard, txTypeDstShard) = ComputeTransactionType D tx;
                    isSCCall = (txTypeDstShard = SCDeployment \<or> txTypeDstShard = SCInvoking \<or>
                      txTypeDstShard = BuiltInFunctionCall)
                in if isSCCall then
                     (let isCrossShardSCCall = (sender \<noteq> receiver \<and> txTypeSndShard = MoveBalance \<and>
                            txTypeDstShard = SCInvoking)
                      in if isCrossShardSCCall then Inr (moveBalanceConsumption, GetGasLimit tx)
                         else Inr (GetGasLimit tx, GetGasLimit tx))
                   else if isRelayedTx txTypeSndShard then Inr (GetGasLimit tx, GetGasLimit tx)
                   else Inr (moveBalanceConsumption, moveBalanceConsumption))))"

text \<open>\<open>mapHashTx\<close> gives \<open>Some None\<close> for a hash that is present with a nil transaction.\<close>

fun miniBlockGasLoop :: "gasDeps \<Rightarrow> u32 \<Rightarrow> u32 \<Rightarrow> (bytes \<Rightarrow> txHandler option option) \<Rightarrow> bytes list \<Rightarrow> u64 \<times> u64 \<Rightarrow>
    gas_error + u64 \<times> u64" where
  "miniBlockGasLoop D sender receiver mapHashTx [] acc = Inr acc"
| "miniBlockGasLoop D sender receiver mapHashTx (h # hs) acc = (case mapHashTx h of
     None \<Rightarrow> Inl ErrMissingTransaction
   | Some txo \<Rightarrow> (case ComputeGasProvidedByTx D sender receiver txo of
       Inl e \<Rightarrow> Inl e
     | Inr (gs, gr) \<Rightarrow> miniBlockGasLoop D sender receiver mapHashTx hs (fst acc + gs, snd acc + gr)))"

definition ComputeGasProvidedByMiniBlock :: "gasDeps \<Rightarrow> u32 \<Rightarrow> u32 \<Rightarrow> bytes list \<Rightarrow> (bytes \<Rightarrow> txHandler option option) \<Rightarrow>
    gas_error + u64 \<times> u64" where
  "ComputeGasProvidedByMiniBlock D sender receiver txHashes mapHashTx =
     miniBlockGasLoop D sender receiver mapHashTx txHashes (0, 0)"

end
