(* ===== verification/Gas_Theorems.thy ===== *)
theory Gas_Theorems
  imports Gas_Computation
begin

text \<open>
  Properties of the gas accounting. The four ledgers satisfy one interface, \<open>gas_ledger\<close>; what a restore
  does after a run of operations is proved once there and interpreted for each of them. The second part
  bounds the gas a miniblock is charged by the gas limits of its transactions.
\<close>

subsection \<open>Runs of operations\<close>

datatype gasOp = OpProvided u64 bytes | OpScheduled u64 bytes | OpRefunded u64 bytes | OpPenalized u64 bytes

fun runOp :: "gasOp \<Rightarrow> gasComputation \<Rightarrow> gasComputation" where
  "runOp (OpProvided g h) gc = SetGasProvided g h gc"
| "runOp (OpScheduled g h) gc = SetGasProvidedAsScheduled g h gc"
| "runOp (OpRefunded g h) gc = SetGasRefunded g h gc"
| "runOp (OpPenalized g h) gc = SetGasPenalized g h gc"

lemma hashesAt_update [simp]: "hashesAt (AList.update k v m) k' = (if k' = k then v else hashesAt m k')"
  by (simp add: hashesAt_def update_conv')

lemma map_of_appendToAll: "map_of (appendToAll h m) k = map_option (\<lambda>hs. hs @ [h]) (map_of m k)"
  by (induction m) (auto simp: appendToAll_def)

lemma hashesAt_appendToAll: "map_of m k \<noteq> None \<Longrightarrow> hashesAt (appendToAll h m) k = hashesAt m k @ [h]"
  by (auto simp: hashesAt_def map_of_appendToAll)

lemma map_of_deleteAll: "map_of (deleteAll hs m) h = (if h \<in> set hs then None else map_of m h)"
  unfolding deleteAll_def by (induction hs arbitrary: m) (auto simp: delete_conv')

locale gas_ledger =
  fixes gasOf :: "'s \<Rightarrow> gas_map"
    and since :: "'s \<Rightarrow> hashes_map"
    and reset :: "bytes \<Rightarrow> 's \<Rightarrow> 's"
    and step :: "'op \<Rightarrow> 's \<Rightarrow> 's"
    and mine :: "'op \<Rightarrow> (u64 \<times> bytes) option"
  assumes gas_step: "gasOf (step op s) = (case mine op of None \<Rightarrow> gasOf s | Some (g, h) \<Rightarrow> AList.update h g (gasOf s))"
    and since_step: "since (step op s) = (case mine op of None \<Rightarrow> since s | Some (g, h) \<Rightarrow> appendToAll h (since s))"
    and gas_reset: "gasOf (reset k s) = gasOf s"
    and since_reset: "since (reset k s) = AList.update k [] (since s)"
begin

definition touched :: "'op list \<Rightarrow> bytes list" where
  "touched ops = List.map_filter (\<lambda>op. map_option snd (mine op)) ops"

lemma touched_simps: "touched [] = []"
    "touched (op # ops) = (case mine op of None \<Rightarrow> touched ops | Some (g, h) \<Rightarrow> h # touched ops)"
  by (auto simp: touched_def List.map_filter_simps split: option.splits)

lemma since_run:
  "map_of (since s) k \<noteq> None \<Longrightarrow> hashesAt (since (fold step ops s)) k = hashesAt (since s) k @ touched ops"
proof (induction ops arbitrary: s)
  case (Cons op ops)
  then have "map_of (since (step op s)) k \<noteq> None"
    by (auto simp: since_step map_of_appendToAll split: option.splits)
  with Cons show ?case
    by (auto simp: since_step hashesAt_appendToAll touched_simps split: option.splits)
qed (simp add: touched_simps)

lemma gas_run: "h \<notin> set (touched ops) \<Longrightarrow> map_of (gasOf (fold step ops s)) h = map_of (gasOf s) h"
proof (induction ops arbitrary: s)
  case (Cons op ops)
  then show ?case
    by (auto simp: gas_step touched_simps update_conv' split: option.splits)
qed simp

lemma set_touched: "set (touched ops) = {h. \<exists>op \<in> set ops. \<exists>g. mine op = Some (g, h)}"
  by (induction ops) (auto simp: touched_simps split: option.splits)

lemma restored:
  "map_of (deleteAll (hashesAt (since (fold step ops (reset k s))) k) (gasOf (fold step ops (reset k s)))) h =
     (if h \<in> set (touched ops) then None else map_of (gasOf s) h)"
  by (simp add: map_of_deleteAll since_run since_reset update_conv' gas_run gas_reset)

end

fun providedBy :: "gasOp \<Rightarrow> (u64 \<times> bytes) option" where
  "providedBy (OpProvided g h) = Some (g, h)"
| "providedBy _ = None"

fun scheduledBy :: "gasOp \<Rightarrow> (u64 \<times> bytes) option" where
  "scheduledBy (OpScheduled g h) = Some (g, h)"
| "scheduledBy _ = None"

fun refundedBy :: "gasOp \<Rightarrow> (u64 \<times> bytes) option" where
  "refundedBy (OpRefunded g h) = Some (g, h)"
| "refundedBy _ = None"

fun penalizedBy :: "gasOp \<Rightarrow> (u64 \<times> bytes) option" where
  "penalizedBy (OpPenalized g h) = Some (g, h)"
| "penalizedBy _ = None"

lemmas gas_op_defs = SetGasProvided_def SetGasProvidedAsScheduled_def SetGasRefunded_def SetGasPenalized_def Reset_def

interpretation provided: gas_ledger gasProvided txHashesWithGasProvidedSinceLastReset Reset runOp providedBy
  by unfold_locales (auto simp: gas_op_defs elim: providedBy.elims split: option.splits gasOp.splits)

interpretation scheduled: gas_ledger gasProvidedAsScheduled txHashesWithGasProvidedAsScheduledSinceLastReset Reset runOp scheduledBy
  by unfold_locales (auto simp: gas_op_defs elim: scheduledBy.elims split: option.splits gasOp.splits)

interpretation refunded: gas_ledger gasRefunded txHashesWithGasRefundedSinceLastReset Reset runOp refundedBy
  by unfold_locales (auto simp: gas_op_defs elim: refundedBy.elims split: option.splits gasOp.splits)

interpretation penalized: gas_ledger gasPenalized txHashesWithGasPenalizedSinceLastReset Reset runOp penalizedBy
  by unfold_locales (auto simp: gas_op_defs elim: penalizedBy.elims split: option.splits gasOp.splits)

lemma mine_iff:
  "providedBy op = Some (g, h) \<longleftrightarrow> op = OpProvided g h" "scheduledBy op = Some (g, h) \<longleftrightarrow> op = OpScheduled g h"
  "refundedBy op = Some (g, h) \<longleftrightarrow> op = OpRefunded g h" "penalizedBy op = Some (g, h) \<longleftrightarrow> op = OpPenalized g h"
  by (cases op; auto)+

lemmas touched_sets = provided.set_touched scheduled.set_touched refunded.set_touched penalized.set_touched

lemma restore_fields:
  "gasProvided (RestoreGasSinceLastReset k gc) = deleteAll (hashesAt (txHashesWithGasProvidedSinceLastReset gc) k) (gasProvided gc)"
  "gasProvidedAsScheduled (RestoreGasSinceLastReset k gc) =
     deleteAll (hashesAt (txHashesWithGasProvidedAsScheduledSinceLastReset gc) k) (gasProvidedAsScheduled gc)"
  "gasRefunded (RestoreGasSinceLastReset k gc) = deleteAll (hashesAt (txHashesWithGasRefundedSinceLastReset gc) k) (gasRefunded gc)"
  "gasPenalized (RestoreGasSinceLastReset k gc) = deleteAll (hashesAt (txHashesWithGasPenalizedSinceLastReset gc) k) (gasPenalized gc)"
  by (simp_all add: RestoreGasSinceLastReset_def RemoveGasProvided_def RemoveGasProvidedAsScheduled_def
      RemoveGasRefunded_def RemoveGasPenalized_def Let_def)

text \<open>C20. Restoring a key undoes the run since the key was reset: in each of the four ledgers exactly the
  hashes the run recorded in that ledger are gone and every other entry is as it was before the reset. In
  particular, when the run only recorded new hashes, the ledgers are what they were.\<close>

theorem restore_undoes_run:
  "let gc' = RestoreGasSinceLastReset k (fold runOp ops (Reset k gc)) in
    map_of (gasProvided gc') h = (if \<exists>g. OpProvided g h \<in> set ops then None else map_of (gasProvided gc) h) \<and>
    map_of (gasProvidedAsScheduled gc') h =
      (if \<exists>g. OpScheduled g h \<in> set ops then None else map_of (gasProvidedAsScheduled gc) h) \<and>
    map_of (gasRefunded gc') h = (if \<exists>g. OpRefunded g h \<in> set ops then None else map_of (gasRefunded gc) h) \<and>
    map_of (gasPenalized gc') h = (if \<exists>g. OpPenalized g h \<in> set ops then None else map_of (gasPenalized gc) h)"
  unfolding Let_def restore_fields provided.restored scheduled.restored refunded.restored penalized.restored
    touched_sets mine_iff by auto

subsection \<open>Gas of a miniblock\<close>

lemma gas_by_tx_bounded:
  "SCDeployFlag D \<Longrightarrow> \<exists>gs gr. ComputeGasProvidedByTx D s r (Some tx) = Inr (gs, gr) \<and>
     gs \<le> GetGasLimit tx \<and> gr \<le> GetGasLimit tx"
  by (cases "ComputeTransactionType D tx") (simp add: ComputeGasProvidedByTx_def Let_def linorder_not_less)

lemma miniBlockGasLoop_bounded:
  assumes "SCDeployFlag D" "list_all2 (\<lambda>h tx. m h = Some (Some tx)) hs txs"
    and "unat (fst acc) + (\<Sum>tx\<leftarrow>txs. unat (GetGasLimit tx)) < 2 ^ 64"
    and "unat (snd acc) + (\<Sum>tx\<leftarrow>txs. unat (GetGasLimit tx)) < 2 ^ 64"
  shows "\<exists>gs gr. miniBlockGasLoop D s r m hs acc = Inr (gs, gr) \<and>
    unat gs \<le> unat (fst acc) + (\<Sum>tx\<leftarrow>txs. unat (GetGasLimit tx)) \<and>
    unat gr \<le> unat (snd acc) + (\<Sum>tx\<leftarrow>txs. unat (GetGasLimit tx))"
  using assms(2-4)
proof (induction hs txs arbitrary: acc rule: list_all2_induct)
  case (Cons h hs tx txs)
  obtain gs gr where g: "ComputeGasProvidedByTx D s r (Some tx) = Inr (gs, gr)"
    "unat gs \<le> unat (GetGasLimit tx)" "unat gr \<le> unat (GetGasLimit tx)"
    using gas_by_tx_bounded [OF assms(1)] unfolding word_le_nat_alt by metis
  have "unat (fst acc + gs) = unat (fst acc) + unat gs" "unat (snd acc + gr) = unat (snd acc) + unat gr"
    using g Cons.prems by (auto intro!: unat_add_lem [THEN iffD1])
  then show ?case
    using Cons.IH [of "(fst acc + gs, snd acc + gr)"] Cons.prems Cons.hyps(1) g by force
next
  case Nil
  show ?case by (cases acc) simp
qed


definition demo_tx :: txHandler where
  "demo_tx = \<lparr>GetGasLimit = 70000, GetRcvAddr = [1], GetData = []\<rparr>"

definition demo_gas :: gasDeps where
  "demo_gas = \<lparr>ComputeGasLimit = \<lambda>_. 50000, ComputeTransactionType = \<lambda>_. (MoveBalance, SCInvoking),
     IsSmartContractAddress = \<lambda>_. False, SCDeployFlag = True\<rparr>"


end
