(* ===== verification/Fee_Accounting.thy ===== *)
theory Fee_Accounting
  imports Go_Prelude "HOL-Library.AList"
begin

text \<open>
  The accumulators of block processing: the fee handler of \<open>process/block/postprocess/feeHandler.go\<close>, the
  balance computation and the block size computation of \<open>process/block/preprocess\<close>. \<open>big.Int\<close> values are
  integers; a nil cost is \<open>None\<close> (the source guards it), a nil developer fee is not modelled, it would
  panic. The in-place updates of the fee entries are map updates, as every entry is owned by its key.
\<close>

subsection \<open>Fees\<close>

record feeData =
  cost :: int
  devFee :: int

record feeHandler =
  mapDependentHashes :: "(bytes \<times> bytes) list"
  mapHashFee :: "(bytes \<times> feeData) list"
  accumulatedFees :: int
  developerFees :: int

definition NewFeeAccumulator :: feeHandler where
  "NewFeeAccumulator = \<lparr>mapDependentHashes = [], mapHashFee = [], accumulatedFees = 0, developerFees = 0\<rparr>"

definition CreateBlockStarted :: "int option \<Rightarrow> int option \<Rightarrow> feeHandler \<Rightarrow> feeHandler" where
  "CreateBlockStarted accumulated developer f = f\<lparr>mapHashFee := [], mapDependentHashes := [],
     accumulatedFees := (case accumulated of None \<Rightarrow> 0 | Some v \<Rightarrow> v),
     developerFees := (case developer of None \<Rightarrow> 0 | Some v \<Rightarrow> v)\<rparr>"

definition processTransactionFee :: "int option \<Rightarrow> int \<Rightarrow> bytes \<Rightarrow> feeHandler \<Rightarrow> feeHandler" where
  "processTransactionFee costo dev txHash f = (case costo of
     None \<Rightarrow> f
   | Some c \<Rightarrow>
       if c < 0 then f
       else
         (let fee = (case map_of (mapHashFee f) txHash of None \<Rightarrow> \<lparr>cost = 0, devFee = 0\<rparr> | Some fee \<Rightarrow> fee)
          in f\<lparr>mapHashFee := AList.update txHash (fee\<lparr>cost := cost fee + c, devFee := devFee fee + dev\<rparr>) (mapHashFee f),
               accumulatedFees := accumulatedFees f + c,
               developerFees := developerFees f + dev\<rparr>))"

definition ProcessTransactionFee :: "int option \<Rightarrow> int \<Rightarrow> bytes \<Rightarrow> feeHandler \<Rightarrow> feeHandler" where
  "ProcessTransactionFee costo dev txHash f = processTransactionFee costo dev txHash f"

definition linkRelayedUserTxToOriginalTx :: "bytes \<Rightarrow> bytes \<Rightarrow> feeHandler \<Rightarrow> feeHandler" where
  "linkRelayedUserTxToOriginalTx userTxHash originalTxHash f =
     f\<lparr>mapDependentHashes := AList.update originalTxHash userTxHash (mapDependentHashes f)\<rparr>"

definition ProcessTransactionFeeRelayedUserTx :: "int option \<Rightarrow> int \<Rightarrow> bytes \<Rightarrow> bytes \<Rightarrow> feeHandler \<Rightarrow> feeHandler" where
  "ProcessTransactionFeeRelayedUserTx costo dev userTxHash originalTxHash f =
     processTransactionFee costo dev userTxHash (linkRelayedUserTxToOriginalTx userTxHash originalTxHash f)"

definition revertFee :: "bytes \<Rightarrow> feeHandler \<Rightarrow> feeHandler" where
  "revertFee txHash f = (case map_of (mapHashFee f) txHash of
     None \<Rightarrow> f
   | Some fee \<Rightarrow> f\<lparr>developerFees := developerFees f - devFee fee, accumulatedFees := accumulatedFees f - cost fee,
                  mapHashFee := AList.delete txHash (mapHashFee f)\<rparr>)"

definition revertFeesForDependentTxHash :: "bytes \<Rightarrow> feeHandler \<Rightarrow> feeHandler" where
  "revertFeesForDependentTxHash txHash f = (case map_of (mapDependentHashes f) txHash of
     None \<Rightarrow> f
   | Some linked \<Rightarrow>
       (let f' = revertFee linked f in f'\<lparr>mapDependentHashes := AList.delete txHash (mapDependentHashes f')\<rparr>))"

definition RevertFees :: "bytes list \<Rightarrow> feeHandler \<Rightarrow> feeHandler" where
  "RevertFees txHashes f = foldl (\<lambda>f h. revertFee h (revertFeesForDependentTxHash h f)) f txHashes"

definition GetAccumulatedFees :: "feeHandler \<Rightarrow> int" where
  "GetAccumulatedFees f = accumulatedFees f"

definition GetDeveloperFees :: "feeHandler \<Rightarrow> int" where
  "GetDeveloperFees f = developerFees f"

subsection \<open>Balances\<close>

record balanceComputation =
  mapAddressBalance :: "bytes \<Rightarrow> int option"

definition NewBalanceComputation :: balanceComputation where
  "NewBalanceComputation = \<lparr>mapAddressBalance = Map.empty\<rparr>"

definition InitBalances :: "balanceComputation \<Rightarrow> balanceComputation" where
  "InitBalances bc = bc\<lparr>mapAddressBalance := Map.empty\<rparr>"

definition SetBalanceToAddress :: "bytes \<Rightarrow> int \<Rightarrow> balanceComputation \<Rightarrow> balanceComputation" where
  "SetBalanceToAddress a v bc = bc\<lparr>mapAddressBalance := (mapAddressBalance bc)(a \<mapsto> v)\<rparr>"

definition AddBalanceToAddress :: "bytes \<Rightarrow> int \<Rightarrow> balanceComputation \<Rightarrow> bool \<times> balanceComputation" where
  "AddBalanceToAddress a v bc = (case mapAddressBalance bc a of
     Some cur \<Rightarrow> (True, bc\<lparr>mapAddressBalance := (mapAddressBalance bc)(a \<mapsto> cur + v)\<rparr>)
   | None \<Rightarrow> (False, bc))"

definition SubBalanceFromAddress :: "bytes \<Rightarrow> int \<Rightarrow> balanceComputation \<Rightarrow> bool \<times> balanceComputation" where
  "SubBalanceFromAddress a v bc = (case mapAddressBalance bc a of
     Some cur \<Rightarrow>
       if cur \<ge> v then (True, bc\<lparr>mapAddressBalance := (mapAddressBalance bc)(a \<mapsto> cur - v)\<rparr>)
       else (False, bc)
   | None \<Rightarrow> (False, bc))"

definition IsAddressSet :: "bytes \<Rightarrow> balanceComputation \<Rightarrow> bool" where
  "IsAddressSet a bc = (mapAddressBalance bc a \<noteq> None)"

definition AddressHasEnoughBalance :: "bytes \<Rightarrow> int \<Rightarrow> balanceComputation \<Rightarrow> bool" where
  "AddressHasEnoughBalance a v bc = (case mapAddressBalance bc a of None \<Rightarrow> False | Some b \<Rightarrow> b \<ge> v)"

subsection \<open>Block size\<close>

record blockSizeComputation =
  miniblockSize :: u32
  txSize :: u32
  numMiniBlocks :: u32
  numTxs :: u32
  maxSize :: u32

text \<open>\<open>bodySize n k\<close> is \<open>generateDummyBlockbodySize\<close>: the marshalled size of a body of \<open>n\<close> miniblocks with \<open>k\<close>
  transaction hashes each, \<open>None\<close> when marshalling fails.\<close>

definition precomputeValues :: "(nat \<Rightarrow> nat \<Rightarrow> u32 option) \<Rightarrow> blockSizeComputation \<Rightarrow> blockSizeComputation option" where
  "precomputeValues bodySize bsc = (case (bodySize 1 0, bodySize 1 10, bodySize 1 20, bodySize 10 10) of
     (Some oneEmpty, Some oneTen, Some oneTwenty, Some tenTen) \<Rightarrow>
       (let tx = (oneTwenty - oneTen) div 10;
            mb = max oneEmpty (oneTen - 10 * tx)
        in Some (bsc\<lparr>txSize := tx, miniblockSize := max mb ((tenTen - 100 * tx) div 10)\<rparr>))
   | _ \<Rightarrow> None)"

definition NewBlockSizeComputation :: "(nat \<Rightarrow> nat \<Rightarrow> u32 option) \<Rightarrow> u32 \<Rightarrow> blockSizeComputation option" where
  "NewBlockSizeComputation bodySize maxSz =
     precomputeValues bodySize \<lparr>miniblockSize = 0, txSize = 0, numMiniBlocks = 0, numTxs = 0, maxSize = maxSz\<rparr>"

definition InitBlockSize :: "blockSizeComputation \<Rightarrow> blockSizeComputation" where
  "InitBlockSize bsc = bsc\<lparr>numTxs := 0, numMiniBlocks := 0\<rparr>"

definition AddNumMiniBlocks :: "int \<Rightarrow> blockSizeComputation \<Rightarrow> blockSizeComputation" where
  "AddNumMiniBlocks n bsc = bsc\<lparr>numMiniBlocks := numMiniBlocks bsc + word_of_int n\<rparr>"

definition AddNumTxs :: "int \<Rightarrow> blockSizeComputation \<Rightarrow> blockSizeComputation" where
  "AddNumTxs n bsc = bsc\<lparr>numTxs := numTxs bsc + word_of_int n\<rparr>"

definition isMaxBlockSizeReached :: "u32 \<Rightarrow> u32 \<Rightarrow> u32 \<Rightarrow> blockSizeComputation \<Rightarrow> bool" where
  "isMaxBlockSizeReached currentMax mbs txs bsc = (miniblockSize bsc * mbs + txSize bsc * txs > currentMax)"

definition IsMaxBlockSizeReached :: "u32 \<Rightarrow> int \<Rightarrow> int \<Rightarrow> blockSizeComputation \<Rightarrow> bool" where
  "IsMaxBlockSizeReached currentMax newMbs newTxs bsc =
     isMaxBlockSizeReached currentMax (numMiniBlocks bsc + word_of_int newMbs) (numTxs bsc + word_of_int newTxs) bsc"

definition isMaxBlockSizeWithoutThrottleReached :: "u32 \<Rightarrow> u32 \<Rightarrow> blockSizeComputation \<Rightarrow> bool" where
  "isMaxBlockSizeWithoutThrottleReached mbs txs bsc = (miniblockSize bsc * mbs + txSize bsc * txs > maxSize bsc)"

definition IsMaxBlockSizeWithoutThrottleReached :: "int \<Rightarrow> int \<Rightarrow> blockSizeComputation \<Rightarrow> bool" where
  "IsMaxBlockSizeWithoutThrottleReached newMbs newTxs bsc =
     isMaxBlockSizeWithoutThrottleReached (numMiniBlocks bsc + word_of_int newMbs) (numTxs bsc + word_of_int newTxs) bsc"

text \<open>\<open>None\<close> is the panic of a division by zero.\<close>

definition MaxTransactionsInOneMiniblock :: "blockSizeComputation \<Rightarrow> int option" where
  "MaxTransactionsInOneMiniblock bsc =
     (if txSize bsc = 0 then None else Some (uint ((maxSize bsc - miniblockSize bsc) div txSize bsc)))"

subsection \<open>The fee accumulators are sums over the recorded fees\<close>

definition sumCosts :: "(bytes \<times> feeData) list \<Rightarrow> int" where
  "sumCosts m = (\<Sum>(h, fee)\<leftarrow>m. cost fee)"

definition sumDevFees :: "(bytes \<times> feeData) list \<Rightarrow> int" where
  "sumDevFees m = (\<Sum>(h, fee)\<leftarrow>m. devFee fee)"

lemma sums_update:
  "sumCosts (AList.update h fee m) = sumCosts m + cost fee - (case map_of m h of None \<Rightarrow> 0 | Some f \<Rightarrow> cost f)"
  "sumDevFees (AList.update h fee m) = sumDevFees m + devFee fee - (case map_of m h of None \<Rightarrow> 0 | Some f \<Rightarrow> devFee f)"
  by (induction m) (auto simp: sumCosts_def sumDevFees_def)

lemma alist_delete_absent: "h \<notin> fst ` set m \<Longrightarrow> AList.delete h m = m"
  by (simp add: delete_id)

lemma sums_delete:
  assumes "distinct (map fst m)" "map_of m h = Some fee"
  shows "sumCosts (AList.delete h m) = sumCosts m - cost fee" "sumDevFees (AList.delete h m) = sumDevFees m - devFee fee"
  using assms by (induction m) (auto simp: sumCosts_def sumDevFees_def alist_delete_absent)

text \<open>\<open>base\<close> holds the amounts the block started with.\<close>

definition fee_inv :: "int \<times> int \<Rightarrow> feeHandler \<Rightarrow> bool" where
  "fee_inv base f \<longleftrightarrow> distinct (map fst (mapHashFee f)) \<and>
     accumulatedFees f = fst base + sumCosts (mapHashFee f) \<and> developerFees f = snd base + sumDevFees (mapHashFee f) \<and>
     (\<forall>p \<in> set (mapHashFee f). 0 \<le> cost (snd p))"

lemma set_update_subset: "set (AList.update h v m) \<subseteq> insert (h, v) (set m)"
  by (induction m) auto

lemma set_delete_subset: "set (AList.delete h m) \<subseteq> set m"
  by (induction m) auto

lemma processTransactionFee_inv:
  assumes "fee_inv base f"
  shows "fee_inv base (processTransactionFee c d h f)"
proof (cases "\<exists>v. c = Some v \<and> 0 \<le> v")
  case True
  then obtain v where v: "c = Some v" "0 \<le> v" by blast
  define fee where "fee = (case map_of (mapHashFee f) h of None \<Rightarrow> \<lparr>cost = 0, devFee = 0\<rparr> | Some fee \<Rightarrow> fee)"
  let ?fee = "fee\<lparr>cost := cost fee + v, devFee := devFee fee + d\<rparr>"
  have "0 \<le> cost fee"
    using assms by (auto simp: fee_def fee_inv_def split: option.splits dest!: map_of_SomeD)
  then have "\<forall>p \<in> set (AList.update h ?fee (mapHashFee f)). 0 \<le> cost (snd p)"
    using assms v(2) set_update_subset [of h ?fee "mapHashFee f"] by (auto simp: fee_inv_def)
  moreover have "sumCosts (AList.update h ?fee (mapHashFee f)) = sumCosts (mapHashFee f) + v"
      "sumDevFees (AList.update h ?fee (mapHashFee f)) = sumDevFees (mapHashFee f) + d"
    by (auto simp: sums_update fee_def split: option.splits)
  ultimately show ?thesis
    using assms v by (simp add: fee_inv_def processTransactionFee_def Let_def distinct_update flip: fee_def)
qed (use assms in \<open>auto simp: processTransactionFee_def split: option.splits\<close>)

lemma revertFee_inv:
  assumes "fee_inv base f"
  shows "fee_inv base (revertFee h f)"
proof (cases "map_of (mapHashFee f) h")
  case (Some fee)
  then show ?thesis
    using assms sums_delete [OF _ Some] set_delete_subset [of h "mapHashFee f"]
    by (auto simp: fee_inv_def revertFee_def distinct_delete)
qed (use assms in \<open>simp add: revertFee_def\<close>)

lemma dependents_frame:
  "fee_inv base (f\<lparr>mapDependentHashes := m\<rparr>) = fee_inv base f"
  by (simp add: fee_inv_def)

lemma revertDependent_inv: "fee_inv base f \<Longrightarrow> fee_inv base (revertFeesForDependentTxHash h f)"
  by (auto simp: revertFeesForDependentTxHash_def Let_def dependents_frame revertFee_inv split: option.splits)

lemma RevertFees_inv: "fee_inv base f \<Longrightarrow> fee_inv base (RevertFees hs f)"
  unfolding RevertFees_def by (induction hs arbitrary: f) (auto intro: revertFee_inv revertDependent_inv)

datatype feeOp = OpFee "int option" int bytes | OpRelayed "int option" int bytes bytes | OpRevert "bytes list"

fun runFeeOp :: "feeOp \<Rightarrow> feeHandler \<Rightarrow> feeHandler" where
  "runFeeOp (OpFee c d h) f = ProcessTransactionFee c d h f"
| "runFeeOp (OpRelayed c d u orig) f = ProcessTransactionFeeRelayedUserTx c d u orig f"
| "runFeeOp (OpRevert hs) f = RevertFees hs f"

lemma runFeeOp_inv: "fee_inv base f \<Longrightarrow> fee_inv base (runFeeOp op f)"
  by (cases op) (auto simp: ProcessTransactionFee_def ProcessTransactionFeeRelayedUserTx_def
      linkRelayedUserTxToOriginalTx_def dependents_frame processTransactionFee_inv RevertFees_inv)

lemma runFeeOps_inv: "fee_inv base f \<Longrightarrow> fee_inv base (fold runFeeOp ops f)"
  by (induction ops arbitrary: f) (auto simp: runFeeOp_inv)


lemma update_fresh: "h \<notin> fst ` set m \<Longrightarrow> AList.delete h (AList.update h v m) = m"
  by (induction m) (auto simp: delete_id)

text \<open>C23. Reverting a transaction undoes its fee: for hashes that had no fee and no link before, processing
  and reverting gives back the handler as it was, also when the fee was paid through a relayed transaction
  and the original transaction is reverted.\<close>

theorem revert_undoes_fee:
  assumes "h \<notin> fst ` set (mapHashFee f)" "h \<notin> fst ` set (mapDependentHashes f)" "u \<notin> fst ` set (mapHashFee f)"
  shows "RevertFees [h] (ProcessTransactionFee c d h f) = f \<and>
    RevertFees [h] (ProcessTransactionFeeRelayedUserTx c d u h f) = f"
proof
  have absent: "map_of (mapHashFee f) h = None" "map_of (mapHashFee f) u = None" "map_of (mapDependentHashes f) h = None"
    using assms by (simp_all add: map_of_eq_None_iff)
  have cases: "(case c of None \<Rightarrow> True | Some v \<Rightarrow> v < 0) \<or> (\<exists>v. c = Some v \<and> 0 \<le> v)"
    by (cases c) auto
  show "RevertFees [h] (ProcessTransactionFee c d h f) = f"
    using cases assms absent
    by (auto simp: RevertFees_def ProcessTransactionFee_def processTransactionFee_def Let_def revertFee_def
        revertFeesForDependentTxHash_def update_conv' update_fresh split: option.splits)
  show "RevertFees [h] (ProcessTransactionFeeRelayedUserTx c d u h f) = f"
    using cases assms absent
    by (auto simp: RevertFees_def ProcessTransactionFeeRelayedUserTx_def linkRelayedUserTxToOriginalTx_def
        processTransactionFee_def Let_def revertFee_def revertFeesForDependentTxHash_def update_conv' update_fresh
        delete_conv' split: option.splits)
qed

theorem revert_undoes_fee_witness:
  "let f = ProcessTransactionFee (Some 10) 3 [1] NewFeeAccumulator in
     RevertFees [[2]] (ProcessTransactionFee (Some 5) 1 [2] f) = f"
proof -
  let ?f = "ProcessTransactionFee (Some 10) 3 [1] NewFeeAccumulator"
  have "[2] \<notin> fst ` set (mapHashFee ?f)" "[2] \<notin> fst ` set (mapDependentHashes ?f)" "[3] \<notin> fst ` set (mapHashFee ?f)"
    by (simp_all add: ProcessTransactionFee_def processTransactionFee_def NewFeeAccumulator_def Let_def)
  from revert_undoes_fee [OF this] show ?thesis by (simp add: Let_def)
qed

subsection \<open>Balances stay non-negative\<close>

datatype balanceOp = OpSet bytes int | OpAdd bytes int | OpSub bytes int

fun runBalanceOp :: "balanceOp \<Rightarrow> balanceComputation \<Rightarrow> balanceComputation" where
  "runBalanceOp (OpSet a v) bc = SetBalanceToAddress a v bc"
| "runBalanceOp (OpAdd a v) bc = snd (AddBalanceToAddress a v bc)"
| "runBalanceOp (OpSub a v) bc = snd (SubBalanceFromAddress a v bc)"

fun credit_ok :: "balanceOp \<Rightarrow> bool" where
  "credit_ok (OpSet a v) = (0 \<le> v)"
| "credit_ok (OpAdd a v) = (0 \<le> v)"
| "credit_ok (OpSub a v) = True"

definition balances_ok :: "balanceComputation \<Rightarrow> bool" where
  "balances_ok bc \<longleftrightarrow> (\<forall>a b. mapAddressBalance bc a = Some b \<longrightarrow> 0 \<le> b)"

lemma runBalanceOp_ok: "balances_ok bc \<Longrightarrow> credit_ok op \<Longrightarrow> balances_ok (runBalanceOp op bc)"
  by (cases op) (auto simp: balances_ok_def SetBalanceToAddress_def AddBalanceToAddress_def SubBalanceFromAddress_def
      split: option.splits if_splits)

lemma runBalanceOps_ok: "list_all credit_ok ops \<Longrightarrow> balances_ok bc \<Longrightarrow> balances_ok (fold runBalanceOp ops bc)"
  by (induction ops arbitrary: bc) (auto intro: runBalanceOp_ok)



subsection \<open>Block size\<close>

text \<open>\<open>MaxTransactionsInOneMiniblock\<close> agrees with the size test: in an empty block, one miniblock with
  \<open>n\<close> transactions exceeds the maximum size exactly when \<open>n\<close> is greater than it, as long as the sizes are
  computed without wrapping around.\<close>

theorem max_transactions_agrees_with_size_test:
  assumes "txSize bsc \<noteq> 0" "miniblockSize bsc \<le> maxSize bsc" "numMiniBlocks bsc = 0" "numTxs bsc = 0"
    and "unat (miniblockSize bsc) + unat (txSize bsc) * n < 2 ^ 32" "n < 2 ^ 32"
  shows "\<exists>m. MaxTransactionsInOneMiniblock bsc = Some m \<and>
    (IsMaxBlockSizeWithoutThrottleReached 1 (int n) bsc \<longleftrightarrow> m < int n)"
proof -
  let ?mb = "unat (miniblockSize bsc)" and ?tx = "unat (txSize bsc)" and ?mx = "unat (maxSize bsc)"
  have le: "?mb \<le> ?mx" using assms(2) by (simp add: word_le_nat_alt)
  have tx: "0 < ?tx" using assms(1) by (simp add: unat_gt_0)
  have "unat (miniblockSize bsc + txSize bsc * word_of_nat n) = ?mb + ?tx * n"
    using assms(5,6) by (simp add: unat_word_ariths unat_of_nat take_bit_nat_def)
  then have "IsMaxBlockSizeWithoutThrottleReached 1 (int n) bsc \<longleftrightarrow> ?mx < ?mb + ?tx * n"
    using assms(3,4) by (simp add: IsMaxBlockSizeWithoutThrottleReached_def isMaxBlockSizeWithoutThrottleReached_def
        word_less_nat_alt)
  also have "\<dots> \<longleftrightarrow> (?mx - ?mb) div ?tx < n"
    using le tx by (simp add: div_less_iff_less_mult mult.commute less_diff_conv2 add.commute)
  also have "\<dots> \<longleftrightarrow> uint ((maxSize bsc - miniblockSize bsc) div txSize bsc) < int n"
    using le by (simp add: uint_nat unat_div unat_sub_if_size)
  finally show ?thesis using assms(1) by (simp add: MaxTransactionsInOneMiniblock_def)
qed

theorem max_transactions_agrees_with_size_test_witness:
  "IsMaxBlockSizeWithoutThrottleReached 1 28 \<lparr>miniblockSize = 50, txSize = 34, numMiniBlocks = 0, numTxs = 0, maxSize = 1000\<rparr>"
  using max_transactions_agrees_with_size_test
    [of "\<lparr>miniblockSize = 50, txSize = 34, numMiniBlocks = 0, numTxs = 0, maxSize = 1000\<rparr>" 28]
  by (simp add: MaxTransactionsInOneMiniblock_def)

end
