(* ===== verification/Shard_Coordinator.thy ===== *)
theory Shard_Coordinator
  imports Go_Prelude
begin

text \<open>
  The assignment of addresses to shards, \<open>sharding/multiShardCoordinator.go\<close>. The tests for an empty
  address and for a smart contract on the metachain are functions of the core library and parameters here.
  \<open>math.Ceil(math.Log2(x))\<close> of a \<open>uint32\<close> is exact in \<open>float64\<close> and is the integer function \<open>ceilLog2\<close>. For one
  shard the source converts the float -1 to an unsigned integer, whose value the language leaves to the
  implementation: the low mask of that case is the parameter \<open>lowOfOne\<close>.
\<close>

datatype shard_error = ErrInvalidNumberOfShards | ErrInvalidShardId

definition metaShard :: u32 where
  "metaShard = 0xFFFFFFFF"

record multiShardCoordinator =
  maskHigh :: u32
  maskLow :: u32
  selfId :: u32
  numberOfShards :: u32

record addressTests =
  IsEmptyAddress :: "bytes \<Rightarrow> bool"
  IsSmartContractOnMetachain :: "bytes \<Rightarrow> bytes \<Rightarrow> bool"
  lowOfOne :: u32

fun ceilLog2 :: "nat \<Rightarrow> nat" where
  "ceilLog2 n = (if n \<le> 1 then 0 else Suc (ceilLog2 ((n + 1) div 2)))"

declare ceilLog2.simps [simp del]

definition calculateMasks :: "addressTests \<Rightarrow> u32 \<Rightarrow> u32 \<times> u32" where
  "calculateMasks D shards =
     (let n = ceilLog2 (unat shards)
      in (push_bit n 1 - 1, if n = 0 then lowOfOne D else push_bit (n - 1) 1 - 1))"

definition NewMultiShardCoordinator :: "addressTests \<Rightarrow> u32 \<Rightarrow> u32 \<Rightarrow> shard_error + multiShardCoordinator" where
  "NewMultiShardCoordinator D shards self =
     (if shards < 1 then Inl ErrInvalidNumberOfShards
      else if self \<ge> shards \<and> self \<noteq> metaShard then Inl ErrInvalidShardId
      else Inr \<lparr>maskHigh = fst (calculateMasks D shards), maskLow = snd (calculateMasks D shards),
                selfId = self, numberOfShards = shards\<rparr>)"

definition bytesNeed :: "u32 \<Rightarrow> nat" where
  "bytesNeed shards =
     (if shards \<le> 256 then 1 else if shards \<le> 65536 then 2 else if shards \<le> 16777216 then 3 else 4)"

text \<open>The loop that reads the last bytes as a big-endian number.\<close>

definition addrOf :: "bytes \<Rightarrow> u32" where
  "addrOf buff = foldl (\<lambda>addr b. push_bit 8 addr + ucast b) 0 buff"

definition ComputeIdFromBytes :: "addressTests \<Rightarrow> multiShardCoordinator \<Rightarrow> bytes \<Rightarrow> u32" where
  "ComputeIdFromBytes D msc address =
     (if IsEmptyAddress D address then selfId msc
      else
        let need = bytesNeed (numberOfShards msc);
            startingIndex = (if length address > need then length address - need else 0);
            buffNeeded = drop startingIndex address
        in if IsSmartContractOnMetachain D buffNeeded address then metaShard
           else
             let addr = addrOf buffNeeded;
                 shard = addr AND maskHigh msc
             in if shard > numberOfShards msc - 1 then addr AND maskLow msc else shard)"

definition ComputeId :: "addressTests \<Rightarrow> multiShardCoordinator \<Rightarrow> bytes \<Rightarrow> u32" where
  "ComputeId D msc address = ComputeIdFromBytes D msc address"

definition SameShard :: "addressTests \<Rightarrow> multiShardCoordinator \<Rightarrow> bytes \<Rightarrow> bytes \<Rightarrow> bool" where
  "SameShard D msc a b =
     (if IsEmptyAddress D a \<or> IsEmptyAddress D b then True
      else if a = b then True
      else ComputeId D msc a = ComputeId D msc b)"

subsection \<open>The masks\<close>

lemma ceilLog2_bounds: "0 < n \<Longrightarrow> n \<le> 2 ^ ceilLog2 n \<and> (1 < n \<longrightarrow> 2 ^ (ceilLog2 n - 1) < n)"
proof (induction n rule: ceilLog2.induct)
  case (1 n)
  show ?case
  proof (cases "n \<le> 1")
    case True
    with 1 show ?thesis by (simp add: ceilLog2.simps)
  next
    case False
    let ?m = "(n + 1) div 2"
    have m: "0 < ?m" "?m \<le> 2 ^ ceilLog2 ?m" "1 < ?m \<longrightarrow> 2 ^ (ceilLog2 ?m - 1) < ?m"
      using 1 False by auto
    have eq: "ceilLog2 n = Suc (ceilLog2 ?m)" using False by (simp add: ceilLog2.simps)
    have "2 ^ ceilLog2 ?m < n"
    proof (cases "1 < ?m")
      case True
      then have "ceilLog2 ?m \<noteq> 0" by (simp add: ceilLog2.simps)
      then have "(2::nat) ^ ceilLog2 ?m = 2 * 2 ^ (ceilLog2 ?m - 1)" by (simp add: power_eq_if)
      moreover have "2 ^ (ceilLog2 ?m - 1) + 1 \<le> ?m" using m(3) True by simp
      ultimately show ?thesis by linarith
    next
      case small: False
      then have "?m = 1" using m(1) by simp
      then show ?thesis using False by (simp add: ceilLog2.simps)
    qed
    moreover have "n \<le> 2 * ?m" by simp
    ultimately show ?thesis using m(2) eq by simp
  qed
qed

lemma and_mask: "unat (w AND (2 ^ n - 1) :: u32) = unat w mod 2 ^ n"
proof -
  have "2 ^ n - 1 = (mask n :: u32)" by (simp add: mask_eq_exp_minus_1)
  then show ?thesis by (simp add: take_bit_eq_mask [symmetric] unsigned_take_bit_eq take_bit_nat_def)
qed

text \<open>The reference function: the low bits of the address, one bit fewer when they name no shard.\<close>

definition shardByMod :: "nat \<Rightarrow> nat \<Rightarrow> nat" where
  "shardByMod shards addr =
     (let k = ceilLog2 shards in if addr mod 2 ^ k < shards then addr mod 2 ^ k else addr mod 2 ^ (k - 1))"

lemma shardByMod_less: "0 < n \<Longrightarrow> shardByMod n a < n"
proof (cases "1 < n")
  case True
  then have "2 ^ (ceilLog2 n - 1) < n" using ceilLog2_bounds [of n] by simp
  moreover have "a mod 2 ^ (ceilLog2 n - 1) < 2 ^ (ceilLog2 n - 1)" by simp
  ultimately have "a mod 2 ^ (ceilLog2 n - 1) < n" by (rule order.strict_trans [rotated])
  then show ?thesis by (simp add: shardByMod_def Let_def)
next
  case False
  moreover assume "0 < n"
  ultimately have "n = 1" by simp
  then show ?thesis by (simp add: shardByMod_def ceilLog2.simps)
qed

lemma shardByMod_surj: "i < n \<Longrightarrow> shardByMod n i = i"
  using ceilLog2_bounds [of n] by (simp add: shardByMod_def Let_def)

lemma masked_shard:
  assumes "NewMultiShardCoordinator D shards self = Inr msc"
  shows "(if a AND maskHigh msc > numberOfShards msc - 1 then a AND maskLow msc else a AND maskHigh msc) =
    word_of_nat (shardByMod (unat shards) (unat a))"
proof -
  have msc: "maskHigh msc = 2 ^ ceilLog2 (unat shards) - 1" "numberOfShards msc = shards" "0 < unat shards"
      "maskLow msc = (if ceilLog2 (unat shards) = 0 then lowOfOne D else 2 ^ (ceilLog2 (unat shards) - 1) - 1)"
    using assms
    by (auto simp: NewMultiShardCoordinator_def calculateMasks_def Let_def unat_gt_0 split: if_splits)
  let ?k = "ceilLog2 (unat shards)"
  have gt: "(a AND maskHigh msc > numberOfShards msc - 1) \<longleftrightarrow> \<not> unat a mod 2 ^ ?k < unat shards"
    using msc(3) by (auto simp: word_less_nat_alt msc(1,2) and_mask unat_sub_if_size not_less)
  show ?thesis
  proof (cases "unat a mod 2 ^ ?k < unat shards")
    case True
    then show ?thesis using gt
      by (simp add: shardByMod_def msc(1) flip: and_mask)
  next
    case False
    then have "?k \<noteq> 0" using msc(3) by (cases "?k") auto
    with False gt show ?thesis
      by (simp add: shardByMod_def msc(4) Let_def flip: and_mask)
  qed
qed

subsection \<open>Results\<close>

text \<open>C25. A coordinator assigns an address that is neither empty nor a metachain contract to the shard
  given by the low bits of its last bytes, one bit fewer when those name no shard; this is always one of
  the shards, and two addresses with the same last bytes go to the same shard.\<close>

theorem compute_id_is_a_shard:
  assumes "NewMultiShardCoordinator D shards self = Inr msc" "\<not> IsEmptyAddress D address"
    and "\<not> IsSmartContractOnMetachain D (drop (length address - bytesNeed shards) address) address"
  shows "ComputeId D msc address =
      word_of_nat (shardByMod (unat shards) (unat (addrOf (drop (length address - bytesNeed shards) address)))) \<and>
    ComputeId D msc address < shards"
proof -
  have n: "numberOfShards msc = shards" "0 < unat shards"
    using assms(1) by (auto simp: NewMultiShardCoordinator_def unat_gt_0 split: if_splits)
  have start: "(if length address > bytesNeed shards then length address - bytesNeed shards else 0) =
      length address - bytesNeed shards" by simp
  have id: "ComputeId D msc address =
      word_of_nat (shardByMod (unat shards) (unat (addrOf (drop (length address - bytesNeed shards) address))))"
    using assms(2,3) masked_shard [OF assms(1)]
    unfolding ComputeId_def ComputeIdFromBytes_def n(1) start Let_def by simp
  let ?s = "shardByMod (unat shards) (unat (addrOf (drop (length address - bytesNeed shards) address)))"
  have "?s < unat shards" by (rule shardByMod_less [OF n(2)])
  moreover have "unat shards < 2 ^ 32" using unsigned_less [of shards, where ?'a = nat] by simp
  ultimately have "unat (word_of_nat ?s :: u32) < unat shards"
    by (simp add: unat_of_nat take_bit_nat_eq_self)
  with id show ?thesis by (simp add: word_less_nat_alt)
qed

definition demo_tests :: addressTests where
  "demo_tests = \<lparr>IsEmptyAddress = \<lambda>a. a = [], IsSmartContractOnMetachain = \<lambda>_ a. length a > 8 \<and> take 8 a = replicate 8 0,
     lowOfOne = 0\<rparr>"

theorem compute_id_is_a_shard_witness:
  "\<exists>msc. NewMultiShardCoordinator demo_tests 3 0 = Inr msc \<and> ComputeId demo_tests msc [9, 7] = 1"
proof -
  obtain msc where msc: "NewMultiShardCoordinator demo_tests 3 0 = Inr msc"
    by (simp add: NewMultiShardCoordinator_def)
  have "ComputeId demo_tests msc [9, 7] = word_of_nat (shardByMod 3 (unat (addrOf [7])))"
    using compute_id_is_a_shard [OF msc, of "[9, 7]"] by (simp add: demo_tests_def bytesNeed_def)
  also have "\<dots> = 1" by (simp add: shardByMod_def addrOf_def ceilLog2.simps Let_def)
  finally show ?thesis using msc by blast
qed

end
