(* ===== verification/Rating.thy ===== *)
theory Rating
  imports Go_Prelude
begin

text \<open>
  The rating of validators, \<open>process/rating/blockSigningRater.go\<close>. Steps are signed 32-bit words, ratings
  unsigned ones; intermediate sums are 64-bit in the source and cannot overflow, they are integers here.
  The penalty for consecutive misses is computed in floating point: the float type and its operations are
  a parameter (\<open>floatOps\<close>), and no theorem relies on their values beyond the result being an \<open>int32\<close>.
\<close>

type_synonym i32 = "32 word"

datatype rating_error = ErrMinRatingSmallerThanOne | ErrMaxRatingIsSmallerThanMinRating
  | ErrStartRatingNotBetweenMinAndMax | ErrNoChancesProvided | ErrSignedBlocksThresholdNotBetweenZeroAndOne
  | ErrConsecutiveMissedBlocksPenaltyLowerThanOne | ErrDecreaseRatingsStepMoreThanMinusOne
  | ErrNilMinChanceIfZero | ErrDuplicateThreshold | ErrNoChancesForMaxThreshold

record 'f floatOps =
  fOfInt :: "int \<Rightarrow> 'f"
  fMul :: "'f \<Rightarrow> 'f \<Rightarrow> 'f"
  fLess :: "'f \<Rightarrow> 'f \<Rightarrow> bool"
  fToInt32 :: "'f \<Rightarrow> i32"

record 'f ratingStep =
  ProposerIncreaseRatingStep :: i32
  ProposerDecreaseRatingStep :: i32
  ValidatorIncreaseRatingStep :: i32
  ValidatorDecreaseRatingStep :: i32
  ConsecutiveMissedBlocksPenalty :: 'f

record selectionChance =
  maxThreshold :: u32
  chancePercentage :: u32

record 'f ratingsInfo =
  StartRating :: u32
  MaxRating :: u32
  MinRating :: u32
  SignedBlocksThreshold :: 'f
  MetaSteps :: "'f ratingStep"
  ShardSteps :: "'f ratingStep"
  SelectionChances :: "selectionChance list"

record 'f blockSigningRater =
  startRating :: u32
  signedBlocksThreshold :: 'f
  maxRating :: u32
  minRating :: u32
  shardRatingsStepHandler :: "'f ratingStep"
  metaRatingsStepHandler :: "'f ratingStep"
  ratingChances :: "selectionChance list"

definition ratingMetaShard :: u32 where
  "ratingMetaShard = 0xFFFFFFFF"

definition maxDecreaseValue :: int where
  "maxDecreaseValue = - (2 ^ 31)"

definition verifyRatingsData :: "'f floatOps \<Rightarrow> 'f ratingsInfo \<Rightarrow> rating_error option" where
  "verifyRatingsData F r =
     (if MinRating r < 1 then Some ErrMinRatingSmallerThanOne
      else if MinRating r > MaxRating r then Some ErrMaxRatingIsSmallerThanMinRating
      else if MaxRating r < StartRating r \<or> MinRating r > StartRating r then Some ErrStartRatingNotBetweenMinAndMax
      else if length (SelectionChances r) = 0 then Some ErrNoChancesProvided
      else if fLess F (SignedBlocksThreshold r) (fOfInt F 0) \<or> fLess F (fOfInt F 1) (SignedBlocksThreshold r)
        then Some ErrSignedBlocksThresholdNotBetweenZeroAndOne
      else if fLess F (ConsecutiveMissedBlocksPenalty (MetaSteps r)) (fOfInt F 1)
        then Some ErrConsecutiveMissedBlocksPenaltyLowerThanOne
      else if fLess F (ConsecutiveMissedBlocksPenalty (ShardSteps r)) (fOfInt F 1)
        then Some ErrConsecutiveMissedBlocksPenaltyLowerThanOne
      else if sint (ProposerDecreaseRatingStep (ShardSteps r)) > -1 \<or> sint (ValidatorDecreaseRatingStep (ShardSteps r)) > -1
        then Some ErrDecreaseRatingsStepMoreThanMinusOne
      else if sint (ProposerDecreaseRatingStep (MetaSteps r)) > -1 \<or> sint (ValidatorDecreaseRatingStep (MetaSteps r)) > -1
        then Some ErrDecreaseRatingsStepMoreThanMinusOne
      else None)"

fun duplicateThreshold :: "selectionChance list \<Rightarrow> bool" where
  "duplicateThreshold (a # b # cs) = (maxThreshold a = maxThreshold b \<or> duplicateThreshold (b # cs))"
| "duplicateThreshold _ = False"

definition NewBlockSigningRater :: "'f floatOps \<Rightarrow> 'f ratingsInfo \<Rightarrow> rating_error + 'f blockSigningRater" where
  "NewBlockSigningRater F r = (case verifyRatingsData F r of
     Some e \<Rightarrow> Inl e
   | None \<Rightarrow>
       (let chances = sort_key maxThreshold (SelectionChances r)
        in if maxThreshold (hd chances) > 0 then Inl ErrNilMinChanceIfZero
           else if duplicateThreshold chances then Inl ErrDuplicateThreshold
           else if maxThreshold (last chances) \<noteq> MaxRating r then Inl ErrNoChancesForMaxThreshold
           else Inr \<lparr>startRating = StartRating r, signedBlocksThreshold = SignedBlocksThreshold r,
             maxRating = MaxRating r, minRating = MinRating r, shardRatingsStepHandler = ShardSteps r,
             metaRatingsStepHandler = MetaSteps r, ratingChances = chances\<rparr>))"

definition computeRating :: "'f blockSigningRater \<Rightarrow> i32 \<Rightarrow> u32 \<Rightarrow> u32" where
  "computeRating bsr step current =
     (let newVal = uint current + sint step
      in if newVal < uint (minRating bsr) then minRating bsr
         else if newVal > uint (maxRating bsr) then maxRating bsr
         else word_of_int newVal)"

definition stepsOf :: "'f blockSigningRater \<Rightarrow> u32 \<Rightarrow> 'f ratingStep" where
  "stepsOf bsr shardId = (if shardId = ratingMetaShard then metaRatingsStepHandler bsr else shardRatingsStepHandler bsr)"

definition ComputeIncreaseProposer :: "'f blockSigningRater \<Rightarrow> u32 \<Rightarrow> u32 \<Rightarrow> u32" where
  "ComputeIncreaseProposer bsr shardId current =
     computeRating bsr (ProposerIncreaseRatingStep (stepsOf bsr shardId)) current"

text \<open>The product is a \<open>big.Int\<close> that fits 64 bits; \<open>-ratingStep\<close> is a 32-bit negation.\<close>

definition RevertIncreaseValidator :: "'f blockSigningRater \<Rightarrow> u32 \<Rightarrow> u32 \<Rightarrow> u32 \<Rightarrow> u32" where
  "RevertIncreaseValidator bsr shardId current nrReverts =
     (let decreaseInt = sint (- ValidatorIncreaseRatingStep (stepsOf bsr shardId)) * uint nrReverts;
          decreaseValue = (if decreaseInt < maxDecreaseValue \<or> decreaseInt > 0 then maxDecreaseValue else decreaseInt)
      in computeRating bsr (word_of_int decreaseValue) current)"

fun penaltyLoop :: "'f floatOps \<Rightarrow> 'f \<Rightarrow> nat \<Rightarrow> 'f \<Rightarrow> 'f" where
  "penaltyLoop F penalty 0 acc = acc"
| "penaltyLoop F penalty (Suc n) acc =
     (let acc' = fMul F acc penalty
      in if fLess F acc' (fOfInt F maxDecreaseValue) then fOfInt F maxDecreaseValue else penaltyLoop F penalty n acc')"

definition ComputeDecreaseProposer :: "'f floatOps \<Rightarrow> 'f blockSigningRater \<Rightarrow> u32 \<Rightarrow> u32 \<Rightarrow> u32 \<Rightarrow> u32" where
  "ComputeDecreaseProposer F bsr shardId current consecutiveMisses =
     (let step = ProposerDecreaseRatingStep (stepsOf bsr shardId);
          penalty = ConsecutiveMissedBlocksPenalty (stepsOf bsr shardId);
          computed = penaltyLoop F penalty (unat consecutiveMisses) (fOfInt F (sint step))
      in computeRating bsr (fToInt32 F computed) current)"

definition ComputeIncreaseValidator :: "'f blockSigningRater \<Rightarrow> u32 \<Rightarrow> u32 \<Rightarrow> u32" where
  "ComputeIncreaseValidator bsr shardId current =
     computeRating bsr (ValidatorIncreaseRatingStep (stepsOf bsr shardId)) current"

definition ComputeDecreaseValidator :: "'f blockSigningRater \<Rightarrow> u32 \<Rightarrow> u32 \<Rightarrow> u32" where
  "ComputeDecreaseValidator bsr shardId current =
     computeRating bsr (ValidatorDecreaseRatingStep (stepsOf bsr shardId)) current"

fun chanceLoop :: "u32 \<Rightarrow> selectionChance list \<Rightarrow> u32 \<Rightarrow> u32" where
  "chanceLoop current [] chance = chance"
| "chanceLoop current (c # cs) chance =
     (if current > maxThreshold c then chanceLoop current cs chance else chancePercentage c)"

definition GetChance :: "'f blockSigningRater \<Rightarrow> u32 \<Rightarrow> u32" where
  "GetChance bsr current = chanceLoop current (ratingChances bsr) (chancePercentage (hd (ratingChances bsr)))"

subsection \<open>The rating stays between its bounds\<close>

lemma sort_key_Nil_iff [simp]: "sort_key f xs = [] \<longleftrightarrow> xs = []"
  by (metis length_0_conv length_sort)

lemma NewBlockSigningRater_ok:
  assumes "NewBlockSigningRater F r = Inr bsr"
  shows "minRating bsr \<le> startRating bsr" "startRating bsr \<le> maxRating bsr" "0 < minRating bsr"
    "sorted (map maxThreshold (ratingChances bsr))" "ratingChances bsr \<noteq> []"
    "maxThreshold (last (ratingChances bsr)) = maxRating bsr"
    "sint (ValidatorDecreaseRatingStep (stepsOf bsr s)) \<le> -1"
    "set (ratingChances bsr) = set (SelectionChances r)"
  using assms
  by (auto simp: NewBlockSigningRater_def verifyRatingsData_def Let_def stepsOf_def not_less word_greater_zero_iff
      split: if_splits option.splits)

lemma uint_of_int32: "0 \<le> v \<Longrightarrow> v < 2 ^ 32 \<Longrightarrow> uint (word_of_int v :: u32) = v"
  by (simp add: uint_word_of_int_eq take_bit_int_eq_self)

lemma computeRating_int:
  assumes "minRating bsr \<le> maxRating bsr"
  shows "uint (computeRating bsr step current) =
    min (uint (maxRating bsr)) (max (uint (minRating bsr)) (uint current + sint step))"
proof -
  let ?v = "uint current + sint step"
  have b: "uint (minRating bsr) \<le> uint (maxRating bsr)" "0 \<le> uint (minRating bsr)" "uint (maxRating bsr) < 2 ^ 32"
    using assms unsigned_less [of "maxRating bsr", where ?'a = int] by (simp_all add: word_le_def)
  have "uint (word_of_int ?v :: u32) = ?v" if "uint (minRating bsr) \<le> ?v" "?v \<le> uint (maxRating bsr)"
    by (rule uint_of_int32) (use b that in linarith)+
  with b(1) show ?thesis
    unfolding computeRating_def Let_def by (auto simp: min_def max_def simp del: of_int_add)
qed

lemma rating_clamped:
  assumes "minRating bsr \<le> maxRating bsr"
  shows "minRating bsr \<le> computeRating bsr step current" "computeRating bsr step current \<le> maxRating bsr"
  using computeRating_int [OF assms] assms by (simp_all add: word_le_def)

lemma computeRating_exact:
  assumes "minRating bsr \<le> maxRating bsr" "uint (minRating bsr) \<le> uint current + sint step"
    "uint current + sint step \<le> uint (maxRating bsr)"
  shows "uint (computeRating bsr step current) = uint current + sint step"
  using computeRating_int [OF assms(1), of step current] assms(2,3) by simp

lemma increase_iterated:
  assumes "minRating bsr \<le> maxRating bsr" "minRating bsr \<le> r" "0 \<le> sint st"
    and "uint r + int n * sint st \<le> uint (maxRating bsr)"
  shows "uint ((computeRating bsr st ^^ n) r) = uint r + int n * sint st"
  using assms(4)
proof (induction n)
  case (Suc n)
  have split: "int (Suc n) * sint st = int n * sint st + sint st" by (simp add: distrib_right)
  have nn: "0 \<le> int n * sint st" using assms(3) by simp
  have IH: "uint ((computeRating bsr st ^^ n) r) = uint r + int n * sint st"
    using Suc split assms(3) by simp
  moreover have "uint (minRating bsr) \<le> uint r" using assms(2) by (simp add: word_le_def)
  ultimately show ?case
    using computeRating_exact [OF assms(1), of "(computeRating bsr st ^^ n) r" st] Suc.prems split nn assms(3)
    by (simp add: algebra_simps)
qed simp

lemma sint_neg32: "0 \<le> sint (w :: i32) \<Longrightarrow> sint (- w) = - sint w"
  using sint_lt [of w] by (simp add: sint_word_ariths signed_take_bit_int_eq_self)

lemma sint_of_int32: "- (2 ^ 31) \<le> v \<Longrightarrow> v < 2 ^ 31 \<Longrightarrow> sint (word_of_int v :: i32) = v"
  by (simp add: signed_of_int signed_take_bit_int_eq_self)

subsection \<open>Results\<close>

text \<open>C26. Every rating a successfully created rater computes, for increases, decreases, penalties of any
  length and reverts, is between its minimum and its maximum rating; and a decrease of a validator's rating
  does not raise a rating that is within the bounds.\<close>

theorem ratings_stay_in_bounds:
  assumes "NewBlockSigningRater F r = Inr bsr"
  shows "list_all (\<lambda>x. minRating bsr \<le> x \<and> x \<le> maxRating bsr)
      [ComputeIncreaseProposer bsr s c, ComputeIncreaseValidator bsr s c, ComputeDecreaseValidator bsr s c,
       ComputeDecreaseProposer F bsr s c n, RevertIncreaseValidator bsr s c n] \<and>
    (minRating bsr \<le> c \<longrightarrow> ComputeDecreaseValidator bsr s c \<le> c)"
proof -
  note ok = NewBlockSigningRater_ok [OF assms]
  from ok(1,2) have mm: "minRating bsr \<le> maxRating bsr" by (rule order_trans)
  have "minRating bsr \<le> c \<longrightarrow> ComputeDecreaseValidator bsr s c \<le> c"
    using computeRating_int [OF mm, of "ValidatorDecreaseRatingStep (stepsOf bsr s)" c] ok(7) [of s]
    by (simp add: ComputeDecreaseValidator_def word_le_def min_def max_def)
  then show ?thesis
    using rating_clamped [OF mm]
    by (simp add: ComputeIncreaseProposer_def ComputeIncreaseValidator_def ComputeDecreaseValidator_def
        ComputeDecreaseProposer_def RevertIncreaseValidator_def Let_def)
qed

text \<open>An instance with integers as floats.\<close>

definition demo_float :: "int floatOps" where
  "demo_float = \<lparr>fOfInt = id, fMul = (*), fLess = (<), fToInt32 = word_of_int\<rparr>"

definition demo_steps :: "int ratingStep" where
  "demo_steps = \<lparr>ProposerIncreaseRatingStep = 2, ProposerDecreaseRatingStep = -4, ValidatorIncreaseRatingStep = 1,
     ValidatorDecreaseRatingStep = -2, ConsecutiveMissedBlocksPenalty = 2\<rparr>"

definition demo_info :: "int ratingsInfo" where
  "demo_info = \<lparr>StartRating = 50, MaxRating = 100, MinRating = 1, SignedBlocksThreshold = 0, MetaSteps = demo_steps,
     ShardSteps = demo_steps, SelectionChances = [\<lparr>maxThreshold = 100, chancePercentage = 20\<rparr>, \<lparr>maxThreshold = 0, chancePercentage = 5\<rparr>]\<rparr>"

definition demo_rater :: "int blockSigningRater" where
  "demo_rater = \<lparr>startRating = 50, signedBlocksThreshold = 0, maxRating = 100, minRating = 1,
     shardRatingsStepHandler = demo_steps, metaRatingsStepHandler = demo_steps,
     ratingChances = [\<lparr>maxThreshold = 0, chancePercentage = 5\<rparr>, \<lparr>maxThreshold = 100, chancePercentage = 20\<rparr>]\<rparr>"

lemma demo_rater_new: "NewBlockSigningRater demo_float demo_info = Inr demo_rater"
  by (simp add: NewBlockSigningRater_def verifyRatingsData_def demo_float_def demo_info_def demo_steps_def demo_rater_def)

theorem ratings_stay_in_bounds_witness:
  "ComputeDecreaseProposer demo_float demo_rater 0 10 7 \<ge> 1"
  using ratings_stay_in_bounds [OF demo_rater_new, of 0 10 7] by (simp add: demo_rater_def)

text \<open>C27. Reverting undoes increases: when a rating was raised \<open>n\<close> times without reaching the maximum,
  \<open>RevertIncreaseValidator\<close> with \<open>n\<close> gives the original rating back.\<close>

theorem revert_undoes_increases:
  assumes "NewBlockSigningRater F info = Inr bsr" "minRating bsr \<le> r"
    and "0 \<le> sint (ValidatorIncreaseRatingStep (stepsOf bsr s))"
    and "uint r + uint n * sint (ValidatorIncreaseRatingStep (stepsOf bsr s)) \<le> uint (maxRating bsr)"
    and "uint n * sint (ValidatorIncreaseRatingStep (stepsOf bsr s)) \<le> 2 ^ 31"
  shows "RevertIncreaseValidator bsr s ((ComputeIncreaseValidator bsr s ^^ unat n) r) n = r"
proof -
  let ?st = "ValidatorIncreaseRatingStep (stepsOf bsr s)" and ?cur = "(ComputeIncreaseValidator bsr s ^^ unat n) r"
  note ok = NewBlockSigningRater_ok [OF assms(1)]
  from ok(1,2) have mm: "minRating bsr \<le> maxRating bsr" by (rule order_trans)
  have "ComputeIncreaseValidator bsr s = computeRating bsr ?st"
    by (simp add: ComputeIncreaseValidator_def fun_eq_iff)
  then have cur: "uint ?cur = uint r + uint n * sint ?st"
    using increase_iterated [OF mm assms(2,3), of "unat n"] assms(4) by simp
  have nn: "0 \<le> uint n * sint ?st" using assms(3) by simp
  have "sint (- ?st) * uint n = - (uint n * sint ?st)"
    using sint_neg32 [OF assms(3)] by simp
  then have "RevertIncreaseValidator bsr s ?cur n = computeRating bsr (word_of_int (- (uint n * sint ?st))) ?cur"
    using nn assms(5) by (simp add: RevertIncreaseValidator_def maxDecreaseValue_def Let_def)
  moreover have dec: "sint (word_of_int (- (uint n * sint ?st)) :: i32) = - (uint n * sint ?st)"
    by (rule sint_of_int32) (use nn assms(5) in simp_all)
  moreover have "uint (minRating bsr) \<le> uint r" "uint r \<le> uint (maxRating bsr)"
    using assms(2,4) nn by (simp_all add: word_le_def)
  ultimately have "uint (RevertIncreaseValidator bsr s ?cur n) = uint r"
    using computeRating_exact [OF mm, of ?cur "word_of_int (- (uint n * sint ?st))"] cur by simp
  then show ?thesis by (simp add: word_uint_eq_iff)
qed

theorem revert_undoes_increases_witness:
  "RevertIncreaseValidator demo_rater 0 ((ComputeIncreaseValidator demo_rater 0 ^^ 3) 60) 3 = 60"
  using revert_undoes_increases [OF demo_rater_new, of 60 0 3]
  by (simp add: demo_rater_def stepsOf_def demo_steps_def ratingMetaShard_def)

text \<open>For every rating up to the maximum, the chance is that of the smallest threshold that is not
  below the rating.\<close>

theorem chance_of_smallest_threshold:
  assumes "NewBlockSigningRater F info = Inr bsr" "rating \<le> maxRating bsr"
  shows "\<exists>c \<in> set (SelectionChances info). GetChance bsr rating = chancePercentage c \<and> rating \<le> maxThreshold c \<and>
    (\<forall>d \<in> set (SelectionChances info). rating \<le> maxThreshold d \<longrightarrow> maxThreshold c \<le> maxThreshold d)"
proof -
  note ok = NewBlockSigningRater_ok [OF assms(1)]
  have "\<exists>c \<in> set cs. chanceLoop rating cs ch = chancePercentage c \<and> rating \<le> maxThreshold c \<and>
      (\<forall>d \<in> set cs. rating \<le> maxThreshold d \<longrightarrow> maxThreshold c \<le> maxThreshold d)"
    if "sorted (map maxThreshold cs)" "cs \<noteq> []" "rating \<le> maxThreshold (last cs)" for cs ch
    using that by (induction cs) (auto split: if_splits)
  from this [OF ok(4,5)] ok(6) assms(2) show ?thesis
    unfolding GetChance_def ok(8) by simp
qed

theorem chance_of_smallest_threshold_witness: "GetChance demo_rater 60 = 20"
  using chance_of_smallest_threshold [OF demo_rater_new, of 60] by (simp add: demo_rater_def demo_info_def)

end
