(* ===== verification/Spec2Isabelle.thy ===== *)
theory Spec2Isabelle
  imports Accounts_Properties Staking_Properties Vm_Theorems Trie_Theorems Trie_Proof Trie_Keys Validator_Theorems Fork_Theorems Peer_Theorems Gas_Theorems
    Fee_Accounting Shard_Coordinator Rating
begin

text \<open>
  \<^bold>\<open>A verification library for the MultiversX node (mx-chain-deep-history-go)\<close>

  \<^bold>\<open>The program.\<close> The node keeps the state of a shard in Patricia-Merkle tries (package \<open>trie\<close>) over a key-value
  store. The main trie maps addresses to accounts and hashes to smart contract code; every account with storage has a
  data trie of its own. \<open>state.AccountsDB\<close> gives transactions their view of these tries: they load accounts, change
  them, save them, and may be undone with a journal; a commit writes all changed tries and their root hash goes into
  the header of the block. Around it, the processors meter gas, fees, balances and block sizes, the fork detectors
  decide which chain to follow, validators are rated and shuffled between shards at epoch changes, and peers are
  mapped to shards.

  \<^bold>\<open>Layers.\<close> \<open>Go_Prelude\<close> holds what all theories share: byte strings, machine integers, slices (\<open>None\<close> is the nil
  slice) and lemmas on words and association lists. A stateful component is a \<open>record\<close>; its methods are functions from the
  state to the new state and a result, where an error is a value (\<open>Inl\<close>, or \<open>Some\<close> for a method that returns only an
  error) and the state returned with an error is the one the code leaves behind. A Go map is an association list where
  its iteration order could matter, and the theorems are then stated for every order, and a map otherwise. Fixed width
  integers are words. Code of other modules (hashers, marshallers other than the generated one of the trie nodes,
  storers, epoch flags, round handlers, the functions of mx-chain-core-go) is a parameter; what is assumed of it is a
  named hypothesis, such as \<open>nonempty_hash\<close>, \<open>main_storer_laws\<close>, \<open>env_ok\<close>, \<open>hash_ok\<close> or \<open>acc_env_ok\<close>.

  \<^bold>\<open>The trie.\<close>
  \<^item> \<open>Proto_Codec\<close>: \<open>trie/node.pb.go\<close>, \<open>Marshal\<close>, \<open>Size\<close> and \<open>Unmarshal\<close> of the three node messages with the varint and
    skip loops. Decoding what was encoded gives the message back; the decoder ends because every loop consumes input.
  \<^item> \<open>Trie_Keys\<close>: keys and nibbles (\<open>trie/node.go\<close>, \<open>trie/keyBuilder\<close>).
  \<^item> \<open>Map_Interface\<close>, \<open>Trie_Spec\<close>: the specification, a finite map from keys to values with versions, as the locale of
    a map and a pure, canonical Patricia trie that interprets it.
  \<^item> \<open>Trie_Node\<close>, \<open>Trie_Ops\<close>, \<open>Trie_Main\<close>, \<open>Trie_Commit\<close>, \<open>Trie_Storage\<close>: leaf, extension and branch nodes as the code
    has them, with hashes, dirty flags and children that are collapsed to their hashes and loaded on demand from the
    storage; lookup, insertion, deletion, hashing, collapsing and commit (\<open>leafNode.go\<close>, \<open>extensionNode.go\<close>,
    \<open>branchNode.go\<close>), the trie object (\<open>patriciaMerkleTrie.go\<close>) and the storage managers (\<open>trieStorageManager*.go\<close>).
    Since children are loaded from a storage, lookup, insertion, deletion and proofs take fuel, one unit per node; the
    trie object gives one more than the length of the key, which is enough on every represented trie, so that the error
    \<open>OutOfFuel\<close> never occurs there. \<open>getAllHashes\<close>, where the storage alone decides about the depth, takes fuel too.
  \<^item> \<open>Trie_Rep\<close>, \<open>Trie_Refine\<close>, \<open>Trie_Hash\<close>: a node represents a pure trie when its loaded parts agree with it and its
    collapsed children are the encodings found in the storage. Every operation refines the pure one; the hash of a node
    is a function of the trie it represents.
  \<^item> \<open>Trie_Theorems\<close>, \<open>Trie_Proof\<close>: what the trie promises (C1 to C13): lookups and updates by content, one root hash
    per content whatever the order of the writes, durability of a commit, obsolete hashes, encoding, Merkle proofs.
  \<^item> \<open>Trie_Interface\<close>, \<open>Trie_Provider\<close>: the Go interface \<open>common.Trie\<close> as a record of operations, the laws its clients
    rely on as the locale \<open>trie_laws\<close>, and its interpretation on the Patricia-Merkle trie.

  \<^bold>\<open>The account state.\<close>
  \<^item> \<open>Trackable_Trie\<close>, \<open>Trackable_Theorems\<close>: an account's data trie with its dirty data
    (\<open>state/trackableDataTrie\<close>), keys stored plainly or under their hash, migrated on write.
  \<^item> \<open>Accounts_DB\<close>: \<open>state/accountsDB.go\<close>, \<open>state/journalEntries.go\<close>, \<open>state/dataTriesHolder.go\<close> and
    \<open>state/accounts/userAccount.go\<close>. Objects that are shared by pointer, accounts and data tries, live in a store and
    are referred to by their index, so that a journal entry undoes the object its caller may still hold.
  \<^item> \<open>Accounts_Content\<close>, \<open>Accounts_Journal\<close>, \<open>Accounts_Theorems\<close>, \<open>Accounts_Runs\<close>: the effect of each operation on the
    contents of the tries, what its journal entries undo, and runs of operations with nested reverts as an inductive
    relation. The client lemmas are proved in \<open>trie_laws\<close>.
  \<^item> \<open>Accounts_Properties\<close>: reverting restores every trie, code entries count their users, saved data read back (C31
    to C33), and a counterexample: an account that is reverted and created again loses its data (C34).

  \<^bold>\<open>The staking contract.\<close>
  \<^item> \<open>Staking_List\<close>, \<open>Staking_SC\<close>, \<open>Staking_Handlers\<close>: \<open>vm/systemSmartContracts/staking.go\<close>, \<open>stakingWaitingList.go\<close> and
    \<open>stakingSaveLoad.go\<close>, every function of the contract on its storage, a map of byte strings, and the call by
    \<open>vm/process/systemVM.go\<close>. Loops along the links of the waiting list run at most as often as its head says.
  \<^item> \<open>Queue_Interface\<close>, \<open>Staking_Queue\<close>: a queue of keys as a locale, and the proof that the doubly linked list in the
    storage implements insertion and removal.
  \<^item> \<open>Staking_View\<close>, \<open>Staking_Invariant\<close>, \<open>Staking_Runs\<close>, \<open>Staking_Calls\<close>: the storage seen as a queue, a registration
    per key and a counter; the effect of every primitive and of every handler on it.
  \<^item> \<open>Staking_Codec\<close>, \<open>Staking_Properties\<close>: a concrete environment; the contract keeps its books over all runs, the
    waiting list is a queue, waiting nodes are staked in order (C35 to C37).

  \<^bold>\<open>The system virtual machine.\<close>
  \<^item> \<open>Big_Bytes\<close>, \<open>Vm_Context\<close>: \<open>vm/systemSmartContracts/eei.go\<close> and \<open>vm/process/systemVM.go\<close>, the context in which system
    contracts run. A contract is a process over the methods of the context, so that what is shown holds for all of them.
    The storage updates are an object on a heap, because a nested call shares the map with its caller; a panic is an
    outcome. The depth of nested calls is bounded by an argument; a larger bound changes no outcome.
  \<^item> \<open>Vm_Laws\<close>, \<open>Vm_Value\<close>: a locale for relations between contexts that every run respects, interpreted for the
    conservation of value, for the reference to the storage updates and for gas.
  \<^item> \<open>Esdt_Config\<close>: the configuration handlers and \<open>claim\<close> of \<open>vm/systemSmartContracts/esdt.go\<close> as such processes.
  \<^item> \<open>Vm_Theorems\<close>: calls conserve value (C38); two defects: storage written by a failed nested call stays (C39), and
    \<open>claim\<close> dereferences nil (C40). A changed token configuration reads back.

  \<^bold>\<open>Around the state.\<close>
  \<^item> \<open>Validator_Shuffler\<close>, \<open>Validator_Theorems\<close>: \<open>sharding/nodesCoordinator/hashValidatorShuffler.go\<close> and the
    distributors. No validator is lost or duplicated, every shard keeps its minimum, errors exactly when they must be,
    independence of the input order (C14 to C17); the configuration per epoch.
  \<^item> \<open>Peer_Mapper\<close>, \<open>Peer_Theorems\<close>: \<open>common/pidQueue.go\<close> and \<open>sharding/networksharding/peerShardMapper.go\<close> as a state
    machine with cache evictions (C18, C19).
  \<^item> \<open>Gas_Computation\<close>, \<open>Gas_Theorems\<close>: \<open>process/block/preprocess/gasComputation.go\<close> (C20, C21).
  \<^item> \<open>Fee_Accounting\<close>: fee handler, balances and block sizes of \<open>process/block\<close> (C22 to C24).
  \<^item> \<open>Shard_Coordinator\<close>: \<open>sharding/multiShardCoordinator.go\<close> (C25).
  \<^item> \<open>Rating\<close>: \<open>process/rating/blockSigningRater.go\<close> (C26, C27).
  \<^item> \<open>Fork_Detector\<close>, \<open>Fork_Theorems\<close>: \<open>process/sync/baseForkDetector.go\<close> with the shard and the metachain
    detectors. Finality does not move back on the metachain, \<open>CheckFork\<close> reports the least fork in any order of the
    map, the final checkpoint of a shard (C28 to C30); the probable highest nonce.

  \<^bold>\<open>Bounds.\<close> Reference counters and the counter of pruning operations are 32 bit words; the theorems about them
  assume fewer than \<open>2 ^ 32\<close> entries or calls. Balances and fees are unbounded integers, as \<open>big.Int\<close> is. The fuel
  of the trie operations is one more than the length of the key and is shown to be enough; where \<open>getAllHashes\<close> runs
  out of it, the account state treats this as an error of the trie. The waiting list counts its keys in 32 bits; the
  theorems assume fewer than \<open>2 ^ 32 - 1\<close> keys.

  \<^bold>\<open>Not modelled.\<close> Concurrency: each exported method holds a lock, so it is one step here. Snapshots, state
  synchronisation and trie iteration over channels; the block and transaction processors, which compose some fifty
  injected components; user smart contracts, whose results come from the virtual machine of another repository; the
  validator, delegation and governance contracts and the rest of the token contract; consensus,
  networking, storage units, the API, configuration and node assembly, which are timers, messages and wiring; floating
  point computations (economics, ratings configuration).
\<close>

end
